(* ===== verification/Operation.thy ===== *)
theory Operation
  imports Prelude
begin

text \<open>
  Model of \<^verbatim>\<open>src/src/dp/operation.ts\<close>: the data of an apply operation (planes, coordinates,
  envelopes, targets, evidence of an activation, publish records), what counts as proof of an
  activation, whether a published state is one's own, and the phases of an apply with the
  terminal ones among them.

  Records keep the fields' names with a prefix per type; an optional field is an \<open>option\<close>, a
  \<^verbatim>\<open>Partial<Record<Plane, T>>\<close> a function into \<open>option\<close>.
\<close>

section \<open>Planes\<close>

datatype plane = Http | Stream

text \<open>\<open>localeCompare\<close> on the two names: \<^verbatim>\<open>http\<close> before \<^verbatim>\<open>stream\<close>.\<close>

instantiation plane :: linorder
begin

definition less_eq_plane :: "plane \<Rightarrow> plane \<Rightarrow> bool" where
  "less_eq_plane a b \<longleftrightarrow> a = Http \<or> b = Stream"

definition less_plane :: "plane \<Rightarrow> plane \<Rightarrow> bool" where
  "less_plane a b \<longleftrightarrow> a = Http \<and> b = Stream"

instance
proof
  fix a b c :: plane
  show "(a < b) = (a \<le> b \<and> \<not> b \<le> a)"
    by (cases a; cases b) (simp_all add: less_eq_plane_def less_plane_def)
  show "a \<le> a" by (cases a) (simp_all add: less_eq_plane_def)
  show "a \<le> b \<Longrightarrow> b \<le> c \<Longrightarrow> a \<le> c"
    by (cases a; cases b; cases c) (simp_all add: less_eq_plane_def)
  show "a \<le> b \<Longrightarrow> b \<le> a \<Longrightarrow> a = b"
    by (cases a; cases b) (simp_all add: less_eq_plane_def)
  show "a \<le> b \<or> b \<le> a"
    by (cases a; cases b) (simp_all add: less_eq_plane_def)
qed

end

definition plane_name :: "plane \<Rightarrow> string" where
  "plane_name p = (case p of Http \<Rightarrow> ''http'' | Stream \<Rightarrow> ''stream'')"

definition all_planes :: "plane list" where
  "all_planes = [Http, Stream]"

lemma set_all_planes [simp]: "set all_planes = UNIV"
  by (auto simp: all_planes_def intro: plane.exhaust)

lemma in_all_planes [simp]: "p \<in> set all_planes"
  by simp

lemma plane_name_inject [simp]: "plane_name p = plane_name q \<longleftrightarrow> p = q"
  by (cases p; cases q) (simp_all add: plane_name_def)

section \<open>Operations\<close>

record coordinate =
  activationEpoch :: string
  membershipRevision :: string

record plane_target =
  pt_expectedCurrent :: coordinate
  pt_target :: coordinate
  pt_payloadDigest :: string

text \<open>
  The three fields every message carries. The types of the sources are structural, so each of
  them is an extension of this record and a function on the three fields takes any of them.
\<close>

record identity =
  leaderToken :: string
  operationId :: string
  transitionId :: string

record mutation_envelope = identity +
  affectedPlanes :: "plane list"

record apply_operation = mutation_envelope +
  op_planes :: "plane \<Rightarrow> plane_target option"
  targetGeneration :: string
  generationDigest :: string

datatype plane_progress = P_pending | P_reserved | P_staged | P_committed | P_aborted | P_failed

section \<open>Evidence of an activation\<close>

record activation_evidence =
  acceptingGeneration :: "string option"
  configTestPassed :: "bool option"
  errorLogGrowth :: "int option"
  masterPid :: "string option"
  workersReported :: "int option"
  workersExpected :: "int option"

definition provesActivation :: "activation_evidence option \<Rightarrow> string \<Rightarrow> bool" where
  "provesActivation evidence target =
     (case evidence of
        None \<Rightarrow> False
      | Some ev \<Rightarrow>
          (if acceptingGeneration ev \<noteq> Some target then False
           else if configTestPassed ev = Some False then False
           else if (case errorLogGrowth ev of None \<Rightarrow> False | Some g \<Rightarrow> g > 0) then False
           else if (case (workersExpected ev, workersReported ev) of
                      (Some e, Some r) \<Rightarrow> r < e | _ \<Rightarrow> False) then False
           else True))"

section \<open>Published state\<close>

record publish_record = identity +
  pr_generation :: string
  pr_generationDigest :: string

datatype published_state =
    Published_none
  | Published_owned publish_record
  | Published_inconsistent "string option" "publish_record option"

definition publishedByMe :: "published_state \<Rightarrow> apply_operation \<Rightarrow> bool" where
  "publishedByMe st opn =
     (case st of
        Published_owned r \<Rightarrow>
          pr_generation r = targetGeneration opn
          \<and> pr_generationDigest r = generationDigest opn
          \<and> operationId r = operationId opn
          \<and> transitionId r = transitionId opn
          \<and> leaderToken r = leaderToken opn
      | _ \<Rightarrow> False)"

section \<open>Phases\<close>

datatype apply_phase =
    Preflight
  | Publish_intent
  | Published
  | Membership_staged
  | Reload_intent
  | Reload_observed
  | Activated
  | Partially_activated
  | Partial_exhausted
  | Failed
  | Superseded
  | No_operation

definition ALL_APPLY_PHASES :: "apply_phase list" where
  "ALL_APPLY_PHASES =
     [Preflight, Publish_intent, Published, Membership_staged, Reload_intent, Reload_observed,
      Activated, Partially_activated, Partial_exhausted, Failed, Superseded, No_operation]"

definition TERMINAL_PHASES :: "apply_phase list" where
  "TERMINAL_PHASES = [Activated, Partial_exhausted, Failed, Superseded, No_operation]"

definition isTerminalPhase :: "apply_phase \<Rightarrow> bool" where
  "isTerminalPhase p \<longleftrightarrow> p \<in> set TERMINAL_PHASES"

definition planesOf :: "('a) mutation_envelope_scheme \<Rightarrow> plane list" where
  "planesOf opn = sort (affectedPlanes opn)"

lemma set_planesOf [simp]: "set (planesOf opn) = set (affectedPlanes opn)"
  by (simp add: planesOf_def)

lemma ALL_APPLY_PHASES_complete: "p \<in> set ALL_APPLY_PHASES"
  by (cases p) (simp_all add: ALL_APPLY_PHASES_def)

lemma isTerminalPhase_simps [simp]:
  "isTerminalPhase Preflight = False"
  "isTerminalPhase Publish_intent = False"
  "isTerminalPhase Published = False"
  "isTerminalPhase Membership_staged = False"
  "isTerminalPhase Reload_intent = False"
  "isTerminalPhase Reload_observed = False"
  "isTerminalPhase Activated = True"
  "isTerminalPhase Partially_activated = False"
  "isTerminalPhase Partial_exhausted = True"
  "isTerminalPhase Failed = True"
  "isTerminalPhase Superseded = True"
  "isTerminalPhase No_operation = True"
  by (simp_all add: isTerminalPhase_def TERMINAL_PHASES_def)

lemma provesActivation_iff:
  "provesActivation evidence target \<longleftrightarrow>
     (\<exists>ev. evidence = Some ev \<and> acceptingGeneration ev = Some target \<and>
        configTestPassed ev \<noteq> Some False \<and> \<not> (\<exists>g>0. errorLogGrowth ev = Some g) \<and>
        \<not> (\<exists>e r. workersExpected ev = Some e \<and> workersReported ev = Some r \<and> r < e))"
  by (auto simp: provesActivation_def split: option.splits if_splits)

end
