(* ===== verification/Agent_State.thy ===== *)
theory Agent_State
  imports Operation
begin

text \<open>
  The data model of the data-plane agent, \<^verbatim>\<open>src/src/dp/agent.ts\<close>: tokens and epochs as decimal
  strings read with \<open>BigInt\<close>, operation tuples, reservations, the durable state, the journal,
  and the questions asked of them: which key an operation has, who authored a plane's
  position, who owns a slot or a journal, and whether a candidate really arrived.

  Every function that can throw returns a sum; \<open>Rejection\<close> is \<^verbatim>\<open>DpRejection\<close> with its kind.
\<close>

section \<open>Errors\<close>

datatype rejection_kind =
    Stale_leader
  | Terminal_reached
  | Slot_taken
  | Not_reserved
  | Tuple_mismatch
  | Stale_state
  | Coordinate_mismatch
  | Digest_mismatch
  | Epoch_not_monotonic
  | Not_staged
  | Operation_in_flight
  | Journal_conflict
  | Invalid_coordinate
  | Empty_envelope
  | Envelope_mismatch
  | Not_activated
  | Malformed_request

datatype terminal_kind = T_activated | T_failed | T_aborted

datatype invariant =
    I1_latest_token
  | I3_forward_only
  | I5_intent_fenced
  | I6_via_candidate
  | I6_leaves_baseline
  | I7_not_erased
  | I7_not_changed
  | I7_standing_evidence

datatype dp_error =
    Rejection rejection_kind "terminal_kind option"
  | Invariant_violation invariant
  | Store_conflict
  | Syntax_error
  | Type_error

abbreviation reject :: "rejection_kind \<Rightarrow> dp_error" where
  "reject k \<equiv> Rejection k None"

section \<open>Numbers\<close>

text \<open>\<open>BigInt(s)\<close> on strings: white space trimmed, the empty string is zero, hexadecimal, octal
  and binary literals without a sign, decimal ones with an optional sign; anything else throws.\<close>

definition is_space :: "char \<Rightarrow> bool" where
  "is_space c \<longleftrightarrow> cu c \<in> set [9, 10, 11, 12, 13, 32, 160]"

definition trim :: "string \<Rightarrow> string" where
  "trim s = rev (dropWhile is_space (rev (dropWhile is_space s)))"

definition radix_digit :: "char \<Rightarrow> nat" where
  "radix_digit c = (if is_digit c then cu c - 48 else if is_lower c then cu c - 87
     else if is_upper c then cu c - 55 else 36)"

definition radix_literal :: "nat \<Rightarrow> string \<Rightarrow> int option" where
  "radix_literal b s =
     (if s \<noteq> [] \<and> list_all (\<lambda>c. radix_digit c < b) s
      then Some (int (foldl (\<lambda>a c. b * a + radix_digit c) 0 s)) else None)"

definition decimal_literal :: "string \<Rightarrow> int option" where
  "decimal_literal s = (if all_digits s then Some (int (dec_val s)) else None)"

definition string_to_bigint :: "string \<Rightarrow> int option" where
  "string_to_bigint s =
     (let t = trim s; p = map lower_char (take 2 t) in
      if t = [] then Some 0
      else if p = ''0x'' then radix_literal 16 (drop 2 t)
      else if p = ''0o'' then radix_literal 8 (drop 2 t)
      else if p = ''0b'' then radix_literal 2 (drop 2 t)
      else if hd t = CHR ''-'' then map_option uminus (decimal_literal (tl t))
      else if hd t = CHR ''+'' then decimal_literal (tl t)
      else decimal_literal t)"

definition BigInt :: "string \<Rightarrow> dp_error + int" where
  "BigInt s = (case string_to_bigint s of None \<Rightarrow> Inl Syntax_error | Some n \<Rightarrow> Inr n)"

definition normalizeNumeric :: "string \<Rightarrow> dp_error + string" where
  "normalizeNumeric v =
     (if all_digits v then Inr (show_nat (dec_val v)) else Inl (reject Invalid_coordinate))"

definition normalizeCoordinate :: "coordinate \<Rightarrow> dp_error + coordinate" where
  "normalizeCoordinate c =
     bindE (normalizeNumeric (activationEpoch c)) (\<lambda>e.
     bindE (normalizeNumeric (membershipRevision c)) (\<lambda>r.
     Inr \<lparr>activationEpoch = e, membershipRevision = r\<rparr>))"

text \<open>\<open>BigInt(a) < BigInt(b)\<close>, \<open>===\<close> and the like, operands read from left to right.\<close>

definition big_rel :: "(int \<Rightarrow> int \<Rightarrow> bool) \<Rightarrow> string \<Rightarrow> string \<Rightarrow> dp_error + bool" where
  "big_rel R a b = bindE (BigInt a) (\<lambda>x. bindE (BigInt b) (\<lambda>y. Inr (R x y)))"

definition sameCoordinate ::
    "('a) coordinate_scheme \<Rightarrow> ('b) coordinate_scheme \<Rightarrow> dp_error + bool" where
  "sameCoordinate a b =
     bindE (big_rel (=) (activationEpoch a) (activationEpoch b)) (\<lambda>same.
     if \<not> same then Inr False
     else big_rel (=) (membershipRevision a) (membershipRevision b))"

definition maxToken :: "string \<Rightarrow> string \<Rightarrow> dp_error + string" where
  "maxToken a b = bindE (big_rel (>) b a) (\<lambda>gt. Inr (if gt then b else a))"

section \<open>State\<close>

type_synonym plane_author = identity

record plane_state = coordinate +
  ps_payloadDigest :: string
  ps_by :: "plane_author option"

text \<open>A name of a transition on one plane (\<^verbatim>\<open>TerminalRef\<close>), and the whole tuple of a request.\<close>

record terminal_ref = identity +
  on_plane :: plane

record operation_tuple = terminal_ref +
  ot_expectedCurrent :: coordinate
  ot_target :: coordinate
  ot_payloadDigest :: string
  ot_targetGeneration :: string
  ot_generationDigest :: string

record plane_ack = plane_state +
  ack_plane :: plane
  ack_transitionId :: string
  ack_cached :: bool

record reservation =
  slot_op :: operation_tuple
  slot_stagedDigest :: "string option"

type_synonym epochs = "(plane, string) dict"

record active_operation = identity +
  ao_planes :: "plane list"
  ao_epochs :: epochs

record journal_opening =
  je_op :: apply_operation
  je_phase :: apply_phase
  je_reloadAttempts :: nat
  je_progress :: "(plane \<Rightarrow> plane_progress option) option"
  je_evidence :: "activation_evidence option"
  je_failure :: "string option"

record journal_entry = journal_opening +
  je_seq :: nat

record completed_entry =
  ce_tuple :: string
  ce_payloadDigest :: string
  ce_ack :: plane_ack
  ce_transition :: "string option"

record terminal_meta =
  tm_plane :: plane
  tm_epoch :: string

record agent_state =
  maxLeaderToken :: string
  planes :: "plane \<Rightarrow> plane_state"
  reservations :: "plane \<Rightarrow> (string, reservation) dict"
  completed :: "(string, completed_entry) dict"
  terminal :: "(string, terminal_kind) dict"
  terminalAt :: "(string, terminal_meta) dict option"
  activationEvidence :: "(string, activation_evidence) dict"
  activeOperation :: "active_operation option"
  lastActivated :: "publish_record option"
  lastPublishIntent :: "publish_record option"
  pendingActivation :: "publish_record option"
  pendingEpochs :: "epochs option"
  journal :: "journal_entry option"

definition ZERO :: plane_state where
  "ZERO = \<lparr>activationEpoch = ''0'', membershipRevision = ''0'',
     ps_payloadDigest = '''', ps_by = None\<rparr>"

definition initial :: agent_state where
  "initial = \<lparr>maxLeaderToken = ''0'', planes = (\<lambda>_. ZERO), reservations = (\<lambda>_. []),
     completed = [], terminal = [], terminalAt = None, activationEvidence = [],
     activeOperation = None, lastActivated = None, lastPublishIntent = None,
     pendingActivation = None, pendingEpochs = None, journal = None\<rparr>"

definition tupleFor :: "apply_operation \<Rightarrow> plane \<Rightarrow> dp_error + operation_tuple" where
  "tupleFor opn plane =
     (case op_planes opn plane of
        None \<Rightarrow> Inl (reject Envelope_mismatch)
      | Some t \<Rightarrow>
          bindE (normalizeNumeric (leaderToken opn)) (\<lambda>token.
          bindE (normalizeCoordinate (pt_expectedCurrent t)) (\<lambda>expected.
          bindE (normalizeCoordinate (pt_target t)) (\<lambda>tgt.
          Inr \<lparr>leaderToken = token, operationId = operationId opn,
               transitionId = transitionId opn, on_plane = plane,
               ot_expectedCurrent = expected, ot_target = tgt,
               ot_payloadDigest = pt_payloadDigest t,
               ot_targetGeneration = targetGeneration opn,
               ot_generationDigest = generationDigest opn\<rparr>))))"

abbreviation target_epoch :: "operation_tuple \<Rightarrow> string" where
  "target_epoch opn \<equiv> activationEpoch (ot_target opn)"

section \<open>Keys\<close>

datatype step = Step_reserve | Step_stage | Step_commit | Step_health

definition step_label :: "step \<Rightarrow> string" where
  "step_label s = (case s of Step_reserve \<Rightarrow> ''reserve'' | Step_stage \<Rightarrow> ''stage''
     | Step_commit \<Rightarrow> ''commit'' | Step_health \<Rightarrow> ''health'')"

definition canonical :: "operation_tuple \<Rightarrow> string" where
  "canonical opn = join_with ''|''
     [leaderToken opn, operationId opn, transitionId opn, plane_name (on_plane opn),
      activationEpoch (ot_expectedCurrent opn), membershipRevision (ot_expectedCurrent opn),
      activationEpoch (ot_target opn), membershipRevision (ot_target opn),
      ot_payloadDigest opn, ot_targetGeneration opn, ot_generationDigest opn]"

definition step_key :: "operation_tuple \<Rightarrow> step \<Rightarrow> dp_error + string" where
  "step_key opn st =
     bindE (normalizeNumeric (leaderToken opn)) (\<lambda>token.
     Inr (join_with '':'' [operationId opn, transitionId opn, token,
       plane_name (on_plane opn), step_label st]))"

definition transitionOfOp :: "'a identity_scheme \<Rightarrow> dp_error + string" where
  "transitionOfOp opn =
     bindE (normalizeNumeric (leaderToken opn)) (\<lambda>token.
     Inr (join_with [CHR 0x00] [operationId opn, transitionId opn, token]))"

definition transitionKey :: "'a terminal_ref_scheme \<Rightarrow> dp_error + string" where
  "transitionKey opn =
     bindE (normalizeNumeric (leaderToken opn)) (\<lambda>token.
     Inr (join_with '':'' [operationId opn, transitionId opn, token, plane_name (on_plane opn)]))"

definition legacyTerminalKey :: "'a terminal_ref_scheme \<Rightarrow> string" where
  "legacyTerminalKey opn =
     join_with '':'' [operationId opn, transitionId opn, plane_name (on_plane opn)]"

definition evidence_key :: "plane \<Rightarrow> string \<Rightarrow> string" where
  "evidence_key plane epoch = plane_name plane @ '':'' @ epoch"

definition terminalOf ::
    "agent_state \<Rightarrow> 'a terminal_ref_scheme \<Rightarrow> dp_error + terminal_kind option" where
  "terminalOf s opn =
     bindE (transitionKey opn) (\<lambda>k.
     case dget (terminal s) k of
       Some t \<Rightarrow> Inr (Some t)
     | None \<Rightarrow> Inr (dget (terminal s) (legacyTerminalKey opn)))"

section \<open>Ownership\<close>

definition sameTransitionName :: "'a identity_scheme \<Rightarrow> 'b identity_scheme \<Rightarrow> bool" where
  "sameTransitionName a b \<longleftrightarrow> operationId a = operationId b \<and> transitionId a = transitionId b"

text \<open>The comparison the three ownership tests share: names first, tokens normalised after.\<close>

definition same_identity :: "'a identity_scheme \<Rightarrow> 'b identity_scheme \<Rightarrow> dp_error + bool" where
  "same_identity a b =
     (if \<not> sameTransitionName a b then Inr False
      else bindE (normalizeNumeric (leaderToken a)) (\<lambda>x.
           bindE (normalizeNumeric (leaderToken b)) (\<lambda>y. Inr (x = y))))"

definition authoredBy :: "plane_state \<Rightarrow> 'a identity_scheme \<Rightarrow> dp_error + bool" where
  "authoredBy at who =
     (case ps_by at of None \<Rightarrow> Inr False | Some b \<Rightarrow> same_identity b who)"

definition ownsSlotOp :: "'a identity_scheme option \<Rightarrow> 'b identity_scheme \<Rightarrow> dp_error + bool" where
  "ownsSlotOp slot opn =
     (case slot of None \<Rightarrow> Inr False | Some x \<Rightarrow> same_identity x opn)"

definition ownsJournal :: "journal_entry option \<Rightarrow> apply_operation \<Rightarrow> dp_error + bool" where
  "ownsJournal j opn =
     (case j of None \<Rightarrow> Inr False | Some e \<Rightarrow> same_identity (je_op e) opn)"

definition sameRecordIdentity :: "publish_record \<Rightarrow> publish_record \<Rightarrow> bool" where
  "sameRecordIdentity a b \<longleftrightarrow>
     pr_generation a = pr_generation b \<and> pr_generationDigest a = pr_generationDigest b
     \<and> operationId a = operationId b \<and> transitionId a = transitionId b
     \<and> leaderToken a = leaderToken b"

definition slot_at :: "agent_state \<Rightarrow> plane \<Rightarrow> string \<Rightarrow> reservation option" where
  "slot_at s plane epoch = dget (reservations s plane) epoch"

definition drop_slot :: "plane \<Rightarrow> string \<Rightarrow> agent_state \<Rightarrow> agent_state" where
  "drop_slot plane epoch s =
     s\<lparr>reservations := (reservations s)(plane := ddel epoch (reservations s plane))\<rparr>"

definition put_slot :: "plane \<Rightarrow> string \<Rightarrow> reservation \<Rightarrow> agent_state \<Rightarrow> agent_state" where
  "put_slot plane epoch r s =
     s\<lparr>reservations := (reservations s)(plane := dset epoch r (reservations s plane))\<rparr>"

definition ownsSlot :: "agent_state \<Rightarrow> operation_tuple \<Rightarrow> bool" where
  "ownsSlot s opn =
     (case slot_at s (on_plane opn) (target_epoch opn) of
        None \<Rightarrow> False
      | Some slot \<Rightarrow> canonical (slot_op slot) = canonical opn)"

section \<open>Epochs and candidates\<close>

definition planesOfOperation :: "apply_operation \<Rightarrow> plane list" where
  "planesOfOperation opn = filter (\<lambda>p. op_planes opn p \<noteq> None) all_planes"

text \<open>\<open>xs.every(f)\<close> and a loop over \<open>xs\<close> for a test that may throw.\<close>

fun everyE :: "('a \<Rightarrow> 'e + bool) \<Rightarrow> 'a list \<Rightarrow> 'e + bool" where
  "everyE f [] = Inr True"
| "everyE f (x # xs) = bindE (f x) (\<lambda>b. if b then everyE f xs else Inr False)"

fun forE :: "('a \<Rightarrow> 'e + unit) \<Rightarrow> 'a list \<Rightarrow> 'e + unit" where
  "forE f [] = Inr ()"
| "forE f (x # xs) = bindE (f x) (\<lambda>_. forE f xs)"

text \<open>A loop that updates the state.\<close>

fun foldE :: "('a \<Rightarrow> 's \<Rightarrow> 'e + 's) \<Rightarrow> 'a list \<Rightarrow> 's \<Rightarrow> 'e + 's" where
  "foldE f [] s = Inr s"
| "foldE f (x # xs) s = bindE (f x s) (foldE f xs)"

text \<open>\<open>Object.fromEntries\<close>: a later entry of the same key overwrites the value in place.\<close>

definition fromEntries :: "('k \<times> 'v) list \<Rightarrow> ('k, 'v) dict" where
  "fromEntries kvs = foldl (\<lambda>d (k, v). dset k v d) [] kvs"

definition epoch_entry :: "apply_operation \<Rightarrow> plane \<Rightarrow> dp_error + (plane \<times> string)" where
  "epoch_entry opn plane =
     (case op_planes opn plane of
        None \<Rightarrow> Inl Type_error
      | Some t \<Rightarrow> bindE (normalizeNumeric (activationEpoch (pt_target t))) (\<lambda>e. Inr (plane, e)))"

definition epochsOf :: "apply_operation \<Rightarrow> dp_error + epochs" where
  "epochsOf opn =
     bindE (mapE (epoch_entry opn) (planesOfOperation opn)) (\<lambda>es. Inr (fromEntries es))"

definition epochsFromJournal ::
    "agent_state \<Rightarrow> 'a identity_scheme \<Rightarrow> dp_error + epochs option" where
  "epochsFromJournal s ids =
     (case journal s of
        None \<Rightarrow> Inr None
      | Some j \<Rightarrow>
          (if \<not> sameTransitionName (je_op j) ids then Inr None
           else bindE (epochsOf (je_op j)) (\<lambda>es. Inr (Some es))))"

definition declared_epochs :: "agent_state \<Rightarrow> 'a identity_scheme \<Rightarrow> dp_error + epochs option" where
  "declared_epochs s ids =
     (case pendingEpochs s of Some es \<Rightarrow> Inr (Some es) | None \<Rightarrow> epochsFromJournal s ids)"

definition candidateArrived ::
    "agent_state \<Rightarrow> publish_record \<Rightarrow> epochs option \<Rightarrow> dp_error + bool" where
  "candidateArrived s candidate eps =
     (case eps of
        None \<Rightarrow> Inr False
      | Some es \<Rightarrow>
          everyE (\<lambda>(plane, epoch).
            let at = planes s plane in
            if activationEpoch at \<noteq> epoch then Inr False
            else (case ps_by at of
                None \<Rightarrow>
                  bindE (terminalOf s \<lparr>leaderToken = leaderToken candidate,
                      operationId = operationId candidate,
                      transitionId = transitionId candidate, on_plane = plane\<rparr>)
                    (\<lambda>t. Inr (t = Some T_activated))
              | Some _ \<Rightarrow> authoredBy at candidate)) es)"

definition positions_reached :: "agent_state \<Rightarrow> epochs option \<Rightarrow> bool" where
  "positions_reached s eps =
     (case eps of
        None \<Rightarrow> False
      | Some es \<Rightarrow> list_all (\<lambda>(plane, epoch). activationEpoch (planes s plane) = epoch) es)"

definition finalizeCandidate :: "'a identity_scheme \<Rightarrow> agent_state \<Rightarrow> dp_error + agent_state" where
  "finalizeCandidate ids s =
     (case pendingActivation s of
        None \<Rightarrow> Inr s
      | Some candidate \<Rightarrow>
          (if operationId candidate \<noteq> operationId ids then Inr s
           else if transitionId candidate \<noteq> transitionId ids then Inr s
           else
             bindE (declared_epochs s ids) (\<lambda>eps.
             bindE (candidateArrived s candidate eps) (\<lambda>arrived.
             let s1 = (if arrived then s\<lparr>lastActivated := Some candidate\<rparr>
                       else if positions_reached s eps then s\<lparr>lastActivated := None\<rparr>
                       else s)
             in Inr (s1\<lparr>pendingActivation := None, pendingEpochs := None\<rparr>)))))"

end
