(* ===== verification/Agent_Invariants.thy ===== *)
theory Agent_Invariants
  imports Agent_Retention
begin

text \<open>
  The invariants the agent checks on every write: \<open>assertInvariants\<close> of
  \<^verbatim>\<open>src/src/dp/agent.ts\<close>, in the order of the checks, with the part that needs the state before.
\<close>

definition check_I1 :: "agent_state \<Rightarrow> int \<Rightarrow> dp_error + unit" where
  "check_I1 next mx =
     bindE (case activeOperation next of
         None \<Rightarrow> Inr ()
       | Some holder \<Rightarrow> bindE (BigInt (leaderToken holder)) (\<lambda>h.
           throw_if (h \<noteq> mx) (Invariant_violation I1_latest_token))) (\<lambda>_.
     forE (\<lambda>plane. forE (\<lambda>(epoch, slot). bindE (BigInt (leaderToken (slot_op slot))) (\<lambda>t.
         throw_if (t > mx) (Invariant_violation I1_latest_token))) (reservations next plane))
       all_planes)"

definition check_record :: "int \<Rightarrow> publish_record option \<Rightarrow> dp_error + unit" where
  "check_record mx r =
     (case r of
        None \<Rightarrow> Inr ()
      | Some x \<Rightarrow> bindE (BigInt (leaderToken x)) (\<lambda>t.
          throw_if (t > mx) (Invariant_violation I5_intent_fenced)))"

definition intent_changed :: "publish_record option \<Rightarrow> publish_record \<Rightarrow> bool" where
  "intent_changed before x =
     (case before of
        None \<Rightarrow> True
      | Some b \<Rightarrow> operationId b \<noteq> operationId x \<or> transitionId b \<noteq> transitionId x
          \<or> pr_generation b \<noteq> pr_generation x)"

definition check_I5 :: "agent_state option \<Rightarrow> agent_state \<Rightarrow> int \<Rightarrow> dp_error + unit" where
  "check_I5 before next mx =
     bindE (forE (check_record mx)
       [lastPublishIntent next, lastActivated next, pendingActivation next]) (\<lambda>_.
     case (before, lastPublishIntent next) of
       (Some b, Some x) \<Rightarrow>
         (if intent_changed (lastPublishIntent b) x then
            bindE (BigInt (leaderToken x)) (\<lambda>t.
              throw_if (t \<noteq> mx) (Invariant_violation I5_intent_fenced))
          else Inr ())
     | _ \<Rightarrow> Inr ())"

definition check_I3 :: "agent_state \<Rightarrow> agent_state \<Rightarrow> dp_error + unit" where
  "check_I3 before next =
     bindE (big_rel (<) (maxLeaderToken next) (maxLeaderToken before)) (\<lambda>back.
     bindE (throw_if back (Invariant_violation I3_forward_only)) (\<lambda>_.
     forE (\<lambda>plane.
       bindE (BigInt (activationEpoch (planes before plane))) (\<lambda>was.
       bindE (BigInt (activationEpoch (planes next plane))) (\<lambda>now.
       throw_if (now < was) (Invariant_violation I3_forward_only)))) all_planes))"

definition baseline_moved :: "agent_state \<Rightarrow> agent_state \<Rightarrow> bool" where
  "baseline_moved before next =
     (case (lastActivated next, lastActivated before) of
        (None, b) \<Rightarrow> b \<noteq> None
      | (Some x, None) \<Rightarrow> True
      | (Some x, Some b) \<Rightarrow> \<not> sameRecordIdentity x b)"

definition check_I6 :: "agent_state \<Rightarrow> agent_state \<Rightarrow> dp_error + unit" where
  "check_I6 before next =
     bindE (case (lastActivated next, pendingActivation before) of
         (Some x, dropped) \<Rightarrow>
           throw_if (baseline_moved before next \<and>
             (case dropped of None \<Rightarrow> True | Some d \<Rightarrow> \<not> sameRecordIdentity x d))
             (Invariant_violation I6_via_candidate)
       | (None, _) \<Rightarrow> Inr ()) (\<lambda>_.
     case pendingActivation before of
       None \<Rightarrow> Inr ()
     | Some d \<Rightarrow>
         bindE (declared_epochs before d) (\<lambda>eps.
         bindE (candidateArrived next d eps) (\<lambda>arrived.
         case journal next of
           None \<Rightarrow> Inr ()
         | Some j \<Rightarrow>
             throw_if (arrived \<and> je_phase j = Activated \<and> pendingActivation next = None
                 \<and> sameTransitionName (je_op j) d
                 \<and> (case lastActivated next of None \<Rightarrow> True | Some x \<Rightarrow> \<not> sameRecordIdentity x d))
               (Invariant_violation I6_leaves_baseline))))"

definition check_verdict ::
    "agent_state \<Rightarrow> agent_state \<Rightarrow> string list \<Rightarrow> string \<times> terminal_kind \<Rightarrow> dp_error + unit" where
  "check_verdict before next live kw =
     (case dget (terminal next) (fst kw) of
        None \<Rightarrow>
          bindE (terminalPrunable
              (case terminalAt before of None \<Rightarrow> None | Some at \<Rightarrow> dget at (fst kw))
              next (fst kw) live) (\<lambda>prunable.
            throw_if (\<not> prunable) (Invariant_violation I7_not_erased))
      | Some now \<Rightarrow> throw_if (now \<noteq> snd kw) (Invariant_violation I7_not_changed))"

definition check_I7 :: "agent_state \<Rightarrow> agent_state \<Rightarrow> dp_error + unit" where
  "check_I7 before next =
     bindE (liveTransitionKeys next) (\<lambda>live.
     bindE (forE (check_verdict before next live) (terminal before)) (\<lambda>_.
     forE (\<lambda>k. throw_if (dget (activationEvidence next) k = None \<and> k \<in> set (standing_keys next))
         (Invariant_violation I7_standing_evidence)) (dkeys (activationEvidence before))))"

definition check_seq :: "agent_state \<Rightarrow> agent_state \<Rightarrow> dp_error + unit" where
  "check_seq before next =
     (case (journal before, journal next) of
        (Some a, Some b) \<Rightarrow> throw_if (je_seq b < je_seq a) (Invariant_violation I3_forward_only)
      | _ \<Rightarrow> Inr ())"

definition assertInvariants :: "agent_state option \<Rightarrow> agent_state \<Rightarrow> dp_error + unit" where
  "assertInvariants before next =
     bindE (BigInt (maxLeaderToken next)) (\<lambda>mx.
     bindE (check_I1 next mx) (\<lambda>_.
     bindE (check_I5 before next mx) (\<lambda>_.
     case before of
       None \<Rightarrow> Inr ()
     | Some b \<Rightarrow>
         bindE (check_I3 b next) (\<lambda>_.
         bindE (check_I6 b next) (\<lambda>_.
         bindE (check_I7 b next) (\<lambda>_. check_seq b next))))))"

end
