(* ===== verification/Agent_Ops.thy ===== *)
theory Agent_Ops
  imports Agent_Invariants
begin

text \<open>
  The operations of the agent, \<^verbatim>\<open>src/src/dp/agent.ts\<close>: each \<open>DpAgent\<close> method is the function
  it hands to \<open>serial\<close>, from a state to a result and the state after, or to the error it
  throws (and then nothing is stored). The helpers \<open>admit\<close>, \<open>acquire\<close>, \<open>record\<close>, \<open>finish\<close>,
  \<open>finalize\<close> and \<open>supersede\<close> come first, as every method is made of them.
\<close>

type_synonym 'r action = "agent_state \<Rightarrow> dp_error + ('r \<times> agent_state)"

section \<open>Helpers\<close>

definition assertLeader :: "agent_state \<Rightarrow> string \<Rightarrow> dp_error + unit" where
  "assertLeader s token =
     bindE (big_rel (<) token (maxLeaderToken s)) (\<lambda>lower. throw_if lower (reject Stale_leader))"

definition raise_token :: "string \<Rightarrow> agent_state \<Rightarrow> dp_error + agent_state" where
  "raise_token token s =
     bindE (maxToken (maxLeaderToken s) token) (\<lambda>m. Inr (s\<lparr>maxLeaderToken := m\<rparr>))"

text \<open>The second half of \<open>admit\<close>: what was already answered under this key.\<close>

definition admit_seen ::
    "operation_tuple \<Rightarrow> step \<Rightarrow> terminal_kind option \<Rightarrow> plane_ack option action" where
  "admit_seen opn st already s =
     bindE (step_key opn st) (\<lambda>k.
     case dget (completed s) k of
       Some seen \<Rightarrow>
         (if ce_tuple seen \<noteq> canonical opn then
            (if ce_payloadDigest seen \<noteq> ot_payloadDigest opn then Inl (reject Digest_mismatch)
             else Inl (reject Tuple_mismatch))
          else Inr (Some ((ce_ack seen)\<lparr>ack_cached := True\<rparr>), s))
     | None \<Rightarrow>
         (if already \<noteq> None then Inl (Rejection Terminal_reached already)
          else Inr (None, s)))"

definition admit :: "operation_tuple \<Rightarrow> step \<Rightarrow> plane_ack option action" where
  "admit opn st s0 =
     bindE (assertLeader s0 (leaderToken opn)) (\<lambda>_.
     bindE (raise_token (leaderToken opn) s0) (\<lambda>s.
     bindE (terminalOf s opn) (\<lambda>already.
     if already = Some T_aborted \<or> already = Some T_failed
     then Inl (Rejection Terminal_reached already)
     else admit_seen opn st already s)))"

definition acquire :: "operation_tuple \<Rightarrow> reservation action" where
  "acquire opn s =
     (case slot_at s (on_plane opn) (target_epoch opn) of
        Some existing \<Rightarrow>
          (if canonical (slot_op existing) \<noteq> canonical opn then Inl (reject Slot_taken)
           else Inr (existing, s))
      | None \<Rightarrow>
          (let current = planes s (on_plane opn) in
           bindE (sameCoordinate current (ot_expectedCurrent opn)) (\<lambda>same.
           if \<not> same then Inl (reject Coordinate_mismatch)
           else bindE (big_rel (\<le>) (target_epoch opn) (activationEpoch current)) (\<lambda>le.
             if le then Inl (reject Epoch_not_monotonic)
             else (let slot = \<lparr>slot_op = opn, slot_stagedDigest = None\<rparr>
                   in Inr (slot, put_slot (on_plane opn) (target_epoch opn) slot s))))))"

definition record_ack :: "operation_tuple \<Rightarrow> step \<Rightarrow> plane_state \<Rightarrow> plane_ack action" where
  "record_ack opn st result s =
     (let ack = plane_state.extend result
          \<lparr>ack_plane = on_plane opn, ack_transitionId = transitionId opn, ack_cached = False\<rparr> in
      bindE (step_key opn st) (\<lambda>k.
      bindE (transitionOfOp opn) (\<lambda>t.
      Inr (ack, s\<lparr>completed := dset k \<lparr>ce_tuple = canonical opn,
            ce_payloadDigest = ot_payloadDigest opn, ce_ack = ack, ce_transition = Some t\<rparr>
          (completed s)\<rparr>))))"

text \<open>\<open>{ ...t.target, payloadDigest: t.payloadDigest }\<close>: a target seen as a plane state.\<close>

definition target_state :: "operation_tuple \<Rightarrow> plane_author option \<Rightarrow> plane_state" where
  "target_state opn author = coordinate.extend (ot_target opn)
     \<lparr>ps_payloadDigest = ot_payloadDigest opn, ps_by = author\<rparr>"

definition set_plane :: "plane \<Rightarrow> plane_state \<Rightarrow> agent_state \<Rightarrow> agent_state" where
  "set_plane p st s = s\<lparr>planes := (planes s)(p := st)\<rparr>"

definition finish :: "operation_tuple \<Rightarrow> terminal_kind \<Rightarrow> agent_state \<Rightarrow> dp_error + agent_state" where
  "finish opn how s =
     (let s1 = (if ownsSlot s opn then drop_slot (on_plane opn) (target_epoch opn) s else s) in
      bindE (transitionKey opn) (\<lambda>k.
      Inr (s1\<lparr>terminal := dset k how (terminal s1),
              terminalAt := Some (dset k \<lparr>tm_plane = on_plane opn, tm_epoch = target_epoch opn\<rparr>
                (case terminalAt s1 of None \<Rightarrow> [] | Some at \<Rightarrow> at))\<rparr>)))"

definition finalize :: "operation_tuple \<Rightarrow> terminal_kind \<Rightarrow> unit action" where
  "finalize opn how s0 =
     bindE (assertLeader s0 (leaderToken opn)) (\<lambda>_.
     bindE (raise_token (leaderToken opn) s0) (\<lambda>s.
     bindE (terminalOf s opn) (\<lambda>already.
     case already of
       Some a \<Rightarrow> (if a = how then Inr ((), s) else Inl (Rejection Terminal_reached (Some a)))
     | None \<Rightarrow> bindE (finish opn how s) (\<lambda>s'. Inr ((), s')))))"

text \<open>The loop of \<open>supersede\<close> and \<open>releaseHolderSlots\<close> over the holder's planes.\<close>

definition drop_owned_slot ::
    "'a identity_scheme \<Rightarrow> epochs \<Rightarrow> plane \<Rightarrow> agent_state \<Rightarrow> dp_error + agent_state" where
  "drop_owned_slot who eps plane s =
     (case dget eps plane of
        None \<Rightarrow> Inr s
      | Some epoch \<Rightarrow>
          bindE (ownsSlotOp (map_option slot_op (slot_at s plane epoch)) who) (\<lambda>owns.
          Inr (if owns then drop_slot plane epoch s else s)))"

definition supersede_journal :: "'a identity_scheme \<Rightarrow> agent_state \<Rightarrow> agent_state" where
  "supersede_journal holder s =
     (case journal s of
        None \<Rightarrow> s
      | Some j \<Rightarrow>
          (if sameTransitionName (je_op j) holder \<and> \<not> isTerminalPhase (je_phase j)
           then s\<lparr>journal := Some (j\<lparr>je_phase := Superseded, je_seq := je_seq j + 1\<rparr>)\<rparr>
           else s))"

definition drop_holder :: "active_operation \<Rightarrow> agent_state \<Rightarrow> agent_state" where
  "drop_holder holder s =
     (case activeOperation s of
        None \<Rightarrow> s
      | Some live \<Rightarrow>
          (if operationId live = operationId holder \<and> transitionId live = transitionId holder
              \<and> leaderToken live = leaderToken holder
           then s\<lparr>activeOperation := None\<rparr> else s))"

definition supersede :: "active_operation \<Rightarrow> agent_state \<Rightarrow> dp_error + agent_state" where
  "supersede holder s =
     bindE (foldE (drop_owned_slot holder (ao_epochs holder)) (ao_planes holder) s) (\<lambda>s1.
     bindE (finalizeCandidate holder (supersede_journal holder s1)) (\<lambda>s2.
     Inr (drop_holder holder s2)))"

section \<open>Leadership\<close>

definition fence :: "string \<Rightarrow> string action" where
  "fence token0 s =
     bindE (normalizeNumeric token0) (\<lambda>token.
     bindE (assertLeader s token) (\<lambda>_.
     let s1 = s\<lparr>maxLeaderToken := token\<rparr> in
     bindE (case activeOperation s1 of
         None \<Rightarrow> Inr s1
       | Some holder \<Rightarrow>
           bindE (big_rel (<) (leaderToken holder) token) (\<lambda>lower.
           if lower then supersede holder s1 else Inr s1)) (\<lambda>s2.
     Inr (maxLeaderToken s2, s2))))"

section \<open>The per-plane protocol\<close>

definition reserve_one :: "operation_tuple \<Rightarrow> plane_ack action" where
  "reserve_one t s0 =
     bindE (admit t Step_reserve s0) (\<lambda>(replay, s).
     case replay of
       Some ack \<Rightarrow> Inr (ack, s)
     | None \<Rightarrow> bindE (acquire t s) (\<lambda>(_, s1). record_ack t Step_reserve (target_state t None) s1))"

definition reserve :: "operation_tuple \<Rightarrow> plane_ack action" where
  "reserve opn = reserve_one opn"

definition stage :: "operation_tuple \<Rightarrow> plane_ack action" where
  "stage opn s0 =
     bindE (admit opn Step_stage s0) (\<lambda>(replay, s).
     case replay of
       Some ack \<Rightarrow> Inr (ack, s)
     | None \<Rightarrow>
         bindE (acquire opn s) (\<lambda>(slot, s1).
         let s2 = put_slot (on_plane opn) (target_epoch opn)
               (slot\<lparr>slot_stagedDigest := Some (ot_payloadDigest opn)\<rparr>) s1
         in record_ack opn Step_stage (target_state opn None) s2))"

text \<open>\<open>commit\<close>, from the checks on the slot to the record.\<close>

definition commit_candidate :: "operation_tuple \<Rightarrow> agent_state \<Rightarrow> dp_error + agent_state" where
  "commit_candidate opn s =
     bindE (case activeOperation s of
         None \<Rightarrow> Inr None
       | Some holder \<Rightarrow> bindE (ownsSlotOp (Some holder) opn) (\<lambda>owns.
           Inr (if owns then Some (ao_epochs holder) else None))) (\<lambda>declared.
     let s1 = (case declared of None \<Rightarrow> s | Some es \<Rightarrow> s\<lparr>pendingEpochs := Some es\<rparr>)
     in Inr (s1\<lparr>pendingActivation := Some \<lparr>leaderToken = leaderToken opn,
          operationId = operationId opn, transitionId = transitionId opn,
          pr_generation = ot_targetGeneration opn,
          pr_generationDigest = ot_generationDigest opn\<rparr>\<rparr>))"

definition commit_move :: "operation_tuple \<Rightarrow> activation_evidence \<Rightarrow> plane_ack action" where
  "commit_move opn evidence s =
     bindE (normalizeNumeric (leaderToken opn)) (\<lambda>token.
     let moved = target_state opn (Some \<lparr>leaderToken = token,
           operationId = operationId opn, transitionId = transitionId opn\<rparr>);
         s1 = set_plane (on_plane opn) moved s;
         s2 = s1\<lparr>activationEvidence :=
           dset (evidence_key (on_plane opn) (target_epoch opn)) evidence (activationEvidence s1)\<rparr> in
     bindE (commit_candidate opn s2) (\<lambda>s3.
     bindE (finish opn T_activated s3) (\<lambda>s4.
     record_ack opn Step_commit (planes s4 (on_plane opn)) s4)))"

definition commit :: "operation_tuple \<Rightarrow> activation_evidence \<Rightarrow> plane_ack action" where
  "commit opn evidence s0 =
     bindE (admit opn Step_commit s0) (\<lambda>(replay, s).
     case replay of
       Some ack \<Rightarrow> Inr (ack, s)
     | None \<Rightarrow>
         (let current = planes s (on_plane opn) in
          bindE (sameCoordinate current (ot_target opn)) (\<lambda>there.
          bindE (if there \<and> ps_payloadDigest current = ot_payloadDigest opn
                 then authoredBy current opn else Inr False) (\<lambda>mine.
          if mine then record_ack opn Step_commit current s
          else (case slot_at s (on_plane opn) (target_epoch opn) of
              None \<Rightarrow> Inl (reject Not_staged)
            | Some slot \<Rightarrow>
                (if canonical (slot_op slot) \<noteq> canonical opn then Inl (reject Slot_taken)
                 else bindE (sameCoordinate current (ot_expectedCurrent opn)) (\<lambda>expected.
                 if \<not> expected then Inl (reject Coordinate_mismatch)
                 else if slot_stagedDigest slot = None then Inl (reject Not_staged)
                 else if slot_stagedDigest slot \<noteq> Some (ot_payloadDigest opn)
                 then Inl (reject Digest_mismatch)
                 else if \<not> provesActivation (Some evidence) (ot_targetGeneration opn)
                 then Inl (reject Not_activated)
                 else commit_move opn evidence s)))))))"

definition abort :: "operation_tuple \<Rightarrow> unit action" where
  "abort opn = finalize opn T_aborted"

definition fail :: "operation_tuple \<Rightarrow> unit action" where
  "fail opn = finalize opn T_failed"

definition release :: "operation_tuple \<Rightarrow> unit action" where
  "release opn s =
     bindE (assertLeader s (leaderToken opn)) (\<lambda>_.
     bindE (terminalOf s opn) (\<lambda>already.
     if already \<noteq> None then Inr ((), s)
     else
       bindE (foldE (\<lambda>st s. bindE (step_key opn st) (\<lambda>k.
             Inr (s\<lparr>completed := ddel k (completed s)\<rparr>)))
           [Step_reserve, Step_stage, Step_commit, Step_health]
           (if ownsSlot s opn then drop_slot (on_plane opn) (target_epoch opn) s else s)) (\<lambda>s'.
       Inr ((), s'))))"

definition applyHealth :: "operation_tuple \<Rightarrow> plane_ack action" where
  "applyHealth opn s0 =
     bindE (admit opn Step_health s0) (\<lambda>(replay, s).
     case replay of
       Some ack \<Rightarrow> Inr (ack, s)
     | None \<Rightarrow>
         (let current = planes s (on_plane opn) in
          bindE (sameCoordinate current (ot_expectedCurrent opn)) (\<lambda>same.
          bindE (if \<not> same then Inr True
                 else big_rel (\<noteq>) (target_epoch opn) (activationEpoch current)) (\<lambda>elsewhere.
          if elsewhere then Inl (reject Coordinate_mismatch)
          else
            bindE (big_rel (\<le>) (membershipRevision (ot_target opn)) (membershipRevision current))
              (\<lambda>le.
            if le then Inl (reject Epoch_not_monotonic)
            else (let s1 = set_plane (on_plane opn) (target_state opn (ps_by current)) s
                  in record_ack opn Step_health (planes s1 (on_plane opn)) s1))))))"

section \<open>The apply path\<close>

text \<open>What \<open>reserveAll\<close> does to a foreign journal that has not ended: every plane of it that has
  no verdict yet is recorded as aborted, and its holder is superseded.\<close>

definition abort_stale_plane ::
    "apply_operation \<Rightarrow> string list \<Rightarrow> plane \<Rightarrow> agent_state \<Rightarrow> dp_error + agent_state" where
  "abort_stale_plane stale mine plane s =
     bindE (tupleFor stale plane) (\<lambda>t.
     bindE (transitionKey t) (\<lambda>k.
     bindE (terminalOf s t) (\<lambda>already.
     Inr (if already = None \<and> k \<notin> set mine
          then s\<lparr>terminal := dset k T_aborted (terminal s)\<rparr> else s))))"

definition abandon_stale :: "apply_operation \<Rightarrow> apply_operation \<Rightarrow> agent_state \<Rightarrow> dp_error + agent_state"
  where
  "abandon_stale opn stale s =
     bindE (mapE (\<lambda>p. bindE (tupleFor opn p) transitionKey) (planesOf opn)) (\<lambda>mine.
     bindE (foldE (abort_stale_plane stale mine) (planesOf stale) s) (\<lambda>s1.
     bindE (normalizeNumeric (leaderToken stale)) (\<lambda>token.
     bindE (mapE (epoch_entry stale) (planesOf stale)) (\<lambda>es.
     supersede \<lparr>leaderToken = token, operationId = operationId stale,
         transitionId = transitionId stale, ao_planes = planesOf stale,
         ao_epochs = fromEntries es\<rparr> s1))))"

definition clear_stale_journal ::
    "apply_operation \<Rightarrow> journal_opening option \<Rightarrow> agent_state \<Rightarrow> dp_error + agent_state" where
  "clear_stale_journal opn opening s =
     bindE (ownsJournal (journal s) opn) (\<lambda>staleIsMine.
     case (opening, journal s) of
       (Some _, Some stale) \<Rightarrow>
         (if \<not> staleIsMine \<and> \<not> isTerminalPhase (je_phase stale)
          then abandon_stale opn (je_op stale) s else Inr s)
     | _ \<Rightarrow> Inr s)"

definition holder_for :: "apply_operation \<Rightarrow> operation_tuple list \<Rightarrow> string \<Rightarrow> active_operation" where
  "holder_for opn tuples token =
     \<lparr>leaderToken = token, operationId = operationId opn, transitionId = transitionId opn,
      ao_planes = map on_plane tuples,
      ao_epochs = fromEntries (map (\<lambda>t. (on_plane t, target_epoch t)) tuples)\<rparr>"

definition open_journal ::
    "apply_operation \<Rightarrow> journal_opening option \<Rightarrow> agent_state \<Rightarrow> dp_error + agent_state" where
  "open_journal opn opening s =
     (case opening of
        None \<Rightarrow> Inr s
      | Some entry \<Rightarrow>
          bindE (ownsJournal (journal s) opn) (\<lambda>mine.
          Inr (if mine then s
               else s\<lparr>journal := Some (journal_opening.extend entry
                 \<lparr>je_seq = (case journal s of None \<Rightarrow> 0 | Some j \<Rightarrow> je_seq j) + 1\<rparr>)\<rparr>)))"

definition reserveAll ::
    "apply_operation \<Rightarrow> journal_opening option \<Rightarrow> plane_ack list action" where
  "reserveAll opn opening s =
     bindE (mapE (tupleFor opn) (planesOf opn)) (\<lambda>tuples.
     case tuples of
       [] \<Rightarrow> Inl (reject Empty_envelope)
     | first # _ \<Rightarrow>
         bindE (assertLeader s (leaderToken first)) (\<lambda>_.
         if (case activeOperation s of None \<Rightarrow> False | Some h \<Rightarrow> \<not> sameTransitionName h opn)
         then Inl (reject Operation_in_flight)
         else
           bindE (clear_stale_journal opn opening s) (\<lambda>s1.
           bindE (mapS reserve_one tuples s1) (\<lambda>(acks, s2).
           bindE (open_journal opn opening
               (s2\<lparr>activeOperation := Some (holder_for opn tuples (leaderToken first))\<rparr>)) (\<lambda>s3.
           Inr (acks, s3))))))"

definition releaseHolderSlots :: "apply_operation \<Rightarrow> unit action" where
  "releaseHolderSlots opn s =
     bindE (case activeOperation s of
         Some h \<Rightarrow> Inr h
       | None \<Rightarrow> bindE (normalizeNumeric (leaderToken opn)) (\<lambda>token.
           Inr \<lparr>leaderToken = token, operationId = operationId opn,
             transitionId = transitionId opn, ao_planes = [], ao_epochs = []\<rparr>)) (\<lambda>owner.
     if \<not> sameTransitionName owner opn then Inr ((), s)
     else
       bindE (normalizeNumeric (leaderToken opn)) (\<lambda>token.
       if leaderToken owner \<noteq> token then Inr ((), s)
       else
         bindE (foldE (drop_owned_slot opn (ao_epochs owner)) (ao_planes owner) s) (\<lambda>s1.
         Inr ((), (if activeOperation s \<noteq> None then s1\<lparr>activeOperation := None\<rparr> else s1)))))"

definition recordPublishIntent :: "publish_record \<Rightarrow> unit action" where
  "recordPublishIntent r s =
     bindE (normalizeNumeric (leaderToken r)) (\<lambda>token.
     bindE (assertLeader s token) (\<lambda>_.
     Inr ((), s\<lparr>lastPublishIntent := Some r\<rparr>)))"

definition releaseStaleSlots :: "apply_operation \<Rightarrow> unit action" where
  "releaseStaleSlots opn s =
     (if activeOperation s \<noteq> None then Inr ((), s)
      else
        bindE (foldE (\<lambda>plane s.
            bindE (epoch_entry opn plane) (\<lambda>(_, epoch).
            bindE (ownsSlotOp (map_option slot_op (slot_at s plane epoch)) opn) (\<lambda>owns.
            Inr (if owns then drop_slot plane epoch s else s))))
          (planesOfOperation opn) s) (\<lambda>s'. Inr ((), s')))"

definition movedByMe :: "agent_state \<Rightarrow> apply_operation \<Rightarrow> plane \<Rightarrow> dp_error + bool" where
  "movedByMe s opn plane =
     (let at = planes s plane in
      bindE (tupleFor opn plane) (\<lambda>t.
      if activationEpoch at \<noteq> target_epoch t then Inr False else authoredBy at opn))"

definition reachedPhase :: "agent_state \<Rightarrow> dp_error + apply_phase option" where
  "reachedPhase s =
     (case journal s of
        None \<Rightarrow> Inr None
      | Some j \<Rightarrow>
          bindE (mapE (movedByMe s (je_op j)) (planesOf (je_op j))) (\<lambda>moved.
          let n = length (filter id moved) in
          Inr (Some (if n = length moved then Activated
               else if n > 0 then Partial_exhausted else Failed))))"

definition closeJournal :: "apply_operation \<Rightarrow> apply_phase \<Rightarrow> unit action" where
  "closeJournal opn how s =
     bindE (ownsJournal (journal s) opn) (\<lambda>owns.
     if \<not> owns then Inr ((), s)
     else (case journal s of
         None \<Rightarrow> Inr ((), s)
       | Some j \<Rightarrow>
           (if isTerminalPhase (je_phase j) then Inr ((), s)
            else Inr ((), s\<lparr>journal := Some (j\<lparr>je_phase := how, je_seq := je_seq j + 1\<rparr>)\<rparr>))))"

definition releaseIdleHolder :: "bool action" where
  "releaseIdleHolder s =
     (case activeOperation s of
        None \<Rightarrow> Inr (False, s)
      | Some holder \<Rightarrow>
          (if journal s \<noteq> None then Inr (False, s)
           else Inr (True, (foldl (\<lambda>s plane.
                case dget (ao_epochs holder) plane of
                  None \<Rightarrow> s | Some epoch \<Rightarrow> drop_slot plane epoch s) s (ao_planes holder))
              \<lparr>activeOperation := None\<rparr>)))"

definition reclaimOperation :: "apply_operation \<Rightarrow> bool action" where
  "reclaimOperation opn s =
     (if activeOperation s \<noteq> None then Inr (False, s)
      else
        bindE (normalizeNumeric (leaderToken opn)) (\<lambda>token.
        bindE (assertLeader s token) (\<lambda>_.
        bindE (epochsOf opn) (\<lambda>es.
        Inr (True, s\<lparr>activeOperation := Some \<lparr>leaderToken = token,
            operationId = operationId opn, transitionId = transitionId opn,
            ao_planes = planesOfOperation opn, ao_epochs = es\<rparr>\<rparr>)))))"

definition finishOperation :: "apply_operation \<Rightarrow> plane list \<Rightarrow> unit action" where
  "finishOperation opn releasePlanes s =
     bindE (finalizeCandidate opn s) (\<lambda>s1.
     bindE (foldE (\<lambda>plane s. bindE (tupleFor opn plane) (\<lambda>t.
         Inr (if ownsSlot s t then drop_slot plane (target_epoch t) s else s))) releasePlanes s1)
       (\<lambda>s2.
     case activeOperation s2 of
       None \<Rightarrow> Inr ((), s2)
     | Some holder \<Rightarrow>
         (if \<not> sameTransitionName holder opn then Inr ((), s2)
          else bindE (normalizeNumeric (leaderToken opn)) (\<lambda>token.
            Inr ((), (if leaderToken holder = token then s2\<lparr>activeOperation := None\<rparr> else s2))))))"

definition assertOwnership :: "agent_state \<Rightarrow> apply_operation \<Rightarrow> dp_error + unit" where
  "assertOwnership s opn =
     bindE (normalizeNumeric (leaderToken opn)) (\<lambda>token.
     bindE (big_rel (<) token (maxLeaderToken s)) (\<lambda>lower.
     if lower then Inl (reject Stale_leader)
     else (case activeOperation s of
         None \<Rightarrow> Inl (reject Not_reserved)
       | Some holder \<Rightarrow>
           throw_if (\<not> sameTransitionName holder opn) (reject Operation_in_flight))))"

definition writeJournal :: "journal_entry \<Rightarrow> unit action" where
  "writeJournal entry s =
     bindE (normalizeNumeric (leaderToken (je_op entry))) (\<lambda>token.
     bindE (assertLeader s token) (\<lambda>_.
     if (case activeOperation s of None \<Rightarrow> True | Some h \<Rightarrow> \<not> sameTransitionName h (je_op entry))
     then Inl (reject Not_reserved)
     else if je_seq entry \<noteq> (case journal s of None \<Rightarrow> 0 | Some j \<Rightarrow> je_seq j) + 1
     then Inl (reject Journal_conflict)
     else Inr ((), s\<lparr>journal := Some entry\<rparr>)))"

section \<open>Transactions\<close>

text \<open>What \<open>serial\<close> computes from the stored state before it saves: the method on a clone, the
  retention, the invariants.\<close>

definition transaction :: "'r action \<Rightarrow> agent_state option \<Rightarrow> dp_error + ('r \<times> agent_state)" where
  "transaction mutate stored =
     bindE (mutate (case stored of None \<Rightarrow> initial | Some s \<Rightarrow> s)) (\<lambda>(result, next).
     bindE (prune next) (\<lambda>pruned.
     bindE (assertInvariants stored pruned) (\<lambda>_.
     Inr (result, pruned))))"

end
