(* ===== verification/Agent_Frame.thy ===== *)
theory Agent_Frame
  imports Agent_Ops
begin

text \<open>
  What each operation of the agent leaves alone. Two reflexive and transitive relations on
  states carry the proofs about histories: \<open>slots_from\<close> (the planes have not moved and a new
  slot lies ahead of its plane) and \<open>verdicts_kept\<close> (no verdict was changed or lost).
  Each helper is shown to respect them, and the operations by composition.
\<close>

named_theorems frame "the frame relations of the agent's helpers"

definition tat :: "agent_state \<Rightarrow> string \<Rightarrow> terminal_meta option" where
  "tat s k = (case terminalAt s of None \<Rightarrow> None | Some at \<Rightarrow> dget at k)"

definition ahead :: "string \<Rightarrow> 'a coordinate_scheme \<Rightarrow> bool" where
  "ahead e st \<longleftrightarrow>
     (\<exists>n m. BigInt e = Inr n \<and> BigInt (activationEpoch st) = Inr m \<and> m < n)"

definition behind :: "string \<Rightarrow> 'a coordinate_scheme \<Rightarrow> bool" where
  "behind e st \<longleftrightarrow>
     (\<exists>n m. BigInt e = Inr n \<and> BigInt (activationEpoch st) = Inr m \<and> n < m)"

definition slots_from :: "agent_state \<Rightarrow> agent_state \<Rightarrow> bool" where
  "slots_from s s' \<longleftrightarrow> planes s' = planes s \<and>
     (\<forall>p e. slot_at s' p e \<noteq> None \<longrightarrow> slot_at s p e \<noteq> None \<or> ahead e (planes s p))"

definition slots_shrink :: "agent_state \<Rightarrow> agent_state \<Rightarrow> bool" where
  "slots_shrink s s' \<longleftrightarrow>
     (\<forall>p e. slot_at s' p e \<noteq> None \<longrightarrow> slot_at s' p e = slot_at s p e)"

definition verdicts_kept :: "agent_state \<Rightarrow> agent_state \<Rightarrow> bool" where
  "verdicts_kept s s' \<longleftrightarrow>
     (\<forall>k v. dget (terminal s) k = Some v \<longrightarrow> dget (terminal s') k = Some v \<and> tat s' k = tat s k)"

text \<open>Dictionaries have one entry per key.\<close>

definition dicts_wf :: "agent_state \<Rightarrow> bool" where
  "dicts_wf s \<longleftrightarrow> (\<forall>p. distinct (dkeys (reservations s p))) \<and> distinct (dkeys (completed s)) \<and>
     distinct (dkeys (terminal s)) \<and>
     (\<forall>at. terminalAt s = Some at \<longrightarrow> distinct (dkeys at)) \<and>
     distinct (dkeys (activationEvidence s))"

section \<open>The relations\<close>

lemma slots_from_refl [simp]: "slots_from s s"
  by (simp add: slots_from_def)

lemma slots_from_trans [trans]: "slots_from a b \<Longrightarrow> slots_from b c \<Longrightarrow> slots_from a c"
  unfolding slots_from_def by metis

lemma slots_shrink_refl [simp]: "slots_shrink s s"
  by (simp add: slots_shrink_def)

lemma slots_shrink_trans [trans]: "slots_shrink a b \<Longrightarrow> slots_shrink b c \<Longrightarrow> slots_shrink a c"
  by (auto simp: slots_shrink_def)

lemma verdicts_kept_refl [simp]: "verdicts_kept s s"
  by (simp add: verdicts_kept_def)

lemma verdicts_kept_trans [trans]: "verdicts_kept a b \<Longrightarrow> verdicts_kept b c \<Longrightarrow> verdicts_kept a c"
  by (auto simp: verdicts_kept_def)

lemma slots_shrink_from: "slots_shrink s s' \<Longrightarrow> planes s' = planes s \<Longrightarrow> slots_from s s'"
  by (auto simp: slots_shrink_def slots_from_def)

lemma foldE_rel:
  assumes "foldE f xs s = Inr s'"
    and "\<And>s. R s s" "\<And>a b c. R a b \<Longrightarrow> R b c \<Longrightarrow> R a c"
    and "\<And>x s s'. x \<in> set xs \<Longrightarrow> f x s = Inr s' \<Longrightarrow> R s s'"
  shows "R s s'"
  using assms(1,4)
proof (induction xs arbitrary: s)
  case Nil
  then show ?case using assms(2) by simp
next
  case (Cons x xs)
  then obtain s1 where 1: "f x s = Inr s1" "foldE f xs s1 = Inr s'" by (auto simp: errE)
  have "R s s1" using 1(1) Cons.prems(2) by (meson list.set_intros(1))
  moreover have "R s1 s'" using 1(2) Cons.prems(2) by (intro Cons.IH) auto
  ultimately show ?case by (rule assms(3))
qed

lemma mapS_rel:
  assumes "mapS f xs s = Inr (ys, s')"
    and "\<And>s. R s s" "\<And>a b c. R a b \<Longrightarrow> R b c \<Longrightarrow> R a c"
    and "\<And>x s y s'. x \<in> set xs \<Longrightarrow> f x s = Inr (y, s') \<Longrightarrow> R s s'"
  shows "R s s'"
  using assms(1,4)
proof (induction xs arbitrary: s ys)
  case Nil
  then show ?case using assms(2) by simp
next
  case (Cons x xs)
  then obtain y s1 zs where 1: "f x s = Inr (y, s1)" "mapS f xs s1 = Inr (zs, s')"
    by (auto simp: errE)
  have "R s s1" using 1(1) Cons.prems(2) by (meson list.set_intros(1))
  moreover have "R s1 s'"
    using 1(2) Cons.prems(2) by (intro Cons.IH) (auto intro: list.set_intros(2))
  ultimately show ?case by (rule assms(3))
qed

section \<open>Slots\<close>

lemma slot_at_drop_slot [simp]:
  "slot_at (drop_slot p e s) q f = (if q = p \<and> f = e then None else slot_at s q f)"
  by (auto simp: slot_at_def drop_slot_def dict_simps)

lemma slot_at_put_slot [simp]:
  "slot_at (put_slot p e r s) q f = (if q = p \<and> f = e then Some r else slot_at s q f)"
  by (auto simp: slot_at_def put_slot_def dict_simps)

lemma slot_at_cong: "reservations s' = reservations s \<Longrightarrow> slot_at s' = slot_at s"
  by (simp add: slot_at_def fun_eq_iff)

lemma drop_slot_simps [simp]:
  "planes (drop_slot p e s) = planes s" "terminal (drop_slot p e s) = terminal s"
  "terminalAt (drop_slot p e s) = terminalAt s" "maxLeaderToken (drop_slot p e s) = maxLeaderToken s"
  "completed (drop_slot p e s) = completed s" "activeOperation (drop_slot p e s) = activeOperation s"
  "lastActivated (drop_slot p e s) = lastActivated s" "journal (drop_slot p e s) = journal s"
  "pendingActivation (drop_slot p e s) = pendingActivation s"
  "pendingEpochs (drop_slot p e s) = pendingEpochs s"
  "lastPublishIntent (drop_slot p e s) = lastPublishIntent s"
  "activationEvidence (drop_slot p e s) = activationEvidence s"
  by (simp_all add: drop_slot_def)

lemma put_slot_simps [simp]:
  "planes (put_slot p e r s) = planes s" "terminal (put_slot p e r s) = terminal s"
  "terminalAt (put_slot p e r s) = terminalAt s"
  "maxLeaderToken (put_slot p e r s) = maxLeaderToken s"
  "completed (put_slot p e r s) = completed s"
  "activeOperation (put_slot p e r s) = activeOperation s"
  "lastActivated (put_slot p e r s) = lastActivated s" "journal (put_slot p e r s) = journal s"
  "pendingActivation (put_slot p e r s) = pendingActivation s"
  "pendingEpochs (put_slot p e r s) = pendingEpochs s"
  "lastPublishIntent (put_slot p e r s) = lastPublishIntent s"
  "activationEvidence (put_slot p e r s) = activationEvidence s"
  by (simp_all add: put_slot_def)

lemma slots_shrink_drop_slot [simp]: "slots_shrink s (drop_slot p e s)"
  by (simp add: slots_shrink_def)

lemma slots_shrink_same [intro]: "reservations s' = reservations s \<Longrightarrow> slots_shrink s s'"
  by (simp add: slots_shrink_def slot_at_def)

lemma verdicts_kept_same [intro]:
  "terminal s' = terminal s \<Longrightarrow> terminalAt s' = terminalAt s \<Longrightarrow> verdicts_kept s s'"
  by (simp add: verdicts_kept_def tat_def)

section \<open>The helpers\<close>

lemma raise_token_Inr:
  "raise_token t s = Inr s' \<Longrightarrow> \<exists>m. s' = s\<lparr>maxLeaderToken := m\<rparr>"
  by (auto simp: raise_token_def errE)

lemma terminalOf_cong: "terminal s' = terminal s \<Longrightarrow> terminalOf s' x = terminalOf s x"
  by (simp only: terminalOf_def)

lemma tat_Some: "terminalAt s = Some d \<Longrightarrow> tat s l = dget d l"
  by (simp add: tat_def)

lemma admit_seen_Inr:
  assumes "admit_seen opn st already s = Inr (r, s')"
  shows "s' = s \<and> (r = None \<longrightarrow> already = None) \<and> (\<forall>a. r = Some a \<longrightarrow> ack_cached a)"
proof -
  obtain k where k: "step_key opn st = Inr k"
    using assms unfolding admit_seen_def by (elim bindE_InrE)
  show ?thesis
  proof (cases "dget (completed s) k")
    case None
    with assms k show ?thesis by (auto simp: admit_seen_def split: if_splits)
  next
    case (Some e)
    with assms k show ?thesis by (auto simp: admit_seen_def split: if_splits)
  qed
qed

lemma admit_Inr:
  assumes "admit opn st s = Inr (r, s')"
  obtains m where "s' = s\<lparr>maxLeaderToken := m\<rparr>"
    "r = None \<Longrightarrow> terminalOf s opn = Inr None"
    "\<And>v. terminalOf s opn = Inr (Some v) \<Longrightarrow> v = T_activated"
    "\<And>a. r = Some a \<Longrightarrow> ack_cached a"
proof -
  from assms obtain s1 already where
    1: "raise_token (leaderToken opn) s = Inr s1" "terminalOf s1 opn = Inr already"
    and "(if already = Some T_aborted \<or> already = Some T_failed
          then Inl (Rejection Terminal_reached already) else admit_seen opn st already s1) = Inr (r, s')"
    unfolding admit_def by (elim bindE_InrE)
  then have rest: "\<not> (already = Some T_aborted \<or> already = Some T_failed)"
      "admit_seen opn st already s1 = Inr (r, s')"
    by (simp_all split: if_splits)
  from raise_token_Inr [OF 1(1)] obtain m where m: "s1 = s\<lparr>maxLeaderToken := m\<rparr>" by blast
  from 1(2) have t: "terminalOf s opn = Inr already" using terminalOf_cong [of s1 s opn] m by simp
  note seen = admit_seen_Inr [OF rest(2)]
  have s': "s' = s1" and r: "r = None \<Longrightarrow> already = None" "\<And>a. r = Some a \<Longrightarrow> ack_cached a"
    using seen by auto
  show thesis
  proof (rule that)
    show "s' = s\<lparr>maxLeaderToken := m\<rparr>" using m s' by simp
    show "r = None \<Longrightarrow> terminalOf s opn = Inr None" using r(1) t by simp
    show "terminalOf s opn = Inr (Some v) \<Longrightarrow> v = T_activated" for v
      using rest(1) t by (cases v) auto
    show "r = Some a \<Longrightarrow> ack_cached a" for a by (rule r(2))
  qed
qed

lemma admit_facts:
  assumes "admit opn st s = Inr (r, s')"
  shows "\<exists>m. s' = s\<lparr>maxLeaderToken := m\<rparr>"
    "r = None \<longrightarrow> terminalOf s opn = Inr None"
    "\<forall>v. terminalOf s opn = Inr (Some v) \<longrightarrow> v = T_activated"
    "\<forall>a. r = Some a \<longrightarrow> ack_cached a"
  by (rule admit_Inr [OF assms], blast)+

lemma acquire_Inr:
  assumes "acquire opn s = Inr (slot, s')"
  shows "canonical (slot_op slot) = canonical opn"
    "slot_at s (on_plane opn) (target_epoch opn) = Some slot \<and> s' = s \<or>
     slot_at s (on_plane opn) (target_epoch opn) = None \<and>
     slot = \<lparr>slot_op = opn, slot_stagedDigest = None\<rparr> \<and>
     s' = put_slot (on_plane opn) (target_epoch opn) slot s \<and>
     ahead (target_epoch opn) (planes s (on_plane opn)) \<and>
     sameCoordinate (planes s (on_plane opn)) (ot_expectedCurrent opn) = Inr True"
  using assms by (auto simp: acquire_def Let_def errE ahead_def big_rel_def split: if_splits option.splits)

lemma record_ack_Inr:
  assumes "record_ack opn st r s = Inr (ack, s')"
  obtains k e where "step_key opn st = Inr k" "s' = s\<lparr>completed := dset k e (completed s)\<rparr>"
    "ack = plane_state.extend r
       \<lparr>ack_plane = on_plane opn, ack_transitionId = transitionId opn, ack_cached = False\<rparr>"
    "ce_ack e = ack" "ce_tuple e = canonical opn"
  using assms by (auto simp: record_ack_def errE Let_def)

lemma finish_Inr:
  assumes "finish opn how s = Inr s'"
  obtains k where "transitionKey opn = Inr k"
    "dget (terminal s') k = Some how"
    "tat s' k = Some \<lparr>tm_plane = on_plane opn, tm_epoch = target_epoch opn\<rparr>"
    "\<And>l. l \<noteq> k \<Longrightarrow> dget (terminal s') l = dget (terminal s) l \<and> tat s' l = tat s l"
    "slots_shrink s s'" "planes s' = planes s" "dicts_wf s \<longrightarrow> dicts_wf s'"
proof -
  from assms obtain k where k: "transitionKey opn = Inr k"
    by (auto simp: finish_def errE Let_def)
  let ?s1 = "if ownsSlot s opn then drop_slot (on_plane opn) (target_epoch opn) s else s"
  let ?at = "case terminalAt s of None \<Rightarrow> [] | Some at \<Rightarrow> at"
  have s1: "terminal ?s1 = terminal s" "terminalAt ?s1 = terminalAt s" "planes ?s1 = planes s"
    "slots_shrink s ?s1"
    by simp_all
  from assms k have s': "s' = ?s1\<lparr>terminal := dset k how (terminal s),
      terminalAt := Some (dset k \<lparr>tm_plane = on_plane opn, tm_epoch = target_epoch opn\<rparr> ?at)\<rparr>"
    unfolding finish_def Let_def k bindE_simps s1 by simp
  have at: "dget ?at l = tat s l" for l by (simp add: tat_def split: option.splits)
  show thesis
  proof (rule that [OF k])
    show "dget (terminal s') k = Some how" by (simp add: s' dict_simps)
    show "tat s' k = Some \<lparr>tm_plane = on_plane opn, tm_epoch = target_epoch opn\<rparr>"
      by (simp add: s' tat_def dict_simps)
    show "dget (terminal s') l = dget (terminal s) l \<and> tat s' l = tat s l" if "l \<noteq> k" for l
    proof
      show "dget (terminal s') l = dget (terminal s) l"
        using that by (simp add: s' dict_simps)
      have "terminalAt s' = Some (dset k \<lparr>tm_plane = on_plane opn, tm_epoch = target_epoch opn\<rparr> ?at)"
        by (simp add: s')
      from tat_Some [OF this, of l] show "tat s' l = tat s l"
        using that at [of l] by (simp add: dict_simps)
    qed
    show "slots_shrink s s'" using s1(4) slots_shrink_same [of s' ?s1]
      by (rule slots_shrink_trans) (simp add: s')
    show "planes s' = planes s" using s1(3) by (simp add: s')
    show "dicts_wf s \<longrightarrow> dicts_wf s'"
      by (auto simp: s' dicts_wf_def drop_slot_def split: option.splits)
  qed
qed


section \<open>The operations\<close>

definition framed :: "agent_state \<Rightarrow> agent_state \<Rightarrow> bool" where
  "framed s s' \<longleftrightarrow> slots_from s s' \<and> verdicts_kept s s' \<and> (dicts_wf s \<longrightarrow> dicts_wf s')"

lemma framed_refl [simp]: "framed s s"
  by (simp add: framed_def)

lemma framed_trans [trans]: "framed a b \<Longrightarrow> framed b c \<Longrightarrow> framed a c"
  unfolding framed_def using slots_from_trans verdicts_kept_trans by blast

lemma framed_same:
  "planes s' = planes s \<Longrightarrow> reservations s' = reservations s \<Longrightarrow> terminal s' = terminal s \<Longrightarrow>
     terminalAt s' = terminalAt s \<Longrightarrow> activationEvidence s' = activationEvidence s \<Longrightarrow>
     (distinct (dkeys (completed s)) \<Longrightarrow> distinct (dkeys (completed s'))) \<Longrightarrow> framed s s'"
  by (auto simp: framed_def slots_from_def slot_at_def dicts_wf_def intro: verdicts_kept_same)

lemma dicts_wf_drop_slot [simp]: "dicts_wf s \<Longrightarrow> dicts_wf (drop_slot p e s)"
  by (auto simp: dicts_wf_def drop_slot_def)

lemma dicts_wf_put_slot [simp]: "dicts_wf s \<Longrightarrow> dicts_wf (put_slot p e r s)"
  by (auto simp: dicts_wf_def put_slot_def)

lemma framed_drop_slot [simp]: "framed s (drop_slot p e s)"
  by (auto simp: framed_def slots_from_def)

lemma framed_foldE:
  assumes "foldE f xs s = Inr s'" "\<And>x s s'. f x s = Inr s' \<Longrightarrow> framed s s'"
  shows "framed s s'"
  using assms(1) by (rule foldE_rel) (auto intro: framed_trans assms(2))

lemma framed_mapS:
  assumes "mapS f xs s = Inr (ys, s')" "\<And>x s y s'. f x s = Inr (y, s') \<Longrightarrow> framed s s'"
  shows "framed s s'"
  using assms(1) by (rule mapS_rel) (auto intro: framed_trans assms(2))

lemma framed_admit: "admit opn st s = Inr (r, s') \<Longrightarrow> framed s s'"
  by (erule admit_Inr) (simp add: framed_same)

lemma framed_record_ack: "record_ack opn st r s = Inr (ack, s') \<Longrightarrow> framed s s'"
  by (erule record_ack_Inr) (simp add: framed_same)

lemma framed_put_slot:
  "slot_at s p e \<noteq> None \<or> ahead e (planes s p) \<Longrightarrow> framed s (put_slot p e r s)"
  by (auto simp: framed_def slots_from_def)

lemma framed_acquire:
  assumes "acquire opn s = Inr (slot, s')"
  shows "framed s s'"
  using acquire_Inr(2) [OF assms] by (elim disjE) (auto intro: framed_put_slot)

lemma framed_reserve_one: "reserve_one t s = Inr (ack, s') \<Longrightarrow> framed s s'"
  unfolding reserve_one_def
  by (elim bindE_InrE) (auto split: option.splits elim!: bindE_InrE
      dest!: framed_admit framed_acquire framed_record_ack, meson framed_trans)

lemma framed_stage:
  assumes "stage opn s = Inr (ack, s')"
  shows "framed s s'"
proof -
  from assms obtain r s1 where adm: "admit opn Step_stage s = Inr (r, s1)"
    and rest: "(case r of Some ack \<Rightarrow> Inr (ack, s1)
     | None \<Rightarrow> bindE (acquire opn s1) (\<lambda>(slot, s1).
         let s2 = put_slot (on_plane opn) (target_epoch opn)
               (slot\<lparr>slot_stagedDigest := Some (ot_payloadDigest opn)\<rparr>) s1
         in record_ack opn Step_stage (target_state opn None) s2)) = Inr (ack, s')"
    unfolding stage_def by (elim bindE_InrE) auto
  show ?thesis
  proof (cases r)
    case (Some a)
    with rest framed_admit [OF adm] show ?thesis by simp
  next
    case None
    with rest obtain slot s2 where acq: "acquire opn s1 = Inr (slot, s2)"
      and rec: "record_ack opn Step_stage (target_state opn None)
        (put_slot (on_plane opn) (target_epoch opn)
          (slot\<lparr>slot_stagedDigest := Some (ot_payloadDigest opn)\<rparr>) s2) = Inr (ack, s')"
      by (auto simp: Let_def elim!: bindE_InrE)
    have "slot_at s2 (on_plane opn) (target_epoch opn) \<noteq> None"
      using acquire_Inr(2) [OF acq] by (elim disjE) auto
    with framed_admit [OF adm] framed_acquire [OF acq] framed_record_ack [OF rec]
    show ?thesis by (meson framed_put_slot framed_trans)
  qed
qed

lemma finish_verdicts:
  assumes "finish opn how s = Inr s'" "terminalOf s opn = Inr None"
  shows "verdicts_kept s s'"
proof (rule finish_Inr [OF assms(1)])
  fix k assume k: "transitionKey opn = Inr k"
    and other: "\<And>l. l \<noteq> k \<Longrightarrow> dget (terminal s') l = dget (terminal s) l \<and> tat s' l = tat s l"
  have "dget (terminal s) k = None"
    using assms(2) k by (auto simp: terminalOf_def split: option.splits)
  with other show ?thesis unfolding verdicts_kept_def by (metis option.distinct(1))
qed

lemma framed_finalize:
  assumes "finalize opn how s = Inr (u, s')"
  shows "framed s s'"
proof -
  from assms obtain s1 already where s1: "raise_token (leaderToken opn) s = Inr s1"
    and t: "terminalOf s1 opn = Inr already"
    and rest: "(case already of
       Some a \<Rightarrow> (if a = how then Inr ((), s1) else Inl (Rejection Terminal_reached (Some a)))
     | None \<Rightarrow> bindE (finish opn how s1) (\<lambda>s'. Inr ((), s'))) = Inr (u, s')"
    unfolding finalize_def by (elim bindE_InrE)
  have 1: "framed s s1" using raise_token_Inr [OF s1] by (auto intro: framed_same)
  show ?thesis
  proof (cases already)
    case (Some a)
    with rest 1 show ?thesis by (auto split: if_splits)
  next
    case None
    with rest have f: "finish opn how s1 = Inr s'" by (auto elim!: bindE_InrE)
    have "framed s1 s'"
      using finish_verdicts [OF f] t None finish_Inr [OF f] slots_shrink_from
      unfolding framed_def by metis
    with 1 show ?thesis by (rule framed_trans)
  qed
qed

lemma framed_drop_owned_slot: "drop_owned_slot who eps plane s = Inr s' \<Longrightarrow> framed s s'"
  by (auto simp: drop_owned_slot_def errE split: option.splits if_splits)

lemma finalizeCandidate_Inr:
  assumes "finalizeCandidate ids s = Inr s'"
  obtains "s' = s"
  | c eps arrived where "pendingActivation s = Some c" "sameTransitionName c ids"
    "declared_epochs s ids = Inr eps" "candidateArrived s c eps = Inr arrived"
    "s' = s\<lparr>lastActivated := (if arrived then Some c
         else if positions_reached s eps then None else lastActivated s),
       pendingActivation := None, pendingEpochs := None\<rparr>"
proof (cases "pendingActivation s")
  case None
  with assms that(1) show thesis by (simp add: finalizeCandidate_def)
next
  case (Some c)
  show thesis
  proof (cases "sameTransitionName c ids")
    case False
    with assms Some that(1) show thesis
      by (auto simp: finalizeCandidate_def sameTransitionName_def split: if_splits)
  next
    case True
    with assms Some obtain eps arrived where
      1: "declared_epochs s ids = Inr eps" "candidateArrived s c eps = Inr arrived"
      and 2: "s' = (if arrived then s\<lparr>lastActivated := Some c\<rparr>
                       else if positions_reached s eps then s\<lparr>lastActivated := None\<rparr>
                       else s)\<lparr>pendingActivation := None, pendingEpochs := None\<rparr>"
      by (auto simp: finalizeCandidate_def sameTransitionName_def Let_def elim!: bindE_InrE)
    show thesis
      by (rule that(2) [OF Some True 1]) (simp add: 2)
  qed
qed

lemma framed_finalizeCandidate: "finalizeCandidate ids s = Inr s' \<Longrightarrow> framed s s'"
  by (erule finalizeCandidate_Inr) (simp_all add: framed_same)

lemma framed_supersede_journal: "framed s (supersede_journal h s)"
  by (auto simp: supersede_journal_def intro: framed_same split: option.splits)

lemma framed_drop_holder: "framed s (drop_holder h s)"
  by (auto simp: drop_holder_def intro: framed_same split: option.splits)

lemma framed_supersede:
  assumes "supersede h s = Inr s'"
  shows "framed s s'"
proof -
  from assms obtain s1 s2 where
    1: "foldE (drop_owned_slot h (ao_epochs h)) (ao_planes h) s = Inr s1"
    and 2: "finalizeCandidate h (supersede_journal h s1) = Inr s2" and s': "s' = drop_holder h s2"
    unfolding supersede_def by (elim bindE_InrE) simp
  have "framed s s1" using 1 by (rule framed_foldE) (rule framed_drop_owned_slot)
  also have "framed s1 (supersede_journal h s1)" by (rule framed_supersede_journal)
  also have "framed (supersede_journal h s1) s2" using 2 by (rule framed_finalizeCandidate)
  also have "framed s2 s'" unfolding s' by (rule framed_drop_holder)
  finally show ?thesis .
qed

lemma framed_fence:
  assumes "fence t s = Inr (r, s')"
  shows "framed s s'"
proof -
  from assms obtain token s2 where
    2: "(case activeOperation (s\<lparr>maxLeaderToken := token\<rparr>) of
         None \<Rightarrow> Inr (s\<lparr>maxLeaderToken := token\<rparr>)
       | Some holder \<Rightarrow>
           bindE (big_rel (<) (leaderToken holder) token) (\<lambda>lower.
           if lower then supersede holder (s\<lparr>maxLeaderToken := token\<rparr>)
           else Inr (s\<lparr>maxLeaderToken := token\<rparr>))) = Inr s2" and s': "s' = s2"
    unfolding fence_def Let_def by (elim bindE_InrE) simp
  have "framed s (s\<lparr>maxLeaderToken := token\<rparr>)" by (simp add: framed_same)
  moreover have "framed (s\<lparr>maxLeaderToken := token\<rparr>) s2"
    using 2 by (auto split: option.splits if_splits elim!: bindE_InrE dest: framed_supersede)
  ultimately show ?thesis unfolding s' by (rule framed_trans)
qed

lemma framed_abort_stale_plane:
  assumes "abort_stale_plane stale mine plane s = Inr s'"
  shows "framed s s'"
proof -
  from assms obtain t k already where t: "tupleFor stale plane = Inr t" and k: "transitionKey t = Inr k"
    and a: "terminalOf s t = Inr already"
    and s': "s' = (if already = None \<and> k \<notin> set mine
          then s\<lparr>terminal := dset k T_aborted (terminal s)\<rparr> else s)"
    unfolding abort_stale_plane_def by (elim bindE_InrE) simp
  have "already = None \<Longrightarrow> dget (terminal s) k = None"
    using a k by (auto simp: terminalOf_def split: option.splits)
  then show ?thesis
    unfolding s' by (auto simp: framed_def slots_from_def slot_at_def verdicts_kept_def tat_def
        dict_simps dicts_wf_def)
qed

lemma framed_clear_stale_journal:
  assumes "clear_stale_journal opn opening s = Inr s'"
  shows "framed s s'"
proof -
  have ab: "framed s s'" if "abandon_stale opn stale s = Inr s'" for stale
  proof -
    from that obtain mine s1 h where
      "foldE (abort_stale_plane stale mine) (planesOf stale) s = Inr s1" "supersede h s1 = Inr s'"
      unfolding abandon_stale_def by (elim bindE_InrE)
    then show ?thesis
      using framed_foldE [of _ _ s s1] framed_abort_stale_plane framed_supersede framed_trans by metis
  qed
  from assms show ?thesis
    unfolding clear_stale_journal_def
    by (elim bindE_InrE) (auto split: option.splits if_splits dest: ab)
qed

lemma framed_open_journal: "open_journal opn opening s = Inr s' \<Longrightarrow> framed s s'"
  by (auto simp: open_journal_def errE intro: framed_same split: option.splits if_splits)

lemma reserveAll_Inr:
  assumes "reserveAll opn opening s = Inr (acks, s')"
  obtains tuples first rest s1 s2 where
    "mapE (tupleFor opn) (planesOf opn) = Inr tuples" "tuples = first # rest"
    "assertLeader s (leaderToken first) = Inr ()"
    "\<And>h. activeOperation s = Some h \<Longrightarrow> sameTransitionName h opn"
    "clear_stale_journal opn opening s = Inr s1" "mapS reserve_one tuples s1 = Inr (acks, s2)"
    "open_journal opn opening
       (s2\<lparr>activeOperation := Some (holder_for opn tuples (leaderToken first))\<rparr>) = Inr s'"
proof -
  from assms obtain tuples where t: "mapE (tupleFor opn) (planesOf opn) = Inr tuples"
    unfolding reserveAll_def by (elim bindE_InrE)
  with assms obtain first rest where f: "tuples = first # rest"
    unfolding reserveAll_def by (cases tuples) simp_all
  from assms t f obtain u where
    "(case activeOperation s of None \<Rightarrow> False | Some h \<Rightarrow> \<not> sameTransitionName h opn) = False"
    "assertLeader s (leaderToken first) = Inr u"
    and "bindE (clear_stale_journal opn opening s) (\<lambda>s1.
           bindE (mapS reserve_one tuples s1) (\<lambda>(acks, s2).
           bindE (open_journal opn opening
               (s2\<lparr>activeOperation := Some (holder_for opn tuples (leaderToken first))\<rparr>)) (\<lambda>s3.
           Inr (acks, s3)))) = Inr (acks, s')"
    by (auto simp: reserveAll_def simp del: mapS.simps elim!: bindE_InrE split: if_splits)
  then show thesis
    by (elim bindE_InrE) (auto simp del: mapS.simps elim!: bindE_InrE intro!: that [OF t f])
qed

end
