(* ===== verification/Agent_Machine.thy ===== *)
theory Agent_Machine
  imports Agent_Frame
begin

text \<open>
  The agent as a machine: every request it serves is a value, a step is one transaction
  (the method, the retention, the invariants), and a history is a chain of steps. The lemmas
  lift the frame relations to whole transactions.
\<close>

section \<open>Requests and steps\<close>

datatype request =
    R_fence string
  | R_reserve operation_tuple
  | R_stage operation_tuple
  | R_commit operation_tuple activation_evidence
  | R_abort operation_tuple
  | R_fail operation_tuple
  | R_release operation_tuple
  | R_health operation_tuple
  | R_reserveAll apply_operation "journal_opening option"
  | R_releaseHolderSlots apply_operation
  | R_recordPublishIntent publish_record
  | R_releaseStaleSlots apply_operation
  | R_closeJournal apply_operation apply_phase
  | R_releaseIdleHolder
  | R_reclaimOperation apply_operation
  | R_finishOperation apply_operation "plane list"
  | R_writeJournal journal_entry

definition quietly :: "'r action \<Rightarrow> agent_state \<Rightarrow> dp_error + agent_state" where
  "quietly act s = bindE (act s) (\<lambda>(_, s'). Inr s')"

fun run_request :: "request \<Rightarrow> agent_state \<Rightarrow> dp_error + agent_state" where
  "run_request (R_fence t) = quietly (fence t)"
| "run_request (R_reserve t) = quietly (reserve t)"
| "run_request (R_stage t) = quietly (stage t)"
| "run_request (R_commit t ev) = quietly (commit t ev)"
| "run_request (R_abort t) = quietly (abort t)"
| "run_request (R_fail t) = quietly (fail t)"
| "run_request (R_release t) = quietly (release t)"
| "run_request (R_health t) = quietly (applyHealth t)"
| "run_request (R_reserveAll opn opening) = quietly (reserveAll opn opening)"
| "run_request (R_releaseHolderSlots opn) = quietly (releaseHolderSlots opn)"
| "run_request (R_recordPublishIntent r) = quietly (recordPublishIntent r)"
| "run_request (R_releaseStaleSlots opn) = quietly (releaseStaleSlots opn)"
| "run_request (R_closeJournal opn how) = quietly (closeJournal opn how)"
| "run_request R_releaseIdleHolder = quietly releaseIdleHolder"
| "run_request (R_reclaimOperation opn) = quietly (reclaimOperation opn)"
| "run_request (R_finishOperation opn ps) = quietly (finishOperation opn ps)"
| "run_request (R_writeJournal e) = quietly (writeJournal e)"

definition request_action :: "request \<Rightarrow> unit action" where
  "request_action r s = bindE (run_request r s) (\<lambda>s'. Inr ((), s'))"

inductive agent_step :: "agent_state \<Rightarrow> request \<Rightarrow> agent_state \<Rightarrow> bool" where
  served: "transaction (request_action r) (Some s) = Inr (u, s') \<Longrightarrow> agent_step s r s'"

inductive_cases agent_stepE: "agent_step s r s'"
inductive_simps agent_step_iff: "agent_step s r s'"

inductive history :: "agent_state \<Rightarrow> request list \<Rightarrow> agent_state \<Rightarrow> bool" where
  history_Nil: "history s [] s"
| history_Cons: "agent_step s r s1 \<Longrightarrow> history s1 rs s2 \<Longrightarrow> history s (r # rs) s2"

inductive_cases history_NilE: "history s [] s'"
inductive_cases history_ConsE: "history s (r # rs) s'"

inductive reachable :: "agent_state \<Rightarrow> bool" where
  reachable_first: "transaction (request_action r) None = Inr (u, s) \<Longrightarrow> reachable s"
| reachable_step: "reachable s \<Longrightarrow> agent_step s r s' \<Longrightarrow> reachable s'"

lemma quietly_Inr: "quietly act s = Inr s' \<longleftrightarrow> (\<exists>r. act s = Inr (r, s'))"
  by (auto simp: quietly_def errE)

lemma agent_step_parts:
  "agent_step s r s' \<longleftrightarrow> (\<exists>next. run_request r s = Inr next \<and> prune next = Inr s' \<and>
     assertInvariants (Some s) s' = Inr ())"
  by (auto simp: agent_step_iff transaction_def request_action_def errE)

lemma history_induct_invariant:
  assumes "history s rs s'" "P s" "\<And>s r s'. r \<in> set rs \<Longrightarrow> agent_step s r s' \<Longrightarrow> P s \<Longrightarrow> P s'"
  shows "P s'"
  using assms by (induction rule: history.induct) (simp, metis list.set_intros)

section \<open>Frames of the requests\<close>

lemma slots_shrink_foldl:
  assumes "\<And>x s. framed s (f s x) \<and> planes (f s x) = planes s"
  shows "framed s (foldl f s xs)"
proof (induction xs arbitrary: s)
  case (Cons x xs)
  have "framed s (f s x)" using assms by blast
  also have "framed (f s x) (foldl f (f s x) xs)" by (rule Cons)
  finally show ?case by simp
qed simp

lemma reserveAll_framed:
  assumes "reserveAll opn opening s = Inr (acks, s')"
  shows "framed s s'"
proof (rule reserveAll_Inr [OF assms])
  fix tuples first s1 s2
  assume 1: "clear_stale_journal opn opening s = Inr s1" "mapS reserve_one tuples s1 = Inr (acks, s2)"
    "open_journal opn opening
       (s2\<lparr>activeOperation := Some (holder_for opn tuples (leaderToken first))\<rparr>) = Inr s'"
  have "framed s s1" using 1(1) by (rule framed_clear_stale_journal)
  also have "framed s1 s2" using 1(2) by (rule framed_mapS) (rule framed_reserve_one)
  also have "framed s2 (s2\<lparr>activeOperation := Some (holder_for opn tuples (leaderToken first))\<rparr>)"
    by (simp add: framed_same)
  also have "framed \<dots> s'" using 1(3) by (rule framed_open_journal)
  finally show ?thesis .
qed

lemma framed_release:
  assumes "release opn s = Inr (u, s')"
  shows "framed s s'"
proof -
  from assms obtain already :: "terminal_kind option" where
    r: "(if already \<noteq> None then Inr ((), s)
     else
       bindE (foldE (\<lambda>st s. bindE (step_key opn st) (\<lambda>k.
             Inr (s\<lparr>completed := ddel k (completed s)\<rparr>)))
           [Step_reserve, Step_stage, Step_commit, Step_health]
           (if ownsSlot s opn then drop_slot (on_plane opn) (target_epoch opn) s else s)) (\<lambda>s'.
       Inr ((), s'))) = Inr (u, s')"
    unfolding release_def by (elim bindE_InrE)
  show ?thesis
  proof (cases "already = None")
    case False
    with r show ?thesis by simp
  next
    case True
    with r have f: "foldE (\<lambda>st s. bindE (step_key opn st) (\<lambda>k.
             Inr (s\<lparr>completed := ddel k (completed s)\<rparr>)))
           [Step_reserve, Step_stage, Step_commit, Step_health]
           (if ownsSlot s opn then drop_slot (on_plane opn) (target_epoch opn) s else s) = Inr s'"
      by (auto simp del: foldE.simps elim!: bindE_InrE)
    have "framed s (if ownsSlot s opn then drop_slot (on_plane opn) (target_epoch opn) s else s)"
      by simp
    also have "framed \<dots> s'" using f by (rule framed_foldE) (auto simp: errE intro: framed_same)
    finally show ?thesis .
  qed
qed

lemma framed_releaseHolderSlots:
  assumes "releaseHolderSlots opn s = Inr (u, s')"
  shows "framed s s'"
proof -
  from assms obtain owner :: active_operation where
    r: "(if \<not> sameTransitionName owner opn then Inr ((), s)
     else
       bindE (normalizeNumeric (leaderToken opn)) (\<lambda>token.
       if leaderToken owner \<noteq> token then Inr ((), s)
       else
         bindE (foldE (drop_owned_slot opn (ao_epochs owner)) (ao_planes owner) s) (\<lambda>s1.
         Inr ((), (if activeOperation s \<noteq> None then s1\<lparr>activeOperation := None\<rparr> else s1)))))
      = Inr (u, s')"
    unfolding releaseHolderSlots_def by (elim bindE_InrE)
  have "framed s s1" if "foldE (drop_owned_slot opn (ao_epochs owner)) (ao_planes owner) s = Inr s1" for s1
    using that by (rule framed_foldE) (rule framed_drop_owned_slot)
  moreover have "framed s1 (s1\<lparr>activeOperation := None\<rparr>)" for s1 by (simp add: framed_same)
  ultimately show ?thesis using r
    by (auto split: if_splits elim!: bindE_InrE) (meson framed_trans)+
qed

lemma framed_releaseStaleSlots:
  assumes "releaseStaleSlots opn s = Inr (u, s')"
  shows "framed s s'"
proof (cases "activeOperation s = None")
  case False
  with assms show ?thesis by (simp add: releaseStaleSlots_def)
next
  case True
  with assms obtain s1 where f: "foldE (\<lambda>plane s.
            bindE (epoch_entry opn plane) (\<lambda>(_, epoch).
            bindE (ownsSlotOp (map_option slot_op (slot_at s plane epoch)) opn) (\<lambda>owns.
            Inr (if owns then drop_slot plane epoch s else s)))) (planesOfOperation opn) s = Inr s1"
    and s': "s' = s1"
    by (auto simp: releaseStaleSlots_def elim!: bindE_InrE)
  show ?thesis unfolding s' using f
    by (rule framed_foldE) (auto simp: errE split: if_splits)
qed

lemma framed_finishOperation:
  assumes "finishOperation opn ps s = Inr (u, s')"
  shows "framed s s'"
proof -
  from assms obtain s1 s2 where
    1: "finalizeCandidate opn s = Inr s1"
    and 2: "foldE (\<lambda>plane s. bindE (tupleFor opn plane) (\<lambda>t.
         Inr (if ownsSlot s t then drop_slot plane (target_epoch t) s else s))) ps s1 = Inr s2"
    and 3: "(case activeOperation s2 of
       None \<Rightarrow> Inr ((), s2)
     | Some holder \<Rightarrow>
         (if \<not> sameTransitionName holder opn then Inr ((), s2)
          else bindE (normalizeNumeric (leaderToken opn)) (\<lambda>token.
            Inr ((), (if leaderToken holder = token then s2\<lparr>activeOperation := None\<rparr> else s2)))))
        = Inr (u, s')"
    unfolding finishOperation_def by (elim bindE_InrE)
  have "framed s s1" using 1 by (rule framed_finalizeCandidate)
  also have "framed s1 s2" using 2 by (rule framed_foldE) (auto simp: errE split: if_splits)
  also have "framed s2 s'" using 3
    by (auto simp: errE intro: framed_same split: option.splits if_splits)
  finally show ?thesis .
qed

lemma framed_releaseIdleHolder:
  assumes "releaseIdleHolder s = Inr (b, s')"
  shows "framed s s'"
proof -
  have *: "framed s (foldl (\<lambda>s plane. case dget (ao_epochs h) plane of
             None \<Rightarrow> s | Some epoch \<Rightarrow> drop_slot plane epoch s) s ps)" for h ps
    by (rule slots_shrink_foldl) (auto split: option.splits)
  have "framed t (t\<lparr>activeOperation := None\<rparr>)" for t by (simp add: framed_same)
  with assms * show ?thesis
    by (auto simp: releaseIdleHolder_def split: option.splits if_splits intro: framed_trans)
qed

lemma framed_small:
  "recordPublishIntent r s = Inr (u, s') \<Longrightarrow> framed s s'"
  "closeJournal opn how s = Inr (u, s') \<Longrightarrow> framed s s'"
  "reclaimOperation opn s = Inr (b, s') \<Longrightarrow> framed s s'"
  "writeJournal e s = Inr (u, s') \<Longrightarrow> framed s s'"
  by (auto simp: recordPublishIntent_def closeJournal_def reclaimOperation_def writeJournal_def
      errE intro: framed_same split: option.splits if_splits)

section \<open>commit and health\<close>

text \<open>What a \<open>commit\<close> that is neither a replay nor already done has checked.\<close>

definition commit_checked :: "operation_tuple \<Rightarrow> activation_evidence \<Rightarrow> agent_state \<Rightarrow> bool" where
  "commit_checked opn ev s \<longleftrightarrow>
     terminalOf s opn = Inr None \<and> provesActivation (Some ev) (ot_targetGeneration opn) \<and>
     sameCoordinate (planes s (on_plane opn)) (ot_expectedCurrent opn) = Inr True \<and>
     (\<exists>slot. slot_at s (on_plane opn) (target_epoch opn) = Some slot \<and>
        canonical (slot_op slot) = canonical opn \<and>
        slot_stagedDigest slot = Some (ot_payloadDigest opn))"

lemma commit_Inr:
  assumes "commit opn ev s = Inr (ack, s')"
  obtains (replay) m where "s' = s\<lparr>maxLeaderToken := m\<rparr>" "ack_cached ack"
    "\<And>v. terminalOf s opn = Inr (Some v) \<Longrightarrow> v = T_activated"
  | (already_done) s1 m where "s1 = s\<lparr>maxLeaderToken := m\<rparr>" "terminalOf s opn = Inr None"
    "record_ack opn Step_commit (planes s (on_plane opn)) s1 = Inr (ack, s')"
    "sameCoordinate (planes s (on_plane opn)) (ot_target opn) = Inr True"
    "authoredBy (planes s (on_plane opn)) opn = Inr True"
  | (moved) s1 m where "s1 = s\<lparr>maxLeaderToken := m\<rparr>" "commit_checked opn ev s"
    "commit_move opn ev s1 = Inr (ack, s')"
proof -
  from assms obtain r s1 where adm: "admit opn Step_commit s = Inr (r, s1)"
    and rest: "(case r of
       Some ack \<Rightarrow> Inr (ack, s1)
     | None \<Rightarrow>
         (let current = planes s1 (on_plane opn) in
          bindE (sameCoordinate current (ot_target opn)) (\<lambda>there.
          bindE (if there \<and> ps_payloadDigest current = ot_payloadDigest opn
                 then authoredBy current opn else Inr False) (\<lambda>mine.
          if mine then record_ack opn Step_commit current s1
          else (case slot_at s1 (on_plane opn) (target_epoch opn) of
              None \<Rightarrow> Inl (reject Not_staged)
            | Some slot \<Rightarrow>
                (if canonical (slot_op slot) \<noteq> canonical opn then Inl (reject Slot_taken)
                 else bindE (sameCoordinate current (ot_expectedCurrent opn)) (\<lambda>expected.
                 if \<not> expected then Inl (reject Coordinate_mismatch)
                 else if slot_stagedDigest slot = None then Inl (reject Not_staged)
                 else if slot_stagedDigest slot \<noteq> Some (ot_payloadDigest opn)
                 then Inl (reject Digest_mismatch)
                 else if \<not> provesActivation (Some ev) (ot_targetGeneration opn)
                 then Inl (reject Not_activated)
                 else commit_move opn ev s1))))))) = Inr (ack, s')"
    unfolding commit_def by (elim bindE_InrE) auto
  obtain m where m: "s1 = s\<lparr>maxLeaderToken := m\<rparr>" using admit_facts(1) [OF adm] by blast
  note none = admit_facts(2) [OF adm, rule_format]
    and some = admit_facts(3) [OF adm, rule_format]
    and cached = admit_facts(4) [OF adm, rule_format]
  have "reservations s1 = reservations s" by (simp add: m)
  from slot_at_cong [OF this] have sl: "slot_at s1 = slot_at s" "planes s1 = planes s"
    by (auto simp: m)
  show thesis
  proof (cases r)
    case (Some a)
    with rest have "s' = s1" "ack = a" by simp_all
    with m cached [OF Some] some show thesis by (intro replay) simp_all
  next
    case None
    from rest [unfolded None option.case Let_def sl] obtain there mine where
      1: "sameCoordinate (planes s (on_plane opn)) (ot_target opn) = Inr there"
      "(if there \<and> ps_payloadDigest (planes s (on_plane opn)) = ot_payloadDigest opn
                 then authoredBy (planes s (on_plane opn)) opn else Inr False) = Inr mine"
      and 2: "(if mine then record_ack opn Step_commit (planes s (on_plane opn)) s1
          else (case slot_at s (on_plane opn) (target_epoch opn) of
              None \<Rightarrow> Inl (reject Not_staged)
            | Some slot \<Rightarrow>
                (if canonical (slot_op slot) \<noteq> canonical opn then Inl (reject Slot_taken)
                 else bindE (sameCoordinate (planes s (on_plane opn)) (ot_expectedCurrent opn)) (\<lambda>expected.
                 if \<not> expected then Inl (reject Coordinate_mismatch)
                 else if slot_stagedDigest slot = None then Inl (reject Not_staged)
                 else if slot_stagedDigest slot \<noteq> Some (ot_payloadDigest opn)
                 then Inl (reject Digest_mismatch)
                 else if \<not> provesActivation (Some ev) (ot_targetGeneration opn)
                 then Inl (reject Not_activated)
                 else commit_move opn ev s1)))) = Inr (ack, s')"
      by (elim bindE_InrE)
    show thesis
    proof (cases mine)
      case True
      with 1 have "there" "authoredBy (planes s (on_plane opn)) opn = Inr True" by (auto split: if_splits)
      with 1 2 True show thesis by (intro already_done [OF m none [OF None]]) simp_all
    next
      case False
      with 2 obtain slot where slot: "slot_at s (on_plane opn) (target_epoch opn) = Some slot"
        "canonical (slot_op slot) = canonical opn"
        by (auto split: option.splits if_splits)
      with 2 False have
        3: "sameCoordinate (planes s (on_plane opn)) (ot_expectedCurrent opn) = Inr True"
        "slot_stagedDigest slot = Some (ot_payloadDigest opn)"
        "provesActivation (Some ev) (ot_targetGeneration opn)" "commit_move opn ev s1 = Inr (ack, s')"
        by (auto elim!: bindE_InrE split: if_splits)
      with slot none [OF None] show thesis
        by (intro moved [OF m]) (auto simp: commit_checked_def)
    qed
  qed
qed

lemma commit_candidate_Inr:
  assumes "commit_candidate opn s = Inr s'"
  obtains d where "s' = s\<lparr>pendingEpochs := d, pendingActivation := Some \<lparr>leaderToken = leaderToken opn,
          operationId = operationId opn, transitionId = transitionId opn,
          pr_generation = ot_targetGeneration opn,
          pr_generationDigest = ot_generationDigest opn\<rparr>\<rparr>"
    "d = pendingEpochs s \<or> (\<exists>h. activeOperation s = Some h \<and>
       ownsSlotOp (Some h) opn = Inr True \<and> d = Some (ao_epochs h))"
proof -
  from assms obtain declared where
    d: "(case activeOperation s of
         None \<Rightarrow> Inr None
       | Some holder \<Rightarrow> bindE (ownsSlotOp (Some holder) opn) (\<lambda>owns.
           Inr (if owns then Some (ao_epochs holder) else None))) = Inr declared"
    and s': "s' = (case declared of None \<Rightarrow> s | Some es \<Rightarrow> s\<lparr>pendingEpochs := Some es\<rparr>)
        \<lparr>pendingActivation := Some \<lparr>leaderToken = leaderToken opn,
          operationId = operationId opn, transitionId = transitionId opn,
          pr_generation = ot_targetGeneration opn,
          pr_generationDigest = ot_generationDigest opn\<rparr>\<rparr>"
    unfolding commit_candidate_def Let_def by (elim bindE_InrE) simp
  show thesis
  proof (cases declared)
    case None
    with s' show thesis by (intro that [of "pendingEpochs s"]) simp_all
  next
    case (Some es)
    with d s' show thesis
      by (intro that [of "Some es"]) (auto elim!: bindE_InrE split: option.splits if_splits)
  qed
qed

lemma commit_move_Inr:
  assumes "commit_move opn ev s = Inr (ack, s')"
  obtains token s3 s4 where "normalizeNumeric (leaderToken opn) = Inr token"
    "commit_candidate opn ((set_plane (on_plane opn) (target_state opn (Some \<lparr>leaderToken = token,
           operationId = operationId opn, transitionId = transitionId opn\<rparr>)) s)
        \<lparr>activationEvidence := dset (evidence_key (on_plane opn) (target_epoch opn)) ev
           (activationEvidence s)\<rparr>) = Inr s3"
    "finish opn T_activated s3 = Inr s4"
    "record_ack opn Step_commit (planes s4 (on_plane opn)) s4 = Inr (ack, s')"
  using assms unfolding commit_move_def Let_def
  by (elim bindE_InrE) (simp add: set_plane_def)

lemma terminalOf_maxLeaderToken [simp]:
  "terminalOf (s\<lparr>maxLeaderToken := m\<rparr>) x = terminalOf s x"
  by (rule terminalOf_cong) simp

lemma commit_move_frame:
  assumes "commit_move opn ev s = Inr (ack, s')" "terminalOf s opn = Inr None"
  shows "slots_shrink s s' \<and> verdicts_kept s s' \<and> (dicts_wf s \<longrightarrow> dicts_wf s')"
proof (rule commit_move_Inr [OF assms(1)])
  fix token s3 s4
  let ?moved = "target_state opn (Some \<lparr>leaderToken = token,
           operationId = operationId opn, transitionId = transitionId opn\<rparr>)"
  let ?s1 = "(set_plane (on_plane opn) ?moved s)
        \<lparr>activationEvidence := dset (evidence_key (on_plane opn) (target_epoch opn)) ev
           (activationEvidence s)\<rparr>"
  assume c: "commit_candidate opn ?s1 = Inr s3" and f: "finish opn T_activated s3 = Inr s4"
    and r: "record_ack opn Step_commit (planes s4 (on_plane opn)) s4 = Inr (ack, s')"
  obtain d p where s3: "s3 = ?s1\<lparr>pendingEpochs := d, pendingActivation := p\<rparr>"
    by (rule commit_candidate_Inr [OF c]) blast
  have same: "reservations s3 = reservations s" "terminal s3 = terminal s" "terminalAt s3 = terminalAt s"
    by (simp_all add: s3 set_plane_def)
  then have "slots_shrink s s3" "verdicts_kept s s3" "terminalOf s3 opn = Inr None"
    using assms(2) terminalOf_cong [of s3 s opn] by auto
  moreover have "slots_shrink s3 s4" by (rule finish_Inr [OF f])
  moreover have "verdicts_kept s3 s4" using f \<open>terminalOf s3 opn = Inr None\<close> by (rule finish_verdicts)
  moreover have "slots_shrink s4 s'" "verdicts_kept s4 s'"
    by (rule record_ack_Inr [OF r], auto)+
  moreover have "dicts_wf s \<longrightarrow> dicts_wf s3" by (simp add: s3 set_plane_def dicts_wf_def)
  moreover have "dicts_wf s3 \<longrightarrow> dicts_wf s4" by (rule finish_Inr [OF f])
  moreover have "dicts_wf s4 \<longrightarrow> dicts_wf s'"
    using framed_record_ack [OF r] by (simp add: framed_def)
  ultimately show ?thesis by (meson slots_shrink_trans verdicts_kept_trans)
qed

lemma commit_frame:
  assumes "commit opn ev s = Inr (ack, s')"
  shows "slots_shrink s s' \<and> verdicts_kept s s' \<and> (dicts_wf s \<longrightarrow> dicts_wf s')"
proof (cases rule: commit_Inr [OF assms])
  case (1 m)
  then show ?thesis by (auto simp: dicts_wf_def)
next
  case (2 s1 m)
  then have "reservations s' = reservations s" "terminal s' = terminal s" "terminalAt s' = terminalAt s"
    by (auto elim!: record_ack_Inr)
  moreover have "dicts_wf s1 \<longrightarrow> dicts_wf s'"
    using framed_record_ack [OF 2(3)] by (simp add: framed_def)
  ultimately show ?thesis using 2(1) by (auto simp: dicts_wf_def)
next
  case (3 s1 m)
  then have "slots_shrink s1 s' \<and> verdicts_kept s1 s' \<and> (dicts_wf s1 \<longrightarrow> dicts_wf s')"
    by (intro commit_move_frame) (auto simp: commit_checked_def)
  moreover have "slots_shrink s s1" "verdicts_kept s s1" "dicts_wf s \<longrightarrow> dicts_wf s1"
    using 3 by (auto simp: dicts_wf_def)
  ultimately show ?thesis by (meson slots_shrink_trans verdicts_kept_trans)
qed

lemma applyHealth_frame:
  assumes "applyHealth opn s = Inr (ack, s')"
  shows "slots_shrink s s' \<and> verdicts_kept s s' \<and> (dicts_wf s \<longrightarrow> dicts_wf s')"
proof -
  from assms obtain r s1 where adm: "admit opn Step_health s = Inr (r, s1)"
    and rest: "r = None \<Longrightarrow> record_ack opn Step_health
        (planes (set_plane (on_plane opn) (target_state opn (ps_by (planes s1 (on_plane opn)))) s1) (on_plane opn))
        (set_plane (on_plane opn) (target_state opn (ps_by (planes s1 (on_plane opn)))) s1) = Inr (ack, s')" and cached: "r \<noteq> None \<Longrightarrow> s' = s1"
    unfolding applyHealth_def Let_def
    by (elim bindE_InrE) (auto elim!: bindE_InrE split: option.splits if_splits)
  have 1: "slots_shrink s s1" "verdicts_kept s s1" "dicts_wf s \<longrightarrow> dicts_wf s1"
    by (rule admit_Inr [OF adm], auto simp: dicts_wf_def)+
  show ?thesis
  proof (cases r)
    case None
    from rest [OF None] have "reservations s' = reservations s1 \<and> terminal s' = terminal s1 \<and>
        terminalAt s' = terminalAt s1"
      by (auto simp: set_plane_def elim!: record_ack_Inr)
    then have "slots_shrink s1 s'" "verdicts_kept s1 s'" by auto
    moreover have "dicts_wf s1 \<longrightarrow> dicts_wf s'"
    proof -
      have "dicts_wf s1 \<longrightarrow> dicts_wf (set_plane p st s1)" for p st
        by (simp add: set_plane_def dicts_wf_def)
      moreover have "framed (set_plane (on_plane opn) (target_state opn (ps_by (planes s1 (on_plane opn)))) s1) s'"
        using rest [OF None] by (rule framed_record_ack)
      ultimately show ?thesis unfolding framed_def by blast
    qed
    ultimately show ?thesis using 1 by (meson slots_shrink_trans verdicts_kept_trans)
  next
    case (Some a)
    with cached 1 show ?thesis by simp
  qed
qed

lemma run_request_framed:
  assumes "run_request r s = Inr s'" "\<forall>t ev. r \<noteq> R_commit t ev" "\<forall>t. r \<noteq> R_health t"
  shows "framed s s'"
  using assms
  by (cases r) (auto simp: quietly_Inr reserve_def abort_def fail_def
      dest: framed_fence framed_reserve_one framed_stage framed_finalize framed_release
        reserveAll_framed framed_releaseHolderSlots framed_releaseStaleSlots
        framed_releaseIdleHolder framed_finishOperation framed_small)

lemma run_request_frame:
  assumes "run_request r s = Inr s'"
  shows "verdicts_kept s s' \<and> (slots_from s s' \<or> slots_shrink s s') \<and>
    (dicts_wf s \<longrightarrow> dicts_wf s')"
proof (cases "(\<exists>t ev. r = R_commit t ev) \<or> (\<exists>t. r = R_health t)")
  case True
  with assms commit_frame applyHealth_frame show ?thesis by (auto simp: quietly_Inr)
next
  case False
  with run_request_framed [OF assms] show ?thesis by (simp add: framed_def)
qed

end
