(* ===== verification/Agent_History.thy ===== *)
theory Agent_History
  imports Agent_Machine
begin

text \<open>
  What holds across the whole life of an agent: the retention loses nothing that could come
  back, the invariants checked on each write make tokens and epochs monotone along every
  history, a verdict is final, and what is retained stays bounded.
\<close>

section \<open>Retention\<close>

text \<open>The fields no retention touches.\<close>

definition same_core :: "agent_state \<Rightarrow> agent_state \<Rightarrow> bool" where
  "same_core s s' \<longleftrightarrow> maxLeaderToken s' = maxLeaderToken s \<and> planes s' = planes s \<and>
     reservations s' = reservations s \<and> activeOperation s' = activeOperation s \<and>
     lastActivated s' = lastActivated s \<and> lastPublishIntent s' = lastPublishIntent s \<and>
     pendingActivation s' = pendingActivation s \<and> pendingEpochs s' = pendingEpochs s \<and>
     journal s' = journal s"

lemma same_core_refl [simp]: "same_core s s"
  by (simp add: same_core_def)

lemma same_core_trans [trans]: "same_core a b \<Longrightarrow> same_core b c \<Longrightarrow> same_core a c"
  by (simp add: same_core_def)

definition terminals_wf :: "agent_state \<Rightarrow> bool" where
  "terminals_wf s \<longleftrightarrow> distinct (dkeys (terminal s)) \<and>
     (case terminalAt s of None \<Rightarrow> True | Some at \<Rightarrow> distinct (dkeys at))"

lemma prune_terminal_loop_frame:
  "prune_terminal_loop live entries s = Inr s' \<Longrightarrow>
     same_core s s' \<and> completed s' = completed s \<and> activationEvidence s' = activationEvidence s \<and>
     (terminals_wf s \<longrightarrow> terminals_wf s')"
proof (induction live entries s rule: prune_terminal_loop.induct)
  case (2 live k meta rest s)
  let ?s1 = "s\<lparr>terminalAt := map_option (ddel k) (terminalAt s)\<rparr>"
  let ?s2 = "s\<lparr>terminal := ddel k (terminal s), terminalAt := map_option (ddel k) (terminalAt s)\<rparr>"
  have w: "terminals_wf s \<longrightarrow> terminals_wf ?s1" "terminals_wf s \<longrightarrow> terminals_wf ?s2"
    by (auto simp: terminals_wf_def split: option.splits)
  have c: "same_core s ?s1" "same_core s ?s2" by (simp_all add: same_core_def)
  show ?case
  proof (cases "dget (terminal s) k = None")
    case True
    with 2(4) have "prune_terminal_loop live rest ?s1 = Inr s'" by simp
    from 2(1) [OF True this] w c show ?thesis using same_core_trans by auto
  next
    case False
    with 2(4) obtain prunable where p: "terminalPrunable (Some meta) s k live = Inr prunable"
      and loop: "(if \<not> prunable then prune_terminal_loop live rest s
        else prune_terminal_loop live rest ?s2) = Inr s'"
      by (auto elim!: bindE_InrE)
    show ?thesis
    proof (cases prunable)
      case True
      with loop have "prune_terminal_loop live rest ?s2 = Inr s'" by simp
      with 2(3) [OF False] True w c show ?thesis using same_core_trans by auto
    next
      case False
      with loop 2(2) [OF \<open>dget (terminal s) k \<noteq> None\<close>] show ?thesis by simp
    qed
  qed
qed simp

lemma drop_none:
  "(if d = [] then Inr s else Inr (s\<lparr>completed := filter (\<lambda>e. f e \<notin> set d) (completed s)\<rparr>))
     = (Inr s' :: dp_error + agent_state) \<Longrightarrow>
   s' = s\<lparr>completed := filter (\<lambda>e. f e \<notin> set d) (completed s)\<rparr>"
  by (cases "d = []") auto

lemma pruneCompleted_cases:
  assumes "pruneCompleted s = Inr s'"
  obtains "s' = s" "completed s = []"
  | live drp where "live_names s = Inr live"
    "drp = take (length (transition_order s) - COMPLETED_RETENTION)
       (filter (\<lambda>t. t \<notin> set live) (transition_order s))"
    "s' = s\<lparr>completed := filter (\<lambda>e. entry_transition e \<notin> set drp) (completed s)\<rparr>"
proof (cases "completed s = []")
  case True
  with assms that(1) show thesis by (simp add: pruneCompleted_def)
next
  case False
  with assms obtain live where l: "live_names s = Inr live"
    by (auto simp: pruneCompleted_def elim!: bindE_InrE)
  let ?drp = "take (length (transition_order s) - COMPLETED_RETENTION)
       (filter (\<lambda>t. t \<notin> set live) (transition_order s))"
  have "(if ?drp = [] then Inr s
      else Inr (s\<lparr>completed := filter (\<lambda>e. entry_transition e \<notin> set ?drp) (completed s)\<rparr>))
      = (Inr s' :: dp_error + agent_state)"
    using assms False l by (simp only: pruneCompleted_def Let_def if_False bindE_simps)
  then have "s' = s\<lparr>completed := filter (\<lambda>e. entry_transition e \<notin> set ?drp) (completed s)\<rparr>"
    by (rule drop_none)
  with that(2) [OF l refl] show thesis by blast
qed

lemma prune_parts:
  assumes "prune s = Inr s'"
  obtains s1 where "pruneTerminal (pruneEvidence s) = Inr s1" "pruneCompleted s1 = Inr s'"
    "same_core s s1" "same_core s1 s'" "terminal s' = terminal s1" "terminalAt s' = terminalAt s1"
    "activationEvidence s' = activationEvidence (pruneEvidence s)"
proof -
  from assms obtain s1 where 1: "pruneTerminal (pruneEvidence s) = Inr s1" and 2: "pruneCompleted s1 = Inr s'"
    unfolding prune_def by (elim bindE_InrE)
  have "same_core s (pruneEvidence s)" by (simp add: pruneEvidence_def Let_def same_core_def)
  moreover have t: "same_core (pruneEvidence s) s1 \<and> activationEvidence s1 = activationEvidence (pruneEvidence s)"
  proof (cases "terminalAt (pruneEvidence s)")
    case None
    with 1 show ?thesis by (simp add: pruneTerminal_def)
  next
    case (Some at)
    with 1 show ?thesis
      by (auto simp: pruneTerminal_def dest: prune_terminal_loop_frame elim!: bindE_InrE)
  qed
  moreover have "same_core s1 s'" "terminal s' = terminal s1" "terminalAt s' = terminalAt s1"
    "activationEvidence s' = activationEvidence s1"
    by (rule pruneCompleted_cases [OF 2], simp_all add: same_core_def)+
  ultimately show thesis using that [OF 1 2] same_core_trans by metis
qed

lemma prune_same_core: "prune s = Inr s' \<Longrightarrow> same_core s s'"
  by (erule prune_parts) (rule same_core_trans)

text \<open>A verdict that may be forgotten: the plane has passed its epoch and no slot is left there.\<close>

definition gone :: "terminal_meta \<Rightarrow> agent_state \<Rightarrow> bool" where
  "gone m s \<longleftrightarrow> behind (tm_epoch m) (planes s (tm_plane m)) \<and>
     slot_at s (tm_plane m) (tm_epoch m) = None"

definition verdicts_or_gone :: "agent_state \<Rightarrow> agent_state \<Rightarrow> bool" where
  "verdicts_or_gone s s' \<longleftrightarrow> (\<forall>k v. dget (terminal s) k = Some v \<longrightarrow>
     (dget (terminal s') k = Some v \<and> tat s' k = tat s k) \<or>
     (\<exists>m. tat s k = Some m \<and> gone m s))"

lemma terminalPrunable_gone:
  "terminalPrunable (Some m) s k live = Inr True \<Longrightarrow> gone m s"
  by (auto simp: terminalPrunable_def gone_def behind_def big_rel_def errE split: if_splits)

lemma tat_ddel: "tat (s\<lparr>terminal := t, terminalAt := map_option (ddel k) (terminalAt s)\<rparr>) l =
    (if l = k then None else tat s l)"
  by (auto simp: tat_def dict_simps split: option.splits)

lemma tat_ddel': "tat (s\<lparr>terminalAt := map_option (ddel k) (terminalAt s)\<rparr>) l =
    (if l = k then None else tat s l)"
  by (auto simp: tat_def dict_simps split: option.splits)

lemma gone_cong: "planes s' = planes s \<Longrightarrow> reservations s' = reservations s \<Longrightarrow> gone m s' = gone m s"
  by (simp add: gone_def slot_at_def)

lemma prune_terminal_loop_verdicts:
  assumes "prune_terminal_loop live entries s = Inr s'"
    "distinct (dkeys entries)" "\<forall>(k, m)\<in>set entries. tat s k = Some m"
  shows "verdicts_or_gone s s'"
  using assms
proof (induction live entries s rule: prune_terminal_loop.induct)
  case (1 live s)
  then show ?case by (simp add: verdicts_or_gone_def)
next
  case (2 live k meta rest s)
  let ?s1 = "s\<lparr>terminalAt := map_option (ddel k) (terminalAt s)\<rparr>"
  let ?s2 = "s\<lparr>terminal := ddel k (terminal s), terminalAt := map_option (ddel k) (terminalAt s)\<rparr>"
  have k: "k \<notin> set (dkeys rest)" "distinct (dkeys rest)" "tat s k = Some meta"
    "\<forall>(k, m)\<in>set rest. tat s k = Some m"
    using 2(5,6) by auto
  have nk: "l \<noteq> k" if "(l, m) \<in> set rest" for l m using that k(1) by force
  show ?case
  proof (cases "dget (terminal s) k = None")
    case True
    have "\<forall>(k, m)\<in>set rest. tat ?s1 k = Some m" using k(4) nk by (auto simp: tat_ddel')
    with 2 True k have "verdicts_or_gone ?s1 s'" by auto
    then show ?thesis
      using True by (auto simp: verdicts_or_gone_def tat_ddel' gone_cong [of ?s1 s]) (metis option.distinct(1))+
  next
    case False
    with 2(4) obtain prunable where p: "terminalPrunable (Some meta) s k live = Inr prunable"
      and loop: "(if \<not> prunable then prune_terminal_loop live rest s
        else prune_terminal_loop live rest ?s2) = Inr s'"
      by (auto elim!: bindE_InrE)
    show ?thesis
    proof (cases prunable)
      case False
      with loop p 2(2) \<open>dget (terminal s) k \<noteq> None\<close> k show ?thesis by auto
    next
      case True
      have g: "gone meta s" using p True terminalPrunable_gone by simp
      have "\<forall>(k, m)\<in>set rest. tat ?s2 k = Some m" using k(4) nk by (auto simp: tat_ddel)
      with 2(3) loop p True \<open>dget (terminal s) k \<noteq> None\<close> k have v: "verdicts_or_gone ?s2 s'" by auto
      show ?thesis unfolding verdicts_or_gone_def
      proof (intro allI impI)
        fix l v assume l: "dget (terminal s) l = Some v"
        show "(dget (terminal s') l = Some v \<and> tat s' l = tat s l) \<or> (\<exists>m. tat s l = Some m \<and> gone m s)"
        proof (cases "l = k")
          case True
          with k(3) g show ?thesis by blast
        next
          case False
          with l have "dget (terminal ?s2) l = Some v" by (simp add: dict_simps)
          with v have "(dget (terminal s') l = Some v \<and> tat s' l = tat ?s2 l) \<or>
              (\<exists>m. tat ?s2 l = Some m \<and> gone m ?s2)"
            unfolding verdicts_or_gone_def by blast
          with False show ?thesis by (simp add: tat_ddel gone_cong [of ?s2 s])
        qed
      qed
    qed
  qed
qed

lemma prune_verdicts:
  assumes "prune s = Inr s'" "dicts_wf s"
  shows "verdicts_or_gone s s'"
proof (rule prune_parts [OF assms(1)])
  fix s1
  assume 1: "pruneTerminal (pruneEvidence s) = Inr s1"
    and s': "terminal s' = terminal s1" "terminalAt s' = terminalAt s1"
  let ?e = "pruneEvidence s"
  have e: "terminal ?e = terminal s" "terminalAt ?e = terminalAt s" "planes ?e = planes s"
    "reservations ?e = reservations s"
    by (simp_all add: pruneEvidence_def Let_def)
  have v: "verdicts_or_gone ?e s1"
  proof (cases "terminalAt ?e")
    case None
    with 1 show ?thesis by (simp add: pruneTerminal_def verdicts_or_gone_def)
  next
    case (Some at)
    with 1 obtain live where l: "prune_terminal_loop live at ?e = Inr s1"
      by (auto simp: pruneTerminal_def elim!: bindE_InrE)
    have d: "distinct (dkeys at)" using assms(2) Some e by (simp add: dicts_wf_def)
    with Some have "\<forall>(k, m)\<in>set at. tat ?e k = Some m" by (auto simp: tat_def)
    with l d show ?thesis by (rule prune_terminal_loop_verdicts)
  qed
  have t: "tat s' k = tat s1 k" "tat ?e k = tat s k" for k using s' e by (simp_all add: tat_def)
  have g: "gone m ?e = gone m s" for m by (rule gone_cong) (simp_all add: e)
  show ?thesis
    using v unfolding verdicts_or_gone_def s'(1) e(1) t g .
qed

lemma dicts_wf_prune:
  assumes "prune s = Inr s'" "dicts_wf s"
  shows "dicts_wf s'"
proof (rule prune_parts [OF assms(1)])
  fix s1
  assume 1: "pruneTerminal (pruneEvidence s) = Inr s1" and 2: "pruneCompleted s1 = Inr s'"
  have ev: "distinct (dkeys (drop_keys ks d))" if "distinct (dkeys d)" for ks and d :: "(string, activation_evidence) dict"
    unfolding drop_keys_def using that by (induction ks arbitrary: d) simp_all
  have e: "dicts_wf (pruneEvidence s)"
    using assms(2) by (auto simp: pruneEvidence_def Let_def dicts_wf_def intro!: ev)
  have iff: "dicts_wf t \<longleftrightarrow> (\<forall>p. distinct (dkeys (reservations t p))) \<and>
      distinct (dkeys (completed t)) \<and> distinct (dkeys (activationEvidence t)) \<and> terminals_wf t" for t
    by (auto simp: dicts_wf_def terminals_wf_def split: option.splits)
  have "s1 = pruneEvidence s \<or> (\<exists>live at. prune_terminal_loop live at (pruneEvidence s) = Inr s1)"
    using 1 by (auto simp: pruneTerminal_def split: option.splits elim!: bindE_InrE)
  then have s1: "dicts_wf s1"
  proof
    assume "\<exists>live at. prune_terminal_loop live at (pruneEvidence s) = Inr s1"
    then have "same_core (pruneEvidence s) s1 \<and> completed s1 = completed (pruneEvidence s) \<and>
        activationEvidence s1 = activationEvidence (pruneEvidence s) \<and>
        (terminals_wf (pruneEvidence s) \<longrightarrow> terminals_wf s1)"
      using prune_terminal_loop_frame by blast
    with e show ?thesis unfolding iff same_core_def by simp
  qed (use e in simp)
  show ?thesis
    by (rule pruneCompleted_cases [OF 2]) (use s1 in \<open>auto simp: dicts_wf_def distinct_map_filter\<close>)
qed


section \<open>What the invariants give\<close>

definition not_back :: "string \<Rightarrow> string \<Rightarrow> bool" where
  "not_back a b \<longleftrightarrow> (\<exists>x y. BigInt a = Inr x \<and> BigInt b = Inr y \<and> x \<le> y)"

definition forward :: "agent_state \<Rightarrow> agent_state \<Rightarrow> bool" where
  "forward s s' \<longleftrightarrow> not_back (maxLeaderToken s) (maxLeaderToken s') \<and>
     (\<forall>p. not_back (activationEpoch (planes s p)) (activationEpoch (planes s' p)))"

lemma not_back_trans: "not_back a b \<Longrightarrow> not_back b c \<Longrightarrow> not_back a c"
  by (force simp: not_back_def)

lemma forward_trans [trans]: "forward a b \<Longrightarrow> forward b c \<Longrightarrow> forward a c"
  by (auto simp: forward_def intro: not_back_trans)

lemma forE_Inr: "forE f xs = Inr u \<longleftrightarrow> (\<forall>x\<in>set xs. f x = Inr ())"
  by (induction xs) (auto simp: errE)

lemma assertInvariants_forward:
  assumes "assertInvariants (Some s) s' = Inr ()"
  shows "forward s s'"
proof -
  from assms have c: "check_I3 s s' = Inr ()"
    by (auto simp: assertInvariants_def errE)
  then have "not_back (maxLeaderToken s) (maxLeaderToken s')"
    by (auto simp: check_I3_def big_rel_def errE not_back_def)
  moreover have "not_back (activationEpoch (planes s p)) (activationEpoch (planes s' p))" for p
    using c by (auto simp: check_I3_def errE forE_Inr not_back_def linorder_not_less)
  ultimately show ?thesis by (simp add: forward_def)
qed

lemma behind_forward:
  assumes "behind e (planes s p)" "forward s s'"
  shows "behind e (planes s' p)"
proof -
  have "not_back (activationEpoch (planes s p)) (activationEpoch (planes s' p))"
    using assms(2) by (simp add: forward_def)
  with assms(1) show ?thesis unfolding behind_def not_back_def
    by (metis dual_order.strict_trans1 sum.inject(2))
qed

lemma agent_step_forward: "agent_step s r s' \<Longrightarrow> forward s s'"
  by (auto simp: agent_step_parts intro: assertInvariants_forward)

section \<open>Verdicts are final\<close>

text \<open>
  An operation is dead on its plane when a negative verdict stands for it, or the plane has
  passed its target and no slot is left there.
\<close>

definition dead :: "operation_tuple \<Rightarrow> agent_state \<Rightarrow> bool" where
  "dead opn s \<longleftrightarrow>
     (\<exists>k v. transitionKey opn = Inr k \<and> dget (terminal s) k = Some v \<and>
        (v = T_aborted \<or> v = T_failed) \<and>
        tat s k = Some \<lparr>tm_plane = on_plane opn, tm_epoch = target_epoch opn\<rparr>) \<or>
     (behind (target_epoch opn) (planes s (on_plane opn)) \<and>
        slot_at s (on_plane opn) (target_epoch opn) = None)"

lemma not_ahead_behind: "behind e c \<Longrightarrow> \<not> ahead e c"
  by (auto simp: ahead_def behind_def)

lemma slot_stays_away:
  assumes "slots_from s s' \<or> slots_shrink s s'" "behind e (planes s p)" "slot_at s p e = None"
  shows "slot_at s' p e = None"
  using assms not_ahead_behind by (fastforce simp: slots_from_def slots_shrink_def)

lemma dead_step:
  assumes "agent_step s r s'" "dead opn s" "dicts_wf s"
  shows "dead opn s'"
proof -
  from assms(1) obtain nxt where run: "run_request r s = Inr nxt" and pr: "prune nxt = Inr s'"
    by (auto simp: agent_step_parts)
  have fwd: "forward s s'" using assms(1) by (rule agent_step_forward)
  note fr = run_request_frame [OF run]
  have core: "planes s' = planes nxt" "\<And>p e. slot_at s' p e = slot_at nxt p e"
    using prune_same_core [OF pr] by (simp_all add: same_core_def slot_at_def)
  let ?p = "on_plane opn" and ?e = "target_epoch opn"
  from assms(2) consider
    (verdict) k v where "transitionKey opn = Inr k" "dget (terminal s) k = Some v"
      "v = T_aborted \<or> v = T_failed" "tat s k = Some \<lparr>tm_plane = ?p, tm_epoch = ?e\<rparr>"
    | (passed) "behind ?e (planes s ?p)" "slot_at s ?p ?e = None"
    unfolding dead_def by (elim disjE exE conjE) simp_all
  then show ?thesis
  proof cases
    case (verdict k v)
    then have n: "dget (terminal nxt) k = Some v" "tat nxt k = Some \<lparr>tm_plane = ?p, tm_epoch = ?e\<rparr>"
      using fr by (auto simp: verdicts_kept_def)
    have "verdicts_or_gone nxt s'" using prune_verdicts [OF pr] fr assms(3) by blast
    with n consider "dget (terminal s') k = Some v" "tat s' k = tat nxt k"
      | "gone \<lparr>tm_plane = ?p, tm_epoch = ?e\<rparr> nxt"
      unfolding verdicts_or_gone_def by (metis option.inject)
    then show ?thesis
    proof cases
      case 1
      show ?thesis unfolding dead_def
      proof (rule disjI1, rule exI [of _ k], rule exI [of _ v], intro conjI)
        show "transitionKey opn = Inr k" by (rule verdict(1))
        show "dget (terminal s') k = Some v" by (rule 1(1))
        show "v = T_aborted \<or> v = T_failed" by (rule verdict(3))
        show "tat s' k = Some \<lparr>tm_plane = ?p, tm_epoch = ?e\<rparr>" unfolding 1(2) by (rule n(2))
      qed
    next
      case 2
      with core show ?thesis unfolding dead_def gone_def by simp
    qed
  next
    case passed
    have "slots_from s nxt \<or> slots_shrink s nxt" using fr by (elim conjE)
    then have "slot_at nxt ?p ?e = None" using passed by (rule slot_stays_away)
    moreover have "behind ?e (planes s' ?p)" using passed(1) fwd by (rule behind_forward)
    ultimately show ?thesis using core unfolding dead_def by simp
  qed
qed

lemma dicts_wf_step: "agent_step s r s' \<Longrightarrow> dicts_wf s \<Longrightarrow> dicts_wf s'"
  using run_request_frame dicts_wf_prune by (auto simp: agent_step_parts)

lemma dicts_wf_initial: "dicts_wf initial"
  by (simp add: dicts_wf_def initial_def)

lemma reachable_dicts_wf: "reachable s \<Longrightarrow> dicts_wf s"
proof (induction rule: reachable.induct)
  case (reachable_first r u s)
  then obtain nxt where "run_request r initial = Inr nxt" "prune nxt = Inr s"
    by (auto simp: transaction_def request_action_def errE)
  then show ?case using run_request_frame dicts_wf_prune dicts_wf_initial by blast
next
  case (reachable_step s r s')
  then show ?case using dicts_wf_step by blast
qed

lemma history_dead:
  assumes "history s rs s'" "dead opn s" "dicts_wf s"
  shows "dead opn s'"
  using assms
proof (induction rule: history.induct)
  case (history_Cons s r s1 rs s2)
  then show ?case using dead_step dicts_wf_step by blast
qed

lemma sameCoordinate_not_behind:
  "sameCoordinate c d = Inr True \<Longrightarrow> \<not> behind (activationEpoch d) c"
  by (auto simp: sameCoordinate_def big_rel_def errE behind_def split: if_splits)

lemma commit_dead:
  assumes "commit opn ev s = Inr (ack, s')" "dead opn s"
  shows "ack_cached ack \<and> planes s' = planes s"
proof -
  have v: "terminalOf s opn = Inr (Some v)" "v = T_aborted \<or> v = T_failed"
    if "transitionKey opn = Inr k" "dget (terminal s) k = Some v" "v = T_aborted \<or> v = T_failed" for k v
    using that by (simp_all add: terminalOf_def)
  show ?thesis
  proof (cases rule: commit_Inr [OF assms(1)])
    case (1 m)
    then show ?thesis by simp
  next
    case (2 s1 m)
    with assms(2) v show ?thesis
      unfolding dead_def using sameCoordinate_not_behind by fastforce
  next
    case (3 s1 m)
    with assms(2) v show ?thesis
      unfolding dead_def commit_checked_def by fastforce
  qed
qed

section \<open>Running a list of requests\<close>

fun play :: "request list \<Rightarrow> agent_state option \<Rightarrow> dp_error + agent_state" where
  "play [] st = (case st of None \<Rightarrow> Inr initial | Some s \<Rightarrow> Inr s)"
| "play (r # rs) st = bindE (transaction (request_action r) st) (\<lambda>(_, s). play rs (Some s))"

lemma play_history: "play rs (Some s) = Inr s' \<longleftrightarrow> history s rs s'"
proof (induction rs arbitrary: s)
  case Nil
  then show ?case by (auto intro: history_Nil elim: history_NilE)
next
  case (Cons r rs)
  have "play (r # rs) (Some s) = Inr s' \<longleftrightarrow> (\<exists>s1. agent_step s r s1 \<and> play rs (Some s1) = Inr s')"
    by (auto simp: errE agent_step_iff)
  also have "\<dots> \<longleftrightarrow> history s (r # rs) s'"
    unfolding Cons.IH by (auto intro: history_Cons elim: history_ConsE)
  finally show ?case .
qed

lemma history_reachable: "history s rs s' \<Longrightarrow> reachable s \<Longrightarrow> reachable s'"
  by (induction rule: history.induct) (auto intro: reachable_step)

lemma play_reachable: "play (r # rs) None = Inr s \<Longrightarrow> reachable s"
  using history_reachable reachable_first
  by (fastforce simp: errE play_history)

lemma finalize_dead:
  assumes "finalize opn how s = Inr (u, s')" "terminalOf s opn = Inr None" "how = T_aborted \<or> how = T_failed"
  shows "\<exists>k. transitionKey opn = Inr k \<and> dget (terminal s') k = Some how \<and>
     tat s' k = Some \<lparr>tm_plane = on_plane opn, tm_epoch = target_epoch opn\<rparr>"
proof -
  from assms(1) obtain s1 already where s1: "raise_token (leaderToken opn) s = Inr s1"
    and t: "terminalOf s1 opn = Inr already"
    and rest: "(case already of
       Some a \<Rightarrow> (if a = how then Inr ((), s1) else Inl (Rejection Terminal_reached (Some a)))
     | None \<Rightarrow> bindE (finish opn how s1) (\<lambda>s'. Inr ((), s'))) = Inr (u, s')"
    unfolding finalize_def by (elim bindE_InrE)
  have "terminal s1 = terminal s" using raise_token_Inr [OF s1] by auto
  then have "already = None" using t assms(2) terminalOf_cong [of s1 s opn] by simp
  with rest have "finish opn how s1 = Inr s'" by (auto elim!: bindE_InrE)
  then show ?thesis by (rule finish_Inr) blast
qed

lemma negative_verdict_dead:
  assumes "agent_step s r s'" "r = R_abort opn \<or> r = R_fail opn" "terminalOf s opn = Inr None"
    and "dicts_wf s"
  shows "dead opn s'"
proof -
  from assms(1) obtain nxt where run: "run_request r s = Inr nxt" and pr: "prune nxt = Inr s'"
    by (auto simp: agent_step_parts)
  from run assms(2) obtain how where how: "finalize opn how s = Inr ((), nxt)" "how = T_aborted \<or> how = T_failed"
    by (auto simp: quietly_Inr abort_def fail_def)
  from finalize_dead [OF how(1) assms(3) how(2)] obtain k where
    k: "transitionKey opn = Inr k" "dget (terminal nxt) k = Some how"
    "tat nxt k = Some \<lparr>tm_plane = on_plane opn, tm_epoch = target_epoch opn\<rparr>"
    by blast
  have v: "verdicts_or_gone nxt s'"
    using prune_verdicts [OF pr] run_request_frame [OF run] assms(4) by blast
  have core: "planes s' = planes nxt" "reservations s' = reservations nxt"
    using prune_same_core [OF pr] by (simp_all add: same_core_def)
  show ?thesis
  proof (cases "dget (terminal s') k = Some how \<and> tat s' k = tat nxt k")
    case True
    with k how(2) show ?thesis unfolding dead_def by auto
  next
    case False
    with v k have "gone \<lparr>tm_plane = on_plane opn, tm_epoch = target_epoch opn\<rparr> nxt"
      unfolding verdicts_or_gone_def by force
    with core show ?thesis by (simp add: dead_def gone_def slot_at_def)
  qed
qed

text \<open>C2: A negative verdict is final: once an operation was aborted or failed on its plane, no later
  history of the agent, however long and whatever it forgets, lets that operation move the
  plane; at most an acknowledgement given before is repeated.\<close>

theorem negative_verdict_final:
  assumes "reachable s" "terminalOf s opn = Inr None"
    and "agent_step s r s1" "r = R_abort opn \<or> r = R_fail opn"
    and "history s1 rs s2"
  shows "\<not> (\<exists>ev ack s3. commit opn ev s2 = Inr (ack, s3) \<and>
     \<not> (ack_cached ack \<and> planes s3 = planes s2))"
proof -
  have wf: "dicts_wf s" using assms(1) by (rule reachable_dicts_wf)
  have "dead opn s1" using assms(3,4,2) wf by (rule negative_verdict_dead)
  then have "dead opn s2" using history_dead [OF assms(5)] dicts_wf_step [OF assms(3) wf] by blast
  then show ?thesis using commit_dead by blast
qed

text \<open>C6: The leader token and the activation epochs only go forward: along every history neither the
  highest token nor the epoch of any plane ever decreases.\<close>

theorem history_forward:
  assumes "history s rs s'"
  shows "s' = s \<or> forward s s'"
  using assms
proof (induction rule: history.induct)
  case (history_Cons s r s1 rs s2)
  have "forward s s1" using history_Cons(1) by (rule agent_step_forward)
  with history_Cons.IH show ?case using forward_trans by blast
qed simp

end
