(* ===== verification/Apply_Runner.thy ===== *)
theory Apply_Runner
  imports Agent_History
begin

text \<open>
  The apply runner, \<^verbatim>\<open>src/src/dp/apply.ts\<close>: the state machine that drives one operation from its
  reservation to its terminal phase, over the agent (its durable state) and the effects on the
  outside world (publish a generation, signal a reload, observe what is published and what
  accepts).

  The world is an argument: a state of any type, the effects as functions that may return,
  throw or exceed their budget, and \<open>env_turn\<close>, what everybody else does to the store and to
  the world before each of the runner's transactions completes. An effect may change the store
  as well, as it is awaited and others run meanwhile.
\<close>

section \<open>The runner's monad\<close>

text \<open>What the runner can throw: an error of the agent (or of a lease, which asks the agent), an
  effect over its budget, an effect that threw something else, and the hard limit.\<close>

datatype run_error =
    Agent_error dp_error
  | Effect_timeout string
  | Effect_error
  | Hard_limit

type_synonym 'w sys = "agent_state option \<times> 'w"

type_synonym ('w, 'a) act = "'w sys \<Rightarrow> (run_error + 'a) \<times> 'w sys"

definition returnA :: "'a \<Rightarrow> ('w, 'a) act" where
  "returnA x y = (Inr x, y)"

definition throwA :: "run_error \<Rightarrow> ('w, 'a) act" where
  "throwA e y = (Inl e, y)"

definition bindA :: "('w, 'a) act \<Rightarrow> ('a \<Rightarrow> ('w, 'b) act) \<Rightarrow> ('w, 'b) act" where
  "bindA m f y = (case m y of (Inl e, y') \<Rightarrow> (Inl e, y') | (Inr x, y') \<Rightarrow> f x y')"

definition catchA :: "('w, 'a) act \<Rightarrow> (run_error \<Rightarrow> ('w, 'a) act) \<Rightarrow> ('w, 'a) act" where
  "catchA m h y = (case m y of (Inl e, y') \<Rightarrow> h e y' | (Inr x, y') \<Rightarrow> (Inr x, y'))"

text \<open>A loop of awaits that threads a value.\<close>

fun foldA :: "('a \<Rightarrow> 'b \<Rightarrow> ('w, 'b) act) \<Rightarrow> 'a list \<Rightarrow> 'b \<Rightarrow> ('w, 'b) act" where
  "foldA f [] b = returnA b"
| "foldA f (x # xs) b = bindA (f x b) (foldA f xs)"

section \<open>Effects and the agent\<close>

record preflight_result =
  pf_ok :: bool
  pf_reason :: "string option"
  pf_configTestPassed :: "bool option"
  pf_configTestErrored :: "bool option"

text \<open>What an awaited effect may do: return, throw a rejection of the agent, throw anything else,
  or let its budget pass.\<close>

datatype 'a outcome = Returned 'a | Refused dp_error | Threw | Overdue

text \<open>\<open>ApplyLease\<close>: the token and the question whether the operation still owns the apply path,
  asked of the store at the moment the effect asks.\<close>

record lease =
  lease_leaderToken :: string
  lease_assertValid :: "agent_state option \<Rightarrow> dp_error + unit"

type_synonym ('w, 'a) effect = "'w sys \<Rightarrow> 'a outcome \<times> 'w sys"

record 'w environment =
  env_turn :: "'w sys \<Rightarrow> bool \<times> 'w sys"
  env_preflight :: "apply_operation \<Rightarrow> ('w, preflight_result) effect"
  env_publish :: "publish_record \<Rightarrow> lease \<Rightarrow> ('w, unit) effect"
  env_observePublished :: "('w, published_state) effect"
  env_signalReload :: "lease \<Rightarrow> ('w, unit) effect"
  env_observeActivation :: "('w, activation_evidence option) effect"
  env_stageMembership :: "(string \<Rightarrow> plane \<Rightarrow> lease \<Rightarrow> ('w, unit) effect) option"
  env_attempts :: nat

definition budget :: "string \<Rightarrow> ('w, 'a) effect \<Rightarrow> ('w, 'a) act" where
  "budget name eff y =
     (case eff y of
        (Returned x, y') \<Rightarrow> (Inr x, y')
      | (Refused e, y') \<Rightarrow> (Inl (Agent_error e), y')
      | (Threw, y') \<Rightarrow> (Inl Effect_error, y')
      | (Overdue, y') \<Rightarrow> (Inl (Effect_timeout name), y'))"

text \<open>The agent's snapshot: what is stored, or the initial state.\<close>

definition stored :: "agent_state option \<Rightarrow> agent_state" where
  "stored st = (case st of None \<Rightarrow> initial | Some s \<Rightarrow> s)"

text \<open>A synchronous question to the agent: nobody runs in between.\<close>

definition ask :: "(agent_state \<Rightarrow> dp_error + 'a) \<Rightarrow> ('w, 'a) act" where
  "ask f y = (case f (stored (fst y)) of Inl e \<Rightarrow> (Inl (Agent_error e), y) | Inr x \<Rightarrow> (Inr x, y))"

text \<open>An awaited transaction of the agent: the others take their turn, then it runs on what they
  left; the turn also says whether every save of it was beaten by another writer.\<close>

definition agent_tx :: "'w environment \<Rightarrow> 'r action \<Rightarrow> ('w, 'r) act" where
  "agent_tx env mutate y =
     (case env_turn env y of (beaten, (st, w)) \<Rightarrow>
        (case transaction mutate st of
           Inl e \<Rightarrow> (Inl (Agent_error e), (st, w))
         | Inr (r, s) \<Rightarrow>
             (if beaten then (Inl (Agent_error Store_conflict), (st, w))
              else (Inr r, (Some s, w)))))"

definition lease_of :: "agent_state \<Rightarrow> apply_operation \<Rightarrow> dp_error + lease" where
  "lease_of s opn =
     bindE (normalizeNumeric (leaderToken opn)) (\<lambda>token.
     Inr \<lparr>lease_leaderToken = token,
       lease_assertValid = (\<lambda>st. assertOwnership (stored st) opn)\<rparr>)"

section \<open>Helpers\<close>

definition RELOAD_ATTEMPT_LIMIT :: nat where "RELOAD_ATTEMPT_LIMIT = 2"
definition PARTIAL_RETRY_LIMIT :: nat where "PARTIAL_RETRY_LIMIT = 2"
definition HARD_LIMIT :: nat where "HARD_LIMIT = 64"

record apply_result =
  ar_phase :: apply_phase
  ar_progress :: "plane \<Rightarrow> plane_progress option"
  ar_partialTransition :: bool
  ar_evidence :: "activation_evidence option"
  ar_failure :: "string option"

definition emptyResult :: apply_result where
  "emptyResult = \<lparr>ar_phase = No_operation, ar_progress = (\<lambda>_. None), ar_partialTransition = False,
     ar_evidence = None, ar_failure = None\<rparr>"

definition progress_in :: "journal_entry \<Rightarrow> plane \<Rightarrow> plane_progress option" where
  "progress_in j = (case je_progress j of None \<Rightarrow> \<lambda>_. None | Some g \<Rightarrow> g)"

definition resultOf :: "journal_entry \<Rightarrow> apply_result" where
  "resultOf j = \<lparr>ar_phase = je_phase j, ar_progress = progress_in j,
     ar_partialTransition = (je_phase j = Partially_activated \<or> je_phase j = Partial_exhausted),
     ar_evidence = je_evidence j, ar_failure = je_failure j\<rparr>"

definition recordOf :: "apply_operation \<Rightarrow> publish_record" where
  "recordOf opn = \<lparr>leaderToken = leaderToken opn, operationId = operationId opn,
     transitionId = transitionId opn, pr_generation = targetGeneration opn,
     pr_generationDigest = generationDigest opn\<rparr>"

definition progressOf :: "apply_operation \<Rightarrow> plane_progress \<Rightarrow> plane \<Rightarrow> plane_progress option" where
  "progressOf opn at p = (if p \<in> set (planesOf opn) then Some at else None)"

text \<open>\<open>next\<close>: the changed fields are given by an update.\<close>

definition next_entry :: "journal_entry \<Rightarrow> (journal_entry \<Rightarrow> journal_entry) \<Rightarrow> journal_entry" where
  "next_entry j over = (over j)\<lparr>je_seq := je_seq j + 1\<rparr>"

definition is_rejection :: "run_error \<Rightarrow> bool" where
  "is_rejection e = (case e of Agent_error (Rejection k t) \<Rightarrow> True | _ \<Rightarrow> False)"

definition is_journal_conflict :: "run_error \<Rightarrow> bool" where
  "is_journal_conflict e = (case e of Agent_error (Rejection k t) \<Rightarrow> k = Journal_conflict | _ \<Rightarrow> False)"

definition ignoreConflict :: "('w, unit) act \<Rightarrow> ('w, unit) act" where
  "ignoreConflict p = catchA p (\<lambda>e. if is_journal_conflict e then returnA () else throwA e)"

definition ignoreRejection :: "('w, unit) act \<Rightarrow> ('w, unit) act" where
  "ignoreRejection p = catchA p (\<lambda>e. if is_rejection e then returnA () else throwA e)"

text \<open>A configuration apply must declare both planes, and carry exactly what it declares.\<close>

definition assertEnvelope :: "apply_operation \<Rightarrow> dp_error + unit" where
  "assertEnvelope opn =
     bindE (throw_if (affectedPlanes opn = []) (reject Empty_envelope)) (\<lambda>_.
     bindE (forE (\<lambda>p. throw_if (p \<notin> set (affectedPlanes opn)) (reject Envelope_mismatch))
       [Http, Stream]) (\<lambda>_.
     bindE (forE (\<lambda>p. throw_if (op_planes opn p = None) (reject Envelope_mismatch))
       (affectedPlanes opn)) (\<lambda>_.
     forE (\<lambda>p. throw_if (p \<notin> set (affectedPlanes opn)) (reject Envelope_mismatch))
       (planesOfOperation opn))))"

text \<open>The reasons a failure is recorded with (the texts of the source are prose).\<close>

datatype failure_reason =
    Preflight_errored "string option"
  | Preflight_refused "string option"
  | No_plane_advanced
  | Blind_after_reload string
  | Not_activated_after string "activation_evidence option"
  | Over_budget string

definition failure_text :: "failure_reason \<Rightarrow> string" where
  "failure_text r = (case r of
       Preflight_errored x \<Rightarrow> ''config check did not run: '' @ (case x of None \<Rightarrow> ''no cause'' | Some t \<Rightarrow> t)
     | Preflight_refused x \<Rightarrow> (case x of None \<Rightarrow> ''preflight failed'' | Some t \<Rightarrow> t)
     | No_plane_advanced \<Rightarrow> ''no plane can advance''
     | Blind_after_reload g \<Rightarrow> ''activation not observable after reload: '' @ g
     | Not_activated_after g ev \<Rightarrow> ''activation not observed: '' @ g
     | Over_budget name \<Rightarrow> ''effect over budget: '' @ name)"

section \<open>Observation\<close>

text \<open>\<open>observeRead\<close>: \<open>None\<close> when the observation itself failed.\<close>

definition observeRead :: "'w environment \<Rightarrow> ('w, activation_evidence option option) act" where
  "observeRead env =
     catchA (bindA (budget ''observeActivation'' (env_observeActivation env)) (\<lambda>ev. returnA (Some ev)))
       (\<lambda>_. returnA None)"

definition observe :: "'w environment \<Rightarrow> ('w, activation_evidence option) act" where
  "observe env = bindA (observeRead env) (\<lambda>read. returnA (case read of None \<Rightarrow> None | Some ev \<Rightarrow> ev))"

definition pause :: "'w environment \<Rightarrow> ('w, unit) act" where
  "pause env y = (Inr (), snd (env_turn env y))"

fun poll_activation ::
    "'w environment \<Rightarrow> string \<Rightarrow> nat \<Rightarrow> activation_evidence option \<Rightarrow> ('w, activation_evidence option) act" where
  "poll_activation env target 0 latest = returnA latest"
| "poll_activation env target (Suc n) latest =
     bindA (observe env) (\<lambda>seen.
     if provesActivation seen target then returnA seen
     else bindA (pause env) (\<lambda>_. poll_activation env target n seen))"

definition awaitActivation :: "'w environment \<Rightarrow> string \<Rightarrow> ('w, activation_evidence option) act" where
  "awaitActivation env target = poll_activation env target (env_attempts env) None"

section \<open>The phases\<close>

definition write_entry :: "'w environment \<Rightarrow> journal_entry \<Rightarrow> ('w, unit) act" where
  "write_entry env entry = agent_tx env (writeJournal entry)"

text \<open>The planes of the operation that the journal does not show as committed.\<close>

definition uncommitted :: "apply_operation \<Rightarrow> (plane \<Rightarrow> plane_progress option) \<Rightarrow> plane list" where
  "uncommitted opn g = filter (\<lambda>p. g p \<noteq> Some P_committed) (planesOf opn)"

definition reached :: "('w, apply_phase) act" where
  "reached = bindA (ask reachedPhase) (\<lambda>p. returnA (case p of None \<Rightarrow> Failed | Some x \<Rightarrow> x))"

definition failAll :: "'w environment \<Rightarrow> journal_entry \<Rightarrow> failure_reason option \<Rightarrow> ('w, unit) act" where
  "failAll env j reason =
     bindA (foldA (\<lambda>plane progress.
         bindA (ask (\<lambda>s. movedByMe s (je_op j) plane)) (\<lambda>moved.
         if moved then returnA (progress(plane := Some P_committed))
         else
           bindA (ask (\<lambda>_. tupleFor (je_op j) plane)) (\<lambda>t.
           bindA (ignoreRejection (agent_tx env (fail t))) (\<lambda>_.
           returnA (progress(plane := Some P_failed))))))
       (planesOf (je_op j)) (progress_in j)) (\<lambda>progress.
     bindA reached (\<lambda>phase.
     bindA (ignoreConflict (write_entry env (next_entry j (\<lambda>e. e\<lparr>je_phase := phase,
         je_progress := Some progress,
         je_failure := (case reason of None \<Rightarrow> je_failure e | Some r \<Rightarrow> Some (failure_text r))\<rparr>))))
       (\<lambda>_.
     agent_tx env (finishOperation (je_op j) []))))"

definition advance :: "'w environment \<Rightarrow> journal_entry \<Rightarrow> (journal_entry \<Rightarrow> journal_entry) \<Rightarrow> ('w, unit) act" where
  "advance env j over = ignoreConflict (write_entry env (next_entry j over))"

text \<open>Each phase ends by continuing the loop (\<open>None\<close>) or by returning a result.\<close>

type_synonym 'w phase_act = "('w, apply_result option) act"

definition continue :: "('w, unit) act \<Rightarrow> 'w phase_act" where
  "continue m = bindA m (\<lambda>_. returnA None)"

definition phase_preflight :: "'w environment \<Rightarrow> journal_entry \<Rightarrow> 'w phase_act" where
  "phase_preflight env j =
     bindA (budget ''preflight'' (env_preflight env (je_op j))) (\<lambda>check.
     bindA (ask (\<lambda>s. assertOwnership s (je_op j))) (\<lambda>_.
     if \<not> pf_ok check then
       continue (failAll env j (Some
         (if pf_configTestErrored check = Some True then Preflight_errored (pf_reason check)
          else Preflight_refused (pf_reason check))))
     else continue (advance env j (\<lambda>e. e\<lparr>je_phase := Publish_intent\<rparr>))))"

definition phase_publish_intent :: "'w environment \<Rightarrow> journal_entry \<Rightarrow> 'w phase_act" where
  "phase_publish_intent env j =
     bindA (budget ''observePublished'' (env_observePublished env)) (\<lambda>seenPub.
     bindA (if publishedByMe seenPub (je_op j) then returnA ()
       else
         bindA (agent_tx env (recordPublishIntent (recordOf (je_op j)))) (\<lambda>_.
         bindA (ask (\<lambda>s. lease_of s (je_op j))) (\<lambda>l.
         budget ''publish'' (env_publish env (recordOf (je_op j)) l)))) (\<lambda>_.
     continue (advance env j (\<lambda>e. e\<lparr>je_phase := Published\<rparr>))))"

definition stage_plane ::
    "'w environment \<Rightarrow> apply_operation \<Rightarrow> plane \<Rightarrow> ('w, unit) act" where
  "stage_plane env opn plane =
     bindA (ask (\<lambda>_. tupleFor opn plane)) (\<lambda>t.
     bindA (agent_tx env (stage t)) (\<lambda>_.
     case env_stageMembership env of
       None \<Rightarrow> returnA ()
     | Some f \<Rightarrow>
         bindA (ask (\<lambda>s. lease_of s opn)) (\<lambda>l.
         budget ''stageMembership'' (f (targetGeneration opn) plane l))))"

text \<open>Runs one plane's part of a loop: what it records when it goes through, and the mark left when
  the agent rejects it.\<close>

definition plane_mark ::
    "('w, unit) act \<Rightarrow> plane_progress \<Rightarrow> plane \<Rightarrow> (plane \<Rightarrow> plane_progress option) \<Rightarrow>
     ('w, plane \<Rightarrow> plane_progress option) act" where
  "plane_mark m mark plane progress =
     catchA (bindA m (\<lambda>_. returnA (progress(plane := Some mark))))
       (\<lambda>e. if is_rejection e then returnA (progress(plane := Some P_failed)) else throwA e)"

definition phase_published :: "'w environment \<Rightarrow> journal_entry \<Rightarrow> 'w phase_act" where
  "phase_published env j =
     bindA (foldA (\<lambda>plane (staged, advanced).
         catchA (bindA (stage_plane env (je_op j) plane)
             (\<lambda>_. returnA (staged(plane := Some P_staged), advanced + 1)))
           (\<lambda>e. if is_rejection e then returnA (staged(plane := Some P_failed), advanced)
                else throwA e))
       (planesOf (je_op j)) (progress_in j, 0 :: nat)) (\<lambda>(staged, advanced).
     if advanced = 0 then continue (failAll env j (Some No_plane_advanced))
     else continue (advance env j (\<lambda>e. e\<lparr>je_phase := Membership_staged, je_progress := Some staged\<rparr>)))"

definition phase_membership_staged :: "'w environment \<Rightarrow> journal_entry \<Rightarrow> 'w phase_act" where
  "phase_membership_staged env j = continue (advance env j (\<lambda>e. e\<lparr>je_phase := Reload_intent\<rparr>))"

definition with_evidence :: "activation_evidence option \<Rightarrow> journal_entry \<Rightarrow> journal_entry" where
  "with_evidence ev e = (case ev of None \<Rightarrow> e | Some x \<Rightarrow> e\<lparr>je_evidence := Some x\<rparr>)"

text \<open>After the reload signal: wait for the activation and write what was seen on top of the
  journal as it is now.\<close>

definition after_signal :: "'w environment \<Rightarrow> journal_entry \<Rightarrow> ('w, unit) act" where
  "after_signal env j =
     bindA (awaitActivation env (targetGeneration (je_op j))) (\<lambda>after.
     case after of
       None \<Rightarrow> returnA ()
     | Some ev \<Rightarrow>
         bindA (ask (\<lambda>s. Inr (journal s))) (\<lambda>now.
         bindA (ask (\<lambda>s. ownsJournal now (je_op j))) (\<lambda>mine.
         case now of
           None \<Rightarrow> returnA ()
         | Some n \<Rightarrow>
             (if mine then advance env n (\<lambda>e.
                if provesActivation after (targetGeneration (je_op j))
                then e\<lparr>je_phase := Reload_observed, je_evidence := Some ev\<rparr>
                else e\<lparr>je_evidence := Some ev\<rparr>)
              else returnA ()))))"

definition phase_reload_intent :: "'w environment \<Rightarrow> journal_entry \<Rightarrow> 'w phase_act" where
  "phase_reload_intent env j =
     (let gen = targetGeneration (je_op j) in
      bindA (observeRead env) (\<lambda>read.
      let seen = (case read of None \<Rightarrow> None | Some ev \<Rightarrow> ev); blind = (read = None) in
      if \<not> blind \<and> provesActivation seen gen then
        continue (advance env j (\<lambda>e. with_evidence seen (e\<lparr>je_phase := Reload_observed\<rparr>)))
      else if je_reloadAttempts j \<ge> RELOAD_ATTEMPT_LIMIT \<or> (blind \<and> je_reloadAttempts j > 0) then
        continue (failAll env j (Some (if blind then Blind_after_reload gen else Not_activated_after gen seen)))
      else
        bindA (catchA (bindA (write_entry env (next_entry j (\<lambda>e. e\<lparr>je_reloadAttempts := je_reloadAttempts j + 1\<rparr>)))
              (\<lambda>_. returnA True))
            (\<lambda>e. if is_journal_conflict e then returnA False else throwA e)) (\<lambda>won.
        if \<not> won then returnA None
        else
          bindA (ask (\<lambda>s. lease_of s (je_op j))) (\<lambda>l.
          bindA (budget ''signalReload'' (env_signalReload env l)) (\<lambda>_.
          continue (after_signal env j))))))"

definition commit_plane ::
    "'w environment \<Rightarrow> apply_operation \<Rightarrow> activation_evidence \<Rightarrow> plane \<Rightarrow> ('w, unit) act" where
  "commit_plane env opn ev plane =
     bindA (ask (\<lambda>_. tupleFor opn plane)) (\<lambda>t.
     bindA (agent_tx env (commit t ev)) (\<lambda>_. returnA ()))"

text \<open>The phase the commits lead to.\<close>

definition committed_phase :: "apply_operation \<Rightarrow> (plane \<Rightarrow> plane_progress option) \<Rightarrow> apply_phase" where
  "committed_phase opn progress =
     (let committed = filter (\<lambda>p. progress p = Some P_committed) (planesOf opn) in
      if length committed = length (planesOf opn) then Activated
      else if committed = [] then Failed else Partially_activated)"

definition phase_reload_observed :: "'w environment \<Rightarrow> journal_entry \<Rightarrow> 'w phase_act" where
  "phase_reload_observed env j =
     (let gen = targetGeneration (je_op j) in
      bindA (budget ''observePublished'' (env_observePublished env)) (\<lambda>stillMine.
      if \<not> publishedByMe stillMine (je_op j) then
        continue (advance env j (\<lambda>e. e\<lparr>je_phase := Publish_intent\<rparr>))
      else
        bindA (awaitActivation env gen) (\<lambda>evidence.
        case evidence of
          None \<Rightarrow> continue (advance env j (\<lambda>e. e\<lparr>je_phase := Reload_intent\<rparr>))
        | Some ev \<Rightarrow>
            (if \<not> provesActivation evidence gen then
               continue (advance env j (\<lambda>e. e\<lparr>je_phase := Reload_intent\<rparr>))
             else
               bindA (foldA (\<lambda>plane progress.
                   plane_mark (commit_plane env (je_op j) ev plane) P_committed plane progress)
                 (planesOf (je_op j)) (progress_in j)) (\<lambda>progress.
               let phase = committed_phase (je_op j) progress in
               bindA (advance env j (\<lambda>e. e\<lparr>je_phase := phase, je_progress := Some progress,
                 je_evidence := Some ev\<rparr>)) (\<lambda>_.
               if phase = Partially_activated then returnA None
               else continue (agent_tx env
                 (finishOperation (je_op j) (uncommitted (je_op j) progress)))))))))"

definition phase_partially_activated :: "'w environment \<Rightarrow> journal_entry \<Rightarrow> 'w phase_act" where
  "phase_partially_activated env j =
     (let stuck = uncommitted (je_op j) (progress_in j) in
      if je_reloadAttempts j \<ge> RELOAD_ATTEMPT_LIMIT + PARTIAL_RETRY_LIMIT then
        bindA (advance env j (\<lambda>e. e\<lparr>je_phase := Partial_exhausted\<rparr>)) (\<lambda>_.
        bindA (agent_tx env (finishOperation (je_op j) stuck)) (\<lambda>_.
        bindA (ask (\<lambda>s. Inr (journal s))) (\<lambda>now.
        returnA (Some (resultOf (case now of None \<Rightarrow> j | Some n \<Rightarrow> n))))))
      else if stuck = [] then
        continue (advance env j (\<lambda>e. e\<lparr>je_phase := Activated\<rparr>))
      else continue (advance env j (\<lambda>e.
        e\<lparr>je_phase := Reload_observed, je_reloadAttempts := je_reloadAttempts j + 1\<rparr>)))"

definition drive_phase :: "'w environment \<Rightarrow> journal_entry \<Rightarrow> 'w phase_act" where
  "drive_phase env j =
     (case je_phase j of
        Preflight \<Rightarrow> phase_preflight env j
      | Publish_intent \<Rightarrow> phase_publish_intent env j
      | Published \<Rightarrow> phase_published env j
      | Membership_staged \<Rightarrow> phase_membership_staged env j
      | Reload_intent \<Rightarrow> phase_reload_intent env j
      | Reload_observed \<Rightarrow> phase_reload_observed env j
      | Partially_activated \<Rightarrow> phase_partially_activated env j
      | Superseded \<Rightarrow> returnA None
      | _ \<Rightarrow> returnA (Some (resultOf j)))"

section \<open>The loop\<close>

definition same_names :: "'a identity_scheme \<Rightarrow> 'b identity_scheme \<Rightarrow> bool" where
  "same_names a b \<longleftrightarrow> operationId a = operationId b \<and> transitionId a = transitionId b"

text \<open>The head of an iteration when the journal is not the operation's own, when it is terminal, and
  when all its planes are closed already.\<close>

definition not_mine :: "'w environment \<Rightarrow> apply_operation \<Rightarrow> 'w phase_act" where
  "not_mine env bound =
     bindA (ask (\<lambda>s. Inr (activeOperation s))) (\<lambda>mine.
     bindA (case mine of
         None \<Rightarrow> returnA ()
       | Some m \<Rightarrow> (if same_names m bound then agent_tx env (finishOperation bound []) else returnA ())) (\<lambda>_.
     returnA (Some emptyResult)))"

definition at_terminal :: "'w environment \<Rightarrow> journal_entry \<Rightarrow> 'w phase_act" where
  "at_terminal env j =
     bindA (ask (\<lambda>s. Inr (activeOperation s))) (\<lambda>holder.
     bindA (case holder of
         None \<Rightarrow> returnA ()
       | Some h \<Rightarrow>
           (if same_names h (je_op j) then
              agent_tx env (finishOperation (je_op j) (uncommitted (je_op j) (progress_in j)))
            else returnA ())) (\<lambda>_.
     returnA (Some (resultOf j))))"

definition all_closed :: "terminal_kind option list \<Rightarrow> bool" where
  "all_closed kinds \<longleftrightarrow> Some T_aborted \<in> set kinds \<or>
     (\<forall>k \<in> set kinds. k = Some T_aborted \<or> k = Some T_failed)"

definition close_up :: "'w environment \<Rightarrow> journal_entry \<Rightarrow> 'w phase_act" where
  "close_up env j =
     bindA reached (\<lambda>phase.
     bindA (agent_tx env (closeJournal (je_op j) phase)) (\<lambda>_.
     bindA (agent_tx env (finishOperation (je_op j) (planesOf (je_op j)))) (\<lambda>_.
     bindA (ask (\<lambda>s. Inr (journal s))) (\<lambda>after.
     returnA (Some (resultOf (case after of
         None \<Rightarrow> j | Some a \<Rightarrow> if isTerminalPhase (je_phase a) then a else j)))))))"

definition closed_kinds :: "journal_entry \<Rightarrow> agent_state \<Rightarrow> dp_error + terminal_kind option list" where
  "closed_kinds j s =
     mapE (\<lambda>p. bindE (tupleFor (je_op j) p) (\<lambda>t. terminalOf s t)) (planesOf (je_op j))"

text \<open>One turn of the loop; \<open>over\<close> says that the hard limit has passed.\<close>

definition iteration :: "'w environment \<Rightarrow> apply_operation \<Rightarrow> bool \<Rightarrow> 'w phase_act" where
  "iteration env bound over =
     bindA (ask (\<lambda>s. Inr (journal s))) (\<lambda>now.
     case now of
       None \<Rightarrow> returnA (Some emptyResult)
     | Some j \<Rightarrow>
         bindA (ask (\<lambda>_. ownsJournal now bound)) (\<lambda>owns.
         if \<not> owns then not_mine env bound
         else if isTerminalPhase (je_phase j) then at_terminal env j
         else
           bindA (ask (closed_kinds j)) (\<lambda>kinds.
           if all_closed kinds then close_up env j
           else
             bindA (ask (\<lambda>s. assertOwnership s (je_op j))) (\<lambda>_.
             if over then throwA Hard_limit else drive_phase env j))))"

fun driveLoop :: "'w environment \<Rightarrow> apply_operation \<Rightarrow> nat \<Rightarrow> ('w, apply_result) act" where
  "driveLoop env bound left =
     bindA (iteration env bound (left = 0)) (\<lambda>r.
     case r of
       Some x \<Rightarrow> returnA x
     | None \<Rightarrow> (case left of 0 \<Rightarrow> throwA Hard_limit | Suc n \<Rightarrow> driveLoop env bound n))"

declare driveLoop.simps [simp del]

text \<open>\<open>driveInner\<close>: an effect over its budget fails the operation, if the journal is still its own.\<close>

definition fail_late :: "'w environment \<Rightarrow> journal_entry \<Rightarrow> string \<Rightarrow> ('w, apply_result) act" where
  "fail_late env entry name =
     bindA (failAll env entry (Some (Over_budget name))) (\<lambda>_.
     bindA (ask (\<lambda>s. Inr (journal s))) (\<lambda>now.
     returnA ((resultOf (case now of None \<Rightarrow> entry | Some n \<Rightarrow> n))
       \<lparr>ar_failure := Some (failure_text (Over_budget name))\<rparr>)))"

definition out_of_budget :: "'w environment \<Rightarrow> apply_operation \<Rightarrow> string \<Rightarrow> ('w, apply_result) act" where
  "out_of_budget env bound name =
     bindA (ask (\<lambda>s. Inr (journal s))) (\<lambda>j.
     bindA (ask (\<lambda>_. ownsJournal j bound)) (\<lambda>mine.
     case j of
       Some entry \<Rightarrow>
         (if mine then fail_late env entry name
          else returnA (emptyResult\<lparr>ar_failure := Some (failure_text (Over_budget name))\<rparr>))
     | None \<Rightarrow> returnA (emptyResult\<lparr>ar_failure := Some (failure_text (Over_budget name))\<rparr>)))"

definition drive :: "'w environment \<Rightarrow> apply_operation \<Rightarrow> ('w, apply_result) act" where
  "drive env bound =
     catchA (driveLoop env bound (HARD_LIMIT + 1)) (\<lambda>e.
       case e of
         Effect_timeout name \<Rightarrow> out_of_budget env bound name
       | _ \<Rightarrow> throwA e)"

definition opening_of :: "apply_operation \<Rightarrow> journal_opening" where
  "opening_of opn = \<lparr>je_op = opn, je_phase = Preflight, je_reloadAttempts = 0,
     je_progress = Some (progressOf opn P_reserved), je_evidence = None, je_failure = None\<rparr>"

definition run :: "'w environment \<Rightarrow> apply_operation \<Rightarrow> ('w, apply_result) act" where
  "run env opn =
     bindA (ask (\<lambda>_. assertEnvelope opn)) (\<lambda>_.
     bindA (agent_tx env (reserveAll opn (Some (opening_of opn)))) (\<lambda>_.
     drive env opn))"

definition recover :: "'w environment \<Rightarrow> ('w, apply_result) act" where
  "recover env =
     bindA (ask (\<lambda>s. Inr (journal s))) (\<lambda>now.
     case now of
       None \<Rightarrow> bindA (agent_tx env releaseIdleHolder) (\<lambda>_. returnA emptyResult)
     | Some j \<Rightarrow>
         (if isTerminalPhase (je_phase j) then
            bindA (agent_tx env (finishOperation (je_op j) (uncommitted (je_op j) (progress_in j)))) (\<lambda>_.
            returnA (resultOf j))
          else
            bindA (ask (\<lambda>s. big_rel (<) (leaderToken (je_op j)) (maxLeaderToken s))) (\<lambda>stale.
            if stale then
              bindA (agent_tx env (closeJournal (je_op j) Superseded)) (\<lambda>_.
              bindA (agent_tx env (releaseStaleSlots (je_op j))) (\<lambda>_.
              bindA (ask (\<lambda>s. Inr (journal s))) (\<lambda>after.
              returnA (resultOf (case after of None \<Rightarrow> j | Some a \<Rightarrow> a)))))
            else
              bindA (agent_tx env (reclaimOperation (je_op j))) (\<lambda>_.
              drive env (je_op j)))))"

end
