(* ===== verification/Agent_Protocol.thy ===== *)
theory Agent_Protocol
  imports Agent_History
begin

text \<open>
  The per-plane protocol of the agent seen from one request: tokens as numbers and the
  rejection of a stale leader, the slots of other operations, and repeated requests.
\<close>

section \<open>Tokens\<close>

lemma digit_char_facts:
  "is_digit c \<Longrightarrow> \<not> is_space c \<and> lower_char c = c \<and> c \<noteq> CHR ''x'' \<and> c \<noteq> CHR ''o'' \<and> c \<noteq> CHR ''b''
     \<and> c \<noteq> CHR ''-'' \<and> c \<noteq> CHR ''+''"
  by (auto simp: is_digit_def is_space_def lower_char_def is_upper_def)

lemma trim_digits: "list_all is_digit v \<Longrightarrow> trim v = v"
proof -
  assume a: "list_all is_digit v"
  have d: "dropWhile is_space w = w" if "set w \<subseteq> set v" for w
    using that a digit_char_facts by (cases w) (auto simp: list_all_iff)
  show ?thesis by (simp add: trim_def d)
qed

lemma BigInt_digits: "all_digits v \<Longrightarrow> BigInt v = Inr (int (dec_val v))"
proof -
  assume a: "all_digits v"
  then obtain c cs where v: "v = c # cs" "is_digit c" "list_all is_digit cs"
    by (cases v) (auto simp: all_digits_def)
  have t: "trim v = v" using a trim_digits by (simp add: all_digits_def)
  have p: "map lower_char (take 2 v) \<noteq> ''0x''" "map lower_char (take 2 v) \<noteq> ''0o''"
    "map lower_char (take 2 v) \<noteq> ''0b''"
    using v digit_char_facts by (cases cs; auto)+
  have h: "v \<noteq> []" "hd v \<noteq> CHR ''-''" "hd v \<noteq> CHR ''+''"
    using v digit_char_facts [OF v(2)] by auto
  have "string_to_bigint v = decimal_literal v"
    unfolding string_to_bigint_def Let_def t using p h by (simp only: if_False)
  then show ?thesis using a by (simp add: BigInt_def decimal_literal_def)
qed

lemma normalizeNumeric_Inr:
  "normalizeNumeric v = Inr w \<longleftrightarrow> all_digits v \<and> w = show_nat (dec_val v)"
  by (auto simp: normalizeNumeric_def)

lemma BigInt_normalized: "normalizeNumeric v = Inr w \<Longrightarrow> BigInt w = BigInt v"
  by (simp add: normalizeNumeric_Inr BigInt_digits)

definition lower_token :: "string \<Rightarrow> string \<Rightarrow> bool" where
  "lower_token a b \<longleftrightarrow> (\<exists>x y. BigInt a = Inr x \<and> BigInt b = Inr y \<and> x < y)"

text \<open>The leader token that a request presents on its own. Of the requests for a whole operation,
  \<open>reserveAll\<close> and \<open>reclaimOperation\<close> present the operation's; those that release, close or finish
  an operation and the housekeeping present none: the agent compares no token there.\<close>

fun presented_token :: "request \<Rightarrow> string option" where
  "presented_token (R_fence t) = Some t"
| "presented_token (R_reserve t) = Some (leaderToken t)"
| "presented_token (R_stage t) = Some (leaderToken t)"
| "presented_token (R_commit t ev) = Some (leaderToken t)"
| "presented_token (R_abort t) = Some (leaderToken t)"
| "presented_token (R_fail t) = Some (leaderToken t)"
| "presented_token (R_release t) = Some (leaderToken t)"
| "presented_token (R_health t) = Some (leaderToken t)"
| "presented_token (R_recordPublishIntent r) = Some (leaderToken r)"
| "presented_token (R_writeJournal e) = Some (leaderToken (je_op e))"
| "presented_token _ = None"

lemma assertLeader_stale:
  "lower_token t (maxLeaderToken s) \<Longrightarrow> assertLeader s t = Inl (reject Stale_leader)"
  by (auto simp: assertLeader_def big_rel_def lower_token_def)

lemma tupleFor_fields:
  "tupleFor opn p = Inr t \<Longrightarrow> on_plane t = p \<and> normalizeNumeric (leaderToken opn) = Inr (leaderToken t)"
  by (auto simp: tupleFor_def errE split: option.splits)

lemma reserveAll_stale:
  assumes "assertLeader s (show_nat (dec_val t)) = Inl (reject Stale_leader)"
    "normalizeNumeric (leaderToken opn) = Inr (show_nat (dec_val t))"
  shows "isl (reserveAll opn entry s)"
    and "mapE (tupleFor opn) (planesOf opn) = Inr (x # xs) \<Longrightarrow> reserveAll opn entry s = Inl (reject Stale_leader)"
proof -
  have f: "reserveAll opn entry s = Inl (reject Stale_leader)"
    if "mapE (tupleFor opn) (planesOf opn) = Inr (x # xs)" for x xs
  proof -
    have "list_all2 (\<lambda>p t. tupleFor opn p = Inr t) (planesOf opn) (x # xs)" using that by (rule mapE_Inr)
    then obtain p where "tupleFor opn p = Inr x" by (auto simp: list_all2_Cons2)
    then have "leaderToken x = show_nat (dec_val t)" using tupleFor_fields assms(2) by fastforce
    then show ?thesis using that assms(1) by (simp add: reserveAll_def)
  qed
  show "mapE (tupleFor opn) (planesOf opn) = Inr (x # xs) \<Longrightarrow> reserveAll opn entry s = Inl (reject Stale_leader)"
    by (rule f)
  show "isl (reserveAll opn entry s)"
  proof (cases "mapE (tupleFor opn) (planesOf opn)")
    case (Inr ts)
    then show ?thesis using f by (cases ts) (auto simp: reserveAll_def)
  qed (simp add: reserveAll_def)
qed

text \<open>C7: A stale leader changes nothing. A request that presents a leader token of decimal digits below the
  highest the agent has seen (to fence; to reserve, stage, commit, abort, fail, release or adjust the health
  of one plane; to record an intent to publish; to write the journal) is rejected as stale whatever else it
  asks for and whatever the state. So is \<open>reserveAll\<close> for an operation of such a token whose planes make
  tuples, and otherwise it is rejected for those; and \<open>reclaimOperation\<close> is rejected as stale or, when an
  operation is running, leaves the state as it is.\<close>

theorem stale_leader_rejected:
  assumes "all_digits t" "lower_token t (maxLeaderToken s)"
  shows "(presented_token r = Some t \<longrightarrow> run_request r s = Inl (reject Stale_leader)) \<and>
    (\<forall>opn entry. r = R_reserveAll opn entry \<and> leaderToken opn = t \<longrightarrow> isl (run_request r s) \<and>
       (\<forall>x xs. mapE (tupleFor opn) (planesOf opn) = Inr (x # xs) \<longrightarrow> run_request r s = Inl (reject Stale_leader))) \<and>
    (\<forall>opn. r = R_reclaimOperation opn \<and> leaderToken opn = t \<longrightarrow>
       run_request r s = (if activeOperation s = None then Inl (reject Stale_leader) else Inr s))"
proof -
  have a: "assertLeader s t = Inl (reject Stale_leader)" using assms(2) by (rule assertLeader_stale)
  have n: "normalizeNumeric t = Inr (show_nat (dec_val t))"
    using assms(1) by (simp add: normalizeNumeric_Inr)
  have an: "assertLeader s (show_nat (dec_val t)) = Inl (reject Stale_leader)"
    using assms(2) BigInt_normalized [OF n] by (intro assertLeader_stale) (simp add: lower_token_def)
  have p: "run_request r s = Inl (reject Stale_leader)" if "presented_token r = Some t"
    using that a n an
    by (cases r) (auto simp: quietly_def fence_def reserve_def reserve_one_def stage_def commit_def
        abort_def fail_def finalize_def release_def applyHealth_def admit_def
        recordPublishIntent_def writeJournal_def)
  have q1: "isl (quietly (reserveAll opn entry) s)" if "leaderToken opn = t" for opn entry
    using reserveAll_stale(1) [OF an, where opn = opn and entry = entry] n that
    by (cases "reserveAll opn entry s") (simp_all add: quietly_def)
  have q2: "quietly (reserveAll opn entry) s = Inl (reject Stale_leader)"
    if "leaderToken opn = t" "mapE (tupleFor opn) (planesOf opn) = Inr (x # xs)" for opn entry x xs
    using reserveAll_stale(2) [OF an _ that(2)] n that(1) by (simp add: quietly_def)
  have c: "run_request (R_reclaimOperation opn) s = (if activeOperation s = None then Inl (reject Stale_leader) else Inr s)"
    if "leaderToken opn = t" for opn
    using that n an by (simp add: quietly_def reclaimOperation_def)
  show ?thesis using p q1 q2 c by auto
qed

section \<open>Slots of another\<close>

fun request_tuple :: "request \<Rightarrow> operation_tuple option" where
  "request_tuple (R_reserve t) = Some t"
| "request_tuple (R_stage t) = Some t"
| "request_tuple (R_commit t ev) = Some t"
| "request_tuple (R_abort t) = Some t"
| "request_tuple (R_fail t) = Some t"
| "request_tuple (R_release t) = Some t"
| "request_tuple (R_health t) = Some t"
| "request_tuple _ = None"

definition foreign_kept :: "operation_tuple \<Rightarrow> agent_state \<Rightarrow> agent_state \<Rightarrow> bool" where
  "foreign_kept opn s s' \<longleftrightarrow> (\<forall>p e slot. slot_at s p e = Some slot \<longrightarrow>
     canonical (slot_op slot) \<noteq> canonical opn \<longrightarrow> slot_at s' p e = Some slot)"

lemma foreign_kept_trans: "foreign_kept opn a b \<Longrightarrow> foreign_kept opn b c \<Longrightarrow> foreign_kept opn a c"
  by (simp add: foreign_kept_def)

lemma foreign_kept_same: "reservations s' = reservations s \<Longrightarrow> foreign_kept opn s s'"
  by (simp add: foreign_kept_def slot_at_def)

lemma foreign_kept_admit: "admit opn st s = Inr (r, s') \<Longrightarrow> foreign_kept opn s s'"
  using admit_facts(1) by (fastforce intro: foreign_kept_same)

lemma foreign_kept_acquire: "acquire opn s = Inr (slot, s') \<Longrightarrow> foreign_kept opn s s'"
  by (drule acquire_Inr(2)) (auto simp: foreign_kept_def)

lemma foreign_kept_record: "record_ack opn st r s = Inr (ack, s') \<Longrightarrow> foreign_kept opn s s'"
  by (erule record_ack_Inr) (simp add: foreign_kept_same)

lemma foreign_kept_drop: "ownsSlot s opn \<Longrightarrow> foreign_kept opn s (drop_slot (on_plane opn) (target_epoch opn) s)"
  by (auto simp: foreign_kept_def ownsSlot_def split: option.splits)

lemma foreign_kept_finish:
  assumes "finish opn how s = Inr s'"
  shows "foreign_kept opn s s'"
proof -
  let ?s1 = "if ownsSlot s opn then drop_slot (on_plane opn) (target_epoch opn) s else s"
  from assms have "reservations s' = reservations ?s1" unfolding finish_def Let_def
    by (elim bindE_InrE) auto
  then have "foreign_kept opn ?s1 s'" by (rule foreign_kept_same)
  moreover have "foreign_kept opn s ?s1" using foreign_kept_drop by (simp add: foreign_kept_same)
  ultimately show ?thesis using foreign_kept_trans by blast
qed

lemma foreign_kept_reserve_one: "reserve_one t s = Inr (ack, s') \<Longrightarrow> foreign_kept t s s'"
  unfolding reserve_one_def
  by (elim bindE_InrE) (auto split: option.splits elim!: bindE_InrE
      dest!: foreign_kept_admit foreign_kept_acquire foreign_kept_record, meson foreign_kept_trans)

lemma foreign_kept_stage:
  assumes "stage opn s = Inr (ack, s')"
  shows "foreign_kept opn s s'"
proof -
  from assms obtain r s1 where adm: "admit opn Step_stage s = Inr (r, s1)"
    and rest: "(case r of Some ack \<Rightarrow> Inr (ack, s1)
     | None \<Rightarrow> bindE (acquire opn s1) (\<lambda>(slot, s1).
         let s2 = put_slot (on_plane opn) (target_epoch opn)
               (slot\<lparr>slot_stagedDigest := Some (ot_payloadDigest opn)\<rparr>) s1
         in record_ack opn Step_stage (target_state opn None) s2)) = Inr (ack, s')"
    unfolding stage_def by (elim bindE_InrE) auto
  show ?thesis
  proof (cases r)
    case (Some a)
    with rest foreign_kept_admit [OF adm] show ?thesis by simp
  next
    case None
    with rest obtain slot s2 where acq: "acquire opn s1 = Inr (slot, s2)"
      and rec: "record_ack opn Step_stage (target_state opn None)
        (put_slot (on_plane opn) (target_epoch opn)
          (slot\<lparr>slot_stagedDigest := Some (ot_payloadDigest opn)\<rparr>) s2) = Inr (ack, s')"
      by (auto simp: Let_def elim!: bindE_InrE)
    have "slot_at s2 (on_plane opn) (target_epoch opn) = Some slot"
      using acquire_Inr(2) [OF acq] by (elim disjE) auto
    then have "foreign_kept opn s2 (put_slot (on_plane opn) (target_epoch opn)
          (slot\<lparr>slot_stagedDigest := Some (ot_payloadDigest opn)\<rparr>) s2)"
      using acquire_Inr(1) [OF acq] by (auto simp: foreign_kept_def)
    with foreign_kept_admit [OF adm] foreign_kept_acquire [OF acq] foreign_kept_record [OF rec]
    show ?thesis by (meson foreign_kept_trans)
  qed
qed

lemma foreign_kept_commit:
  assumes "commit opn ev s = Inr (ack, s')"
  shows "foreign_kept opn s s'"
proof (cases rule: commit_Inr [OF assms])
  case (1 m)
  then show ?thesis by (simp add: foreign_kept_same)
next
  case (2 s1 m)
  then show ?thesis by (auto intro!: foreign_kept_same elim!: record_ack_Inr)
next
  case (3 s1 m)
  show ?thesis
  proof (rule commit_move_Inr [OF 3(3)])
    fix token s3 s4
    let ?s2 = "(set_plane (on_plane opn) (target_state opn (Some \<lparr>leaderToken = token,
           operationId = operationId opn, transitionId = transitionId opn\<rparr>)) s1)
        \<lparr>activationEvidence := dset (evidence_key (on_plane opn) (target_epoch opn)) ev
           (activationEvidence s1)\<rparr>"
    assume c: "commit_candidate opn ?s2 = Inr s3" and f: "finish opn T_activated s3 = Inr s4"
      and r: "record_ack opn Step_commit (planes s4 (on_plane opn)) s4 = Inr (ack, s')"
    have "reservations s3 = reservations ?s2" by (rule commit_candidate_Inr [OF c]) simp
    then have "foreign_kept opn s s3" using 3(1) by (intro foreign_kept_same) (simp add: set_plane_def)
    with foreign_kept_finish [OF f] foreign_kept_record [OF r] show ?thesis
      by (meson foreign_kept_trans)
  qed
qed

lemma foreign_kept_finalize:
  assumes "finalize opn how s = Inr (u, s')"
  shows "foreign_kept opn s s'"
proof -
  from assms obtain s1 already where s1: "raise_token (leaderToken opn) s = Inr s1"
    and rest: "(case already of
       Some a \<Rightarrow> (if a = how then Inr ((), s1) else Inl (Rejection Terminal_reached (Some a)))
     | None \<Rightarrow> bindE (finish opn how s1) (\<lambda>s'. Inr ((), s'))) = Inr (u, s')"
    unfolding finalize_def by (elim bindE_InrE)
  have 1: "foreign_kept opn s s1" using raise_token_Inr [OF s1] by (auto intro: foreign_kept_same)
  from rest have "s' = s1 \<or> finish opn how s1 = Inr s'"
    by (auto split: option.splits if_splits elim!: bindE_InrE)
  with 1 foreign_kept_finish foreign_kept_trans show ?thesis by blast
qed

lemma foreign_kept_health:
  assumes "applyHealth opn s = Inr (ack, s')"
  shows "foreign_kept opn s s'"
proof -
  from assms have "reservations s' = reservations s"
    unfolding applyHealth_def Let_def
    by (elim bindE_InrE) (auto elim!: bindE_InrE record_ack_Inr dest!: admit_facts(1)
        simp: set_plane_def split: option.splits if_splits)
  then show ?thesis by (rule foreign_kept_same)
qed

lemma release_parts:
  assumes "release opn s = Inr (u, s')"
  shows "s' = s \<or> reservations s' =
     reservations (if ownsSlot s opn then drop_slot (on_plane opn) (target_epoch opn) s else s)"
proof -
  from assms obtain already :: "terminal_kind option" where
    r: "(if already \<noteq> None then Inr ((), s)
     else
       bindE (foldE (\<lambda>st s. bindE (step_key opn st) (\<lambda>k.
             Inr (s\<lparr>completed := ddel k (completed s)\<rparr>)))
           [Step_reserve, Step_stage, Step_commit, Step_health]
           (if ownsSlot s opn then drop_slot (on_plane opn) (target_epoch opn) s else s)) (\<lambda>s'.
       Inr ((), s'))) = Inr (u, s')"
    unfolding release_def by (elim bindE_InrE)
  show ?thesis
  proof (cases "already = None")
    case False
    with r show ?thesis by simp
  next
    case True
    with r have f: "foldE (\<lambda>st s. bindE (step_key opn st) (\<lambda>k.
             Inr (s\<lparr>completed := ddel k (completed s)\<rparr>)))
           [Step_reserve, Step_stage, Step_commit, Step_health]
           (if ownsSlot s opn then drop_slot (on_plane opn) (target_epoch opn) s else s) = Inr s'"
      by (auto simp del: foldE.simps elim!: bindE_InrE)
    have "reservations (if ownsSlot s opn then drop_slot (on_plane opn) (target_epoch opn) s else s)
      = reservations s'"
      using f by (rule foldE_rel [where R = "\<lambda>a b. reservations a = reservations b"]) (auto simp: errE)
    then show ?thesis by simp
  qed
qed

lemma foreign_kept_release: "release opn s = Inr (u, s') \<Longrightarrow> foreign_kept opn s s'"
  using release_parts [of opn s u s'] foreign_kept_drop [of s opn]
  by (auto simp: foreign_kept_def slot_at_def split: if_splits)

text \<open>C8: Slots are exclusive: a request on one plane never takes, changes or releases a slot that
  belongs to another operation tuple, on whatever plane and epoch that slot is.\<close>

theorem foreign_slot_untouched:
  assumes "run_request r s = Inr s'" "request_tuple r = Some opn"
    and "slot_at s p e = Some slot" "canonical (slot_op slot) \<noteq> canonical opn"
  shows "slot_at s' p e = Some slot"
proof -
  have "foreign_kept opn s s'"
    using assms(1,2)
    by (cases r) (auto simp: quietly_Inr reserve_def abort_def fail_def
        intro: foreign_kept_reserve_one foreign_kept_stage foreign_kept_commit
          foreign_kept_finalize foreign_kept_release foreign_kept_health)
  with assms(3,4) show ?thesis by (simp add: foreign_kept_def)
qed

section \<open>Replays\<close>

text \<open>The token is the highest seen, as a number.\<close>

definition settled :: "string \<Rightarrow> agent_state \<Rightarrow> bool" where
  "settled t s \<longleftrightarrow> (\<exists>x. BigInt t = Inr x \<and> BigInt (maxLeaderToken s) = Inr x)"

lemma settled_cong: "maxLeaderToken s' = maxLeaderToken s \<Longrightarrow> settled t s' = settled t s"
  by (simp add: settled_def)

lemma settled_admit:
  assumes "assertLeader s t = Inr u" "raise_token t s = Inr s'"
  shows "settled t s'"
  using assms by (auto simp: assertLeader_def raise_token_def maxToken_def big_rel_def errE settled_def
      split: if_splits)

lemma settled_guards:
  "settled t s \<Longrightarrow> assertLeader s t = Inr () \<and> raise_token t s = Inr s"
  by (auto simp: settled_def assertLeader_def raise_token_def maxToken_def big_rel_def)

definition answered :: "operation_tuple \<Rightarrow> step \<Rightarrow> plane_ack \<Rightarrow> agent_state \<Rightarrow> bool" where
  "answered opn st ack s \<longleftrightarrow> settled (leaderToken opn) s \<and>
     (terminalOf s opn = Inr None \<or> terminalOf s opn = Inr (Some T_activated)) \<and>
     (\<exists>k e. step_key opn st = Inr k \<and> dget (completed s) k = Some e \<and>
        ce_tuple e = canonical opn \<and> (ce_ack e)\<lparr>ack_cached := True\<rparr> = ack\<lparr>ack_cached := True\<rparr>)"

lemma admit_parts:
  assumes "admit opn st s = Inr (r, s1)"
  shows "settled (leaderToken opn) s1 \<and> (\<forall>ack. r = Some ack \<longrightarrow> answered opn st ack s1)"
proof -
  from assms obtain u s2 already where
    1: "assertLeader s (leaderToken opn) = Inr u" "raise_token (leaderToken opn) s = Inr s2"
      "terminalOf s2 opn = Inr already"
    and "(if already = Some T_aborted \<or> already = Some T_failed
          then Inl (Rejection Terminal_reached already) else admit_seen opn st already s2) = Inr (r, s1)"
    unfolding admit_def by (elim bindE_InrE)
  then have neg: "already \<noteq> Some T_aborted" "already \<noteq> Some T_failed"
    and seen: "admit_seen opn st already s2 = Inr (r, s1)"
    by (simp_all split: if_splits)
  have s1: "s1 = s2" using admit_seen_Inr [OF seen] by simp
  have set: "settled (leaderToken opn) s1" unfolding s1 using 1(1,2) by (rule settled_admit)
  have t: "terminalOf s1 opn = Inr None \<or> terminalOf s1 opn = Inr (Some T_activated)"
    using 1(3) neg s1 by (cases already) (auto, metis terminal_kind.exhaust)
  have "answered opn st ack s1" if r: "r = Some ack" for ack
  proof -
    obtain k where k: "step_key opn st = Inr k"
      using seen unfolding admit_seen_def by (elim bindE_InrE)
    obtain e where e: "dget (completed s2) k = Some e" "ce_tuple e = canonical opn"
      "ack = (ce_ack e)\<lparr>ack_cached := True\<rparr>"
      using seen k r by (cases "dget (completed s2) k") (auto simp: admit_seen_def split: if_splits)
    with k s1 set t show ?thesis unfolding answered_def by auto
  qed
  with set show ?thesis by blast
qed

lemma answered_admit:
  assumes "answered opn st ack s"
  shows "admit opn st s = Inr (Some (ack\<lparr>ack_cached := True\<rparr>), s)"
  using assms settled_guards [of "leaderToken opn" s]
  by (auto simp: answered_def admit_def admit_seen_def)

lemma answered_record:
  assumes "record_ack opn st r s = Inr (ack, s')" "settled (leaderToken opn) s"
    and "terminalOf s opn = Inr None \<or> terminalOf s opn = Inr (Some T_activated)"
  shows "answered opn st ack s'"
proof (rule record_ack_Inr [OF assms(1)])
  fix k e
  assume k: "step_key opn st = Inr k" and s': "s' = s\<lparr>completed := dset k e (completed s)\<rparr>"
    and e: "ce_ack e = ack" "ce_tuple e = canonical opn"
  have "settled (leaderToken opn) s'" using assms(2) settled_cong [of s' s] s' by simp
  moreover have "terminalOf s' opn = terminalOf s opn" using s' by (intro terminalOf_cong) simp
  moreover have "dget (completed s') k = Some e" by (simp add: s' dict_simps)
  ultimately show ?thesis using k e assms(3) unfolding answered_def by auto
qed

text \<open>The four acknowledged steps of the per-plane protocol as one function.\<close>

definition protocol_step :: "step \<Rightarrow> operation_tuple \<Rightarrow> activation_evidence \<Rightarrow> plane_ack action" where
  "protocol_step st opn ev = (case st of Step_reserve \<Rightarrow> reserve opn | Step_stage \<Rightarrow> stage opn
     | Step_commit \<Rightarrow> commit opn ev | Step_health \<Rightarrow> applyHealth opn)"

lemma reserve_answered:
  assumes "reserve_one opn s = Inr (ack, s')"
  shows "answered opn Step_reserve ack s'"
proof -
  from assms obtain r s1 where adm: "admit opn Step_reserve s = Inr (r, s1)"
    and rest: "(case r of Some ack \<Rightarrow> Inr (ack, s1)
     | None \<Rightarrow> bindE (acquire opn s1) (\<lambda>(_, s1). record_ack opn Step_reserve (target_state opn None) s1))
     = Inr (ack, s')"
    unfolding reserve_one_def by (elim bindE_InrE) auto
  show ?thesis
  proof (cases r)
    case (Some a)
    with rest admit_parts [OF adm] show ?thesis by auto
  next
    case None
    with rest obtain slot s2 where acq: "acquire opn s1 = Inr (slot, s2)"
      and rec: "record_ack opn Step_reserve (target_state opn None) s2 = Inr (ack, s')"
      by (auto elim!: bindE_InrE)
    have s2: "maxLeaderToken s2 = maxLeaderToken s1" "terminal s2 = terminal s1"
      using acquire_Inr(2) [OF acq] by auto
    show ?thesis
      using rec admit_parts [OF adm] settled_cong [OF s2(1)] terminalOf_cong [OF s2(2), of opn]
        admit_facts(1,2) [OF adm] None
      by (intro answered_record [OF rec]) auto
  qed
qed

lemma stage_answered:
  assumes "stage opn s = Inr (ack, s')"
  shows "answered opn Step_stage ack s'"
proof -
  from assms obtain r s1 where adm: "admit opn Step_stage s = Inr (r, s1)"
    and rest: "(case r of Some ack \<Rightarrow> Inr (ack, s1)
     | None \<Rightarrow> bindE (acquire opn s1) (\<lambda>(slot, s1).
         let s2 = put_slot (on_plane opn) (target_epoch opn)
               (slot\<lparr>slot_stagedDigest := Some (ot_payloadDigest opn)\<rparr>) s1
         in record_ack opn Step_stage (target_state opn None) s2)) = Inr (ack, s')"
    unfolding stage_def by (elim bindE_InrE) auto
  show ?thesis
  proof (cases r)
    case (Some a)
    with rest admit_parts [OF adm] show ?thesis by auto
  next
    case None
    with rest obtain slot s2 where acq: "acquire opn s1 = Inr (slot, s2)"
      and rec: "record_ack opn Step_stage (target_state opn None)
        (put_slot (on_plane opn) (target_epoch opn)
          (slot\<lparr>slot_stagedDigest := Some (ot_payloadDigest opn)\<rparr>) s2) = Inr (ack, s')"
      by (auto simp: Let_def elim!: bindE_InrE)
    let ?s3 = "put_slot (on_plane opn) (target_epoch opn)
          (slot\<lparr>slot_stagedDigest := Some (ot_payloadDigest opn)\<rparr>) s2"
    have s2: "maxLeaderToken ?s3 = maxLeaderToken s1" "terminal ?s3 = terminal s1"
      using acquire_Inr(2) [OF acq] by auto
    show ?thesis
      using admit_parts [OF adm] settled_cong [OF s2(1)] terminalOf_cong [OF s2(2), of opn]
        admit_facts(1,2) [OF adm] None
      by (intro answered_record [OF rec]) auto
  qed
qed

lemma applyHealth_Inr:
  assumes "applyHealth opn s = Inr (ack, s')"
  obtains (replay) "admit opn Step_health s = Inr (Some ack, s')"
  | (fresh) s1 s2 where "admit opn Step_health s = Inr (None, s1)"
    "s2 = set_plane (on_plane opn) (target_state opn (ps_by (planes s1 (on_plane opn)))) s1"
    "record_ack opn Step_health (planes s2 (on_plane opn)) s2 = Inr (ack, s')"
proof -
  from assms obtain r s1 where adm: "admit opn Step_health s = Inr (r, s1)"
    by (auto simp: applyHealth_def elim!: bindE_InrE)
  show thesis
  proof (cases r)
    case (Some a)
    with assms adm show thesis by (intro replay) (simp add: applyHealth_def)
  next
    case None
    with assms adm show thesis
      by (auto simp: applyHealth_def Let_def elim!: bindE_InrE split: if_splits
          intro!: fresh [OF _ refl])
  qed
qed

lemma health_answered:
  assumes "applyHealth opn s = Inr (ack, s')"
  shows "answered opn Step_health ack s'"
proof (cases rule: applyHealth_Inr [OF assms])
  case 1
  with admit_parts show ?thesis by blast
next
  case (2 s1 s2)
  have s2: "maxLeaderToken s2 = maxLeaderToken s1" "terminal s2 = terminal s1"
    by (simp_all add: 2(2) set_plane_def)
  show ?thesis
    using admit_parts [OF 2(1)] settled_cong [OF s2(1)] terminalOf_cong [OF s2(2), of opn]
      admit_facts(1,2) [OF 2(1)]
    by (intro answered_record [OF 2(3)]) auto
qed

lemma commit_move_settled:
  assumes "commit_move opn ev s = Inr (ack, s')"
    and "settled (leaderToken opn) s"
  shows "answered opn Step_commit ack s'"
proof (rule commit_move_Inr [OF assms(1)])
  fix token s3 s4
  let ?s1 = "(set_plane (on_plane opn) (target_state opn (Some \<lparr>leaderToken = token,
           operationId = operationId opn, transitionId = transitionId opn\<rparr>)) s)
        \<lparr>activationEvidence := dset (evidence_key (on_plane opn) (target_epoch opn)) ev
           (activationEvidence s)\<rparr>"
  assume c: "commit_candidate opn ?s1 = Inr s3" and f: "finish opn T_activated s3 = Inr s4"
    and r: "record_ack opn Step_commit (planes s4 (on_plane opn)) s4 = Inr (ack, s')"
  have "maxLeaderToken s3 = maxLeaderToken s"
    by (rule commit_candidate_Inr [OF c]) (simp add: set_plane_def)
  moreover have "maxLeaderToken s4 = maxLeaderToken s3"
    using f unfolding finish_def Let_def by (elim bindE_InrE) auto
  ultimately have "settled (leaderToken opn) s4" using assms(2) settled_cong by metis
  moreover have "terminalOf s4 opn = Inr (Some T_activated)"
    by (rule finish_Inr [OF f]) (simp add: terminalOf_def)
  ultimately show ?thesis by (intro answered_record [OF r]) auto
qed

lemma commit_answered:
  assumes "commit opn ev s = Inr (ack, s')"
  shows "answered opn Step_commit ack s'"
proof -
  from assms obtain r s1 where adm: "admit opn Step_commit s = Inr (r, s1)"
    by (auto simp: commit_def elim!: bindE_InrE)
  show ?thesis
  proof (cases r)
    case (Some a)
    with assms adm have "a = ack" "s1 = s'" by (simp_all add: commit_def)
    with Some admit_parts [OF adm] show ?thesis by auto
  next
    case None
    have set: "settled (leaderToken opn) s1" using admit_parts [OF adm] by blast
    have t: "terminalOf s1 opn = Inr None" using admit_facts(1,2) [OF adm] None by auto
    have "record_ack opn Step_commit (planes s1 (on_plane opn)) s1 = Inr (ack, s') \<or>
        commit_move opn ev s1 = Inr (ack, s')"
      using assms adm None
      by (auto simp: commit_def Let_def elim!: bindE_InrE split: option.splits if_splits)
    then show ?thesis
      using commit_move_settled [OF _ set] answered_record [OF _ set] t by blast
  qed
qed

text \<open>Requests are idempotent: repeating an acknowledged reserve, stage, commit or health request of
  the same tuple right away, even with other evidence, gives the same acknowledgement marked
  as cached and changes nothing.\<close>

theorem replay_idempotent:
  assumes "protocol_step st opn ev s = Inr (ack, s')"
  shows "protocol_step st opn ev' s' = Inr (ack\<lparr>ack_cached := True\<rparr>, s')"
proof -
  have "answered opn st ack s'"
    using assms reserve_answered stage_answered commit_answered health_answered
    by (cases st) (auto simp: protocol_step_def reserve_def)
  from answered_admit [OF this] show ?thesis
    by (cases st) (simp_all add: protocol_step_def reserve_def reserve_one_def stage_def
        commit_def applyHealth_def)
qed

end
