(* ===== verification/Agent_Takeover.thy ===== *)
theory Agent_Takeover
  imports Agent_Protocol
begin

text \<open>
  How one operation takes over from another: what fencing leaves of the operation it evicts,
  when the activation baseline may move, and what reserving all planes of an operation claims.
\<close>

section \<open>Superseding the holder\<close>

lemma drop_owned_slot_shrink: "drop_owned_slot who eps p s = Inr s' \<Longrightarrow> slots_shrink s s'"
  by (auto simp: drop_owned_slot_def errE split: option.splits if_splits)

lemma drop_owned_slot_gone:
  assumes "drop_owned_slot who eps p s = Inr s'" "dget eps p = Some e"
  shows "ownsSlotOp (map_option slot_op (slot_at s' p e)) who \<noteq> Inr True"
proof -
  from assms obtain owns where o: "ownsSlotOp (map_option slot_op (slot_at s p e)) who = Inr owns"
    and s': "s' = (if owns then drop_slot p e s else s)"
    by (auto simp: drop_owned_slot_def elim!: bindE_InrE)
  show ?thesis
  proof (cases owns)
    case True
    then show ?thesis by (simp add: s' ownsSlotOp_def)
  next
    case False
    with o show ?thesis by (simp add: s')
  qed
qed

lemma shrink_not_owned:
  assumes "slots_shrink s s'" "ownsSlotOp (map_option slot_op (slot_at s p e)) who \<noteq> Inr True"
  shows "ownsSlotOp (map_option slot_op (slot_at s' p e)) who \<noteq> Inr True"
proof (cases "slot_at s' p e")
  case None
  then show ?thesis by (simp add: ownsSlotOp_def)
next
  case (Some r)
  with assms show ?thesis by (metis option.distinct(1) slots_shrink_def)
qed

lemma drop_owned_fold:
  assumes "foldE (drop_owned_slot who eps) ps s = Inr s'"
  shows "slots_shrink s s' \<and> (\<forall>p\<in>set ps. \<forall>e. dget eps p = Some e \<longrightarrow>
     ownsSlotOp (map_option slot_op (slot_at s' p e)) who \<noteq> Inr True)"
  using assms
proof (induction ps arbitrary: s)
  case (Cons p ps)
  then obtain s1 where 1: "drop_owned_slot who eps p s = Inr s1" "foldE (drop_owned_slot who eps) ps s1 = Inr s'"
    by (auto simp: errE)
  note ih = Cons.IH [OF 1(2)]
  have "slots_shrink s s'" using drop_owned_slot_shrink [OF 1(1)] ih slots_shrink_trans by blast
  moreover have "ownsSlotOp (map_option slot_op (slot_at s' p e)) who \<noteq> Inr True"
    if "dget eps p = Some e" for e
    using shrink_not_owned drop_owned_slot_gone [OF 1(1) that] ih by blast
  ultimately show ?case using ih by auto
qed simp

text \<open>A slot the holder declared: one of its planes, at the epoch it gave for it, and its own.\<close>

definition declared_slot :: "active_operation \<Rightarrow> agent_state \<Rightarrow> plane \<Rightarrow> string \<Rightarrow> bool" where
  "declared_slot h s p e \<longleftrightarrow> p \<in> set (ao_planes h) \<and> dget (ao_epochs h) p = Some e
     \<and> ownsSlotOp (map_option slot_op (slot_at s p e)) h = Inr True"

lemma drop_owned_one:
  assumes "drop_owned_slot who eps p s = Inr s'"
  shows "slot_at s' q e = (if q = p \<and> dget eps p = Some e \<and> ownsSlotOp (map_option slot_op (slot_at s p e)) who = Inr True
    then None else slot_at s q e)"
proof (cases "dget eps p")
  case None
  with assms show ?thesis by (simp add: drop_owned_slot_def)
next
  case (Some f)
  with assms obtain owns where "ownsSlotOp (map_option slot_op (slot_at s p f)) who = Inr owns"
    "s' = (if owns then drop_slot p f s else s)"
    by (auto simp: drop_owned_slot_def elim!: bindE_InrE)
  then show ?thesis using Some by (cases owns) auto
qed

lemma drop_owned_exact:
  assumes "foldE (drop_owned_slot who eps) ps s = Inr s'"
  shows "slot_at s' q e = (if q \<in> set ps \<and> dget eps q = Some e
      \<and> ownsSlotOp (map_option slot_op (slot_at s q e)) who = Inr True then None else slot_at s q e)"
  using assms
proof (induction ps arbitrary: s)
  case (Cons p ps)
  then obtain s1 where 1: "drop_owned_slot who eps p s = Inr s1" "foldE (drop_owned_slot who eps) ps s1 = Inr s'"
    by (auto simp: errE)
  show ?case using Cons.IH [OF 1(2)] by (auto simp: drop_owned_one [OF 1(1)] ownsSlotOp_def)
qed simp

text \<open>The fields the loops over slots leave alone, with the journal's operation.\<close>

definition base_kept :: "agent_state \<Rightarrow> agent_state \<Rightarrow> bool" where
  "base_kept s s' \<longleftrightarrow> lastActivated s' = lastActivated s \<and> planes s' = planes s \<and>
     pendingActivation s' = pendingActivation s \<and> pendingEpochs s' = pendingEpochs s \<and>
     map_option je_op (journal s') = map_option je_op (journal s) \<and>
     activeOperation s' = activeOperation s \<and> maxLeaderToken s' = maxLeaderToken s \<and>
     terminal s' = terminal s"

lemma base_kept_refl [simp]: "base_kept s s"
  by (simp add: base_kept_def)

lemma base_kept_trans [trans]: "base_kept a b \<Longrightarrow> base_kept b c \<Longrightarrow> base_kept a c"
  by (simp add: base_kept_def)

lemma base_kept_drop_owned: "drop_owned_slot who eps p s = Inr s' \<Longrightarrow> base_kept s s'"
  by (auto simp: drop_owned_slot_def errE base_kept_def split: option.splits if_splits)

lemma base_kept_foldE:
  assumes "foldE f xs s = Inr s'" "\<And>x s s'. f x s = Inr s' \<Longrightarrow> base_kept s s'"
  shows "base_kept s s'"
  using assms(1) by (rule foldE_rel) (auto intro: base_kept_trans assms(2))

lemma base_kept_supersede_journal: "base_kept s (supersede_journal h s)"
  by (auto simp: supersede_journal_def base_kept_def split: option.splits)

lemma supersede_parts:
  assumes "supersede h s = Inr s'"
  obtains s1 s2 where "foldE (drop_owned_slot h (ao_epochs h)) (ao_planes h) s = Inr s1"
    "finalizeCandidate h (supersede_journal h s1) = Inr s2" "s' = drop_holder h s2"
    "base_kept s (supersede_journal h s1)"
proof -
  from assms obtain s1 s2 where 1: "foldE (drop_owned_slot h (ao_epochs h)) (ao_planes h) s = Inr s1"
    and 2: "finalizeCandidate h (supersede_journal h s1) = Inr s2" and 3: "s' = drop_holder h s2"
    unfolding supersede_def by (elim bindE_InrE) simp
  have "base_kept s s1" using 1 by (rule base_kept_foldE) (rule base_kept_drop_owned)
  then have "base_kept s (supersede_journal h s1)"
    using base_kept_supersede_journal by (rule base_kept_trans)
  with that [OF 1 2 3] show thesis .
qed

lemma finalizeCandidate_frame:
  assumes "finalizeCandidate ids s = Inr s'"
  shows "reservations s' = reservations s" "planes s' = planes s" "journal s' = journal s"
    "activeOperation s' = activeOperation s" "maxLeaderToken s' = maxLeaderToken s"
    "\<And>c. pendingActivation s' = Some c \<Longrightarrow> \<not> sameTransitionName c ids"
proof -
  show "reservations s' = reservations s" "planes s' = planes s" "journal s' = journal s"
    "activeOperation s' = activeOperation s" "maxLeaderToken s' = maxLeaderToken s"
    by (rule finalizeCandidate_Inr [OF assms], simp_all)+
  fix c assume c: "pendingActivation s' = Some c"
  show "\<not> sameTransitionName c ids"
    using assms c by (auto simp: finalizeCandidate_def sameTransitionName_def Let_def
        elim!: bindE_InrE split: option.splits if_splits)
qed

lemma drop_holder_simps [simp]:
  "reservations (drop_holder h s) = reservations s" "planes (drop_holder h s) = planes s"
  "journal (drop_holder h s) = journal s" "maxLeaderToken (drop_holder h s) = maxLeaderToken s"
  "pendingActivation (drop_holder h s) = pendingActivation s"
  "lastActivated (drop_holder h s) = lastActivated s"
  by (simp_all add: drop_holder_def split: option.splits)

text \<open>What remains of an operation that was superseded: nothing it could go on with.\<close>

definition evicted :: "active_operation \<Rightarrow> agent_state \<Rightarrow> bool" where
  "evicted h s \<longleftrightarrow>
     (\<forall>p\<in>set (ao_planes h). \<forall>e. dget (ao_epochs h) p = Some e \<longrightarrow>
        ownsSlotOp (map_option slot_op (slot_at s p e)) h \<noteq> Inr True) \<and>
     (\<forall>j. journal s = Some j \<longrightarrow> sameTransitionName (je_op j) h \<longrightarrow> isTerminalPhase (je_phase j)) \<and>
     (\<forall>c. pendingActivation s = Some c \<longrightarrow> \<not> sameTransitionName c h) \<and>
     (\<forall>a. activeOperation s = Some a \<longrightarrow> \<not> (sameTransitionName a h \<and> leaderToken a = leaderToken h))"

lemma supersede_evicts:
  assumes "supersede h s = Inr s'"
  shows "evicted h s'" "planes s' = planes s" "maxLeaderToken s' = maxLeaderToken s"
    "activeOperation s = Some h \<Longrightarrow> activeOperation s' = None"
    "slot_at s' p e = (if declared_slot h s p e then None else slot_at s p e)"
proof -
  obtain s1 s2 where 1: "foldE (drop_owned_slot h (ao_epochs h)) (ao_planes h) s = Inr s1"
    and 2: "finalizeCandidate h (supersede_journal h s1) = Inr s2" and s': "s' = drop_holder h s2"
    and base: "base_kept s (supersede_journal h s1)"
    by (rule supersede_parts [OF assms])
  note fc = finalizeCandidate_frame [OF 2]
  have res: "reservations s' = reservations s1"
    using fc(1) by (simp add: s' supersede_journal_def split: option.splits)
  have j: "journal s' = journal (supersede_journal h s1)" using fc(3) by (simp add: s')
  have "ownsSlotOp (map_option slot_op (slot_at s' p e)) h \<noteq> Inr True"
    if "p \<in> set (ao_planes h)" "dget (ao_epochs h) p = Some e" for p e
    using drop_owned_fold [OF 1] that slot_at_cong [OF res] by simp
  moreover have "isTerminalPhase (je_phase x)" if "journal s' = Some x" "sameTransitionName (je_op x) h" for x
    using that j by (auto simp: supersede_journal_def split: option.splits if_splits)
  moreover have "\<not> sameTransitionName c h" if "pendingActivation s' = Some c" for c
    using that fc(6) by (simp add: s')
  moreover have "\<not> (sameTransitionName a h \<and> leaderToken a = leaderToken h)"
    if "activeOperation s' = Some a" for a
    using that by (auto simp: s' drop_holder_def sameTransitionName_def split: option.splits if_splits)
  ultimately show "evicted h s'" unfolding evicted_def by blast
  show "planes s' = planes s" "maxLeaderToken s' = maxLeaderToken s"
    using fc(2,5) base by (simp_all add: s' base_kept_def)
  show "activeOperation s' = None" if "activeOperation s = Some h"
    using that fc(4) base by (simp add: s' base_kept_def drop_holder_def)
  show "slot_at s' p e = (if declared_slot h s p e then None else slot_at s p e)"
    unfolding slot_at_cong [OF res] declared_slot_def by (rule drop_owned_exact [OF 1])
qed

text \<open>C3: Fencing evicts the previous leader's operation: once a higher token has been fenced, the
  slots that the running operation of a lower token declared, each of its planes at the epoch it
  gave for it, are free and no other slot has changed; it has no running journal, no pending
  candidate and no right to execute; and no plane has moved.\<close>

theorem fence_evicts:
  assumes "fence t s = Inr (m, s')" "activeOperation s = Some h"
    and "lower_token (leaderToken h) t"
  shows "evicted h s' \<and> activeOperation s' = None \<and> planes s' = planes s \<and>
    (\<forall>p e. slot_at s' p e = (if declared_slot h s p e then None else slot_at s p e)) \<and>
    maxLeaderToken s' = m \<and> BigInt m = BigInt t"
proof -
  from assms(1) obtain token where n: "normalizeNumeric t = Inr token"
    by (auto simp: fence_def elim!: bindE_InrE)
  have "big_rel (<) (leaderToken h) token = Inr True"
    using assms(3) BigInt_normalized [OF n] by (auto simp: big_rel_def lower_token_def)
  with assms(1,2) n have sup: "supersede h (s\<lparr>maxLeaderToken := token\<rparr>) = Inr s'" "m = maxLeaderToken s'"
    by (auto simp: fence_def Let_def elim!: bindE_InrE)
  have "slot_at (s\<lparr>maxLeaderToken := token\<rparr>) = slot_at s" by (rule slot_at_cong) simp
  with supersede_evicts [OF sup(1)] sup(2) assms(2) BigInt_normalized [OF n] show ?thesis
    by (simp add: declared_slot_def)
qed

section \<open>The baseline\<close>

text \<open>A plane was moved by a candidate when the candidate is its author; a position from before
  authors were recorded has none, and then the ledger must say that the candidate was activated there.\<close>

definition candidate_ref :: "publish_record \<Rightarrow> plane \<Rightarrow> terminal_ref" where
  "candidate_ref c p = \<lparr>leaderToken = leaderToken c, operationId = operationId c, transitionId = transitionId c, on_plane = p\<rparr>"

definition recorded_activated :: "agent_state \<Rightarrow> publish_record \<Rightarrow> plane \<Rightarrow> bool" where
  "recorded_activated s c p \<longleftrightarrow>
     (\<exists>k. (transitionKey (candidate_ref c p) = Inr k \<or> legacyTerminalKey (candidate_ref c p) = k)
        \<and> dget (terminal s) k = Some T_activated)"

definition moved_there_by :: "agent_state \<Rightarrow> publish_record \<Rightarrow> plane \<Rightarrow> bool" where
  "moved_there_by s c p \<longleftrightarrow>
     (case ps_by (planes s p) of Some b \<Rightarrow> same_identity b c = Inr True | None \<Rightarrow> recorded_activated s c p)"

definition stands_at :: "agent_state \<Rightarrow> epochs \<Rightarrow> bool" where
  "stands_at s es \<longleftrightarrow> (\<forall>(p, e) \<in> set es. activationEpoch (planes s p) = e)"

text \<open>The baseline moves to a candidate all of whose planes arrived and were moved by it, and it is
  given up when they stand at the declared epochs but one of them is not known to be the candidate's.\<close>

definition baseline_moves :: "agent_state \<Rightarrow> publish_record \<Rightarrow> epochs \<Rightarrow> agent_state \<Rightarrow> bool" where
  "baseline_moves s c es s' \<longleftrightarrow> pendingActivation s = Some c \<and> declared_epochs s c = Inr (Some es) \<and> stands_at s es \<and>
     (lastActivated s' = Some c \<and> (\<forall>p \<in> fst ` set es. moved_there_by s c p) \<or>
      lastActivated s' = None \<and> (\<exists>p \<in> fst ` set es. \<not> (\<exists>b. ps_by (planes s p) = Some b \<and> same_identity b c = Inr True)))"

definition baseline_step :: "agent_state \<Rightarrow> agent_state \<Rightarrow> bool" where
  "baseline_step s s' \<longleftrightarrow> lastActivated s' = lastActivated s \<or> (\<exists>c es. baseline_moves s c es s')"

lemma everyE_True: "everyE f xs = Inr True \<longleftrightarrow> (\<forall>x\<in>set xs. f x = Inr True)"
  by (induction xs) (auto simp: errE split: if_splits)

lemma everyE_False: "everyE f xs = Inr False \<Longrightarrow> \<exists>x\<in>set xs. f x \<noteq> Inr True"
  by (induction xs) (auto simp: errE split: if_splits)

lemma recorded_activated_iff:
  assumes "terminalOf s (candidate_ref c p) = Inr (Some T_activated)"
  shows "recorded_activated s c p"
  using assms unfolding terminalOf_def recorded_activated_def
  by (elim bindE_InrE) (auto split: option.splits)

lemma candidateArrived_True:
  assumes "candidateArrived s c eps = Inr True"
  obtains es where "eps = Some es" "stands_at s es" "\<forall>p \<in> fst ` set es. moved_there_by s c p"
proof -
  from assms obtain es where es: "eps = Some es"
    by (cases eps) (auto simp: candidateArrived_def)
  have "activationEpoch (planes s p) = e \<and> moved_there_by s c p" if "(p, e) \<in> set es" for p e
    using that assms es recorded_activated_iff
    by (fastforce simp: candidateArrived_def everyE_True Let_def authoredBy_def moved_there_by_def candidate_ref_def
        elim!: bindE_InrE split: if_splits option.splits)
  with es that show thesis by (fastforce simp: stands_at_def)
qed

lemma candidateArrived_False:
  assumes "candidateArrived s c (Some es) = Inr False" "positions_reached s (Some es)"
  shows "\<exists>p \<in> fst ` set es. \<not> (\<exists>b. ps_by (planes s p) = Some b \<and> same_identity b c = Inr True)"
proof -
  from everyE_False [OF assms(1) [unfolded candidateArrived_def option.case]] obtain p e where
    "(p, e) \<in> set es" and f: "(let at = planes s p in
            if activationEpoch at \<noteq> e then Inr False
            else (case ps_by at of
                None \<Rightarrow> bindE (terminalOf s \<lparr>leaderToken = leaderToken c, operationId = operationId c,
                      transitionId = transitionId c, on_plane = p\<rparr>) (\<lambda>t. Inr (t = Some T_activated))
              | Some _ \<Rightarrow> authoredBy at c)) \<noteq> Inr True"
    by auto
  moreover have "activationEpoch (planes s p) = e"
    using assms(2) \<open>(p, e) \<in> set es\<close> by (auto simp: positions_reached_def list_all_iff)
  ultimately show ?thesis by (force simp: Let_def authoredBy_def)
qed

lemma declared_epochs_name:
  "sameTransitionName c ids \<Longrightarrow> declared_epochs s ids = declared_epochs s c"
  by (auto simp: declared_epochs_def epochsFromJournal_def sameTransitionName_def split: option.splits)

definition cand_kept :: "agent_state \<Rightarrow> agent_state \<Rightarrow> bool" where
  "cand_kept s s' \<longleftrightarrow> lastActivated s' = lastActivated s \<and> planes s' = planes s \<and>
     pendingActivation s' = pendingActivation s \<and> pendingEpochs s' = pendingEpochs s \<and>
     map_option je_op (journal s') = map_option je_op (journal s) \<and>
     (\<forall>k. dget (terminal s') k = Some T_activated \<longrightarrow> dget (terminal s) k = Some T_activated)"

lemma cand_kept_refl [simp]: "cand_kept s s"
  by (simp add: cand_kept_def)

lemma cand_kept_trans [trans]: "cand_kept a b \<Longrightarrow> cand_kept b c \<Longrightarrow> cand_kept a c"
  by (simp add: cand_kept_def)

lemma base_cand: "base_kept s s' \<Longrightarrow> cand_kept s s'"
  by (simp add: base_kept_def cand_kept_def)

lemma declared_epochs_base: "cand_kept s s' \<Longrightarrow> declared_epochs s' x = declared_epochs s x"
  by (auto simp: declared_epochs_def epochsFromJournal_def cand_kept_def split: option.splits)

lemma moved_there_by_kept: "cand_kept s s1 \<Longrightarrow> moved_there_by s1 c p \<Longrightarrow> moved_there_by s c p"
  by (auto simp: moved_there_by_def recorded_activated_def cand_kept_def split: option.splits)

lemma finalizeCandidate_baseline:
  assumes "finalizeCandidate ids s1 = Inr s2" "cand_kept s s1"
  shows "baseline_step s s2"
proof (rule finalizeCandidate_Inr [OF assms(1)])
  assume "s2 = s1"
  with assms(2) show ?thesis by (simp add: baseline_step_def cand_kept_def)
next
  fix c eps arrived
  assume c: "pendingActivation s1 = Some c" "sameTransitionName c ids"
    and d: "declared_epochs s1 ids = Inr eps" and a: "candidateArrived s1 c eps = Inr arrived"
    and s2: "s2 = s1\<lparr>lastActivated := (if arrived then Some c
         else if positions_reached s1 eps then None else lastActivated s1),
       pendingActivation := None, pendingEpochs := None\<rparr>"
  have de: "declared_epochs s c = Inr eps"
    using d declared_epochs_name [OF c(2)] declared_epochs_base [OF assms(2)] by metis
  have pl: "planes s1 = planes s" "pendingActivation s = Some c" "lastActivated s1 = lastActivated s"
    using assms(2) c(1) by (simp_all add: cand_kept_def)
  show ?thesis
  proof (cases arrived)
    case True
    with a obtain es where es: "eps = Some es" "stands_at s1 es" "\<forall>p \<in> fst ` set es. moved_there_by s1 c p"
      by (auto elim: candidateArrived_True)
    then have "baseline_moves s c es s2"
      using de pl s2 True moved_there_by_kept [OF assms(2)] by (simp add: baseline_moves_def stands_at_def)
    then show ?thesis by (auto simp: baseline_step_def)
  next
    case False
    show ?thesis
    proof (cases "positions_reached s1 eps")
      case True
      then obtain es where es: "eps = Some es" by (cases eps) (auto simp: positions_reached_def)
      have "baseline_moves s c es s2"
        using candidateArrived_False [of s1 c es] a False True es de pl s2
        by (auto simp: baseline_moves_def stands_at_def positions_reached_def list_all_iff)
      then show ?thesis by (auto simp: baseline_step_def)
    qed (use False s2 pl in \<open>simp add: baseline_step_def\<close>)
  qed
qed

lemma supersede_baseline:
  assumes "supersede h s1 = Inr s2" "cand_kept s s1"
  shows "baseline_step s s2"
proof (rule supersede_parts [OF assms(1)])
  fix t1 t2
  assume f: "finalizeCandidate h (supersede_journal h t1) = Inr t2" and s2: "s2 = drop_holder h t2"
    and b: "base_kept s1 (supersede_journal h t1)"
  from finalizeCandidate_baseline [OF f cand_kept_trans [OF assms(2) base_cand [OF b]]]
  show ?thesis by (simp add: s2 baseline_step_def baseline_moves_def)
qed

lemma baseline_step_cong: "lastActivated s2 = lastActivated s1 \<Longrightarrow> baseline_step s s2 = baseline_step s s1"
  by (simp add: baseline_step_def baseline_moves_def)

lemma baseline_step_same: "lastActivated s' = lastActivated s \<Longrightarrow> baseline_step s s'"
  by (simp add: baseline_step_def)


lemma last_kept:
  "admit opn st s = Inr (r, s') \<Longrightarrow> lastActivated s' = lastActivated s"
  "acquire opn s = Inr (slot, s') \<Longrightarrow> lastActivated s' = lastActivated s"
  "record_ack opn st x s = Inr (ack, s') \<Longrightarrow> lastActivated s' = lastActivated s"
  "finish opn how s = Inr s' \<Longrightarrow> lastActivated s' = lastActivated s"
  "raise_token t s = Inr s' \<Longrightarrow> lastActivated s' = lastActivated s"
  "drop_owned_slot who eps p s = Inr s' \<Longrightarrow> lastActivated s' = lastActivated s"
  "commit_candidate opn s = Inr s' \<Longrightarrow> lastActivated s' = lastActivated s"
proof -
  show "admit opn st s = Inr (r, s') \<Longrightarrow> lastActivated s' = lastActivated s"
    using admit_facts(1) by fastforce
  show "acquire opn s = Inr (slot, s') \<Longrightarrow> lastActivated s' = lastActivated s"
    by (drule acquire_Inr(2)) auto
  show "record_ack opn st x s = Inr (ack, s') \<Longrightarrow> lastActivated s' = lastActivated s"
    by (erule record_ack_Inr) simp
  show "finish opn how s = Inr s' \<Longrightarrow> lastActivated s' = lastActivated s"
    unfolding finish_def Let_def by (elim bindE_InrE) auto
  show "raise_token t s = Inr s' \<Longrightarrow> lastActivated s' = lastActivated s"
    by (auto dest: raise_token_Inr)
  show "drop_owned_slot who eps p s = Inr s' \<Longrightarrow> lastActivated s' = lastActivated s"
    by (drule base_kept_drop_owned) (simp add: base_kept_def)
  show "commit_candidate opn s = Inr s' \<Longrightarrow> lastActivated s' = lastActivated s"
    by (erule commit_candidate_Inr) simp
qed

lemma last_reserve_one: "reserve_one t s = Inr (ack, s') \<Longrightarrow> lastActivated s' = lastActivated s"
  unfolding reserve_one_def
  by (elim bindE_InrE) (auto split: option.splits elim!: bindE_InrE dest!: last_kept)

lemma last_stage: "stage t s = Inr (ack, s') \<Longrightarrow> lastActivated s' = lastActivated s"
  unfolding stage_def Let_def
  by (elim bindE_InrE) (auto split: option.splits elim!: bindE_InrE dest!: last_kept)

lemma last_commit:
  assumes "commit opn ev s = Inr (ack, s')"
  shows "lastActivated s' = lastActivated s"
proof (cases rule: commit_Inr [OF assms])
  case (3 s1 m)
  show ?thesis
    by (rule commit_move_Inr [OF 3(3)])
      (use 3(1) in \<open>auto simp: set_plane_def dest!: last_kept\<close>)
qed (auto dest!: last_kept)

lemma last_health: "applyHealth opn s = Inr (ack, s') \<Longrightarrow> lastActivated s' = lastActivated s"
  unfolding applyHealth_def Let_def
  by (elim bindE_InrE) (auto split: option.splits if_splits elim!: bindE_InrE dest!: last_kept
      simp: set_plane_def)

lemma last_finalize: "finalize opn how s = Inr (u, s') \<Longrightarrow> lastActivated s' = lastActivated s"
  unfolding finalize_def
  by (elim bindE_InrE) (auto split: option.splits if_splits elim!: bindE_InrE dest!: last_kept)

lemma last_foldE:
  assumes "foldE f xs s = Inr s'" "\<And>x s s'. f x s = Inr s' \<Longrightarrow> lastActivated s' = lastActivated s"
  shows "lastActivated s' = lastActivated s"
  using assms(1) by (rule foldE_rel) (auto intro: assms(2))

lemma last_release:
  assumes "release opn s = Inr (u, s')"
  shows "lastActivated s' = lastActivated s"
proof -
  from assms obtain already :: "terminal_kind option" where
    r: "(if already \<noteq> None then Inr ((), s)
     else
       bindE (foldE (\<lambda>st s. bindE (step_key opn st) (\<lambda>k.
             Inr (s\<lparr>completed := ddel k (completed s)\<rparr>)))
           [Step_reserve, Step_stage, Step_commit, Step_health]
           (if ownsSlot s opn then drop_slot (on_plane opn) (target_epoch opn) s else s)) (\<lambda>s'.
       Inr ((), s'))) = Inr (u, s')"
    unfolding release_def by (elim bindE_InrE)
  have "lastActivated s2 = lastActivated s1"
    if "foldE (\<lambda>st s. bindE (step_key opn st) (\<lambda>k. Inr (s\<lparr>completed := ddel k (completed s)\<rparr>)))
           [Step_reserve, Step_stage, Step_commit, Step_health] s1 = Inr s2" for s1 s2
    using that by (rule last_foldE) (auto simp: errE)
  with r show ?thesis
    by (auto simp del: foldE.simps split: if_splits elim!: bindE_InrE)
qed

lemma last_housekeeping:
  "recordPublishIntent x s = Inr (u, s') \<Longrightarrow> lastActivated s' = lastActivated s"
  "closeJournal opn how s = Inr (u, s') \<Longrightarrow> lastActivated s' = lastActivated s"
  "reclaimOperation opn s = Inr (b, s') \<Longrightarrow> lastActivated s' = lastActivated s"
  "writeJournal e s = Inr (u, s') \<Longrightarrow> lastActivated s' = lastActivated s"
  by (auto simp: recordPublishIntent_def closeJournal_def reclaimOperation_def writeJournal_def
      errE split: option.splits if_splits)

lemma last_releaseHolderSlots:
  assumes "releaseHolderSlots opn s = Inr (u, s')"
  shows "lastActivated s' = lastActivated s"
proof -
  have f: "lastActivated s2 = lastActivated s1"
    if "foldE (drop_owned_slot opn eps) ps s1 = Inr s2" for eps ps s1 s2
    using that by (rule last_foldE) (rule last_kept(6))
  from assms show ?thesis unfolding releaseHolderSlots_def
    by (elim bindE_InrE) (auto split: if_splits elim!: bindE_InrE dest!: f)
qed

lemma last_releaseStaleSlots:
  assumes "releaseStaleSlots opn s = Inr (u, s')"
  shows "lastActivated s' = lastActivated s"
proof -
  have f: "lastActivated s2 = lastActivated s1"
    if "foldE (\<lambda>plane s.
            bindE (epoch_entry opn plane) (\<lambda>(_, epoch).
            bindE (ownsSlotOp (map_option slot_op (slot_at s plane epoch)) opn) (\<lambda>owns.
            Inr (if owns then drop_slot plane epoch s else s)))) ps s1 = Inr s2" for ps s1 s2
    using that by (rule last_foldE) (auto simp: errE)
  from assms show ?thesis unfolding releaseStaleSlots_def
    by (auto split: if_splits elim!: bindE_InrE dest!: f)
qed

lemma last_releaseIdleHolder:
  assumes "releaseIdleHolder s = Inr (b, s')"
  shows "lastActivated s' = lastActivated s"
proof -
  have "lastActivated (foldl (\<lambda>s plane. case dget eps plane of
             None \<Rightarrow> s | Some epoch \<Rightarrow> drop_slot plane epoch s) s ps) = lastActivated s" for eps ps s
    by (induction ps arbitrary: s) (auto split: option.splits)
  with assms show ?thesis
    by (auto simp: releaseIdleHolder_def split: option.splits if_splits)
qed

lemma fence_baseline:
  assumes "fence t s = Inr (m, s')"
  shows "baseline_step s s'"
proof -
  from assms obtain token where n: "normalizeNumeric t = Inr token"
    unfolding fence_def by (elim bindE_InrE)
  have "s' = s\<lparr>maxLeaderToken := token\<rparr> \<or>
      (\<exists>h. supersede h (s\<lparr>maxLeaderToken := token\<rparr>) = Inr s')"
    using assms n unfolding fence_def Let_def
    by (auto split: option.splits if_splits elim!: bindE_InrE)
  moreover have "cand_kept s (s\<lparr>maxLeaderToken := token\<rparr>)" by (simp add: cand_kept_def)
  ultimately show ?thesis using supersede_baseline by (auto simp: baseline_step_def)
qed

lemma reserveAll_baseline:
  assumes "reserveAll opn opening s = Inr (acks, s')"
  shows "baseline_step s s'"
proof (rule reserveAll_Inr [OF assms])
  fix tuples first s1 s2
  assume 1: "clear_stale_journal opn opening s = Inr s1" and 2: "mapS reserve_one tuples s1 = Inr (acks, s2)"
    and 3: "open_journal opn opening
       (s2\<lparr>activeOperation := Some (holder_for opn tuples (leaderToken first))\<rparr>) = Inr s'"
  have "lastActivated s2 = lastActivated s1"
    using 2 by (rule mapS_rel) (auto dest: last_reserve_one)
  moreover have "lastActivated s' = lastActivated s2"
    using 3 by (auto simp: open_journal_def errE split: option.splits if_splits)
  moreover have "baseline_step s s1"
  proof -
    have ab: "baseline_step s s1" if "abandon_stale opn stale s = Inr s1" for stale
    proof -
      from that obtain mine t h where
        f: "foldE (abort_stale_plane stale mine) (planesOf stale) s = Inr t" and "supersede h t = Inr s1"
        unfolding abandon_stale_def by (elim bindE_InrE)
      moreover have "cand_kept s t"
        using f by (rule foldE_rel) (auto simp: cand_kept_def abort_stale_plane_def errE update_conv' split: if_splits)
      ultimately show ?thesis using supersede_baseline by blast
    qed
    from 1 have "s1 = s \<or> (\<exists>stale. abandon_stale opn stale s = Inr s1)"
      unfolding clear_stale_journal_def
      by (elim bindE_InrE) (auto split: option.splits if_splits)
    then show ?thesis using ab baseline_step_same by blast
  qed
  ultimately show ?thesis using baseline_step_cong by metis
qed

lemma finishOperation_baseline:
  assumes "finishOperation opn ps s = Inr (u, s')"
  shows "baseline_step s s'"
proof -
  from assms obtain s1 s2 where
    1: "finalizeCandidate opn s = Inr s1"
    and 2: "foldE (\<lambda>plane s. bindE (tupleFor opn plane) (\<lambda>t.
         Inr (if ownsSlot s t then drop_slot plane (target_epoch t) s else s))) ps s1 = Inr s2"
    and 3: "(case activeOperation s2 of
       None \<Rightarrow> Inr ((), s2)
     | Some holder \<Rightarrow>
         (if \<not> sameTransitionName holder opn then Inr ((), s2)
          else bindE (normalizeNumeric (leaderToken opn)) (\<lambda>token.
            Inr ((), (if leaderToken holder = token then s2\<lparr>activeOperation := None\<rparr> else s2)))))
        = Inr (u, s')"
    unfolding finishOperation_def by (elim bindE_InrE)
  have "baseline_step s s1" using 1 cand_kept_refl by (rule finalizeCandidate_baseline)
  moreover have "lastActivated s2 = lastActivated s1" using 2 by (rule last_foldE) (auto simp: errE)
  moreover have "lastActivated s' = lastActivated s2"
    using 3 by (auto simp: errE split: option.splits if_splits)
  ultimately show ?thesis using baseline_step_cong by metis
qed

lemma run_request_baseline:
  assumes "run_request r s = Inr s'"
  shows "baseline_step s s'"
  using assms
  by (cases r) (auto simp: quietly_Inr reserve_def abort_def fail_def
      intro: fence_baseline reserveAll_baseline finishOperation_baseline baseline_step_same
        last_reserve_one last_stage last_commit last_health last_finalize last_release
        last_housekeeping last_releaseHolderSlots last_releaseStaleSlots last_releaseIdleHolder)

text \<open>C5: The baseline changes in one way only: a step that changes the last activated generation settles
  the pending candidate, all of whose declared planes stand at their declared epochs. It becomes that
  candidate when every one of these planes was moved there by it, by its recorded author or, where a plane
  has no author, by the candidate's verdict in the ledger; and it is given up, to none, when the planes
  stand there but one of them does not have the candidate as its author.\<close>

theorem baseline_only_by_arrival:
  assumes "agent_step s r s'" "lastActivated s' \<noteq> lastActivated s"
  shows "\<exists>c es. pendingActivation s = Some c \<and> declared_epochs s c = Inr (Some es) \<and> stands_at s es \<and>
    (lastActivated s' = Some c \<and> (\<forall>p \<in> fst ` set es. moved_there_by s c p) \<or>
     lastActivated s' = None \<and> (\<exists>p \<in> fst ` set es. \<not> (\<exists>b. ps_by (planes s p) = Some b \<and> same_identity b c = Inr True)))"
proof -
  from assms(1) obtain nxt where run: "run_request r s = Inr nxt" and pr: "prune nxt = Inr s'"
    by (auto simp: agent_step_parts)
  have "lastActivated s' = lastActivated nxt" using prune_same_core [OF pr] by (simp add: same_core_def)
  with run_request_baseline [OF run] have "baseline_step s s'" using baseline_step_cong by metis
  then show ?thesis using assms(2) by (simp add: baseline_step_def baseline_moves_def)
qed

section \<open>The claim of a whole operation\<close>

definition slots_stay :: "agent_state \<Rightarrow> agent_state \<Rightarrow> bool" where
  "slots_stay s s' \<longleftrightarrow> (\<forall>p e r. slot_at s p e = Some r \<longrightarrow> slot_at s' p e = Some r)"

lemma slots_stay_same: "reservations s' = reservations s \<Longrightarrow> slots_stay s s'"
  by (simp add: slots_stay_def slot_at_def)

lemma slots_stay_owns: "slots_stay s s' \<Longrightarrow> ownsSlot s t \<Longrightarrow> ownsSlot s' t"
  by (auto simp: slots_stay_def ownsSlot_def split: option.splits)

lemma reserve_one_claims:
  assumes "reserve_one t s = Inr (ack, s')"
  shows "slots_stay s s' \<and> journal s' = journal s \<and> (ack_cached ack \<or> ownsSlot s' t)"
proof -
  from assms obtain r s1 where adm: "admit t Step_reserve s = Inr (r, s1)"
    and rest: "(case r of Some ack \<Rightarrow> Inr (ack, s1)
     | None \<Rightarrow> bindE (acquire t s1) (\<lambda>(_, s1). record_ack t Step_reserve (target_state t None) s1))
     = Inr (ack, s')"
    unfolding reserve_one_def by (elim bindE_InrE) auto
  have s1: "slots_stay s s1" "journal s1 = journal s" using admit_facts(1) [OF adm] by (auto intro: slots_stay_same)
  show ?thesis
  proof (cases r)
    case (Some a)
    with rest s1 admit_facts(4) [OF adm] show ?thesis by auto
  next
    case None
    with rest obtain slot s2 where acq: "acquire t s1 = Inr (slot, s2)"
      and rec: "record_ack t Step_reserve (target_state t None) s2 = Inr (ack, s')"
      by (auto elim!: bindE_InrE)
    have "slots_stay s1 s2" "journal s2 = journal s1"
      "slot_at s2 (on_plane t) (target_epoch t) = Some slot"
      using acquire_Inr(2) [OF acq] by (auto simp: slots_stay_def)
    moreover have "reservations s' = reservations s2" "journal s' = journal s2"
      by (rule record_ack_Inr [OF rec], simp)+
    ultimately show ?thesis
      using s1 acquire_Inr(1) [OF acq] slot_at_cong [of s' s2] by (auto simp: slots_stay_def ownsSlot_def)
  qed
qed

lemma mapS_reserve_claims:
  assumes "mapS reserve_one ts s = Inr (acks, s')"
  shows "slots_stay s s' \<and> journal s' = journal s \<and>
    list_all2 (\<lambda>t ack. ack_cached ack \<or> ownsSlot s' t) ts acks"
  using assms
proof (induction ts arbitrary: s acks)
  case Nil
  then show ?case by (simp add: slots_stay_def)
next
  case (Cons t ts)
  then obtain a s1 as where 1: "reserve_one t s = Inr (a, s1)" and 2: "mapS reserve_one ts s1 = Inr (as, s')"
    and acks: "acks = a # as"
    by (auto simp: errE)
  note ih = Cons.IH [OF 2] and h = reserve_one_claims [OF 1]
  have "slots_stay s s'" using ih h by (auto simp: slots_stay_def)
  moreover have "ack_cached a \<or> ownsSlot s' t" using ih h slots_stay_owns by blast
  ultimately show ?case using ih h acks by simp
qed

lemma reserveAll_opens:
  assumes "reserveAll opn (Some entry) s = Inr (acks, s')" "je_op entry = opn"
  shows "\<exists>h. activeOperation s' = Some h \<and> sameTransitionName h opn \<and> ao_planes h = planesOf opn"
    and "ownsJournal (journal s') opn = Inr True"
proof -
  obtain tuples first rest s1 s2
    where t: "mapE (tupleFor opn) (planesOf opn) = Inr tuples" "tuples = first # rest"
      and j: "open_journal opn (Some entry)
       (s2\<lparr>activeOperation := Some (holder_for opn tuples (leaderToken first))\<rparr>) = Inr s'"
    by (rule reserveAll_Inr [OF assms(1)]) blast
  let ?s3 = "s2\<lparr>activeOperation := Some (holder_for opn tuples (leaderToken first))\<rparr>"
  have l: "list_all2 (\<lambda>p t. tupleFor opn p = Inr t) (planesOf opn) tuples" using t(1) by (rule mapE_Inr)
  then have "list_all2 (\<lambda>p t. on_plane t = p) (planesOf opn) tuples"
    by (rule list_all2_mono) (simp add: tupleFor_fields)
  then have pl: "map on_plane tuples = planesOf opn"
    by (induction rule: list_all2_induct) simp_all
  from l t(2) obtain p where "tupleFor opn p = Inr first" by (auto simp: list_all2_Cons2)
  then have n: "normalizeNumeric (leaderToken opn) = Inr (leaderToken first)" by (simp add: tupleFor_fields)
  from j obtain mine where own: "ownsJournal (journal ?s3) opn = Inr mine"
    and s': "s' = (if mine then ?s3 else ?s3\<lparr>journal := Some (journal_opening.extend entry
                 \<lparr>je_seq = (case journal ?s3 of None \<Rightarrow> 0 | Some j \<Rightarrow> je_seq j) + 1\<rparr>)\<rparr>)"
    unfolding open_journal_def option.case by (elim bindE_InrE) simp
  show "\<exists>h. activeOperation s' = Some h \<and> sameTransitionName h opn \<and> ao_planes h = planesOf opn"
    using pl by (simp add: s' holder_for_def sameTransitionName_def)
  show "ownsJournal (journal s') opn = Inr True"
  proof (cases mine)
    case True
    with own s' show ?thesis by simp
  next
    case False
    with s' n assms(2) show ?thesis
      by (simp add: ownsJournal_def same_identity_def sameTransitionName_def journal_opening.defs)
  qed
qed

text \<open>C4: Reserving an operation is all or nothing: when it succeeds the operation is the only holder of
  the apply path with all its planes declared, and each of its planes has either its slot or a repeated
  acknowledgement. If an opening entry for the operation was given, the journal is the operation's own;
  if none was given, the journal is the one there was, whosever it is.\<close>

theorem reserveAll_claims_everything:
  assumes "reserveAll opn opening s = Inr (acks, s')" "\<forall>entry. opening = Some entry \<longrightarrow> je_op entry = opn"
  shows "(\<exists>h. activeOperation s' = Some h \<and> sameTransitionName h opn \<and> ao_planes h = planesOf opn) \<and>
    (if opening = None then journal s' = journal s else ownsJournal (journal s') opn = Inr True) \<and>
    list_all2 (\<lambda>p ack. \<exists>t. tupleFor opn p = Inr t \<and> (ack_cached ack \<or> ownsSlot s' t))
      (planesOf opn) acks"
proof (rule reserveAll_Inr [OF assms(1)])
  fix tuples first rest s1 s2
  assume t: "mapE (tupleFor opn) (planesOf opn) = Inr tuples"
    and c: "clear_stale_journal opn opening s = Inr s1"
    and m: "mapS reserve_one tuples s1 = Inr (acks, s2)"
    and j: "open_journal opn opening
       (s2\<lparr>activeOperation := Some (holder_for opn tuples (leaderToken first))\<rparr>) = Inr s'"
  have "reservations s' = reservations s2"
    using j unfolding open_journal_def by (cases "opening") (auto simp: errE split: if_splits)
  then have "slot_at s' = slot_at s2" by (rule slot_at_cong)
  then have so: "ownsSlot s' = ownsSlot s2" by (simp add: ownsSlot_def fun_eq_iff)
  have l: "list_all2 (\<lambda>p t. tupleFor opn p = Inr t) (planesOf opn) tuples" using t by (rule mapE_Inr)
  moreover have "list_all2 (\<lambda>t ack. ack_cached ack \<or> ownsSlot s' t) tuples acks"
    using mapS_reserve_claims [OF m] by (simp add: so)
  ultimately have a: "list_all2 (\<lambda>p ack. \<exists>t. tupleFor opn p = Inr t \<and> (ack_cached ack \<or> ownsSlot s' t))
      (planesOf opn) acks"
    by (rule list_all2_trans [rotated 1]) blast
  show ?thesis
  proof (cases "opening")
    case None
    have "list_all2 (\<lambda>p t. on_plane t = p) (planesOf opn) tuples"
      using l by (rule list_all2_mono) (simp add: tupleFor_fields)
    then have pl: "map on_plane tuples = planesOf opn" by (induction rule: list_all2_induct) simp_all
    have "s1 = s" using c None by (auto simp: clear_stale_journal_def errE)
    moreover have "s' = s2\<lparr>activeOperation := Some (holder_for opn tuples (leaderToken first))\<rparr>"
      using j None by (simp add: open_journal_def)
    ultimately show ?thesis
      using a None pl mapS_reserve_claims [OF m] by (simp add: holder_for_def sameTransitionName_def)
  next
    case (Some entry)
    then show ?thesis using a reserveAll_opens [of opn entry s acks s'] assms by auto
  qed
qed

end
