(* ===== verification/Apply_Frame.thy ===== *)
theory Apply_Frame
  imports Apply_Runner Agent_Takeover
begin

text \<open>
  Reasoning about the apply runner: Hoare triples for its monad, and what its transactions leave
  of the journal and of the right to execute.
\<close>

named_theorems kept_intro "the agent's helpers keep the journal and the holder"

section \<open>Journal and holder\<close>

definition kept :: "agent_state \<Rightarrow> agent_state \<Rightarrow> bool" where
  "kept s s' \<longleftrightarrow> journal s' = journal s \<and> activeOperation s' = activeOperation s"

lemma kept_refl [simp]: "kept s s"
  by (simp add: kept_def)

lemma kept_trans [trans]: "kept a b \<Longrightarrow> kept b c \<Longrightarrow> kept a c"
  by (simp add: kept_def)

lemma kept_slots [simp]: "kept s (drop_slot p e s)" "kept s (put_slot p e r s)"
  by (simp_all add: kept_def)

lemma kept_set_plane [simp]: "kept s (set_plane p st s)"
  by (simp add: kept_def set_plane_def)

lemma kept_raise_token [kept_intro]: "raise_token t s = Inr s' \<Longrightarrow> kept s s'"
  by (auto simp: raise_token_def errE kept_def)

lemma kept_admit [kept_intro]: "admit opn st s = Inr (r, s') \<Longrightarrow> kept s s'"
  by (auto simp: admit_def admit_seen_def errE dest!: kept_raise_token split: option.splits if_splits)

lemma kept_acquire [kept_intro]: "acquire opn s = Inr (r, s') \<Longrightarrow> kept s s'"
  by (auto simp: acquire_def errE Let_def split: option.splits if_splits)

lemma kept_record_ack [kept_intro]: "record_ack opn st res s = Inr (r, s') \<Longrightarrow> kept s s'"
  by (auto simp: record_ack_def errE Let_def kept_def)

lemma kept_finish [kept_intro]: "finish opn how s = Inr s' \<Longrightarrow> kept s s'"
  by (auto simp: finish_def errE Let_def kept_def)

lemma kept_finalize [kept_intro]: "finalize opn how s = Inr (r, s') \<Longrightarrow> kept s s'"
  by (auto simp: finalize_def errE dest!: kept_raise_token kept_finish split: option.splits if_splits
      intro: kept_trans)

lemma kept_stage:
  assumes "stage opn s = Inr (r, s')" shows "kept s s'"
proof -
  from assms obtain replay s1 where a: "admit opn Step_stage s = Inr (replay, s1)"
    and rest: "(case replay of Some ack \<Rightarrow> Inr (ack, s1)
     | None \<Rightarrow> bindE (acquire opn s1) (\<lambda>(slot, s1).
         let s2 = put_slot (on_plane opn) (target_epoch opn)
               (slot\<lparr>slot_stagedDigest := Some (ot_payloadDigest opn)\<rparr>) s1
         in record_ack opn Step_stage (target_state opn None) s2)) = Inr (r, s')"
    by (auto simp: stage_def elim!: bindE_InrE)
  have "kept s s1" using a by (rule kept_admit)
  also have "kept s1 s'"
  proof (cases replay)
    case None
    then obtain slot s2 where "acquire opn s1 = Inr (slot, s2)"
      "record_ack opn Step_stage (target_state opn None) (put_slot (on_plane opn) (target_epoch opn)
         (slot\<lparr>slot_stagedDigest := Some (ot_payloadDigest opn)\<rparr>) s2) = Inr (r, s')"
      using rest by (auto simp: Let_def elim!: bindE_InrE)
    then show ?thesis using kept_acquire kept_record_ack kept_slots kept_trans by meson
  qed (use rest in simp)
  finally show ?thesis .
qed

lemma kept_commit_candidate: "commit_candidate opn s = Inr s' \<Longrightarrow> kept s s'"
  by (erule commit_candidate_Inr) (simp add: kept_def)

lemma kept_commit_move:
  assumes "commit_move opn ev s = Inr (r, s')" shows "kept s s'"
proof (rule commit_move_Inr [OF assms])
  fix token s3 s4
  let ?s2 = "(set_plane (on_plane opn) (target_state opn (Some \<lparr>leaderToken = token,
           operationId = operationId opn, transitionId = transitionId opn\<rparr>)) s)
        \<lparr>activationEvidence := dset (evidence_key (on_plane opn) (target_epoch opn)) ev
           (activationEvidence s)\<rparr>"
  assume c: "commit_candidate opn ?s2 = Inr s3" and f: "finish opn T_activated s3 = Inr s4"
    and r: "record_ack opn Step_commit (planes s4 (on_plane opn)) s4 = Inr (r, s')"
  have "kept s ?s2" by (simp add: kept_def set_plane_def)
  also have "kept ?s2 s3" using c by (rule kept_commit_candidate)
  also have "kept s3 s4" using f by (rule kept_finish)
  also have "kept s4 s'" using r by (rule kept_record_ack)
  finally show "kept s s'" .
qed

lemma kept_commit:
  assumes "commit opn ev s = Inr (r, s')" shows "kept s s'"
proof (cases rule: commit_Inr [OF assms])
  case (1 m)
  then show ?thesis by (simp add: kept_def)
next
  case (2 s1 m)
  then have "kept s s1" by (simp add: kept_def)
  then show ?thesis using 2 kept_record_ack kept_trans by blast
next
  case (3 s1 m)
  then have "kept s s1" by (simp add: kept_def)
  then show ?thesis using 3 kept_commit_move kept_trans by blast
qed

lemma kept_fail: "fail opn s = Inr (r, s') \<Longrightarrow> kept s s'"
  by (simp add: fail_def kept_finalize)

lemma kept_recordPublishIntent: "recordPublishIntent x s = Inr (r, s') \<Longrightarrow> kept s s'"
  by (auto simp: recordPublishIntent_def errE kept_def)

lemma kept_transaction:
  assumes "transaction act st = Inr (r, s')" "\<And>s r s'. act s = Inr (r, s') \<Longrightarrow> kept s s'"
  shows "kept (stored st) s'"
proof -
  from assms(1) obtain nxt where 1: "act (stored st) = Inr (r, nxt)" and 2: "prune nxt = Inr s'"
    by (auto simp: transaction_def stored_def errE)
  have "kept (stored st) nxt" using 1 by (rule assms(2))
  also have "kept nxt s'" using prune_same_core [OF 2] by (simp add: same_core_def kept_def)
  finally show ?thesis .
qed

text \<open>Who holds the right to execute.\<close>

definition holding :: "active_operation option \<Rightarrow> apply_operation \<Rightarrow> bool" where
  "holding a opn \<longleftrightarrow> (\<exists>h t. a = Some h \<and> sameTransitionName h opn \<and>
     normalizeNumeric (leaderToken opn) = Inr t \<and> leaderToken h = t)"

lemma foldE_kept:
  assumes "foldE f xs s = Inr s'" "\<And>x s s'. f x s = Inr s' \<Longrightarrow> kept s s'"
  shows "kept s s'"
  using assms(1) by (rule foldE_rel) (auto intro: kept_trans assms(2))

lemma finishOperation_facts:
  assumes "finishOperation opn ps s = Inr (r, s')"
  shows "journal s' = journal s" "\<not> holding (activeOperation s') opn"
    "activeOperation s' = activeOperation s \<or> activeOperation s' = None"
proof -
  from assms obtain s1 s2 where 1: "finalizeCandidate opn s = Inr s1"
    and 2: "foldE (\<lambda>plane s. bindE (tupleFor opn plane) (\<lambda>t.
         Inr (if ownsSlot s t then drop_slot plane (target_epoch t) s else s))) ps s1 = Inr s2"
    and 3: "(case activeOperation s2 of
       None \<Rightarrow> Inr ((), s2)
     | Some holder \<Rightarrow>
         (if \<not> sameTransitionName holder opn then Inr ((), s2)
          else bindE (normalizeNumeric (leaderToken opn)) (\<lambda>token.
            Inr ((), (if leaderToken holder = token then s2\<lparr>activeOperation := None\<rparr> else s2)))))
        = Inr (r, s')"
    unfolding finishOperation_def by (elim bindE_InrE) simp
  have "kept s s1" using finalizeCandidate_frame(3,4) [OF 1] by (simp add: kept_def)
  also have "kept s1 s2" using 2 by (rule foldE_kept) (auto simp: errE)
  finally have k: "kept s s2" .
  have "s' = s2 \<and> \<not> holding (activeOperation s2) opn \<or> s' = s2\<lparr>activeOperation := None\<rparr>"
  proof (cases "activeOperation s2")
    case None
    then show ?thesis using 3 by (simp add: holding_def)
  next
    case (Some h)
    show ?thesis
    proof (cases "sameTransitionName h opn")
      case True
      then obtain t where "normalizeNumeric (leaderToken opn) = Inr t"
        "s' = (if leaderToken h = t then s2\<lparr>activeOperation := None\<rparr> else s2)"
        using 3 Some by (auto elim!: bindE_InrE)
      then show ?thesis using Some by (simp add: holding_def)
    next
      case False
      then show ?thesis using 3 Some by (simp add: holding_def)
    qed
  qed
  then show "journal s' = journal s" "activeOperation s' = activeOperation s \<or> activeOperation s' = None"
    "\<not> holding (activeOperation s') opn"
    using k by (auto simp: kept_def holding_def)
qed

lemma closeJournal_facts:
  assumes "closeJournal opn how s = Inr (r, s')" "journal s = Some j"
    "ownsJournal (journal s) opn = Inr True" "\<not> isTerminalPhase (je_phase j)"
  shows "journal s' = Some (j\<lparr>je_phase := how, je_seq := je_seq j + 1\<rparr>)"
    "activeOperation s' = activeOperation s"
proof -
  have "ownsJournal (Some j) opn = Inr True" using assms(2,3) by simp
  then have "s' = s\<lparr>journal := Some (j\<lparr>je_phase := how, je_seq := je_seq j + 1\<rparr>)\<rparr>"
    using assms(1,2,4) by (simp add: closeJournal_def)
  then show "journal s' = Some (j\<lparr>je_phase := how, je_seq := je_seq j + 1\<rparr>)"
    "activeOperation s' = activeOperation s" by simp_all
qed

lemma writeJournal_facts:
  assumes "writeJournal e s = Inr (r, s')"
  shows "journal s' = Some e" "activeOperation s' = activeOperation s"
proof -
  have "s' = s\<lparr>journal := Some e\<rparr>"
    using assms unfolding writeJournal_def
    by (elim bindE_InrE) (simp only: sum.inject prod.inject split: if_splits, simp_all)
  then show "journal s' = Some e" "activeOperation s' = activeOperation s" by simp_all
qed

lemma transaction_core:
  assumes "transaction act st = Inr (r, s')"
  obtains nxt where "act (stored st) = Inr (r, nxt)" "journal s' = journal nxt"
    "activeOperation s' = activeOperation nxt"
proof -
  from assms obtain nxt where 1: "act (stored st) = Inr (r, nxt)" and 2: "prune nxt = Inr s'"
    by (auto simp: transaction_def stored_def errE)
  show thesis using that [OF 1] prune_same_core [OF 2] by (simp add: same_core_def)
qed

section \<open>Only a journal write reports a journal conflict, only a plane request that it is finished\<close>

named_theorems calm_intro "parts of a transaction that report neither a journal conflict nor a finished plane"

definition calm :: "dp_error + 'a \<Rightarrow> bool" where
  "calm m \<longleftrightarrow> (\<forall>t. m \<noteq> Inl (Rejection Journal_conflict t) \<and> m \<noteq> Inl (Rejection Terminal_reached t))"

lemma calm_simps [simp]:
  "calm (Inr x)" "calm (throw_if c (Invariant_violation i))" "calm (Inl Type_error)"
  "calm (BigInt a)" "calm (normalizeNumeric a)"
  by (auto simp: calm_def throw_if_def BigInt_def normalizeNumeric_def split: option.splits)

lemma calm_reject [simp]:
  "calm (Inl (Rejection k t)) \<longleftrightarrow> k \<noteq> Journal_conflict \<and> k \<noteq> Terminal_reached"
  "calm (throw_if c (Rejection k t)) \<longleftrightarrow> c \<longrightarrow> k \<noteq> Journal_conflict \<and> k \<noteq> Terminal_reached"
  by (auto simp: calm_def throw_if_def)

lemma calm_bind [calm_intro]: "calm m \<Longrightarrow> (\<And>x. m = Inr x \<Longrightarrow> calm (f x)) \<Longrightarrow> calm (bindE m f)"
  by (cases m) (auto simp: calm_def)

lemma calm_foldE [calm_intro]: "(\<And>x s. calm (f x s)) \<Longrightarrow> calm (foldE f xs s)"
  by (induction xs arbitrary: s) (simp_all add: calm_bind)

lemma calm_forE [calm_intro]: "(\<And>x. calm (f x)) \<Longrightarrow> calm (forE f xs)"
  by (induction xs) (simp_all add: calm_bind)

lemma calm_mapE [calm_intro]: "(\<And>x. calm (f x)) \<Longrightarrow> calm (mapE f xs)"
  by (induction xs) (simp_all add: calm_bind)

lemma calm_everyE [calm_intro]: "(\<And>x. calm (f x)) \<Longrightarrow> calm (everyE f xs)"
  by (induction xs) (simp_all add: calm_bind)

lemma calm_big_rel [simp]: "calm (big_rel R a b)"
  by (simp add: big_rel_def calm_bind)

lemma calm_keys [simp]: "calm (transitionKey x)" "calm (transitionOfOp y)"
  by (simp_all add: transitionKey_def transitionOfOp_def calm_bind)

lemma calm_both_keys [simp]: "calm (both_keys r)"
  by (simp add: both_keys_def calm_mapE split: option.splits)

lemma calm_live [simp]: "calm (liveTransitionKeys s)"
  by (simp add: liveTransitionKeys_def slot_keys_def calm_bind calm_mapE)

lemma calm_prunable [simp]: "calm (terminalPrunable m s k live)"
  by (simp add: terminalPrunable_def calm_bind split: option.splits)

lemma calm_prune_loop [simp]: "calm (prune_terminal_loop live xs s)"
  by (induction live xs s rule: prune_terminal_loop.induct) (simp_all add: calm_bind)

lemma calm_live_names [simp]: "calm (live_names s)"
  unfolding live_names_def by (intro calm_bind) (simp_all add: calm_bind split: option.split)

lemma calm_pruneCompleted [simp]: "calm (pruneCompleted s)"
  unfolding pruneCompleted_def Let_def by (simp add: calm_bind)

lemma calm_pruneTerminal [simp]: "calm (pruneTerminal s)"
  unfolding pruneTerminal_def by (simp add: calm_bind split: option.split)

lemma calm_prune: "calm (prune s)"
  unfolding prune_def by (simp add: calm_bind)

lemma calm_terminalOf [simp]: "calm (terminalOf s x)"
  by (auto simp: terminalOf_def intro!: calm_bind split: option.splits)

lemma calm_same_identity [simp]: "calm (same_identity a b)"
  by (simp add: same_identity_def calm_bind)

lemma calm_owns [simp]: "calm (ownsJournal j x)" "calm (authoredBy at y)"
  by (simp_all add: ownsJournal_def authoredBy_def split: option.splits)

lemma calm_epoch_entry [simp]: "calm (epoch_entry x p)"
  by (auto simp: epoch_entry_def intro!: calm_bind split: option.splits)

lemma calm_declared [simp]: "calm (declared_epochs s ids)"
  unfolding declared_epochs_def epochsFromJournal_def epochsOf_def
  by (auto intro!: calm_bind calm_mapE split: option.splits)

lemma calm_arrived [simp]: "calm (candidateArrived s c eps)"
  unfolding candidateArrived_def Let_def
  by (auto intro!: calm_everyE calm_bind split: option.splits)

lemma calm_checks [simp]:
  "calm (check_I1 n mx)" "calm (check_record mx r)" "calm (check_I3 b n)" "calm (check_seq b n)"
  "calm (check_verdict b n live kw)"
  by (auto simp: check_I1_def check_record_def check_I3_def check_seq_def check_verdict_def
      intro!: calm_bind calm_forE split: option.split)

lemma calm_checks_after [simp]: "calm (check_I5 b n mx)" "calm (check_I7 b' n)"
  by (auto simp: check_I5_def check_I7_def intro!: calm_bind calm_forE split: option.split)

lemma calm_check_I6 [simp]: "calm (check_I6 b n)"
  unfolding check_I6_def
  by (rule calm_bind; (simp split: option.split)?) (auto intro!: calm_bind split: option.split)

lemma calm_invariants: "calm (assertInvariants b n)"
  unfolding assertInvariants_def by (intro calm_bind) (simp_all add: calm_bind split: option.split)

lemma write_no_conflict:
  assumes "journal (stored st) = Some j" "je_seq e = je_seq j + 1"
  shows "calm (transaction (writeJournal e) st)"
proof -
  have "calm (writeJournal e s)" if "journal s = Some j" for s
    using assms(2) that by (auto simp: writeJournal_def assertLeader_def intro!: calm_bind)
  then show ?thesis
    using assms(1) calm_prune calm_invariants
    by (auto simp: transaction_def stored_def [symmetric] intro!: calm_bind)
qed

end
