(* ===== verification/Apply_Safety.thy ===== *)
theory Apply_Safety
  imports Apply_Frame
begin

text \<open>
  What a run of the apply runner guarantees when nobody else writes to its agent: the reload
  signals it sends are bounded, and when it returns its operation has ended and no longer holds
  the apply path. The world is arbitrary: every effect may fail, time out or lie.
\<close>

named_theorems hv_intro "Hoare rules of the runner"

section \<open>Hoare triples on what the runner depends on\<close>

type_synonym view = "journal_entry option \<times> active_operation option \<times> nat"

definition seen :: "('w \<Rightarrow> nat) \<Rightarrow> 'w sys \<Rightarrow> view" where
  "seen c y = (journal (stored (fst y)), activeOperation (stored (fst y)), c (snd y))"

definition hv ::
    "('w \<Rightarrow> nat) \<Rightarrow> (view \<Rightarrow> bool) \<Rightarrow> ('w, 'a) act \<Rightarrow> ('a \<Rightarrow> view \<Rightarrow> bool) \<Rightarrow> (run_error \<Rightarrow> view \<Rightarrow> bool) \<Rightarrow> bool" where
  "hv c P m Q E \<longleftrightarrow> (\<forall>y. P (seen c y) \<longrightarrow>
     (case m y of (Inl e, y') \<Rightarrow> E e (seen c y') | (Inr x, y') \<Rightarrow> Q x (seen c y')))"

definition keeps :: "('w \<Rightarrow> nat) \<Rightarrow> ('w, 'a) act \<Rightarrow> bool" where
  "keeps c m \<longleftrightarrow> (\<forall>y r y'. m y = (r, y') \<longrightarrow> seen c y' = seen c y)"

lemma hvI:
  assumes "\<And>y x y'. P (seen c y) \<Longrightarrow> m y = (Inr x, y') \<Longrightarrow> Q x (seen c y')"
    and "\<And>y e y'. P (seen c y) \<Longrightarrow> m y = (Inl e, y') \<Longrightarrow> E e (seen c y')"
  shows "hv c P m Q E"
  unfolding hv_def using assms by (simp split: prod.split sum.split)

lemma hvD:
  assumes "hv c P m Q E" "P (seen c y)"
  shows "m y = (Inr x, y') \<Longrightarrow> Q x (seen c y')" "m y = (Inl e, y') \<Longrightarrow> E e (seen c y')"
  using assms unfolding hv_def by fastforce+

lemma bindA_cases:
  assumes "bindA m f y = (r, y')"
  obtains e where "m y = (Inl e, y')" "r = Inl e" | x y1 where "m y = (Inr x, y1)" "f x y1 = (r, y')"
  using assms by (auto simp: bindA_def split: prod.splits sum.splits)

lemma catchA_cases:
  assumes "catchA m h y = (r, y')"
  obtains e y1 where "m y = (Inl e, y1)" "h e y1 = (r, y')" | x where "m y = (Inr x, y')" "r = Inr x"
  using assms by (auto simp: catchA_def split: prod.splits sum.splits)

lemma hv_weaken:
  assumes "hv c P' m Q' E'" "\<And>v. P v \<Longrightarrow> P' v" "\<And>x v. Q' x v \<Longrightarrow> Q x v" "\<And>e v. E' e v \<Longrightarrow> E e v"
  shows "hv c P m Q E"
proof (rule hvI)
  fix y x y' assume p: "P (seen c y)" and m: "m y = (Inr x, y')"
  show "Q x (seen c y')" by (rule assms(3), rule hvD(1) [OF assms(1) _ m], rule assms(2) [OF p])
next
  fix y e y' assume p: "P (seen c y)" and m: "m y = (Inl e, y')"
  show "E e (seen c y')" by (rule assms(4), rule hvD(2) [OF assms(1) _ m], rule assms(2) [OF p])
qed

lemma hv_return: "(\<And>v. P v \<Longrightarrow> Q x v) \<Longrightarrow> hv c P (returnA x) Q E"
  by (simp add: hv_def returnA_def)

lemma hv_throw: "(\<And>v. P v \<Longrightarrow> E e v) \<Longrightarrow> hv c P (throwA e) Q E"
  by (simp add: hv_def throwA_def)

lemma hv_bind:
  assumes "hv c P m R E" "\<And>x. hv c (R x) (f x) Q E"
  shows "hv c P (bindA m f) Q E"
proof (rule hvI)
  fix y x y' assume "P (seen c y)" "bindA m f y = (Inr x, y')"
  then show "Q x (seen c y')" using hvD [OF assms(1)] hvD [OF assms(2)] by (elim bindA_cases) blast+
next
  fix y e y' assume "P (seen c y)" "bindA m f y = (Inl e, y')"
  then show "E e (seen c y')" using hvD [OF assms(1)] hvD [OF assms(2)] by (elim bindA_cases) blast+
qed

lemma hv_catch:
  assumes "hv c P m Q R" "\<And>e. hv c (R e) (h e) Q E"
  shows "hv c P (catchA m h) Q E"
proof (rule hvI)
  fix y x y' assume "P (seen c y)" "catchA m h y = (Inr x, y')"
  then show "Q x (seen c y')" using hvD [OF assms(1)] hvD [OF assms(2)] by (elim catchA_cases) blast+
next
  fix y e y' assume "P (seen c y)" "catchA m h y = (Inl e, y')"
  then show "E e (seen c y')" using hvD [OF assms(1)] hvD [OF assms(2)] by (elim catchA_cases) blast+
qed

lemma hv_impossible: "(\<And>v. \<not> P v) \<Longrightarrow> hv c P m Q E"
  by (rule hvI) blast+

lemma hv_if:
  "(b \<Longrightarrow> hv c P m Q E) \<Longrightarrow> (\<not> b \<Longrightarrow> hv c P m' Q E) \<Longrightarrow> hv c P (if b then m else m') Q E"
  by simp

lemma hv_ex:
  assumes "\<And>x. R x \<Longrightarrow> hv c (\<lambda>v. v = f x) m Q E"
  shows "hv c (\<lambda>v. \<exists>x. R x \<and> v = f x) m Q E"
proof (rule hvI)
  fix y z y' assume "\<exists>x. R x \<and> seen c y = f x" "m y = (Inr z, y')"
  then show "Q z (seen c y')" using hvD(1) [OF assms] by blast
next
  fix y e y' assume "\<exists>x. R x \<and> seen c y = f x" "m y = (Inl e, y')"
  then show "E e (seen c y')" using hvD(2) [OF assms] by blast
qed

lemma hv_foldA:
  assumes "\<And>x b. hv c (I b) (f x b) I E"
  shows "hv c (I b) (foldA f xs b) I E"
proof (induction xs arbitrary: b)
  case Nil
  show ?case by (simp add: hv_return)
next
  case (Cons x xs)
  show ?case unfolding foldA.simps by (rule hv_bind [OF assms Cons.IH])
qed

lemma hv_keeps: "keeps c m \<Longrightarrow> hv c P m (\<lambda>_. P) (\<lambda>_. P)"
  unfolding keeps_def by (rule hvI; metis)

lemma hv_conj:
  assumes "hv c P m Q E" "hv c P m Q' E'"
  shows "hv c P m (\<lambda>x v. Q x v \<and> Q' x v) (\<lambda>e v. E e v \<and> E' e v)"
  by (rule hvI; blast dest: hvD [OF assms(1)] hvD [OF assms(2)])

lemma hv_ask_const: "hv c P (ask (\<lambda>_. m)) (\<lambda>x v. P v \<and> m = Inr x) (\<lambda>_. P)"
  by (auto simp: hv_def ask_def split: sum.splits)

lemma hv_ask_journal: "hv c P (ask (\<lambda>s. Inr (journal s))) (\<lambda>x v. P v \<and> x = fst v) (\<lambda>_. P)"
  by (auto simp: hv_def ask_def seen_def)

lemma hv_ask_holder:
  "hv c P (ask (\<lambda>s. Inr (activeOperation s))) (\<lambda>x v. P v \<and> x = fst (snd v)) (\<lambda>_. P)"
  by (auto simp: hv_def ask_def seen_def)

section \<open>Actions that change nothing the runner depends on\<close>

named_theorems keeps_intro "actions that keep the journal, the holder and the count"

lemma keeps_returnA [keeps_intro]: "keeps c (returnA x)"
  by (simp add: keeps_def returnA_def)

lemma keeps_throwA [keeps_intro]: "keeps c (throwA e)"
  by (simp add: keeps_def throwA_def)

lemma keeps_ask [keeps_intro]: "keeps c (ask f)"
  by (simp add: keeps_def ask_def split: sum.splits)

lemma keeps_bindA [keeps_intro]:
  assumes "keeps c m" "\<And>x. keeps c (f x)"
  shows "keeps c (bindA m f)"
proof -
  have "seen c y' = seen c y" if "bindA m f y = (r, y')" for y r y'
    using that assms unfolding keeps_def by (elim bindA_cases) metis+
  then show ?thesis by (simp add: keeps_def)
qed

lemma keeps_catchA [keeps_intro]:
  assumes "keeps c m" "\<And>e. keeps c (h e)"
  shows "keeps c (catchA m h)"
proof -
  have "seen c y' = seen c y" if "catchA m h y = (r, y')" for y r y'
    using that assms unfolding keeps_def by (elim catchA_cases) metis+
  then show ?thesis by (simp add: keeps_def)
qed

lemma keeps_foldA [keeps_intro]: "(\<And>x b. keeps c (f x b)) \<Longrightarrow> keeps c (foldA f xs b)"
  by (induction xs arbitrary: b) (simp_all add: keeps_returnA keeps_bindA)

lemma keeps_if [keeps_intro]: "keeps c m \<Longrightarrow> keeps c m' \<Longrightarrow> keeps c (if b then m else m')"
  by simp

text \<open>The hypothesis of this theory: only the runner writes to the store, and \<open>c\<close> counts the reload
  signals the world has received.\<close>

definition same_sys :: "('w \<Rightarrow> nat) \<Rightarrow> 'w sys \<Rightarrow> 'w sys \<Rightarrow> bool" where
  "same_sys c y y' \<longleftrightarrow> fst y' = fst y \<and> c (snd y') = c (snd y)"

definition undisturbed :: "('w \<Rightarrow> nat) \<Rightarrow> 'w environment \<Rightarrow> bool" where
  "undisturbed c env \<longleftrightarrow>
     (\<forall>y. same_sys c y (snd (env_turn env y))) \<and>
     (\<forall>opn y. same_sys c y (snd (env_preflight env opn y))) \<and>
     (\<forall>r l y. same_sys c y (snd (env_publish env r l y))) \<and>
     (\<forall>y. same_sys c y (snd (env_observePublished env y))) \<and>
     (\<forall>y. same_sys c y (snd (env_observeActivation env y))) \<and>
     (\<forall>f g p l y. env_stageMembership env = Some f \<longrightarrow> same_sys c y (snd (f g p l y))) \<and>
     (\<forall>l y. fst (snd (env_signalReload env l y)) = fst y \<and>
        c (snd (snd (env_signalReload env l y))) \<le> c (snd y) + 1)"

lemma undisturbedD:
  assumes "undisturbed c env"
  shows "same_sys c y (snd (env_turn env y))" "same_sys c y (snd (env_preflight env opn y))"
    "same_sys c y (snd (env_publish env r l y))" "same_sys c y (snd (env_observePublished env y))"
    "same_sys c y (snd (env_observeActivation env y))"
    "env_stageMembership env = Some f \<Longrightarrow> same_sys c y (snd (f g p l y))"
    "fst (snd (env_signalReload env l y)) = fst y"
    "c (snd (snd (env_signalReload env l y))) \<le> c (snd y) + 1"
  using assms unfolding undisturbed_def by blast+

lemma keeps_budget:
  assumes "\<And>y. same_sys c y (snd (eff y))"
  shows "keeps c (budget name eff)"
proof -
  have "seen c y' = seen c y" if "budget name eff y = (r, y')" for y r y'
  proof -
    have "y' = snd (eff y)" using that by (auto simp: budget_def split: prod.splits outcome.splits)
    then show ?thesis using assms [of y] by (simp add: same_sys_def seen_def)
  qed
  then show ?thesis by (simp add: keeps_def)
qed

lemma agent_tx_cases:
  assumes "agent_tx env mutate y = (r, y')"
  obtains st w x s where "snd (env_turn env y) = (st, w)" "transaction mutate st = Inr (x, s)"
      "r = Inr x" "y' = (Some s, w)"
  | e where "y' = snd (env_turn env y)" "r = Inl (Agent_error e)"
      "e = Store_conflict \<or> transaction mutate (fst y') = Inl e"
  using assms by (auto simp: agent_tx_def split: prod.splits sum.splits if_splits)

lemma undisturbed_turn:
  assumes "undisturbed c env" "snd (env_turn env y) = (st, w)"
  shows "st = fst y" "c w = c (snd y)"
  using undisturbedD(1) [OF assms(1), of y] assms(2) by (simp_all add: same_sys_def)

lemma seen_turn: "undisturbed c env \<Longrightarrow> seen c (snd (env_turn env y)) = seen c y"
  using undisturbedD(1) [of c env y] by (simp add: same_sys_def seen_def)

lemma keeps_agent_tx:
  assumes "undisturbed c env" "\<And>s r s'. mutate s = Inr (r, s') \<Longrightarrow> kept s s'"
  shows "keeps c (agent_tx env mutate)"
proof -
  have "seen c y' = seen c y" if "agent_tx env mutate y = (r, y')" for y r y'
    using that
  proof (cases rule: agent_tx_cases)
    case (1 st w x s)
    have "kept (stored st) s" using 1(2) assms(2) by (rule kept_transaction)
    then show ?thesis using undisturbed_turn [OF assms(1) 1(1)]
      by (simp add: 1(4) seen_def kept_def stored_def)
  next
    case (2 e)
    then show ?thesis using assms(1) by (simp add: seen_turn)
  qed
  then show ?thesis by (simp add: keeps_def)
qed

lemma keeps_observe [keeps_intro]:
  assumes "undisturbed c env"
  shows "keeps c (observeRead env)" "keeps c (observe env)" "keeps c (pause env)"
proof -
  show r: "keeps c (observeRead env)"
    unfolding observeRead_def by (intro keeps_intro keeps_budget undisturbedD [OF assms])
  show "keeps c (observe env)" unfolding observe_def by (intro keeps_intro r)
  show "keeps c (pause env)" by (auto simp: keeps_def pause_def seen_turn [OF assms] simp del: split_paired_All)
qed

lemma keeps_poll: "undisturbed c env \<Longrightarrow> keeps c (poll_activation env g n x)"
  by (induction n arbitrary: x) (auto intro!: keeps_intro)

lemma keeps_await [keeps_intro]: "undisturbed c env \<Longrightarrow> keeps c (awaitActivation env g)"
  by (simp add: awaitActivation_def keeps_poll)

lemma keeps_stage_plane [keeps_intro]:
  assumes "undisturbed c env"
  shows "keeps c (stage_plane env opn p)"
proof -
  have "keeps c (agent_tx env (stage t))" for t
    using assms by (rule keeps_agent_tx) (rule kept_stage)
  then show ?thesis unfolding stage_plane_def
    by (auto intro!: keeps_intro keeps_budget undisturbedD [OF assms] split: option.split)
qed

lemma keeps_commit_plane [keeps_intro]:
  assumes "undisturbed c env"
  shows "keeps c (commit_plane env opn ev p)"
proof -
  have "keeps c (agent_tx env (commit t ev))" for t
    using assms by (rule keeps_agent_tx) (rule kept_commit)
  then show ?thesis unfolding commit_plane_def by (intro keeps_intro)
qed

lemma keeps_publish [keeps_intro]:
  "undisturbed c env \<Longrightarrow> keeps c (agent_tx env (recordPublishIntent r))"
  by (erule keeps_agent_tx) (rule kept_recordPublishIntent)

lemma keeps_fail [keeps_intro]:
  assumes "undisturbed c env"
  shows "keeps c (ignoreRejection (agent_tx env (fail t)))"
proof -
  have "keeps c (agent_tx env (fail t))" using assms by (rule keeps_agent_tx) (rule kept_fail)
  then show ?thesis unfolding ignoreRejection_def by (intro keeps_intro)
qed

section \<open>Writes\<close>

text \<open>Where the run stands: the operation of the journal never changes, and every reload signal has
  been paid for by an attempt written before.\<close>

definition step_ok :: "journal_entry \<Rightarrow> nat \<Rightarrow> view \<Rightarrow> bool" where
  "step_ok j n v \<longleftrightarrow> (\<exists>j' a' n'. v = (Some j', a', n') \<and> je_op j' = je_op j \<and>
     n' + (RELOAD_ATTEMPT_LIMIT - je_reloadAttempts j') \<le>
     n + (RELOAD_ATTEMPT_LIMIT - je_reloadAttempts j))"

lemma step_okI:
  "je_op j' = je_op j \<Longrightarrow> je_reloadAttempts j \<le> je_reloadAttempts j' \<Longrightarrow> step_ok j n (Some j', a', n)"
  by (simp add: step_ok_def)

lemma step_ok_refl [simp]: "step_ok j n (Some j, a, n)"
  by (simp add: step_okI)

lemma step_ok_trans:
  assumes "step_ok j n (Some j1, a1, n1)" "step_ok j1 n1 v"
  shows "step_ok j n v"
  using assms by (auto simp: step_ok_def)

lemma hv_write:
  assumes "undisturbed c env"
  shows "hv c (\<lambda>v. v = (Some j, a, n)) (write_entry env e) (\<lambda>_ v. v = (Some e, a, n))
    (\<lambda>x v. v = (Some j, a, n) \<and> (je_seq e = je_seq j + 1 \<longrightarrow> \<not> is_journal_conflict x))"
proof (rule hvI)
  fix y x y' assume p: "seen c y = (Some j, a, n)" and r: "write_entry env e y = (Inr x, y')"
  from r show "seen c y' = (Some e, a, n)" unfolding write_entry_def
  proof (cases rule: agent_tx_cases)
    case (1 st w x' s)
    obtain nxt where "writeJournal e (stored st) = Inr (x', nxt)" "journal s = journal nxt"
      "activeOperation s = activeOperation nxt"
      using 1(2) by (rule transaction_core)
    then have "journal s = Some e" "activeOperation s = activeOperation (stored st)"
      using writeJournal_facts [of e "stored st" x' nxt] by simp_all
    then show ?thesis using p undisturbed_turn [OF assms 1(1)]
      by (simp add: 1(4) seen_def stored_def)
  qed simp
next
  fix y x y' assume p: "seen c y = (Some j, a, n)" and r: "write_entry env e y = (Inl x, y')"
  from r show "seen c y' = (Some j, a, n) \<and> (je_seq e = je_seq j + 1 \<longrightarrow> \<not> is_journal_conflict x)"
    unfolding write_entry_def
  proof (cases rule: agent_tx_cases)
    case (2 er)
    have s: "seen c y' = (Some j, a, n)" using 2(1) p seen_turn [OF assms] by simp
    then have "calm (transaction (writeJournal e) (fst y'))" if "je_seq e = je_seq j + 1"
      using that by (auto simp: seen_def intro: write_no_conflict)
    then show ?thesis using s 2(2,3)
      by (auto simp: is_journal_conflict_def calm_def split: run_error.splits dp_error.splits)
  qed simp
qed

lemma next_entry_simps [simp]: "je_seq (next_entry j over) = je_seq j + 1"
  by (simp add: next_entry_def)

lemma hv_advance:
  assumes "undisturbed c env"
  shows "hv c (\<lambda>v. v = (Some j, a, n)) (advance env j over)
    (\<lambda>_ v. v = (Some (next_entry j over), a, n)) (\<lambda>_ v. v = (Some j, a, n))"
  unfolding advance_def ignoreConflict_def
  by (rule hv_catch [OF hv_write [OF assms]])
     (simp add: hv_throw hv_def throwA_def returnA_def)

lemma hv_agent_tx:
  assumes "undisturbed c env"
    and "\<And>s r s'. mutate s = Inr (r, s') \<Longrightarrow> journal s = j \<Longrightarrow> activeOperation s = a \<Longrightarrow>
      Q (journal s', activeOperation s', n)"
  shows "hv c (\<lambda>v. v = (j, a, n)) (agent_tx env mutate) (\<lambda>_. Q) (\<lambda>_ v. v = (j, a, n))"
proof (rule hvI)
  fix y x y' assume p: "seen c y = (j, a, n)" and r: "agent_tx env mutate y = (Inr x, y')"
  from r show "Q (seen c y')"
  proof (cases rule: agent_tx_cases)
    case (1 st w x' s)
    obtain nxt where "mutate (stored st) = Inr (x', nxt)" "journal s = journal nxt"
      "activeOperation s = activeOperation nxt"
      using 1(2) by (rule transaction_core)
    then show ?thesis using p undisturbed_turn [OF assms(1) 1(1)] assms(2) [of "stored st" x' nxt]
      by (simp add: 1(4) seen_def stored_def)
  qed simp
next
  fix y x y' assume p: "seen c y = (j, a, n)" and r: "agent_tx env mutate y = (Inl x, y')"
  from r show "seen c y' = (j, a, n)"
    by (cases rule: agent_tx_cases) (simp_all add: p seen_turn [OF assms(1)])
qed

lemma hv_finish:
  assumes "undisturbed c env"
  shows "hv c (\<lambda>v. v = (j, a, n)) (agent_tx env (finishOperation opn ps))
    (\<lambda>_ v. \<exists>a'. v = (j, a', n) \<and> \<not> holding a' opn) (\<lambda>_ v. v = (j, a, n))"
  using assms
proof (rule hv_agent_tx)
  fix s r s' assume f: "finishOperation opn ps s = Inr (r, s')" and "journal s = j"
  then show "\<exists>a'. (journal s', activeOperation s', n) = (j, a', n) \<and> \<not> holding a' opn"
    using finishOperation_facts(1,2) [OF f] by simp
qed

lemma hv_reached:
  "hv c P reached (\<lambda>p v. P v \<and> isTerminalPhase p) (\<lambda>_. P)"
proof -
  have "isTerminalPhase p" if "reachedPhase s = Inr (Some p)" for s p
    using that by (auto simp: reachedPhase_def errE Let_def split: option.splits if_splits)
  then show ?thesis unfolding reached_def hv_def
    by (auto simp: bindA_def ask_def returnA_def split: sum.splits option.splits)
qed

section \<open>The phases\<close>

text \<open>What every phase establishes: where the run stands, and, when it returns, that the operation
  has ended and does not hold the apply path.\<close>

definition ended :: "apply_operation \<Rightarrow> apply_result option \<Rightarrow> view \<Rightarrow> bool" where
  "ended opn r v \<longleftrightarrow> (\<forall>x. r = Some x \<longrightarrow> isTerminalPhase (ar_phase x) \<and> \<not> holding (fst (snd v)) opn)"

lemma ended_None [simp]: "ended opn None v"
  by (simp add: ended_def)

definition phase_ok :: "('w \<Rightarrow> nat) \<Rightarrow> journal_entry \<Rightarrow> active_operation option \<Rightarrow> nat \<Rightarrow> 'w phase_act \<Rightarrow> bool" where
  "phase_ok c j a n m \<longleftrightarrow> hv c (\<lambda>v. v = (Some j, a, n)) m
     (\<lambda>r v. step_ok j n v \<and> ended (je_op j) r v) (\<lambda>_ v. step_ok j n v)"

text \<open>A prefix that keeps everything, and a last action that only has to leave the run in order.\<close>

lemma hv_keeps_at:
  assumes "keeps c m"
  shows "hv c (\<lambda>v. v = (Some j, a, n)) m (\<lambda>_ v. v = (Some j, a, n)) (\<lambda>_ v. step_ok j n v)"
  by (rule hv_weaken [OF hv_keeps [OF assms, of "\<lambda>v. v = (Some j, a, n)"]]) auto

lemma phase_ok_bind:
  assumes "keeps c m" "\<And>x. phase_ok c j a n (f x)"
  shows "phase_ok c j a n (bindA m f)"
  unfolding phase_ok_def
proof (rule hv_bind)
  show "hv c (\<lambda>v. v = (Some j, a, n)) m (\<lambda>_ v. v = (Some j, a, n)) (\<lambda>_ v. step_ok j n v)"
    using assms(1) by (rule hv_keeps_at)
  show "hv c (\<lambda>v. v = (Some j, a, n)) (f x) (\<lambda>r v. step_ok j n v \<and> ended (je_op j) r v)
      (\<lambda>_ v. step_ok j n v)" for x
    using assms(2) [of x] by (simp add: phase_ok_def)
qed

lemma phase_ok_continue:
  assumes "hv c (\<lambda>v. v = (Some j, a, n)) m (\<lambda>_ v. step_ok j n v) (\<lambda>_ v. step_ok j n v)"
  shows "phase_ok c j a n (continue m)"
  unfolding phase_ok_def continue_def by (rule hv_bind [OF assms]) (simp add: hv_return)

lemma phase_ok_None: "phase_ok c j a n (returnA None)"
  unfolding phase_ok_def by (rule hv_return) auto

lemma hv_advance_ok:
  assumes "undisturbed c env" "je_op (over j) = je_op j" "je_reloadAttempts j \<le> je_reloadAttempts (over j)"
  shows "hv c (\<lambda>v. v = (Some j, a, n)) (advance env j over) (\<lambda>_ v. step_ok j n v) (\<lambda>_ v. step_ok j n v)"
  by (rule hv_weaken [OF hv_advance [OF assms(1)]]) (auto simp: next_entry_def assms(2,3) intro!: step_okI)

lemma hv_failAll:
  assumes "undisturbed c env"
  shows "hv c (\<lambda>v. v = (Some j, a, n)) (failAll env j reason)
    (\<lambda>_ v. step_ok j n v \<and> (\<exists>j'. fst v = Some j' \<and> isTerminalPhase (je_phase j')) \<and>
      \<not> holding (fst (snd v)) (je_op j)) (\<lambda>_ v. step_ok j n v)"
  unfolding failAll_def
proof (rule hv_bind)
  show "hv c (\<lambda>v. v = (Some j, a, n))
     (foldA (\<lambda>plane progress.
         bindA (ask (\<lambda>s. movedByMe s (je_op j) plane)) (\<lambda>moved.
         if moved then returnA (progress(plane := Some P_committed))
         else
           bindA (ask (\<lambda>_. tupleFor (je_op j) plane)) (\<lambda>t.
           bindA (ignoreRejection (agent_tx env (fail t))) (\<lambda>_.
           returnA (progress(plane := Some P_failed))))))
       (planesOf (je_op j)) (progress_in j)) (\<lambda>_ v. v = (Some j, a, n)) (\<lambda>_ v. step_ok j n v)"
    by (rule hv_keeps_at) (auto intro!: keeps_intro assms)
next
  fix progress
  let ?over = "\<lambda>phase e. e\<lparr>je_phase := phase, je_progress := Some progress,
       je_failure := (case reason of None \<Rightarrow> je_failure e | Some r \<Rightarrow> Some (failure_text r))\<rparr>"
  show "hv c (\<lambda>v. v = (Some j, a, n))
     (bindA reached (\<lambda>phase. bindA (ignoreConflict (write_entry env (next_entry j (?over phase))))
       (\<lambda>_. agent_tx env (finishOperation (je_op j) []))))
     (\<lambda>_ v. step_ok j n v \<and> (\<exists>j'. fst v = Some j' \<and> isTerminalPhase (je_phase j')) \<and>
      \<not> holding (fst (snd v)) (je_op j)) (\<lambda>_ v. step_ok j n v)"
  proof (rule hv_bind)
    show "hv c (\<lambda>v. v = (Some j, a, n)) reached
        (\<lambda>p v. v = (Some j, a, n) \<and> isTerminalPhase p) (\<lambda>_ v. step_ok j n v)"
      by (rule hv_weaken [OF hv_reached [where P = "\<lambda>v. v = (Some j, a, n)"]]) auto
  next
    fix phase
    let ?j = "next_entry j (?over phase)"
    show "hv c (\<lambda>v. v = (Some j, a, n) \<and> isTerminalPhase phase)
      (bindA (ignoreConflict (write_entry env ?j)) (\<lambda>_. agent_tx env (finishOperation (je_op j) [])))
      (\<lambda>_ v. step_ok j n v \<and> (\<exists>j'. fst v = Some j' \<and> isTerminalPhase (je_phase j')) \<and>
        \<not> holding (fst (snd v)) (je_op j)) (\<lambda>_ v. step_ok j n v)"
    proof (cases "isTerminalPhase phase")
      case True
      have j: "je_op ?j = je_op j" "je_reloadAttempts ?j = je_reloadAttempts j" "je_phase ?j = phase"
        by (simp_all add: next_entry_def)
      show ?thesis
      proof (rule hv_bind)
        show "hv c (\<lambda>v. v = (Some j, a, n) \<and> isTerminalPhase phase) (ignoreConflict (write_entry env ?j))
            (\<lambda>_ v. v = (Some ?j, a, n)) (\<lambda>_ v. step_ok j n v)"
          by (rule hv_weaken [OF hv_advance [OF assms, of j a n "?over phase", unfolded advance_def]]) auto
        show "hv c (\<lambda>v. v = (Some ?j, a, n)) (agent_tx env (finishOperation (je_op j) []))
            (\<lambda>_ v. step_ok j n v \<and> (\<exists>j'. fst v = Some j' \<and> isTerminalPhase (je_phase j')) \<and>
              \<not> holding (fst (snd v)) (je_op j)) (\<lambda>_ v. step_ok j n v)"
          by (rule hv_weaken [OF hv_finish [OF assms]]) (auto simp: j True intro!: step_okI)
      qed
    next
      case False
      then show ?thesis by (simp add: hv_def)
    qed
  qed
qed

lemma hv_failAll_ok:
  assumes "undisturbed c env"
  shows "hv c (\<lambda>v. v = (Some j, a, n)) (failAll env j reason) (\<lambda>_ v. step_ok j n v) (\<lambda>_ v. step_ok j n v)"
  by (rule hv_weaken [OF hv_failAll [OF assms]]) auto

named_theorems phase_intro "rules for the phases"
lemmas [phase_intro] = phase_ok_bind phase_ok_continue phase_ok_None hv_failAll_ok hv_advance_ok

lemma phase_ok_if [phase_intro]:
  "(b \<Longrightarrow> phase_ok c j a n m) \<Longrightarrow> (\<not> b \<Longrightarrow> phase_ok c j a n m') \<Longrightarrow> phase_ok c j a n (if b then m else m')"
  by simp

lemma preflight_ok: "undisturbed c env \<Longrightarrow> phase_ok c j a n (phase_preflight env j)"
  unfolding phase_preflight_def
  by (intro phase_intro keeps_intro keeps_budget undisturbedD) auto

lemma publish_intent_ok: "undisturbed c env \<Longrightarrow> phase_ok c j a n (phase_publish_intent env j)"
  unfolding phase_publish_intent_def
  by (intro phase_intro keeps_intro keeps_budget undisturbedD) auto

lemma membership_staged_ok: "undisturbed c env \<Longrightarrow> phase_ok c j a n (phase_membership_staged env j)"
  unfolding phase_membership_staged_def
  by (intro phase_intro) auto

lemma published_ok:
  assumes "undisturbed c env"
  shows "phase_ok c j a n (phase_published env j)"
proof -
  have "keeps c (foldA (\<lambda>plane (staged, advanced).
         catchA (bindA (stage_plane env (je_op j) plane)
             (\<lambda>_. returnA (staged(plane := Some P_staged), advanced + 1)))
           (\<lambda>e. if is_rejection e then returnA (staged(plane := Some P_failed), advanced)
                else throwA e)) ps (g, k :: nat))" for ps g k
    by (auto intro!: keeps_intro assms split: prod.splits)
  then show ?thesis unfolding phase_published_def
    by (rule phase_ok_bind) (auto intro!: phase_intro assms split: prod.splits)
qed

lemma partially_activated_ok:
  assumes "undisturbed c env"
  shows "phase_ok c j a n (phase_partially_activated env j)"
proof -
  let ?over = "\<lambda>e. e\<lparr>je_phase := Partial_exhausted\<rparr>"
  let ?j = "next_entry j ?over"
  have j: "je_op ?j = je_op j" "je_reloadAttempts ?j = je_reloadAttempts j" "je_phase ?j = Partial_exhausted"
    by (simp_all add: next_entry_def)
  have "phase_ok c j a n (bindA (advance env j ?over) (\<lambda>_.
        bindA (agent_tx env (finishOperation (je_op j) ps)) (\<lambda>_.
        bindA (ask (\<lambda>s. Inr (journal s))) (\<lambda>now.
        returnA (Some (resultOf (case now of None \<Rightarrow> j | Some x \<Rightarrow> x)))))))" for ps
    unfolding phase_ok_def
  proof (rule hv_bind)
    show "hv c (\<lambda>v. v = (Some j, a, n)) (advance env j ?over) (\<lambda>_ v. v = (Some ?j, a, n)) (\<lambda>_ v. step_ok j n v)"
      by (rule hv_weaken [OF hv_advance [OF assms]]) auto
    show "hv c (\<lambda>v. v = (Some ?j, a, n)) (bindA (agent_tx env (finishOperation (je_op j) ps)) (\<lambda>_.
        bindA (ask (\<lambda>s. Inr (journal s))) (\<lambda>now.
        returnA (Some (resultOf (case now of None \<Rightarrow> j | Some x \<Rightarrow> x))))))
        (\<lambda>r v. step_ok j n v \<and> ended (je_op j) r v) (\<lambda>_ v. step_ok j n v)"
    proof (rule hv_bind)
      show "hv c (\<lambda>v. v = (Some ?j, a, n)) (agent_tx env (finishOperation (je_op j) ps))
         (\<lambda>_ v. \<exists>a'. v = (Some ?j, a', n) \<and> \<not> holding a' (je_op j)) (\<lambda>_ v. step_ok j n v)"
        by (rule hv_weaken [OF hv_finish [OF assms]]) (auto simp: j intro!: step_okI)
      show "hv c (\<lambda>v. \<exists>a'. v = (Some ?j, a', n) \<and> \<not> holding a' (je_op j))
         (bindA (ask (\<lambda>s. Inr (journal s))) (\<lambda>now.
           returnA (Some (resultOf (case now of None \<Rightarrow> j | Some x \<Rightarrow> x)))))
         (\<lambda>r v. step_ok j n v \<and> ended (je_op j) r v) (\<lambda>_ v. step_ok j n v)"
      proof (rule hv_bind)
        show "hv c (\<lambda>v. \<exists>a'. v = (Some ?j, a', n) \<and> \<not> holding a' (je_op j)) (ask (\<lambda>s. Inr (journal s)))
           (\<lambda>x v. (\<exists>a'. v = (Some ?j, a', n) \<and> \<not> holding a' (je_op j)) \<and> x = fst v) (\<lambda>_ v. step_ok j n v)"
          by (rule hv_weaken [OF hv_ask_journal [where P = "\<lambda>v. \<exists>a'. v = (Some ?j, a', n) \<and> \<not> holding a' (je_op j)"]])
             (auto simp: j intro: step_okI)
      qed (rule hv_return, auto simp: ended_def resultOf_def j intro!: step_okI)
    qed
  qed
  note exhausted = this
  show ?thesis unfolding phase_partially_activated_def Let_def
    by (rule phase_ok_if, rule exhausted, rule phase_ok_if) (auto intro!: phase_ok_continue hv_advance_ok assms)
qed

lemma after_signal_ok:
  assumes "undisturbed c env"
  shows "hv c (\<lambda>v. v = (Some j, a, n)) (after_signal env j0) (\<lambda>_ v. step_ok j n v) (\<lambda>_ v. step_ok j n v)"
  unfolding after_signal_def
proof (rule hv_bind [OF hv_keeps_at])
  show "keeps c (awaitActivation env (targetGeneration (je_op j0)))" by (rule keeps_await [OF assms])
next
  fix x
  show "hv c (\<lambda>v. v = (Some j, a, n)) (case x of None \<Rightarrow> returnA ()
     | Some ev \<Rightarrow>
         bindA (ask (\<lambda>s. Inr (journal s))) (\<lambda>now.
         bindA (ask (\<lambda>s. ownsJournal now (je_op j0))) (\<lambda>mine.
         case now of
           None \<Rightarrow> returnA ()
         | Some m \<Rightarrow>
             (if mine then advance env m (\<lambda>e.
                if provesActivation x (targetGeneration (je_op j0))
                then e\<lparr>je_phase := Reload_observed, je_evidence := Some ev\<rparr>
                else e\<lparr>je_evidence := Some ev\<rparr>)
              else returnA ())))) (\<lambda>_ v. step_ok j n v) (\<lambda>_ v. step_ok j n v)"
  proof (cases x)
    case (Some ev)
    show ?thesis unfolding Some option.case
    proof (rule hv_bind)
      show "hv c (\<lambda>v. v = (Some j, a, n)) (ask (\<lambda>s. Inr (journal s)))
         (\<lambda>now v. v = (Some j, a, n) \<and> now = Some j) (\<lambda>_ v. step_ok j n v)"
        by (rule hv_weaken [OF hv_ask_journal [where P = "\<lambda>v. v = (Some j, a, n)"]]) auto
    next
      fix now
      let ?over = "\<lambda>e. if provesActivation (Some ev) (targetGeneration (je_op j0))
                then e\<lparr>je_phase := Reload_observed, je_evidence := Some ev\<rparr>
                else e\<lparr>je_evidence := Some ev\<rparr>"
      have "hv c (\<lambda>v. v = (Some j, a, n)) (bindA (ask (\<lambda>s. ownsJournal now (je_op j0))) (\<lambda>mine.
           if mine then advance env j ?over else returnA ()))
         (\<lambda>_ v. step_ok j n v) (\<lambda>_ v. step_ok j n v)"
        by (rule hv_bind [OF hv_keeps_at [OF keeps_ask]])
           (auto intro!: hv_advance_ok hv_return assms)
      then show "hv c (\<lambda>v. v = (Some j, a, n) \<and> now = Some j)
         (bindA (ask (\<lambda>s. ownsJournal now (je_op j0))) (\<lambda>mine.
           case now of None \<Rightarrow> returnA () | Some m \<Rightarrow> (if mine then advance env m ?over else returnA ())))
         (\<lambda>_ v. step_ok j n v) (\<lambda>_ v. step_ok j n v)"
        by (cases "now = Some j") (simp_all add: hv_def)
    qed
  next
    case None
    then show ?thesis by simp (rule hv_return, auto)
  qed
qed

lemma hv_signal:
  assumes "undisturbed c env"
  shows "hv c (\<lambda>v. v = (Some j, a, n)) (budget name (env_signalReload env l))
    (\<lambda>_ v. \<exists>n' \<le> n + 1. v = (Some j, a, n')) (\<lambda>_ v. \<exists>n' \<le> n + 1. v = (Some j, a, n'))"
proof -
  have "\<exists>n' \<le> n + 1. seen c y' = (Some j, a, n')"
    if "seen c y = (Some j, a, n)" "budget name (env_signalReload env l) y = (r, y')" for y r y'
  proof -
    have "y' = snd (env_signalReload env l y)"
      using that(2) by (auto simp: budget_def split: prod.splits outcome.splits)
    then show ?thesis using undisturbedD(7,8) [OF assms, of l y] that(1) by (auto simp: seen_def)
  qed
  then show ?thesis by (intro hvI) blast+
qed

text \<open>A signal is sent only after an attempt below the limit was written.\<close>

lemma signal_ok:
  assumes "undisturbed c env" "je_reloadAttempts j < RELOAD_ATTEMPT_LIMIT"
  shows "phase_ok c j a n
     (bindA (catchA (bindA (write_entry env (next_entry j (\<lambda>e. e\<lparr>je_reloadAttempts := je_reloadAttempts j + 1\<rparr>)))
              (\<lambda>_. returnA True))
            (\<lambda>e. if is_journal_conflict e then returnA False else throwA e)) (\<lambda>won.
        if \<not> won then returnA None
        else
          bindA (ask (\<lambda>s. lease_of s (je_op j))) (\<lambda>l.
          bindA (budget ''signalReload'' (env_signalReload env l)) (\<lambda>_.
          continue (after_signal env j)))))"
proof -
  define j1 where j1: "j1 = next_entry j (\<lambda>e. e\<lparr>je_reloadAttempts := je_reloadAttempts j + 1\<rparr>)"
  have j: "je_op j1 = je_op j" "je_reloadAttempts j1 = je_reloadAttempts j + 1" "je_seq j1 = je_seq j + 1"
    by (simp_all add: j1 next_entry_def)
  have paid: "step_ok j n v" if "step_ok j1 n' v" "n' \<le> n + 1" for n' v
    using that assms(2) by (auto simp: step_ok_def j)
  have sent: "hv c (\<lambda>v. v = (Some j1, a, n)) (bindA (ask (\<lambda>s. lease_of s (je_op j))) (\<lambda>l.
          bindA (budget ''signalReload'' (env_signalReload env l)) (\<lambda>_.
          continue (after_signal env j))))
        (\<lambda>r v. step_ok j n v \<and> ended (je_op j) r v) (\<lambda>_ v. step_ok j n v)"
  proof (rule hv_bind)
    show "hv c (\<lambda>v. v = (Some j1, a, n)) (ask (\<lambda>s. lease_of s (je_op j)))
        (\<lambda>_ v. v = (Some j1, a, n)) (\<lambda>_ v. step_ok j n v)"
      by (rule hv_weaken [OF hv_keeps [OF keeps_ask, where P = "\<lambda>v. v = (Some j1, a, n)"]])
         (auto simp: j intro: step_okI)
  next
    fix l
    show "hv c (\<lambda>v. v = (Some j1, a, n)) (bindA (budget ''signalReload'' (env_signalReload env l)) (\<lambda>_.
          continue (after_signal env j)))
        (\<lambda>r v. step_ok j n v \<and> ended (je_op j) r v) (\<lambda>_ v. step_ok j n v)"
    proof (rule hv_bind)
      show "hv c (\<lambda>v. v = (Some j1, a, n)) (budget ''signalReload'' (env_signalReload env l))
          (\<lambda>_ v. \<exists>n' \<le> n + 1. v = (Some j1, a, n')) (\<lambda>_ v. step_ok j n v)"
        by (rule hv_weaken [OF hv_signal [OF assms(1)]]) (auto intro: paid [OF step_ok_refl])
      have "hv c (\<lambda>v. v = (Some j1, a, n')) (continue (after_signal env j))
          (\<lambda>r v. step_ok j1 n' v \<and> ended (je_op j1) r v) (\<lambda>_ v. step_ok j1 n' v)" for n'
        using phase_ok_continue [OF after_signal_ok [OF assms(1)]] by (simp add: phase_ok_def)
      then have "hv c (\<lambda>v. v = (Some j1, a, n')) (continue (after_signal env j))
          (\<lambda>r v. step_ok j n v \<and> ended (je_op j) r v) (\<lambda>_ v. step_ok j n v)" if "n' \<le> n + 1" for n'
        by (rule hv_weaken) (auto simp: j intro: paid that)
      then show "hv c (\<lambda>v. \<exists>n' \<le> n + 1. v = (Some j1, a, n')) (continue (after_signal env j))
          (\<lambda>r v. step_ok j n v \<and> ended (je_op j) r v) (\<lambda>_ v. step_ok j n v)"
        by (rule hv_ex)
    qed
  qed
  show ?thesis unfolding phase_ok_def j1 [symmetric]
  proof (rule hv_bind)
    show "hv c (\<lambda>v. v = (Some j, a, n)) (catchA (bindA (write_entry env j1) (\<lambda>_. returnA True))
            (\<lambda>e. if is_journal_conflict e then returnA False else throwA e))
        (\<lambda>won v. won \<and> v = (Some j1, a, n)) (\<lambda>_ v. step_ok j n v)"
    proof (rule hv_catch)
      show "hv c (\<lambda>v. v = (Some j, a, n)) (bindA (write_entry env j1) (\<lambda>_. returnA True))
          (\<lambda>won v. won \<and> v = (Some j1, a, n))
          (\<lambda>x v. v = (Some j, a, n) \<and> \<not> is_journal_conflict x)"
      proof (rule hv_bind)
        show "hv c (\<lambda>v. v = (Some j, a, n)) (write_entry env j1) (\<lambda>_ v. v = (Some j1, a, n))
            (\<lambda>x v. v = (Some j, a, n) \<and> \<not> is_journal_conflict x)"
          by (rule hv_weaken [OF hv_write [OF assms(1)]]) (auto simp: j)
      qed (simp add: hv_return)
    qed (auto simp: hv_def throwA_def returnA_def)
    show "hv c (\<lambda>v. won \<and> v = (Some j1, a, n)) (if \<not> won then returnA None
        else
          bindA (ask (\<lambda>s. lease_of s (je_op j))) (\<lambda>l.
          bindA (budget ''signalReload'' (env_signalReload env l)) (\<lambda>_.
          continue (after_signal env j))))
        (\<lambda>r v. step_ok j n v \<and> ended (je_op j) r v) (\<lambda>_ v. step_ok j n v)" for won
      using sent by (cases won) (simp_all add: hv_def)
  qed
qed

lemma reload_intent_ok:
  assumes "undisturbed c env"
  shows "phase_ok c j a n (phase_reload_intent env j)"
  unfolding phase_reload_intent_def Let_def
proof (rule phase_ok_bind [OF keeps_observe(1) [OF assms]], goal_cases)
  case (1 read)
  show ?case
  proof (rule phase_ok_if, goal_cases)
    case 1
    show ?case
      by (rule phase_ok_continue, rule hv_advance_ok [OF assms])
         (simp_all add: with_evidence_def split: option.split)
  next
    case 2
    show ?case
      by (rule phase_ok_if, rule phase_ok_continue, rule hv_failAll_ok [OF assms],
          rule signal_ok [OF assms]) (simp add: not_le)
  qed
qed

lemma reload_observed_ok:
  assumes "undisturbed c env"
  shows "phase_ok c j a n (phase_reload_observed env j)"
proof -
  have fin: "hv c (\<lambda>v. v = (Some j', a, n)) (agent_tx env (finishOperation (je_op j) ps))
      (\<lambda>_ v. step_ok j n v) (\<lambda>_ v. step_ok j n v)"
    if "je_op j' = je_op j" "je_reloadAttempts j' = je_reloadAttempts j" for j' ps
    by (rule hv_weaken [OF hv_finish [OF assms]]) (auto simp: that intro!: step_okI)
  have commits: "phase_ok c j a n (bindA (advance env j (\<lambda>e. e\<lparr>je_phase := phase,
          je_progress := Some progress, je_evidence := Some ev\<rparr>)) (\<lambda>_.
        if phase = Partially_activated then returnA None
        else continue (agent_tx env (finishOperation (je_op j) ps))))" for phase progress ev ps
    unfolding phase_ok_def
  proof (rule hv_bind)
    let ?over = "\<lambda>e. e\<lparr>je_phase := phase, je_progress := Some progress, je_evidence := Some ev\<rparr>"
    let ?j = "next_entry j ?over"
    have j: "je_op ?j = je_op j" "je_reloadAttempts ?j = je_reloadAttempts j"
      by (simp_all add: next_entry_def)
    show "hv c (\<lambda>v. v = (Some j, a, n)) (advance env j ?over) (\<lambda>_ v. v = (Some ?j, a, n)) (\<lambda>_ v. step_ok j n v)"
      by (rule hv_weaken [OF hv_advance [OF assms]]) auto
    have "hv c (\<lambda>v. v = (Some ?j, a, n)) (continue (agent_tx env (finishOperation (je_op j) ps)))
        (\<lambda>r v. step_ok j n v \<and> ended (je_op j) r v) (\<lambda>_ v. step_ok j n v)"
      unfolding continue_def by (rule hv_bind [OF fin [OF j]]) (rule hv_return, auto)
    moreover have "hv c (\<lambda>v. v = (Some ?j, a, n)) (returnA None)
        (\<lambda>r v. step_ok j n v \<and> ended (je_op j) r v) (\<lambda>_ v. step_ok j n v)"
      by (rule hv_return) (auto simp: j intro: step_okI)
    ultimately show "hv c (\<lambda>v. v = (Some ?j, a, n)) (if phase = Partially_activated then returnA None
        else continue (agent_tx env (finishOperation (je_op j) ps)))
        (\<lambda>r v. step_ok j n v \<and> ended (je_op j) r v) (\<lambda>_ v. step_ok j n v)"
      by (rule hv_if [rotated])
  qed
  show ?thesis unfolding phase_reload_observed_def Let_def plane_mark_def
    by (auto intro!: phase_intro keeps_intro keeps_budget undisturbedD assms commits split: option.split)
qed

lemma drive_phase_ok:
  assumes "undisturbed c env" "\<not> isTerminalPhase (je_phase j)"
  shows "phase_ok c j a n (drive_phase env j)"
  using assms unfolding drive_phase_def
  by (cases "je_phase j") (simp_all add: preflight_ok publish_intent_ok published_ok membership_staged_ok
      reload_intent_ok reload_observed_ok partially_activated_ok)

section \<open>The loop\<close>

lemma same_identity_holding:
  assumes "ownsJournal (Some j) bound = Inr True"
  shows "holding a (je_op j) = holding a bound"
  using assms by (auto simp: ownsJournal_def same_identity_def holding_def sameTransitionName_def errE
      split: if_splits)

lemma ownsJournal_op:
  "je_op j' = je_op j \<Longrightarrow> ownsJournal (Some j') bound = ownsJournal (Some j) bound"
  by (simp add: ownsJournal_def)

lemma at_terminal_ok:
  assumes "undisturbed c env" "isTerminalPhase (je_phase j)"
  shows "phase_ok c j a n (at_terminal env j)"
proof -
  have result: "hv c (\<lambda>v. \<exists>a'. v = (Some j, a', n) \<and> \<not> holding a' (je_op j))
      (returnA (Some (resultOf j))) (\<lambda>r v. step_ok j n v \<and> ended (je_op j) r v) (\<lambda>_ v. step_ok j n v)"
    by (rule hv_return) (auto simp: ended_def resultOf_def assms(2))
  show ?thesis unfolding at_terminal_def phase_ok_def
  proof (rule hv_bind)
    show "hv c (\<lambda>v. v = (Some j, a, n)) (ask (\<lambda>s. Inr (activeOperation s)))
        (\<lambda>h v. v = (Some j, a, n) \<and> h = a) (\<lambda>_ v. step_ok j n v)"
      by (rule hv_weaken [OF hv_ask_holder [where P = "\<lambda>v. v = (Some j, a, n)"]]) auto
    fix h
    show "hv c (\<lambda>v. v = (Some j, a, n) \<and> h = a)
       (bindA (case h of None \<Rightarrow> returnA ()
         | Some h \<Rightarrow> (if same_names h (je_op j) then
              agent_tx env (finishOperation (je_op j) (uncommitted (je_op j) (progress_in j)))
            else returnA ())) (\<lambda>_. returnA (Some (resultOf j))))
       (\<lambda>r v. step_ok j n v \<and> ended (je_op j) r v) (\<lambda>_ v. step_ok j n v)"
    proof (rule hv_bind [OF _ result], cases h)
      case None
      then show "hv c (\<lambda>v. v = (Some j, a, n) \<and> h = a) (case h of None \<Rightarrow> returnA ()
         | Some h \<Rightarrow> (if same_names h (je_op j) then
              agent_tx env (finishOperation (je_op j) (uncommitted (je_op j) (progress_in j)))
            else returnA ()))
         (\<lambda>_ v. \<exists>a'. v = (Some j, a', n) \<and> \<not> holding a' (je_op j)) (\<lambda>_ v. step_ok j n v)"
        by simp (rule hv_return, auto simp: holding_def)
    next
      case (Some m)
      show "hv c (\<lambda>v. v = (Some j, a, n) \<and> h = a) (case h of None \<Rightarrow> returnA ()
         | Some h \<Rightarrow> (if same_names h (je_op j) then
              agent_tx env (finishOperation (je_op j) (uncommitted (je_op j) (progress_in j)))
            else returnA ()))
         (\<lambda>_ v. \<exists>a'. v = (Some j, a', n) \<and> \<not> holding a' (je_op j)) (\<lambda>_ v. step_ok j n v)"
        unfolding Some option.case
        by (intro hv_if)
           (rule hv_weaken [OF hv_finish [OF assms(1), of "Some j" a n "je_op j"]], auto simp: holding_def same_names_def
             sameTransitionName_def intro!: hv_return)
    qed
  qed
qed

lemma close_up_ok:
  assumes "undisturbed c env" "\<not> isTerminalPhase (je_phase j)" "ownsJournal (Some j) (je_op j) = Inr True"
  shows "phase_ok c j a n (close_up env j)"
  unfolding close_up_def phase_ok_def
proof (rule hv_bind)
  show "hv c (\<lambda>v. v = (Some j, a, n)) reached (\<lambda>p v. v = (Some j, a, n) \<and> isTerminalPhase p) (\<lambda>_ v. step_ok j n v)"
    by (rule hv_weaken [OF hv_reached [where P = "\<lambda>v. v = (Some j, a, n)"]]) auto
next
  fix phase
  define j1 where "j1 = j\<lparr>je_phase := phase, je_seq := je_seq j + 1\<rparr>"
  have j: "je_op j1 = je_op j" "je_reloadAttempts j1 = je_reloadAttempts j" "je_phase j1 = phase"
    by (simp_all add: j1_def)
  have "hv c (\<lambda>v. v = (Some j, a, n)) (bindA (agent_tx env (closeJournal (je_op j) phase)) (\<lambda>_.
     bindA (agent_tx env (finishOperation (je_op j) (planesOf (je_op j)))) (\<lambda>_.
     bindA (ask (\<lambda>s. Inr (journal s))) (\<lambda>after.
     returnA (Some (resultOf (case after of
         None \<Rightarrow> j | Some a \<Rightarrow> if isTerminalPhase (je_phase a) then a else j)))))))
     (\<lambda>r v. step_ok j n v \<and> ended (je_op j) r v) (\<lambda>_ v. step_ok j n v)" if t: "isTerminalPhase phase"
  proof (rule hv_bind)
    show "hv c (\<lambda>v. v = (Some j, a, n)) (agent_tx env (closeJournal (je_op j) phase))
        (\<lambda>_ v. v = (Some j1, a, n)) (\<lambda>_ v. step_ok j n v)"
      by (rule hv_weaken [OF hv_agent_tx [OF assms(1), where Q = "\<lambda>v. v = (Some j1, a, n)"]])
         (use closeJournal_facts assms(2,3) in \<open>auto simp: j1_def\<close>)
    show "hv c (\<lambda>v. v = (Some j1, a, n)) (bindA (agent_tx env (finishOperation (je_op j) (planesOf (je_op j)))) (\<lambda>_.
       bindA (ask (\<lambda>s. Inr (journal s))) (\<lambda>after.
       returnA (Some (resultOf (case after of
         None \<Rightarrow> j | Some a \<Rightarrow> if isTerminalPhase (je_phase a) then a else j))))))
       (\<lambda>r v. step_ok j n v \<and> ended (je_op j) r v) (\<lambda>_ v. step_ok j n v)"
    proof (rule hv_bind)
      show "hv c (\<lambda>v. v = (Some j1, a, n)) (agent_tx env (finishOperation (je_op j) (planesOf (je_op j))))
          (\<lambda>_ v. \<exists>a'. v = (Some j1, a', n) \<and> \<not> holding a' (je_op j)) (\<lambda>_ v. step_ok j n v)"
        by (rule hv_weaken [OF hv_finish [OF assms(1)]]) (auto simp: j intro: step_okI)
      show "hv c (\<lambda>v. \<exists>a'. v = (Some j1, a', n) \<and> \<not> holding a' (je_op j)) (bindA (ask (\<lambda>s. Inr (journal s)))
          (\<lambda>after. returnA (Some (resultOf (case after of
             None \<Rightarrow> j | Some a \<Rightarrow> if isTerminalPhase (je_phase a) then a else j)))))
          (\<lambda>r v. step_ok j n v \<and> ended (je_op j) r v) (\<lambda>_ v. step_ok j n v)"
      proof (rule hv_bind)
        show "hv c (\<lambda>v. \<exists>a'. v = (Some j1, a', n) \<and> \<not> holding a' (je_op j)) (ask (\<lambda>s. Inr (journal s)))
            (\<lambda>x v. (\<exists>a'. v = (Some j1, a', n) \<and> \<not> holding a' (je_op j)) \<and> x = fst v) (\<lambda>_ v. step_ok j n v)"
          by (rule hv_weaken [OF hv_ask_journal [where P = "\<lambda>v. \<exists>a'. v = (Some j1, a', n) \<and> \<not> holding a' (je_op j)"]])
             (auto simp: j intro: step_okI)
      qed (rule hv_return, auto simp: ended_def resultOf_def j t intro: step_okI)
    qed
  qed
  then show "hv c (\<lambda>v. v = (Some j, a, n) \<and> isTerminalPhase phase)
     (bindA (agent_tx env (closeJournal (je_op j) phase)) (\<lambda>_.
     bindA (agent_tx env (finishOperation (je_op j) (planesOf (je_op j)))) (\<lambda>_.
     bindA (ask (\<lambda>s. Inr (journal s))) (\<lambda>after.
     returnA (Some (resultOf (case after of
         None \<Rightarrow> j | Some a \<Rightarrow> if isTerminalPhase (je_phase a) then a else j)))))))
     (\<lambda>r v. step_ok j n v \<and> ended (je_op j) r v) (\<lambda>_ v. step_ok j n v)"
    by (cases "isTerminalPhase phase") (simp_all add: hv_def)
qed

text \<open>What holds between the turns of the loop, with \<open>N\<close> the signals the run may have sent in all.\<close>

definition running :: "apply_operation \<Rightarrow> nat \<Rightarrow> view \<Rightarrow> bool" where
  "running bound N v \<longleftrightarrow> (\<exists>j a n. v = (Some j, a, n) \<and> ownsJournal (Some j) bound = Inr True \<and>
     n + (RELOAD_ATTEMPT_LIMIT - je_reloadAttempts j) \<le> N)"

lemma running_step:
  assumes own: "ownsJournal (Some j) bound = Inr True" and n: "n + (RELOAD_ATTEMPT_LIMIT - je_reloadAttempts j) \<le> N"
    and "step_ok j n v"
  shows "running bound N v"
proof -
  obtain j' a' n' where v: "v = (Some j', a', n')" "je_op j' = je_op j"
    "n' + (RELOAD_ATTEMPT_LIMIT - je_reloadAttempts j') \<le> n + (RELOAD_ATTEMPT_LIMIT - je_reloadAttempts j)"
    using assms(3) by (auto simp: step_ok_def)
  have "ownsJournal (Some j') bound = Inr True" using ownsJournal_op [OF v(2)] own by simp
  with v n show ?thesis by (auto simp: running_def)
qed

lemma ended_bound:
  "ownsJournal (Some j) bound = Inr True \<Longrightarrow> ended (je_op j) r v = ended bound r v"
  by (simp add: ended_def same_identity_holding)

lemma ownsJournal_self:
  assumes "ownsJournal (Some j) bound = Inr True"
  shows "ownsJournal (Some j) (je_op j) = Inr True"
proof -
  have "sameTransitionName (je_op j) bound" using assms
    by (cases "sameTransitionName (je_op j) bound") (simp_all add: ownsJournal_def same_identity_def)
  then obtain t where "normalizeNumeric (leaderToken (je_op j)) = Inr t"
    using assms by (auto simp: ownsJournal_def same_identity_def elim!: bindE_InrE)
  then show ?thesis by (simp add: ownsJournal_def same_identity_def sameTransitionName_def)
qed

lemma iteration_phase_ok:
  assumes "undisturbed c env" "ownsJournal (Some j) bound = Inr True"
  shows "phase_ok c j a n (iteration env bound over)"
  unfolding iteration_def phase_ok_def
proof (rule hv_bind)
  show "hv c (\<lambda>v. v = (Some j, a, n)) (ask (\<lambda>s. Inr (journal s)))
      (\<lambda>x v. v = (Some j, a, n) \<and> x = Some j) (\<lambda>_ v. step_ok j n v)"
    by (rule hv_weaken [OF hv_ask_journal [where P = "\<lambda>v. v = (Some j, a, n)"]]) auto
next
  fix now
  let ?rest = "\<lambda>j. bindA (ask (\<lambda>_. ownsJournal now bound)) (\<lambda>owns.
         if \<not> owns then not_mine env bound
         else if isTerminalPhase (je_phase j) then at_terminal env j
         else
           bindA (ask (closed_kinds j)) (\<lambda>kinds.
           if all_closed kinds then close_up env j
           else
             bindA (ask (\<lambda>s. assertOwnership s (je_op j))) (\<lambda>_.
             if over then throwA Hard_limit else drive_phase env j)))"
  have self: "ownsJournal (Some j) (je_op j) = Inr True" using assms(2) by (rule ownsJournal_self)
  have throw: "phase_ok c j a n (throwA Hard_limit)" unfolding phase_ok_def by (rule hv_throw) auto
  have "phase_ok c j a n (?rest j)" if now: "now = Some j"
    unfolding phase_ok_def
  proof (rule hv_bind)
    show "hv c (\<lambda>v. v = (Some j, a, n)) (ask (\<lambda>_. ownsJournal now bound))
        (\<lambda>owns v. v = (Some j, a, n) \<and> owns) (\<lambda>_ v. step_ok j n v)"
      by (rule hv_weaken [OF hv_ask_const [where P = "\<lambda>v. v = (Some j, a, n)"]]) (auto simp: now assms(2))
    fix owns
    have "phase_ok c j a n (if isTerminalPhase (je_phase j) then at_terminal env j
         else
           bindA (ask (closed_kinds j)) (\<lambda>kinds.
           if all_closed kinds then close_up env j
           else
             bindA (ask (\<lambda>s. assertOwnership s (je_op j))) (\<lambda>_.
             if over then throwA Hard_limit else drive_phase env j)))"
      by (intro phase_ok_if at_terminal_ok phase_ok_bind keeps_ask close_up_ok throw drive_phase_ok assms self)
    then show "hv c (\<lambda>v. v = (Some j, a, n) \<and> owns) (if \<not> owns then not_mine env bound
         else if isTerminalPhase (je_phase j) then at_terminal env j
         else
           bindA (ask (closed_kinds j)) (\<lambda>kinds.
           if all_closed kinds then close_up env j
           else
             bindA (ask (\<lambda>s. assertOwnership s (je_op j))) (\<lambda>_.
             if over then throwA Hard_limit else drive_phase env j)))
       (\<lambda>r v. step_ok j n v \<and> ended (je_op j) r v) (\<lambda>_ v. step_ok j n v)"
      by (cases owns) (simp_all add: phase_ok_def hv_def)
  qed
  then show "hv c (\<lambda>v. v = (Some j, a, n) \<and> now = Some j) (case now of None \<Rightarrow> returnA (Some emptyResult) | Some j \<Rightarrow> ?rest j)
     (\<lambda>r v. step_ok j n v \<and> ended (je_op j) r v) (\<lambda>_ v. step_ok j n v)"
    by (cases "now = Some j") (simp_all add: phase_ok_def hv_def)
qed

lemma iteration_ok:
  assumes "undisturbed c env"
  shows "hv c (running bound N) (iteration env bound over)
    (\<lambda>r v. running bound N v \<and> ended bound r v) (\<lambda>_. running bound N)"
proof (rule hvI)
  fix y r y' assume p: "running bound N (seen c y)" and m: "iteration env bound over y = (Inr r, y')"
  then obtain j a n where j: "seen c y = (Some j, a, n)" "ownsJournal (Some j) bound = Inr True"
    "n + (RELOAD_ATTEMPT_LIMIT - je_reloadAttempts j) \<le> N" by (auto simp: running_def)
  have "step_ok j n (seen c y') \<and> ended (je_op j) r (seen c y')"
    by (rule hvD(1) [OF iteration_phase_ok [OF assms j(2), unfolded phase_ok_def] _ m]) (simp add: j)
  then show "running bound N (seen c y') \<and> ended bound r (seen c y')"
    using running_step [OF j(2,3)] ended_bound [OF j(2)] by blast
next
  fix y r y' assume p: "running bound N (seen c y)" and m: "iteration env bound over y = (Inl r, y')"
  then obtain j a n where j: "seen c y = (Some j, a, n)" "ownsJournal (Some j) bound = Inr True"
    "n + (RELOAD_ATTEMPT_LIMIT - je_reloadAttempts j) \<le> N" by (auto simp: running_def)
  have "step_ok j n (seen c y')"
    by (rule hvD(2) [OF iteration_phase_ok [OF assms j(2), unfolded phase_ok_def] _ m]) (simp add: j)
  then show "running bound N (seen c y')" using running_step [OF j(2,3)] by blast
qed

definition ended_run :: "apply_operation \<Rightarrow> apply_result \<Rightarrow> view \<Rightarrow> bool" where
  "ended_run bound x v \<longleftrightarrow> ended bound (Some x) v"

lemma driveLoop_ok:
  assumes "undisturbed c env"
  shows "hv c (running bound N) (driveLoop env bound left)
    (\<lambda>x v. running bound N v \<and> ended_run bound x v) (\<lambda>_. running bound N)"
proof (induction left)
  case 0
  show ?case by (subst driveLoop.simps)
    (rule hv_bind [OF iteration_ok [OF assms]], auto split: option.split intro!: hv_return hv_throw simp: ended_run_def)
next
  case (Suc left)
  show ?case by (subst driveLoop.simps)
    (rule hv_bind [OF iteration_ok [OF assms]],
     auto split: option.split intro!: hv_return hv_weaken [OF Suc] simp: ended_run_def)
qed

lemma fail_late_ok:
  assumes "undisturbed c env" and own: "ownsJournal (Some entry) bound = Inr True"
  shows "hv c (\<lambda>v. running bound N v \<and> fst v = Some entry) (fail_late env entry name)
    (\<lambda>x v. running bound N v \<and> ended_run bound x v) (\<lambda>_. running bound N)"
  unfolding fail_late_def
proof (rule hv_bind)
  let ?P = "\<lambda>v. running bound N v \<and> (\<exists>j'. fst v = Some j' \<and> isTerminalPhase (je_phase j')) \<and>
      \<not> holding (fst (snd v)) bound"
  have "hv c (\<lambda>v. v = (Some entry, an)) (failAll env entry (Some (Over_budget name))) (\<lambda>_. ?P) (\<lambda>_. running bound N)"
    if "snd an + (RELOAD_ATTEMPT_LIMIT - je_reloadAttempts entry) \<le> N" for an
    using that by (cases an) (rule hv_weaken [OF hv_failAll [OF assms(1)]],
      auto simp: same_identity_holding [OF own] intro: running_step [OF own])
  then have "hv c (\<lambda>v. \<exists>an. snd an + (RELOAD_ATTEMPT_LIMIT - je_reloadAttempts entry) \<le> N \<and>
      v = (Some entry, an)) (failAll env entry (Some (Over_budget name))) (\<lambda>_. ?P) (\<lambda>_. running bound N)"
    by (rule hv_ex)
  then show "hv c (\<lambda>v. running bound N v \<and> fst v = Some entry) (failAll env entry (Some (Over_budget name)))
      (\<lambda>_. ?P) (\<lambda>_. running bound N)"
    by (rule hv_weaken) (auto simp: running_def)
  show "hv c ?P (bindA (ask (\<lambda>s. Inr (journal s))) (\<lambda>now.
      returnA ((resultOf (case now of None \<Rightarrow> entry | Some n \<Rightarrow> n))
        \<lparr>ar_failure := Some (failure_text (Over_budget name))\<rparr>)))
      (\<lambda>x v. running bound N v \<and> ended_run bound x v) (\<lambda>_. running bound N)"
  proof (rule hv_bind)
    show "hv c ?P (ask (\<lambda>s. Inr (journal s))) (\<lambda>x v. ?P v \<and> x = fst v) (\<lambda>_. running bound N)"
      by (rule hv_weaken [OF hv_ask_journal [where P = ?P]]) auto
  qed (rule hv_return, auto simp: ended_run_def ended_def resultOf_def)
qed

lemma out_of_budget_ok:
  assumes "undisturbed c env"
  shows "hv c (running bound N) (out_of_budget env bound name)
    (\<lambda>x v. running bound N v \<and> ended_run bound x v) (\<lambda>_. running bound N)"
  unfolding out_of_budget_def
proof (rule hv_bind)
  let ?P = "\<lambda>j v. running bound N v \<and> fst v = j"
  let ?fin = "\<lambda>j mine. case j of
       Some entry \<Rightarrow>
         (if mine then fail_late env entry name
          else returnA (emptyResult\<lparr>ar_failure := Some (failure_text (Over_budget name))\<rparr>))
     | None \<Rightarrow> returnA (emptyResult\<lparr>ar_failure := Some (failure_text (Over_budget name))\<rparr>)"
  show "hv c (running bound N) (ask (\<lambda>s. Inr (journal s))) ?P (\<lambda>_. running bound N)"
    by (rule hv_weaken [OF hv_ask_journal [where P = "running bound N"]]) auto
  fix j
  show "hv c (?P j) (bindA (ask (\<lambda>_. ownsJournal j bound)) (?fin j))
      (\<lambda>x v. running bound N v \<and> ended_run bound x v) (\<lambda>_. running bound N)"
  proof (rule hv_bind)
    show "hv c (?P j) (ask (\<lambda>_. ownsJournal j bound)) (\<lambda>mine v. ?P j v \<and> ownsJournal j bound = Inr mine)
        (\<lambda>_. running bound N)"
      by (rule hv_weaken [OF hv_ask_const [where P = "?P j"]]) auto
    fix mine
    show "hv c (\<lambda>v. ?P j v \<and> ownsJournal j bound = Inr mine) (?fin j mine)
        (\<lambda>x v. running bound N v \<and> ended_run bound x v) (\<lambda>_. running bound N)"
    proof (cases "\<exists>entry. j = Some entry \<and> ownsJournal (Some entry) bound = Inr True \<and> mine")
      case True
      then obtain entry where j: "j = Some entry" and own: "ownsJournal (Some entry) bound = Inr True"
        and m: "mine" by blast
      show ?thesis
        unfolding j by (simp add: m) (rule hv_weaken [OF fail_late_ok [OF assms own]], auto)
    next
      case False
      have "\<not> (?P j v \<and> ownsJournal j bound = Inr mine)" for v
        using False by (auto simp: running_def)
      then show ?thesis by (rule hv_impossible)
    qed
  qed
qed

lemma drive_ok:
  assumes "undisturbed c env"
  shows "hv c (running bound N) (drive env bound)
    (\<lambda>x v. running bound N v \<and> ended_run bound x v) (\<lambda>_. running bound N)"
  unfolding drive_def
proof (rule hv_catch [OF driveLoop_ok [OF assms]])
  fix e
  show "hv c (running bound N) (case e of Effect_timeout name \<Rightarrow> out_of_budget env bound name | _ \<Rightarrow> throwA e)
      (\<lambda>x v. running bound N v \<and> ended_run bound x v) (\<lambda>_. running bound N)"
    by (cases e) (auto intro: hv_throw out_of_budget_ok [OF assms])
qed

lemma hv_reserveAll:
  assumes "undisturbed c env"
  shows "hv c (\<lambda>v. snd (snd v) = n) (agent_tx env (reserveAll opn (Some (opening_of opn))))
    (\<lambda>_ v. running opn (n + RELOAD_ATTEMPT_LIMIT) v) (\<lambda>_ v. snd (snd v) = n)"
proof -
  have "running opn (n + RELOAD_ATTEMPT_LIMIT) (journal s', activeOperation s', n)"
    if "reserveAll opn (Some (opening_of opn)) s = Inr (r, s')" for s r s'
  proof -
    have own: "ownsJournal (journal s') opn = Inr True"
      using that by (rule reserveAll_opens) (simp add: opening_of_def)
    then obtain j where "journal s' = Some j" by (cases "journal s'") (auto simp: ownsJournal_def)
    with own show ?thesis by (simp add: running_def)
  qed
  then have "hv c (\<lambda>v. v = (fst ja, snd ja, n)) (agent_tx env (reserveAll opn (Some (opening_of opn))))
      (\<lambda>_. running opn (n + RELOAD_ATTEMPT_LIMIT)) (\<lambda>_ v. v = (fst ja, snd ja, n))" for ja
    by (rule hv_agent_tx [OF assms])
  then have "hv c (\<lambda>v. v = (fst ja, snd ja, n)) (agent_tx env (reserveAll opn (Some (opening_of opn))))
      (\<lambda>_. running opn (n + RELOAD_ATTEMPT_LIMIT)) (\<lambda>_ v. snd (snd v) = n)" if True for ja
    by (rule hv_weaken) auto
  then have "hv c (\<lambda>v. \<exists>ja. True \<and> v = (fst ja, snd ja, n)) (agent_tx env (reserveAll opn (Some (opening_of opn))))
      (\<lambda>_. running opn (n + RELOAD_ATTEMPT_LIMIT)) (\<lambda>_ v. snd (snd v) = n)"
    by (rule hv_ex)
  then show ?thesis by (rule hv_weaken) auto
qed

lemma run_ok:
  assumes "undisturbed c env"
  shows "hv c (\<lambda>v. snd (snd v) = n) (run env opn)
    (\<lambda>x v. snd (snd v) \<le> n + RELOAD_ATTEMPT_LIMIT \<and> ended_run opn x v)
    (\<lambda>_ v. snd (snd v) \<le> n + RELOAD_ATTEMPT_LIMIT)"
  unfolding run_def
proof (rule hv_bind)
  show "hv c (\<lambda>v. snd (snd v) = n) (ask (\<lambda>_. assertEnvelope opn)) (\<lambda>_ v. snd (snd v) = n)
      (\<lambda>_ v. snd (snd v) \<le> n + RELOAD_ATTEMPT_LIMIT)"
    by (rule hv_weaken [OF hv_keeps [OF keeps_ask, where P = "\<lambda>v. snd (snd v) = n"]]) auto
  show "hv c (\<lambda>v. snd (snd v) = n) (bindA (agent_tx env (reserveAll opn (Some (opening_of opn)))) (\<lambda>_. drive env opn))
      (\<lambda>x v. snd (snd v) \<le> n + RELOAD_ATTEMPT_LIMIT \<and> ended_run opn x v)
      (\<lambda>_ v. snd (snd v) \<le> n + RELOAD_ATTEMPT_LIMIT)"
  proof (rule hv_bind)
    show "hv c (\<lambda>v. snd (snd v) = n) (agent_tx env (reserveAll opn (Some (opening_of opn))))
        (\<lambda>_. running opn (n + RELOAD_ATTEMPT_LIMIT)) (\<lambda>_ v. snd (snd v) \<le> n + RELOAD_ATTEMPT_LIMIT)"
      by (rule hv_weaken [OF hv_reserveAll [OF assms]]) auto
    show "hv c (running opn (n + RELOAD_ATTEMPT_LIMIT)) (drive env opn)
        (\<lambda>x v. snd (snd v) \<le> n + RELOAD_ATTEMPT_LIMIT \<and> ended_run opn x v)
        (\<lambda>_ v. snd (snd v) \<le> n + RELOAD_ATTEMPT_LIMIT)"
      by (rule hv_weaken [OF drive_ok [OF assms]]) (auto simp: running_def)
  qed
qed

section \<open>Properties\<close>

text \<open>C15: Reload signals are bounded: however the world answers, a run whose agent nobody else writes
  to sends at most two reload signals, whether it returns, fails or throws.\<close>

theorem reload_signals_bounded:
  assumes "undisturbed c env"
  shows "c (snd (snd (run env opn y))) \<le> c (snd y) + RELOAD_ATTEMPT_LIMIT"
proof -
  obtain r y' where r: "run env opn y = (r, y')" by (metis prod.exhaust)
  have "snd (snd (seen c y')) \<le> c (snd y) + RELOAD_ATTEMPT_LIMIT"
    using hvD [OF run_ok [OF assms, of "c (snd y)" opn], of y] r by (cases r) (auto simp: seen_def)
  then show ?thesis by (simp add: r seen_def)
qed

text \<open>C16: A run whose agent nobody else writes to, when it returns, is over: its result is a terminal
  phase and its operation no longer holds the right to execute, so the next operation is not locked
  out, whatever the world answered on the way. (With another writer it can lose the journal and
  return while its operation is still registered.)\<close>

theorem run_ends_and_releases:
  assumes "undisturbed c env" "run env opn y = (Inr res, (st, w))"
  shows "isTerminalPhase (ar_phase res) \<and> \<not> holding (activeOperation (stored st)) opn"
proof -
  have "ended_run opn res (seen c (st, w))"
    using hvD(1) [OF run_ok [OF assms(1), of "c (snd y)" opn] _ assms(2)] by (simp add: seen_def)
  then show ?thesis by (simp add: ended_run_def ended_def seen_def)
qed

end
