(* ===== verification/Apply_Refines.thy ===== *)
theory Apply_Refines
  imports Apply_Safety
begin

text \<open>
  The runner as a client of the agent: a run, whoever else writes to the store meanwhile, is a
  history of the agent's machine, so every property of histories holds across it.
\<close>

section \<open>Relations on the store\<close>

definition moves :: "(agent_state option \<Rightarrow> agent_state option \<Rightarrow> bool) \<Rightarrow> ('w, 'a) act \<Rightarrow> bool" where
  "moves R m \<longleftrightarrow> (\<forall>y r y'. m y = (r, y') \<longrightarrow> R (fst y) (fst y'))"

text \<open>The others respect the relation, whenever they run.\<close>

definition others_respect ::
    "(agent_state option \<Rightarrow> agent_state option \<Rightarrow> bool) \<Rightarrow> 'w environment \<Rightarrow> bool" where
  "others_respect R env \<longleftrightarrow>
     (\<forall>y. R (fst y) (fst (snd (env_turn env y)))) \<and>
     (\<forall>opn y. R (fst y) (fst (snd (env_preflight env opn y)))) \<and>
     (\<forall>r l y. R (fst y) (fst (snd (env_publish env r l y)))) \<and>
     (\<forall>y. R (fst y) (fst (snd (env_observePublished env y)))) \<and>
     (\<forall>l y. R (fst y) (fst (snd (env_signalReload env l y)))) \<and>
     (\<forall>y. R (fst y) (fst (snd (env_observeActivation env y)))) \<and>
     (\<forall>f g p l y. env_stageMembership env = Some f \<longrightarrow> R (fst y) (fst (snd (f g p l y))))"

lemma others_respectD:
  assumes "others_respect R env"
  shows "R (fst y) (fst (snd (env_turn env y)))" "R (fst y) (fst (snd (env_preflight env opn y)))"
    "R (fst y) (fst (snd (env_publish env r l y)))" "R (fst y) (fst (snd (env_observePublished env y)))"
    "R (fst y) (fst (snd (env_signalReload env l y)))" "R (fst y) (fst (snd (env_observeActivation env y)))"
    "env_stageMembership env = Some f \<Longrightarrow> R (fst y) (fst (snd (f g p l y)))"
  using assms unfolding others_respect_def by blast+

text \<open>What a relation has to promise so that a whole run respects it.\<close>

locale store_relation =
  fixes R :: "agent_state option \<Rightarrow> agent_state option \<Rightarrow> bool"
  assumes refl: "R st st"
    and trans: "R a b \<Longrightarrow> R b d \<Longrightarrow> R a d"
    and request: "transaction (request_action rq) st = Inr (u, s) \<Longrightarrow> R st (Some s)"
begin

lemma moves_returnA: "moves R (returnA x)"
  by (simp add: moves_def returnA_def refl)

lemma moves_throwA: "moves R (throwA e)"
  by (simp add: moves_def throwA_def refl)

lemma moves_ask: "moves R (ask f)"
  by (auto simp: moves_def ask_def refl split: sum.splits)

lemma moves_bindA:
  assumes "moves R m" "\<And>x. moves R (f x)"
  shows "moves R (bindA m f)"
proof -
  have "R (fst y) (fst y')" if "bindA m f y = (r, y')" for y r y'
    using that assms unfolding moves_def by (elim bindA_cases) (blast intro: trans)+
  then show ?thesis by (simp add: moves_def)
qed

lemma moves_catchA:
  assumes "moves R m" "\<And>e. moves R (h e)"
  shows "moves R (catchA m h)"
proof -
  have "R (fst y) (fst y')" if "catchA m h y = (r, y')" for y r y'
    using that assms unfolding moves_def by (elim catchA_cases) (blast intro: trans)+
  then show ?thesis by (simp add: moves_def)
qed

lemma moves_foldA: "(\<And>x b. moves R (f x b)) \<Longrightarrow> moves R (foldA f xs b)"
  by (induction xs arbitrary: b) (simp_all add: moves_returnA moves_bindA)

lemma moves_if: "moves R m \<Longrightarrow> moves R m' \<Longrightarrow> moves R (if b then m else m')"
  by simp

lemma moves_budget:
  assumes "\<And>y. R (fst y) (fst (snd (eff y)))"
  shows "moves R (budget name eff)"
proof -
  have "R (fst y) (fst y')" if "budget name eff y = (r, y')" for y r y'
  proof -
    have "y' = snd (eff y)" using that by (auto simp: budget_def split: prod.splits outcome.splits)
    then show ?thesis using assms by simp
  qed
  then show ?thesis by (simp add: moves_def)
qed

lemma moves_tx:
  assumes "others_respect R env" "run_request rq = quietly act"
  shows "moves R (agent_tx env act)"
proof -
  have "R (fst y) (fst y')" if "agent_tx env act y = (r, y')" for y r y'
    using that
  proof (cases rule: agent_tx_cases)
    case (1 st w x s)
    have "transaction (request_action rq) st = Inr ((), s)"
      using 1(2) by (auto simp: transaction_def request_action_def assms(2) quietly_def elim!: bindE_InrE)
    then have "R st (fst y')" using request by (simp add: 1(4))
    moreover have "R (fst y) st" using others_respectD(1) [OF assms(1), of y] by (simp add: 1(1))
    ultimately show ?thesis by (rule trans [rotated])
  next
    case (2 e)
    then show ?thesis using others_respectD(1) [OF assms(1), of y] by simp
  qed
  then show ?thesis by (simp add: moves_def)
qed

lemmas moves_intro = moves_returnA moves_throwA moves_ask moves_bindA moves_catchA moves_foldA
  moves_if moves_budget

lemma moves_requests:
  assumes "others_respect R env"
  shows "moves R (agent_tx env (stage t))" "moves R (agent_tx env (commit t ev))"
    "moves R (agent_tx env (fail t))" "moves R (agent_tx env (recordPublishIntent pr))"
    "moves R (agent_tx env (finishOperation opn ps))" "moves R (agent_tx env (closeJournal opn how))"
    "moves R (agent_tx env (writeJournal e))" "moves R (agent_tx env (reserveAll opn o'))"
    "moves R (agent_tx env releaseIdleHolder)" "moves R (agent_tx env (releaseStaleSlots opn))"
    "moves R (agent_tx env (reclaimOperation opn))"
  by (rule moves_tx [OF assms], rule run_request.simps)+

lemma moves_pause: "others_respect R env \<Longrightarrow> moves R (pause env)"
  unfolding moves_def pause_def by (metis others_respectD(1) prod.inject)

lemma moves_observe:
  assumes "others_respect R env"
  shows "moves R (observeRead env)" "moves R (observe env)" "moves R (awaitActivation env g)"
proof -
  show r: "moves R (observeRead env)" unfolding observeRead_def
    by (intro moves_intro) (rule others_respectD(6) [OF assms])
  show o: "moves R (observe env)" unfolding observe_def by (intro moves_intro r)
  have "moves R (poll_activation env g n x)" for n x
    by (induction n arbitrary: x) (auto intro!: moves_intro o moves_pause assms)
  then show "moves R (awaitActivation env g)" by (simp add: awaitActivation_def)
qed

lemma moves_writes:
  assumes "others_respect R env"
  shows "moves R (ignoreConflict (write_entry env e))" "moves R (write_entry env e)"
    "moves R (advance env j over)" "moves R (ignoreRejection (agent_tx env (fail t)))"
proof -
  show w: "moves R (write_entry env e)" for e unfolding write_entry_def by (rule moves_requests [OF assms])
  show i: "moves R (ignoreConflict (write_entry env e))" for e
    unfolding ignoreConflict_def by (intro moves_intro w)
  show "moves R (advance env j over)" unfolding advance_def by (rule i)
  show "moves R (ignoreRejection (agent_tx env (fail t)))"
    unfolding ignoreRejection_def by (intro moves_intro moves_requests [OF assms])
qed

lemma moves_finishing:
  assumes "others_respect R env"
  shows "moves R (failAll env j reason)" "moves R (not_mine env opn)" "moves R (at_terminal env j)"
    "moves R (close_up env j)" "moves R (fail_late env j name)" "moves R (out_of_budget env opn name)"
proof -
  note basic = moves_intro moves_requests [OF assms] moves_writes [OF assms]
  have re: "moves R reached" unfolding reached_def by (intro moves_intro)
  show f: "moves R (failAll env j reason)" for j reason
    unfolding failAll_def by (intro basic re)
  show "moves R (not_mine env opn)" "moves R (at_terminal env j)" "moves R (close_up env j)"
    unfolding not_mine_def at_terminal_def close_up_def
    by (intro basic re; auto intro!: basic split: option.split)+
  show l: "moves R (fail_late env j name)" for j unfolding fail_late_def by (intro basic f)
  show "moves R (out_of_budget env opn name)" unfolding out_of_budget_def
    by (intro basic) (auto intro!: basic l split: option.split)
qed

lemma moves_phases:
  assumes "others_respect R env"
  shows "moves R (drive_phase env j)"
proof -
  note basic = moves_intro moves_requests [OF assms] moves_writes [OF assms] moves_observe [OF assms]
    moves_finishing [OF assms]
  note others = others_respectD [OF assms]
  have c: "moves R (continue m)" if "moves R m" for m :: "('a, unit) act"
    unfolding continue_def by (intro moves_intro that)
  have st: "moves R (stage_plane env opn p)" for opn p
    unfolding stage_plane_def by (intro basic) (auto intro!: basic others split: option.split)
  have co: "moves R (commit_plane env opn ev p)" for opn ev p
    unfolding commit_plane_def by (intro basic)
  have sg: "moves R (after_signal env j)"
    unfolding after_signal_def by (intro basic) (auto intro!: basic split: option.split)
  have "moves R (phase_preflight env j)" "moves R (phase_publish_intent env j)"
    "moves R (phase_membership_staged env j)"
    unfolding phase_preflight_def phase_publish_intent_def phase_membership_staged_def
    by (intro basic c others)+
  moreover have "moves R (phase_published env j)"
    unfolding phase_published_def
    by (intro moves_bindA moves_foldA) (auto intro!: basic c st split: prod.split)
  moreover have "moves R (phase_reload_intent env j)"
    unfolding phase_reload_intent_def Let_def by (intro basic c sg others)
  moreover have "moves R (phase_reload_observed env j)"
    unfolding phase_reload_observed_def Let_def plane_mark_def
    by (intro basic others c) (auto intro!: basic c co split: option.split)
  moreover have "moves R (phase_partially_activated env j)"
    unfolding phase_partially_activated_def Let_def by (intro basic c)
  ultimately show ?thesis unfolding drive_phase_def
    by (cases "je_phase j") (simp_all add: moves_returnA)
qed

lemma moves_drive:
  assumes "others_respect R env"
  shows "moves R (drive env opn)"
proof -
  note basic = moves_intro moves_finishing [OF assms] moves_phases [OF assms]
  have it: "moves R (iteration env opn over)" for over
    unfolding iteration_def by (intro basic) (auto intro!: basic split: option.split)
  have "moves R (driveLoop env opn left)" for left
    by (induction left)
       (subst driveLoop.simps, auto intro!: moves_intro it split: option.split nat.split)+
  then show ?thesis unfolding drive_def
    by (intro moves_catchA) (auto intro!: basic split: run_error.split)
qed

lemma moves_run:
  assumes "others_respect R env"
  shows "moves R (run env opn)" "moves R (recover env)"
proof -
  note basic = moves_intro moves_requests [OF assms] moves_drive [OF assms]
  show "moves R (run env opn)" unfolding run_def by (intro basic)
  show "moves R (recover env)" unfolding recover_def
    by (intro moves_bindA moves_ask) (auto intro!: basic split: option.split)
qed

end

section \<open>Histories\<close>

text \<open>From one content of the store to another by requests the agent served.\<close>

inductive served :: "agent_state option \<Rightarrow> agent_state option \<Rightarrow> bool" where
  served_none: "served st st"
| served_request: "served st st1 \<Longrightarrow> transaction (request_action rq) st1 = Inr (u, s) \<Longrightarrow>
    served st (Some s)"

lemma served_trans:
  assumes "served b d" "served a b"
  shows "served a d"
  using assms by (induction rule: served.induct) (auto intro: served_request)

interpretation served: store_relation served
  by unfold_locales (auto intro: served_none served_request served_trans)

lemma history_snoc:
  assumes "history s rs s1" "agent_step s1 r s2"
  shows "history s (rs @ [r]) s2"
  using assms by (induction rule: history.induct) (auto intro: history_Cons history_Nil)

lemma served_history:
  assumes "served st st'" "st = Some s"
  shows "\<exists>s' rs. st' = Some s' \<and> history s rs s'"
  using assms
proof (induction rule: served.induct)
  case (served_none st)
  then show ?case by (blast intro: history_Nil)
next
  case (served_request st st1 rq u s')
  then obtain s1 rs where "st1 = Some s1" "history s rs s1" by blast
  with served_request.hyps(2) have "history s (rs @ [rq]) s'"
    by (auto intro: history_snoc served)
  then show ?case by blast
qed

text \<open>The runner only acts through the agent: whatever the world does and whoever else sends
  requests in between, running an operation or recovering one takes the agent along one of its
  histories, so nothing a run does escapes what holds along histories.\<close>

theorem run_refines_agent:
  assumes "others_respect served env"
    and "run env opn (Some s, w) = (res, (st, w')) \<or> recover env (Some s, w) = (res, (st, w'))"
  shows "\<exists>s' rs. st = Some s' \<and> history s rs s'"
proof -
  have "served (Some s) st"
    using assms(2) served.moves_run [OF assms(1)] unfolding moves_def by fastforce
  then show ?thesis by (rule served_history) simp
qed

end
