(* ===== verification/Agent_Planes.thy ===== *)
theory Agent_Planes
  imports Agent_History
begin

text \<open>
  How the planes of an agent move and how much it remembers: a plane's state changes only by a
  checked commit or by a health delta within the epoch, and the evidence and the
  acknowledgements a reachable state keeps are bounded.
\<close>

section \<open>How planes move\<close>

lemma applyHealth_planes:
  assumes "applyHealth opn s = Inr (ack, s')"
  shows "planes s' = planes s \<or>
    (planes s' = (planes s)(on_plane opn := target_state opn (ps_by (planes s (on_plane opn)))) \<and>
     sameCoordinate (planes s (on_plane opn)) (ot_expectedCurrent opn) = Inr True \<and>
     big_rel (\<noteq>) (target_epoch opn) (activationEpoch (planes s (on_plane opn))) = Inr False \<and>
     big_rel (\<le>) (membershipRevision (ot_target opn)) (membershipRevision (planes s (on_plane opn)))
       = Inr False)"
proof -
  from assms obtain r s1 where adm: "admit opn Step_health s = Inr (r, s1)"
    and rest: "r = None \<Longrightarrow>
       sameCoordinate (planes s1 (on_plane opn)) (ot_expectedCurrent opn) = Inr True \<and>
       big_rel (\<noteq>) (target_epoch opn) (activationEpoch (planes s1 (on_plane opn))) = Inr False \<and>
       big_rel (\<le>) (membershipRevision (ot_target opn)) (membershipRevision (planes s1 (on_plane opn)))
         = Inr False \<and>
       record_ack opn Step_health
        (planes (set_plane (on_plane opn) (target_state opn (ps_by (planes s1 (on_plane opn)))) s1) (on_plane opn))
        (set_plane (on_plane opn) (target_state opn (ps_by (planes s1 (on_plane opn)))) s1) = Inr (ack, s')"
    and cached: "r \<noteq> None \<Longrightarrow> s' = s1"
    unfolding applyHealth_def Let_def
    by (elim bindE_InrE) (auto elim!: bindE_InrE split: option.splits if_splits)
  have p: "planes s1 = planes s" using admit_facts(1) [OF adm] by auto
  show ?thesis
  proof (cases r)
    case None
    from rest [OF None] p show ?thesis by (auto simp: set_plane_def elim!: record_ack_Inr)
  next
    case (Some a)
    with cached p show ?thesis by simp
  qed
qed

lemma commit_move_planes:
  assumes "commit_move opn ev s = Inr (ack, s')"
  obtains token where "normalizeNumeric (leaderToken opn) = Inr token"
    "planes s' = (planes s)(on_plane opn := target_state opn (Some \<lparr>leaderToken = token,
       operationId = operationId opn, transitionId = transitionId opn\<rparr>))"
proof (rule commit_move_Inr [OF assms])
  fix token s3 s4
  let ?moved = "target_state opn (Some \<lparr>leaderToken = token,
           operationId = operationId opn, transitionId = transitionId opn\<rparr>)"
  let ?s1 = "(set_plane (on_plane opn) ?moved s)
        \<lparr>activationEvidence := dset (evidence_key (on_plane opn) (target_epoch opn)) ev
           (activationEvidence s)\<rparr>"
  assume n: "normalizeNumeric (leaderToken opn) = Inr token"
    and c: "commit_candidate opn ?s1 = Inr s3" and f: "finish opn T_activated s3 = Inr s4"
    and r: "record_ack opn Step_commit (planes s4 (on_plane opn)) s4 = Inr (ack, s')"
  have "planes s3 = planes ?s1" by (rule commit_candidate_Inr [OF c]) simp
  moreover have "planes s4 = planes s3" by (rule finish_Inr [OF f])
  moreover have "planes s' = planes s4" by (rule record_ack_Inr [OF r]) simp
  ultimately show thesis by (intro that [OF n]) (simp add: set_plane_def)
qed

text \<open>The ways a plane's state may change in one step.\<close>

definition moved_by_commit :: "agent_state \<Rightarrow> request \<Rightarrow> agent_state \<Rightarrow> plane \<Rightarrow> bool" where
  "moved_by_commit s r s' p \<longleftrightarrow> (\<exists>opn ev token. r = R_commit opn ev \<and> on_plane opn = p \<and>
     commit_checked opn ev s \<and> normalizeNumeric (leaderToken opn) = Inr token \<and>
     planes s' p = target_state opn (Some \<lparr>leaderToken = token,
       operationId = operationId opn, transitionId = transitionId opn\<rparr>))"

definition moved_by_health :: "agent_state \<Rightarrow> request \<Rightarrow> agent_state \<Rightarrow> plane \<Rightarrow> bool" where
  "moved_by_health s r s' p \<longleftrightarrow> (\<exists>opn. r = R_health opn \<and> on_plane opn = p \<and>
     planes s' p = target_state opn (ps_by (planes s p)) \<and>
     sameCoordinate (planes s p) (ot_expectedCurrent opn) = Inr True \<and>
     big_rel (=) (activationEpoch (planes s' p)) (activationEpoch (planes s p)) = Inr True \<and>
     big_rel (>) (membershipRevision (planes s' p)) (membershipRevision (planes s p)) = Inr True)"

lemma target_state_fields [simp]:
  "activationEpoch (target_state opn a) = target_epoch opn"
  "membershipRevision (target_state opn a) = membershipRevision (ot_target opn)"
  "ps_payloadDigest (target_state opn a) = ot_payloadDigest opn"
  "ps_by (target_state opn a) = a"
  by (simp_all add: target_state_def coordinate.defs)

text \<open>C1: A plane moves only with proof: in every step of the agent a plane's state changes only through
  a commit whose staged slot, expected coordinate, payload digest and activation evidence were
  all checked against the state it overwrites, or through a health delta that stays in the
  current epoch, raises the membership revision and keeps the author.\<close>

theorem plane_moves_only_with_proof:
  assumes "agent_step s r s'" "planes s' p \<noteq> planes s p"
  shows "moved_by_commit s r s' p \<or> moved_by_health s r s' p"
proof -
  from assms(1) obtain nxt where run: "run_request r s = Inr nxt" and pr: "prune nxt = Inr s'"
    by (auto simp: agent_step_parts)
  have pl: "planes s' = planes nxt" using prune_same_core [OF pr] by (simp add: same_core_def)
  show ?thesis
  proof (cases "(\<exists>t ev. r = R_commit t ev) \<or> (\<exists>t. r = R_health t)")
    case False
    with run_request_framed [OF run] have "planes nxt = planes s"
      by (simp add: framed_def slots_from_def)
    with pl assms(2) show ?thesis by simp
  next
    case True
    then show ?thesis
    proof (elim disjE exE)
      fix opn ev assume r: "r = R_commit opn ev"
      with run obtain ack where c: "commit opn ev s = Inr (ack, nxt)" by (auto simp: quietly_Inr)
      show ?thesis
      proof (cases rule: commit_Inr [OF c])
        case (1 m)
        with pl assms(2) show ?thesis by simp
      next
        case (2 s1 m)
        then have "planes nxt = planes s" by (auto elim!: record_ack_Inr)
        with pl assms(2) show ?thesis by simp
      next
        case (3 s1 m)
        from commit_move_planes [OF 3(3)] obtain token where
          t: "normalizeNumeric (leaderToken opn) = Inr token"
          "planes nxt = (planes s)(on_plane opn := target_state opn (Some \<lparr>leaderToken = token,
             operationId = operationId opn, transitionId = transitionId opn\<rparr>))"
          using 3(1) by (metis agent_state.select_convs(2) agent_state.surjective agent_state.update_convs(1))
        then have "p = on_plane opn" using pl assms(2) by (cases "p = on_plane opn") simp_all
        with t pl r 3(2) show ?thesis unfolding moved_by_commit_def by auto
      qed
    next
      fix opn assume r: "r = R_health opn"
      with run obtain ack where c: "applyHealth opn s = Inr (ack, nxt)" by (auto simp: quietly_Inr)
      from applyHealth_planes [OF c] pl assms(2) have
        h: "planes s' = (planes s)(on_plane opn := target_state opn (ps_by (planes s (on_plane opn))))"
        "sameCoordinate (planes s (on_plane opn)) (ot_expectedCurrent opn) = Inr True"
        "big_rel (\<noteq>) (target_epoch opn) (activationEpoch (planes s (on_plane opn))) = Inr False"
        "big_rel (\<le>) (membershipRevision (ot_target opn)) (membershipRevision (planes s (on_plane opn)))
           = Inr False"
        by auto
      then have "p = on_plane opn" using assms(2) by (cases "p = on_plane opn") simp_all
      with h r show ?thesis
        unfolding moved_by_health_def by (auto simp: big_rel_def errE)
    qed
  qed
qed

section \<open>Bounded retention\<close>

lemma dkeys_drop_keys: "dkeys (drop_keys ks d) = filter (\<lambda>k. k \<notin> set ks) (dkeys d)"
  unfolding drop_keys_def
proof (induction ks arbitrary: d)
  case (Cons k ks)
  have "filter P (removeAll k xs) = filter (\<lambda>x. x \<noteq> k \<and> P x) xs" for P and xs :: "'a list"
    by (induction xs) auto
  with Cons show ?case by (simp add: AList.delete_keys conj_commute)
qed simp

text \<open>Dropping the first \<open>n - r\<close> of what is not protected leaves at most \<open>r\<close>, when few are.\<close>

lemma drop_first_bound:
  assumes "distinct xs" "length prot \<le> r"
  shows "length (filter (\<lambda>x. x \<notin> set (take (length xs - r) (filter (\<lambda>x. x \<notin> set prot) xs))) xs) \<le> r"
proof -
  let ?free = "filter (\<lambda>x. x \<notin> set prot) xs"
  let ?drp = "take (length xs - r) ?free"
  have "length (filter (\<lambda>x. x \<in> set prot) xs) = card (set (filter (\<lambda>x. x \<in> set prot) xs))"
    using assms(1) by (metis distinct_card distinct_filter)
  also have "\<dots> \<le> card (set prot)" by (intro card_mono) auto
  also have "\<dots> \<le> length prot" by (rule card_length)
  finally have "length (filter (\<lambda>x. x \<in> set prot) xs) \<le> length prot" .
  then have free: "length xs - r \<le> length ?free"
    using assms(2) sum_length_filter_compl [of "\<lambda>x. x \<in> set prot" xs] by linarith
  have "set ?drp \<subseteq> set xs" by (meson filter_is_subset order_trans set_take_subset)
  then have "filter (\<lambda>x. x \<in> set ?drp) xs = filter (\<lambda>x. x \<in> set ?drp) xs \<and>
      set (filter (\<lambda>x. x \<in> set ?drp) xs) = set ?drp" by auto
  moreover have "distinct ?drp" "distinct (filter (\<lambda>x. x \<in> set ?drp) xs)" using assms(1) by simp_all
  ultimately have "length (filter (\<lambda>x. x \<in> set ?drp) xs) = length ?drp"
    by (metis distinct_card)
  then show ?thesis
    using free sum_length_filter_compl [of "\<lambda>x. x \<in> set ?drp" xs] by simp
qed

lemma standing_keys_length: "length (standing_keys s) = 2"
  by (simp add: standing_keys_def all_planes_def)

lemma pruneEvidence_bound:
  assumes "distinct (dkeys (activationEvidence s))"
  shows "length (activationEvidence (pruneEvidence s)) \<le> EVIDENCE_RETENTION"
proof (cases "length (activationEvidence s) \<le> EVIDENCE_RETENTION")
  case True
  then show ?thesis by (simp add: pruneEvidence_def)
next
  case False
  let ?drp = "take (length (dkeys (activationEvidence s)) - EVIDENCE_RETENTION)
    (filter (\<lambda>k. k \<notin> set (standing_keys s)) (dkeys (activationEvidence s)))"
  have "activationEvidence (pruneEvidence s) = drop_keys ?drp (activationEvidence s)"
    using False by (simp add: pruneEvidence_def Let_def)
  then have "length (activationEvidence (pruneEvidence s)) =
      length (filter (\<lambda>k. k \<notin> set ?drp) (dkeys (activationEvidence s)))"
    using dkeys_drop_keys [of ?drp] by (metis length_map)
  also have "\<dots> \<le> EVIDENCE_RETENTION"
    by (rule drop_first_bound [OF assms]) (simp add: standing_keys_length EVIDENCE_RETENTION_def)
  finally show ?thesis .
qed

lemma push_new_fold:
  "distinct acc \<Longrightarrow> distinct (foldl push_new acc xs) \<and> set (foldl push_new acc xs) = set acc \<union> set xs"
  by (induction xs arbitrary: acc) (auto simp: push_new_def)

lemma transition_order_facts:
  "distinct (transition_order s)" "set (transition_order s) = entry_transition ` set (completed s)"
  using push_new_fold [of "[]" "map entry_transition (completed s)"]
  by (simp_all add: transition_order_def)

lemma live_names_length: "live_names s = Inr live \<Longrightarrow> length live \<le> 2"
  by (auto simp: live_names_def errE split: option.splits)

lemma pruneCompleted_bound:
  assumes "pruneCompleted s = Inr s'"
  shows "card (entry_transition ` set (completed s')) \<le> COMPLETED_RETENTION"
proof (rule pruneCompleted_cases [OF assms])
  assume "s' = s" "completed s = []"
  then show ?thesis by (simp add: COMPLETED_RETENTION_def)
next
  fix live drp
  assume l: "live_names s = Inr live" and d: "drp = take (length (transition_order s) - COMPLETED_RETENTION)
       (filter (\<lambda>t. t \<notin> set live) (transition_order s))"
    and s': "s' = s\<lparr>completed := filter (\<lambda>e. entry_transition e \<notin> set drp) (completed s)\<rparr>"
  have "entry_transition ` set (completed s') = set (filter (\<lambda>t. t \<notin> set drp) (transition_order s))"
    using transition_order_facts(2) [of s] by (auto simp: s')
  then have "card (entry_transition ` set (completed s')) \<le>
      length (filter (\<lambda>t. t \<notin> set drp) (transition_order s))"
    using card_length by metis
  also have "\<dots> \<le> COMPLETED_RETENTION"
    unfolding d by (rule drop_first_bound [OF transition_order_facts(1)])
      (use live_names_length [OF l] in \<open>simp add: COMPLETED_RETENTION_def\<close>)
  finally show ?thesis .
qed

lemma prune_bounds:
  assumes "prune s = Inr s'" "dicts_wf s"
  shows "length (activationEvidence s') \<le> EVIDENCE_RETENTION \<and>
    card (entry_transition ` set (completed s')) \<le> COMPLETED_RETENTION"
proof (rule prune_parts [OF assms(1)])
  fix s1 assume "pruneCompleted s1 = Inr s'" "activationEvidence s' = activationEvidence (pruneEvidence s)"
  with pruneCompleted_bound pruneEvidence_bound [of s] assms(2) show ?thesis
    by (auto simp: dicts_wf_def)
qed

text \<open>C9: The agent's memory of what it has answered stays bounded: every reachable state keeps at most
  64 activation evidences and acknowledgements of at most 64 transitions.\<close>

theorem reachable_retention_bounded:
  assumes "reachable s"
  shows "length (activationEvidence s) \<le> 64 \<and> card (entry_transition ` set (completed s)) \<le> 64"
proof -
  have "\<exists>nxt. prune nxt = Inr s \<and> dicts_wf nxt"
    using assms
  proof cases
    case (reachable_first r u)
    then show ?thesis using run_request_frame dicts_wf_initial
      by (fastforce simp: transaction_def request_action_def errE)
  next
    case (reachable_step s0 r)
    then show ?thesis using run_request_frame reachable_dicts_wf
      by (fastforce simp: agent_step_parts)
  qed
  then show ?thesis
    using prune_bounds by (fastforce simp: EVIDENCE_RETENTION_def COMPLETED_RETENTION_def)
qed

end
