(* ===== verification/Agent_Serial.thy ===== *)
theory Agent_Serial
  imports Agent_History
begin

text \<open>
  How the agent's transactions reach the durable store: \<^verbatim>\<open>serial\<close> of \<^verbatim>\<open>src/src/dp/agent.ts\<close>
  (load, compute, save under a version, retry on a conflict at most eight times) over the
  \<^verbatim>\<open>DurableStore\<close> interface, and \<^verbatim>\<open>MemoryStore\<close> as its implementation.

  Other writers of the same store are an argument of the model: what happens to the store
  between the load and the save of each attempt. The interface promises compare and set; from
  that alone a transaction is shown to be applied to the very state it overwrites.
\<close>

section \<open>The store\<close>

record 'p stored_state =
  ss_version :: nat
  ss_payload :: 'p

text \<open>\<^verbatim>\<open>load\<close> and \<^verbatim>\<open>save\<close> of \<^verbatim>\<open>MemoryStore\<close>; the conflict is the left result.\<close>

type_synonym 'p memory_store = "'p stored_state option"

definition memory_load :: "'p memory_store \<Rightarrow> 'p stored_state option" where
  "memory_load st = st"

definition memory_save :: "'p stored_state \<Rightarrow> 'p memory_store \<Rightarrow> dp_error + 'p memory_store" where
  "memory_save new st =
     (let expected = (case st of None \<Rightarrow> 0 | Some s \<Rightarrow> ss_version s) + 1 in
      if ss_version new \<noteq> expected then Inl Store_conflict else Inr (Some new))"

definition stored_version :: "'p stored_state option \<Rightarrow> nat" where
  "stored_version st = (case st of None \<Rightarrow> 0 | Some s \<Rightarrow> ss_version s)"

locale durable_store =
  fixes load :: "'st \<Rightarrow> 'p stored_state option"
    and save :: "'p stored_state \<Rightarrow> 'st \<Rightarrow> dp_error + 'st"
  assumes save_stored: "save new st = Inr st' \<Longrightarrow> load st' = Some new"
    and save_next: "save new st = Inr st' \<Longrightarrow> ss_version new = stored_version (load st) + 1"
    and save_conflict: "save new st = Inl e \<Longrightarrow> e = Store_conflict"
    and save_accepts: "ss_version new = stored_version (load st) + 1 \<Longrightarrow> \<exists>st'. save new st = Inr st'"

definition CAS_RETRY_LIMIT :: nat where "CAS_RETRY_LIMIT = 8"

text \<open>One attempt: load, compute, let the others run, save. It gives the outcome, the store the
  save met (for the statements; the code does not see it) and the store after.\<close>

definition attempt ::
    "('st \<Rightarrow> 'p stored_state option) \<Rightarrow> ('p stored_state \<Rightarrow> 'st \<Rightarrow> dp_error + 'st) \<Rightarrow>
     ('p option \<Rightarrow> dp_error + ('r \<times> 'p)) \<Rightarrow> ('st \<Rightarrow> 'st) \<Rightarrow> 'st \<Rightarrow> (dp_error + 'r) \<times> 'st \<times> 'st" where
  "attempt ld sv tx others st =
     (let met = others st in
      case tx (map_option ss_payload (ld st)) of
        Inl e \<Rightarrow> (Inl e, met, met)
      | Inr (result, nxt) \<Rightarrow>
          (case sv \<lparr>ss_version = stored_version (ld st) + 1, ss_payload = nxt\<rparr> met of
             Inl e \<Rightarrow> (Inl e, met, met)
           | Inr st' \<Rightarrow> (Inr result, met, st')))"

text \<open>The loop, with the number of retries left; a conflict is retried while one is left.\<close>

fun serial_loop ::
    "('st \<Rightarrow> 'p stored_state option) \<Rightarrow> ('p stored_state \<Rightarrow> 'st \<Rightarrow> dp_error + 'st) \<Rightarrow>
     ('p option \<Rightarrow> dp_error + ('r \<times> 'p)) \<Rightarrow> (nat \<Rightarrow> 'st \<Rightarrow> 'st) \<Rightarrow> nat \<Rightarrow> 'st \<Rightarrow>
     (dp_error + 'r) \<times> 'st \<times> 'st" where
  "serial_loop ld sv tx others left st =
     (case attempt ld sv tx (others left) st of
        (Inl e, met, st') \<Rightarrow>
          (if e = Store_conflict then
             (case left of 0 \<Rightarrow> (Inl e, met, st') | Suc n \<Rightarrow> serial_loop ld sv tx others n st')
           else (Inl e, met, st'))
      | (Inr r, met, st') \<Rightarrow> (Inr r, met, st'))"

declare serial_loop.simps [simp del]

definition serial ::
    "('st \<Rightarrow> agent_state stored_state option) \<Rightarrow>
     (agent_state stored_state \<Rightarrow> 'st \<Rightarrow> dp_error + 'st) \<Rightarrow>
     'r action \<Rightarrow> (nat \<Rightarrow> 'st \<Rightarrow> 'st) \<Rightarrow> 'st \<Rightarrow> (dp_error + 'r) \<times> 'st \<times> 'st" where
  "serial ld sv mutate others st =
     serial_loop ld sv (transaction mutate) others CAS_RETRY_LIMIT st"

section \<open>Compare and set\<close>

text \<open>The others move a store by saves of their own: its version does not go back, and an
  unchanged version means an unchanged content.\<close>

definition fair_writer :: "('st \<Rightarrow> 'p stored_state option) \<Rightarrow> ('st \<Rightarrow> 'st) \<Rightarrow> bool" where
  "fair_writer ld f \<longleftrightarrow> (\<forall>st. stored_version (ld st) \<le> stored_version (ld (f st)) \<and>
     (stored_version (ld (f st)) = stored_version (ld st) \<longrightarrow> ld (f st) = ld st))"

context durable_store
begin

lemma attempt_applied:
  assumes "attempt load save tx f st = (Inr r, met, st')" "fair_writer load f"
  shows "\<exists>nxt. tx (map_option ss_payload (load met)) = Inr (r, nxt) \<and>
     load st' = Some \<lparr>ss_version = stored_version (load met) + 1, ss_payload = nxt\<rparr>"
proof -
  from assms(1) obtain nxt where
    tx: "tx (map_option ss_payload (load st)) = Inr (r, nxt)" and met: "met = f st"
    and sv: "save \<lparr>ss_version = stored_version (load st) + 1, ss_payload = nxt\<rparr> met = Inr st'"
    by (auto simp: attempt_def Let_def split: sum.splits)
  from save_next [OF sv] have "stored_version (load met) = stored_version (load st)" by simp
  with assms(2) met have "load met = load st" by (simp add: fair_writer_def)
  with tx save_stored [OF sv] show ?thesis by simp
qed

lemma loop_applied:
  assumes "serial_loop load save tx others n st = (Inr r, met, st')" "\<forall>i. fair_writer load (others i)"
  shows "\<exists>nxt. tx (map_option ss_payload (load met)) = Inr (r, nxt) \<and>
     load st' = Some \<lparr>ss_version = stored_version (load met) + 1, ss_payload = nxt\<rparr>"
  using assms(1)
proof (induction n arbitrary: st)
  case 0
  then have a: "attempt load save tx (others 0) st = (Inr r, met, st')"
    by (subst (asm) serial_loop.simps) (auto split: prod.splits sum.splits if_splits)
  show ?case by (rule attempt_applied [OF a]) (use assms(2) in blast)
next
  case (Suc n)
  then consider "attempt load save tx (others (Suc n)) st = (Inr r, met, st')"
    | st1 where "serial_loop load save tx others n st1 = (Inr r, met, st')"
    by (subst (asm) serial_loop.simps) (auto split: prod.splits sum.splits if_splits)
  then show ?case
  proof cases
    case 1
    then show ?thesis by (rule attempt_applied) (use assms(2) in blast)
  next
    case (2 st1)
    then show ?thesis by (rule Suc.IH)
  qed
qed

lemma loop_quiet:
  assumes "tx (map_option ss_payload (load st)) = Inr (r, nxt)" "others n st = st"
  shows "\<exists>st'. serial_loop load save tx others n st = (Inr r, st, st')"
proof -
  obtain st' where "save \<lparr>ss_version = stored_version (load st) + 1, ss_payload = nxt\<rparr> st = Inr st'"
    using save_accepts by fastforce
  with assms have "attempt load save tx (others n) st = (Inr r, st, st')" by (simp add: attempt_def)
  then show ?thesis by (subst serial_loop.simps) simp
qed

lemma loop_throws:
  assumes "tx (map_option ss_payload (load st)) = Inl e" "e \<noteq> Store_conflict"
  shows "serial_loop load save tx others n st = (Inl e, others n st, others n st)"
  using assms by (subst serial_loop.simps) (simp add: attempt_def Let_def)

end

interpretation memory: durable_store memory_load memory_save
  by unfold_locales
    (auto simp: memory_load_def memory_save_def stored_version_def Let_def split: if_splits)

text \<open>C10: No update is lost: whatever other writers do to the store between the load and the save of each
  attempt, a transaction that returns was computed from exactly the state that its save
  replaced, and its result is what the store holds under the next version.\<close>

theorem serial_no_lost_update:
  assumes "serial memory_load memory_save mutate others st = (Inr r, met, st')"
    and "\<forall>i. fair_writer memory_load (others i)"
  shows "\<exists>nxt. transaction mutate (map_option ss_payload met) = Inr (r, nxt) \<and>
     st' = Some \<lparr>ss_version = stored_version met + 1, ss_payload = nxt\<rparr>"
  using memory.loop_applied [OF assms(1) [unfolded serial_def] assms(2)]
  by (simp add: memory_load_def)

text \<open>C11: A request that is rejected stores nothing, and an accepted one returns at the first attempt when
  nobody interferes.\<close>

theorem serial_rejects_or_returns:
  assumes "others CAS_RETRY_LIMIT st = st"
  shows "(case transaction mutate (map_option ss_payload st) of
      Inl e \<Rightarrow> e = Store_conflict \<or>
        serial memory_load memory_save mutate others st = (Inl e, st, st)
    | Inr (r, nxt) \<Rightarrow> \<exists>st'. serial memory_load memory_save mutate others st = (Inr r, st, st'))"
proof (cases "transaction mutate (map_option ss_payload st)")
  case (Inl e)
  with assms memory.loop_throws [of "transaction mutate" st e others CAS_RETRY_LIMIT] show ?thesis
    by (cases "e = Store_conflict") (simp_all add: serial_def memory_load_def)
next
  case (Inr x)
  with assms memory.loop_quiet [of "transaction mutate" st "fst x" "snd x" others CAS_RETRY_LIMIT]
  show ?thesis by (cases x) (simp add: serial_def memory_load_def)
qed

end
