(* ===== verification/Agent_Samples.thy ===== *)
theory Agent_Samples
  imports Agent_Planes Agent_Takeover Agent_Serial
begin

text \<open>
  Concrete runs of the agent: two operations of two leaders on the http plane, and the states
  they lead to. The properties of the agent's theories are applied to them.
\<close>

section \<open>Operations\<close>

definition at_epoch :: "string \<Rightarrow> coordinate" where
  "at_epoch e = \<lparr>activationEpoch = e, membershipRevision = e\<rparr>"

definition sample_op :: "string \<Rightarrow> string \<Rightarrow> string \<Rightarrow> string \<Rightarrow> apply_operation" where
  "sample_op token name from to = \<lparr>leaderToken = token, operationId = name, transitionId = ''t'',
     affectedPlanes = [Http],
     op_planes = (\<lambda>p. if p = Http then Some \<lparr>pt_expectedCurrent = at_epoch from,
       pt_target = at_epoch to, pt_payloadDigest = ''d''\<rparr> else None),
     targetGeneration = ''g'' @ to, generationDigest = ''h'' @ to\<rparr>"

definition sample_tuple :: "string \<Rightarrow> string \<Rightarrow> string \<Rightarrow> string \<Rightarrow> operation_tuple" where
  "sample_tuple token name from to = \<lparr>leaderToken = token, operationId = name,
     transitionId = ''t'', on_plane = Http, ot_expectedCurrent = at_epoch from,
     ot_target = at_epoch to, ot_payloadDigest = ''d'', ot_targetGeneration = ''g'' @ to,
     ot_generationDigest = ''h'' @ to\<rparr>"

definition sample_evidence :: "string \<Rightarrow> activation_evidence" where
  "sample_evidence gen = \<lparr>acceptingGeneration = Some gen, configTestPassed = Some True,
     errorLogGrowth = Some 0, masterPid = None, workersReported = Some 2, workersExpected = Some 2\<rparr>"

definition sample_opening :: "apply_operation \<Rightarrow> journal_opening" where
  "sample_opening opn = \<lparr>je_op = opn, je_phase = Preflight, je_reloadAttempts = 0,
     je_progress = None, je_evidence = None, je_failure = None\<rparr>"

definition op_a :: apply_operation where "op_a = sample_op ''7'' ''a'' ''0'' ''1''"
definition op_b :: apply_operation where "op_b = sample_op ''8'' ''b'' ''0'' ''2''"
definition tuple_a :: operation_tuple where "tuple_a = sample_tuple ''7'' ''a'' ''0'' ''1''"
definition tuple_b :: operation_tuple where "tuple_b = sample_tuple ''8'' ''b'' ''0'' ''2''"

definition claim_a :: "request list" where
  "claim_a = [R_fence ''7'', R_reserveAll op_a (Some (sample_opening op_a)), R_stage tuple_a]"

section \<open>Evaluated runs\<close>

text \<open>One run to the baseline: claim, commit, finish; and one to a negative verdict: claim, abort, and
  a later leader.\<close>

definition run_to_baseline :: bool where
  "run_to_baseline \<longleftrightarrow> (case play claim_a None of
     Inl _ \<Rightarrow> False
   | Inr s \<Rightarrow> (case play [R_commit tuple_a (sample_evidence ''g1'')] (Some s) of
       Inl _ \<Rightarrow> False
     | Inr s1 \<Rightarrow> (case play [R_finishOperation op_a [Http]] (Some s1) of
         Inl _ \<Rightarrow> False
       | Inr s2 \<Rightarrow> activationEpoch (planes s1 Http) \<noteq> activationEpoch (planes s Http) \<and>
           lastActivated s1 = None \<and> lastActivated s2 \<noteq> None)))"

definition run_to_verdict :: bool where
  "run_to_verdict \<longleftrightarrow> (case play claim_a None of
     Inl _ \<Rightarrow> False
   | Inr s \<Rightarrow> terminalOf s tuple_a = Inr None \<and> (case play [R_abort tuple_a] (Some s) of
       Inl _ \<Rightarrow> False
     | Inr s1 \<Rightarrow> (case play [R_fence ''8''] (Some s1) of Inl _ \<Rightarrow> False | Inr s2 \<Rightarrow> True)))"

lemma run_to_baseline_holds: "run_to_baseline"
  by code_simp

lemma run_to_verdict_holds: "run_to_verdict"
  by code_simp

lemma history_single: "history s [r] s' \<longleftrightarrow> agent_step s r s'"
  by (auto intro: history.intros elim: history_ConsE history_NilE)

lemma baseline_run:
  obtains s s1 s2 where "reachable s" "agent_step s (R_commit tuple_a (sample_evidence ''g1'')) s1"
    "agent_step s1 (R_finishOperation op_a [Http]) s2" "planes s1 Http \<noteq> planes s Http"
    "lastActivated s1 = None" "lastActivated s2 \<noteq> None"
proof -
  obtain s s1 s2 where p: "play claim_a None = Inr s"
    "play [R_commit tuple_a (sample_evidence ''g1'')] (Some s) = Inr s1"
    "play [R_finishOperation op_a [Http]] (Some s1) = Inr s2"
    and f: "activationEpoch (planes s1 Http) \<noteq> activationEpoch (planes s Http)"
    "lastActivated s1 = None" "lastActivated s2 \<noteq> None"
    using run_to_baseline_holds unfolding run_to_baseline_def by (auto split: sum.splits simp del: play.simps)
  show thesis
  proof (rule that)
    show "reachable s" using p(1) unfolding claim_a_def by (rule play_reachable)
  qed (use p f in \<open>auto simp: play_history history_single simp del: play.simps\<close>)
qed

lemma verdict_run:
  obtains s s1 s2 where "reachable s" "terminalOf s tuple_a = Inr None"
    "agent_step s (R_abort tuple_a) s1" "history s1 [R_fence ''8''] s2"
proof -
  obtain s s1 s2 where p: "play claim_a None = Inr s" "terminalOf s tuple_a = Inr None"
    "play [R_abort tuple_a] (Some s) = Inr s1" "play [R_fence ''8''] (Some s1) = Inr s2"
    using run_to_verdict_holds unfolding run_to_verdict_def by (auto split: sum.splits simp del: play.simps)
  show thesis
  proof (rule that)
    show "reachable s" using p(1) unfolding claim_a_def by (rule play_reachable)
  qed (use p in \<open>auto simp: play_history history_single simp del: play.simps\<close>)
qed

section \<open>Witnesses\<close>

lemma negative_verdict_final_witness:
  "\<exists>s s1 s2. reachable s \<and> agent_step s (R_abort tuple_a) s1 \<and> history s1 [R_fence ''8''] s2 \<and>
     \<not> (\<exists>ev ack s3. commit tuple_a ev s2 = Inr (ack, s3) \<and>
        \<not> (ack_cached ack \<and> planes s3 = planes s2))"
proof (rule verdict_run)
  fix s s1 s2
  assume *: "reachable s" "terminalOf s tuple_a = Inr None"
    "agent_step s (R_abort tuple_a) s1" "history s1 [R_fence ''8''] s2"
  have "\<not> (\<exists>ev ack s3. commit tuple_a ev s2 = Inr (ack, s3) \<and>
        \<not> (ack_cached ack \<and> planes s3 = planes s2))"
    by (rule negative_verdict_final [OF *(1,2,3) _ *(4)]) simp
  with * show ?thesis by blast
qed

lemma history_forward_witness:
  "\<exists>s s1. history s [R_commit tuple_a (sample_evidence ''g1'')] s1 \<and> s1 \<noteq> s \<and> forward s s1"
proof (rule baseline_run)
  fix s s1 assume *: "agent_step s (R_commit tuple_a (sample_evidence ''g1'')) s1"
    "planes s1 Http \<noteq> planes s Http"
  have h: "history s [R_commit tuple_a (sample_evidence ''g1'')] s1"
    using *(1) by (simp add: history_single)
  have "s1 \<noteq> s" using *(2) by blast
  with history_forward [OF h] h show ?thesis by blast
qed

lemma plane_moves_only_with_proof_witness:
  "\<exists>s s1. let r = R_commit tuple_a (sample_evidence ''g1'') in agent_step s r s1 \<and>
     (moved_by_commit s r s1 Http \<or> moved_by_health s r s1 Http)"
proof (rule baseline_run)
  fix s s1 assume *: "agent_step s (R_commit tuple_a (sample_evidence ''g1'')) s1"
    "planes s1 Http \<noteq> planes s Http"
  from plane_moves_only_with_proof [OF *] *(1) show ?thesis unfolding Let_def by blast
qed

lemma reachable_retention_bounded_witness:
  "\<exists>s. reachable s \<and> length (activationEvidence s) \<le> 64 \<and>
     card (entry_transition ` set (completed s)) \<le> 64"
proof (rule baseline_run)
  fix s assume "reachable s"
  with reachable_retention_bounded [OF this] show ?thesis by blast
qed

lemma baseline_only_by_arrival_witness:
  "\<exists>s s' c es. agent_step s (R_finishOperation op_a [Http]) s' \<and> lastActivated s' = Some c \<and>
     pendingActivation s = Some c \<and> declared_epochs s c = Inr (Some es) \<and> stands_at s es \<and>
     (\<forall>p \<in> fst ` set es. moved_there_by s c p)"
proof (rule baseline_run)
  fix s1 s2 assume *: "agent_step s1 (R_finishOperation op_a [Http]) s2" "lastActivated s1 = None"
    "lastActivated s2 \<noteq> None"
  then have "lastActivated s2 \<noteq> lastActivated s1" by simp
  from baseline_only_by_arrival [OF *(1) this] *(1,3) show ?thesis by auto
qed

definition fenced :: "string \<Rightarrow> agent_state" where
  "fenced t = initial\<lparr>maxLeaderToken := t\<rparr>"

lemma stale_leader_rejected_witness:
  "run_request (R_commit tuple_a (sample_evidence ''g1'')) (fenced ''8'') = Inl (reject Stale_leader) \<and>
   run_request (R_reserveAll op_a None) (fenced ''8'') = Inl (reject Stale_leader) \<and>
   run_request (R_reclaimOperation op_a) (fenced ''8'') = Inl (reject Stale_leader)"
proof -
  have d: "all_digits ''7''" by (simp add: all_digits_def is_digit_def)
  have "BigInt ''7'' = Inr 7" "BigInt ''8'' = Inr 8" by code_simp+
  then have l: "lower_token ''7'' (maxLeaderToken (fenced ''8''))" by (simp add: lower_token_def fenced_def)
  note stale = stale_leader_rejected [OF d l]
  have "presented_token (R_commit tuple_a (sample_evidence ''g1'')) = Some ''7''"
    by (simp add: tuple_a_def sample_tuple_def)
  moreover have "mapE (tupleFor op_a) (planesOf op_a) = Inr [tuple_a]" by code_simp
  moreover have "leaderToken op_a = ''7''" "activeOperation (fenced ''8'') = None"
    by (simp_all add: op_a_def sample_op_def fenced_def initial_def)
  ultimately show ?thesis
    using stale [of "R_commit tuple_a (sample_evidence ''g1'')"] stale [of "R_reserveAll op_a None"]
      stale [of "R_reclaimOperation op_a"] by auto
qed

definition with_slot_b :: agent_state where
  "with_slot_b = put_slot Http ''2'' \<lparr>slot_op = tuple_b, slot_stagedDigest = None\<rparr> (fenced ''7'')"

lemma reserve_beside: "\<not> isl (run_request (R_reserve tuple_a) with_slot_b)"
  by code_simp

lemma canonical_differ: "canonical tuple_b \<noteq> canonical tuple_a"
  by (simp add: canonical_def tuple_a_def tuple_b_def sample_tuple_def at_epoch_def plane_name_def)

lemma foreign_slot_untouched_witness:
  "\<exists>s'. run_request (R_reserve tuple_a) with_slot_b = Inr s' \<and>
     slot_at s' Http ''2'' = Some \<lparr>slot_op = tuple_b, slot_stagedDigest = None\<rparr>"
proof -
  obtain s' where s': "run_request (R_reserve tuple_a) with_slot_b = Inr s'"
    using reserve_beside by (cases "run_request (R_reserve tuple_a) with_slot_b") auto
  have "slot_at s' Http ''2'' = Some \<lparr>slot_op = tuple_b, slot_stagedDigest = None\<rparr>"
    by (rule foreign_slot_untouched [OF s', of tuple_a]) (simp_all add: with_slot_b_def canonical_differ)
  with s' show ?thesis by blast
qed

lemma reserve_fresh: "\<not> isl (protocol_step Step_reserve tuple_a (sample_evidence ''g1'') (fenced ''7''))"
  by code_simp

lemma replay_idempotent_witness:
  "\<exists>ack s'. protocol_step Step_reserve tuple_a (sample_evidence ''g1'') (fenced ''7'') = Inr (ack, s') \<and>
     protocol_step Step_reserve tuple_a (sample_evidence ''g2'') s' = Inr (ack\<lparr>ack_cached := True\<rparr>, s')"
proof -
  obtain ack s' where "protocol_step Step_reserve tuple_a (sample_evidence ''g1'') (fenced ''7'') = Inr (ack, s')"
    using reserve_fresh
    by (cases "protocol_step Step_reserve tuple_a (sample_evidence ''g1'') (fenced ''7'')") auto
  with replay_idempotent [OF this] show ?thesis by blast
qed

definition holder_a :: active_operation where
  "holder_a = \<lparr>leaderToken = ''7'', operationId = ''a'', transitionId = ''t'',
     ao_planes = [Http], ao_epochs = [(Http, ''1'')]\<rparr>"

definition held_by_a :: agent_state where
  "held_by_a = (put_slot Http ''1'' \<lparr>slot_op = tuple_a, slot_stagedDigest = None\<rparr> (fenced ''7''))
     \<lparr>activeOperation := Some holder_a\<rparr>"

lemma fence_over_a: "\<not> isl (fence ''8'' held_by_a)"
  by code_simp

lemma fence_evicts_witness:
  "\<exists>m s'. fence ''8'' held_by_a = Inr (m, s') \<and> evicted holder_a s' \<and> activeOperation s' = None \<and>
     declared_slot holder_a held_by_a Http ''1'' \<and> slot_at s' Http ''1'' = None \<and>
     planes s' = planes held_by_a \<and> maxLeaderToken s' = m \<and> BigInt m = BigInt ''8''"
proof -
  obtain m s' where f: "fence ''8'' held_by_a = Inr (m, s')"
    using fence_over_a by (cases "fence ''8'' held_by_a") auto
  have "BigInt ''7'' = Inr 7" "BigInt ''8'' = Inr 8" by code_simp+
  then have "lower_token (leaderToken holder_a) ''8''" by (simp add: lower_token_def holder_a_def)
  moreover have "declared_slot holder_a held_by_a Http ''1''" by code_simp
  ultimately show ?thesis using fence_evicts [OF f, of holder_a] f by (simp add: held_by_a_def)
qed

lemma reserveAll_fresh:
  "\<not> isl (reserveAll op_a (Some (sample_opening op_a)) (fenced ''7''))"
  by code_simp

lemma reserveAll_claims_everything_witness:
  "\<exists>acks s'. reserveAll op_a (Some (sample_opening op_a)) (fenced ''7'') = Inr (acks, s') \<and>
    (\<exists>h. activeOperation s' = Some h \<and> sameTransitionName h op_a \<and> ao_planes h = planesOf op_a) \<and>
    ownsJournal (journal s') op_a = Inr True \<and>
    list_all2 (\<lambda>p ack. \<exists>t. tupleFor op_a p = Inr t \<and> (ack_cached ack \<or> ownsSlot s' t))
      (planesOf op_a) acks"
proof -
  obtain acks s' where r: "reserveAll op_a (Some (sample_opening op_a)) (fenced ''7'') = Inr (acks, s')"
    using reserveAll_fresh by (cases "reserveAll op_a (Some (sample_opening op_a)) (fenced ''7'')") auto
  have o: "je_op (sample_opening op_a) = op_a" by (simp add: sample_opening_def)
  from reserveAll_claims_everything [OF r] r o show ?thesis by auto
qed

lemma first_fence: "\<not> isl (transaction (fence ''7'') None)"
  by code_simp

lemma serial_fence:
  obtains m nxt st' where "transaction (fence ''7'') None = Inr (m, nxt)"
    "serial memory_load memory_save (fence ''7'') (\<lambda>_ st. st) None = (Inr m, None, st')"
proof -
  obtain m nxt where t: "transaction (fence ''7'') None = Inr (m, nxt)"
    using first_fence by (cases "transaction (fence ''7'') None") auto
  have "\<exists>st'. serial memory_load memory_save (fence ''7'') (\<lambda>_ st. st) None = (Inr m, None, st')"
    unfolding serial_def
    by (rule memory.loop_quiet) (simp_all add: memory_load_def t)
  with t that show thesis by blast
qed

lemma serial_no_lost_update_witness:
  "\<exists>r st'. serial memory_load memory_save (fence ''7'') (\<lambda>_ st. st) None = (Inr r, None, st') \<and>
     (\<exists>nxt. transaction (fence ''7'') (map_option ss_payload (None :: agent_state memory_store)) = Inr (r, nxt) \<and>
        st' = Some \<lparr>ss_version = stored_version (None :: agent_state memory_store) + 1, ss_payload = nxt\<rparr>)"
proof (rule serial_fence)
  fix m nxt st'
  assume s: "serial memory_load memory_save (fence ''7'') (\<lambda>_ st. st) None = (Inr m, None, st')"
  have "\<forall>i::nat. fair_writer memory_load (\<lambda>st :: agent_state memory_store. st)"
    by (simp add: fair_writer_def)
  from serial_no_lost_update [OF s this] s show ?thesis by blast
qed

lemma serial_rejects_or_returns_witness:
  "\<exists>m st'. serial memory_load memory_save (fence ''7'') (\<lambda>_ st. st) None = (Inr m, None, st')"
proof (rule serial_fence)
  fix m nxt assume t: "transaction (fence ''7'') None = Inr (m, nxt)"
  from serial_rejects_or_returns [of "\<lambda>_ st. st" None "fence ''7''"] t show ?thesis by auto
qed

end
