(* ===== verification/Apply_Samples.thy ===== *)
theory Apply_Samples
  imports Apply_Refines Agent_Samples
begin

text \<open>
  A small world in which the runner's properties are applied: it publishes what it is told, serves
  what is published once a reload is signalled, and counts the signals.
\<close>

record toy_world =
  tw_published :: "publish_record option"
  tw_serving :: "string option"
  tw_signals :: nat

definition toy_publish :: "publish_record \<Rightarrow> lease \<Rightarrow> (toy_world, unit) effect" where
  "toy_publish r l y = (Returned (), (fst y, (snd y)\<lparr>tw_published := Some r\<rparr>))"

definition toy_reload :: "lease \<Rightarrow> (toy_world, unit) effect" where
  "toy_reload l y = (Returned (), (fst y, (snd y)\<lparr>tw_signals := tw_signals (snd y) + 1,
     tw_serving := map_option pr_generation (tw_published (snd y))\<rparr>))"

definition toy_evidence :: "string option \<Rightarrow> activation_evidence" where
  "toy_evidence g = \<lparr>acceptingGeneration = g, configTestPassed = Some True, errorLogGrowth = Some 0,
     masterPid = Some ''1'', workersReported = None, workersExpected = None\<rparr>"

definition toy_env :: "toy_world environment" where
  "toy_env = \<lparr>env_turn = (\<lambda>y. (False, y)),
     env_preflight = (\<lambda>opn y. (Returned \<lparr>pf_ok = True, pf_reason = None, pf_configTestPassed = Some True,
       pf_configTestErrored = None\<rparr>, y)),
     env_publish = toy_publish,
     env_observePublished = (\<lambda>y. (Returned (case tw_published (snd y) of
         None \<Rightarrow> Published_none | Some r \<Rightarrow> Published_owned r), y)),
     env_signalReload = toy_reload,
     env_observeActivation = (\<lambda>y. (Returned (Some (toy_evidence (tw_serving (snd y)))), y)),
     env_stageMembership = None,
     env_attempts = 1\<rparr>"

definition toy_op :: apply_operation where
  "toy_op = \<lparr>leaderToken = ''1'', operationId = ''op'', transitionId = ''t'',
     affectedPlanes = [Stream, Http],
     op_planes = (\<lambda>p. Some \<lparr>pt_expectedCurrent = at_epoch ''0'', pt_target = at_epoch ''1'',
       pt_payloadDigest = ''d''\<rparr>),
     targetGeneration = ''g1'', generationDigest = ''h1''\<rparr>"

definition toy_start :: toy_world where
  "toy_start = \<lparr>tw_published = None, tw_serving = Some ''g0'', tw_signals = 0\<rparr>"

lemma toy_undisturbed: "undisturbed tw_signals toy_env"
  by (simp add: undisturbed_def toy_env_def same_sys_def toy_publish_def toy_reload_def)

lemma toy_respect: "others_respect served toy_env"
  by (simp add: others_respect_def toy_env_def toy_publish_def toy_reload_def served.refl)

lemma reload_signals_bounded_witness:
  "undisturbed tw_signals toy_env \<and>
   tw_signals (snd (snd (run toy_env toy_op (None, toy_start)))) \<le> 2"
  using toy_undisturbed reload_signals_bounded [OF toy_undisturbed, of toy_op "(None, toy_start)"]
  by (simp add: toy_start_def RELOAD_ATTEMPT_LIMIT_def)

lemma run_refines_agent_witness:
  "\<exists>s' rs. fst (snd (run toy_env toy_op (Some initial, toy_start))) = Some s' \<and> history initial rs s'"
  using run_refines_agent [OF toy_respect, of toy_op initial toy_start
      "fst (run toy_env toy_op (Some initial, toy_start))"
      "fst (snd (run toy_env toy_op (Some initial, toy_start)))"
      "snd (snd (run toy_env toy_op (Some initial, toy_start)))"]
  by simp

text \<open>A whole run, from an empty store to the activation of the generation on both planes.\<close>

definition toy_run_activates :: bool where
  "toy_run_activates = (case run toy_env toy_op (None, toy_start) of
     (Inr x, y) \<Rightarrow> ar_phase x = Activated | _ \<Rightarrow> False)"

lemma toy_run: "toy_run_activates"
  by code_simp

lemma run_ends_and_releases_witness:
  "\<exists>res st w. run toy_env toy_op (None, toy_start) = (Inr res, (st, w)) \<and> ar_phase res = Activated \<and>
     isTerminalPhase (ar_phase res) \<and> \<not> holding (activeOperation (stored st)) toy_op"
proof -
  obtain res st w where r: "run toy_env toy_op (None, toy_start) = (Inr res, (st, w))"
    and a: "ar_phase res = Activated"
    using toy_run unfolding toy_run_activates_def
    by (cases "run toy_env toy_op (None, toy_start)") (auto split: sum.splits)
  show ?thesis using r a run_ends_and_releases [OF toy_undisturbed r] by blast
qed

end
