(* ===== verification/Driver.thy ===== *)
theory Driver
  imports Apply_Samples
begin

text \<open>
  The data-plane driver, \<^verbatim>\<open>src/src/dp/driver.ts\<close>: what the control plane calls on a node. It owns an
  agent and the effects; it applies and recovers operations through the runner, aborts them,
  pushes membership, and reconciles what is published and served with the last activation.

  Time is part of the world: a budget of the reconciliation that has passed, for one effect or for
  all of them, is the outcome \<open>Overdue\<close> of an effect.
\<close>

section \<open>What is not finished\<close>

definition unfinishedIn :: "agent_state \<Rightarrow> publish_record option" where
  "unfinishedIn s =
     (case pendingActivation s of
        Some c \<Rightarrow> Some c
      | None \<Rightarrow> (case journal s of
            None \<Rightarrow> None
          | Some j \<Rightarrow> if isTerminalPhase (je_phase j) then None else Some (recordOf (je_op j))))"

datatype settle_check = Settled | Not_finished publish_record | Moved

text \<open>\<open>#settled\<close>: asked of one snapshot, it cannot be interrupted.\<close>

definition settled_at :: "publish_record \<Rightarrow> agent_state \<Rightarrow> settle_check" where
  "settled_at expected s =
     (case unfinishedIn s of
        Some pending \<Rightarrow> Not_finished pending
      | None \<Rightarrow> (case lastActivated s of
            None \<Rightarrow> Moved
          | Some r \<Rightarrow> if \<not> sameRecordIdentity r expected then Moved else Settled))"

datatype reconcile_result =
    No_baseline
  | Dirty publish_record published_state
  | Unfinished publish_record published_state
  | Converged publish_record
  | Repaired publish_record published_state
  | Diverged publish_record published_state

section \<open>Reconciliation\<close>

definition budgeted :: "('w, 'a) effect \<Rightarrow> ('w, 'a) act" where
  "budgeted eff y =
     (case eff y of
        (Returned x, y') \<Rightarrow> (Inr x, y')
      | (Refused e, y') \<Rightarrow> (Inl (Agent_error e), y')
      | (Threw, y') \<Rightarrow> (Inl Effect_error, y')
      | (Overdue, y') \<Rightarrow> (Inl (Agent_error (reject Stale_state)), y'))"

definition observed :: "'w environment \<Rightarrow> ('w, published_state) act" where
  "observed env = budgeted (env_observePublished env)"

definition settled_now :: "publish_record \<Rightarrow> ('w, settle_check) act" where
  "settled_now expected = ask (\<lambda>s. Inr (settled_at expected s))"

definition driver_lease :: "publish_record \<Rightarrow> lease" where
  "driver_lease expected = \<lparr>lease_leaderToken = leaderToken expected,
     lease_assertValid = (\<lambda>st.
       bindE (big_rel (<) (leaderToken expected) (maxLeaderToken (stored st))) (\<lambda>lower.
       if lower then Inl (reject Stale_leader)
       else if settled_at expected (stored st) \<noteq> Settled then Inl (reject Stale_leader)
       else Inr ()))\<rparr>"

definition points_at :: "published_state \<Rightarrow> publish_record \<Rightarrow> bool" where
  "points_at saw expected =
     (case saw of Published_owned r \<Rightarrow> sameRecordIdentity r expected | _ \<Rightarrow> False)"

text \<open>The steps after a settled check; \<open>None\<close> takes another round.\<close>

definition unless_unfinished ::
    "publish_record \<Rightarrow> published_state \<Rightarrow> (settle_check \<Rightarrow> ('w, reconcile_result option) act) \<Rightarrow> ('w, reconcile_result option) act" where
  "unless_unfinished expected found f =
     bindA (settled_now expected) (\<lambda>check.
     case check of Not_finished pending \<Rightarrow> returnA (Some (Unfinished pending found)) | _ \<Rightarrow> f check)"

definition verify_repair :: "'w environment \<Rightarrow> publish_record \<Rightarrow> published_state \<Rightarrow> ('w, reconcile_result option) act" where
  "verify_repair env expected saw =
     bindA (observed env) (\<lambda>afterPublish.
     bindA (budgeted (env_observeActivation env)) (\<lambda>afterActive.
     let ok = points_at afterPublish expected \<and> provesActivation afterActive (pr_generation expected) in
     unless_unfinished expected afterPublish (\<lambda>after.
     returnA (Some (if ok \<and> after = Settled then Repaired expected saw else Diverged expected afterPublish)))))"

definition repair :: "'w environment \<Rightarrow> publish_record \<Rightarrow> published_state \<Rightarrow> bool \<Rightarrow> ('w, reconcile_result option) act" where
  "repair env expected saw pointerOk =
     unless_unfinished expected saw (\<lambda>before.
     if before \<noteq> Settled then returnA None
     else
       bindA (if pointerOk then returnA () else budgeted (env_publish env expected (driver_lease expected))) (\<lambda>_.
       bindA (budgeted (env_signalReload env (driver_lease expected))) (\<lambda>_.
       unless_unfinished expected saw (\<lambda>midway.
       if midway \<noteq> Settled then returnA None
       else verify_repair env expected saw))))"

definition reconcile_round :: "'w environment \<Rightarrow> ('w, reconcile_result option) act" where
  "reconcile_round env =
     bindA (ask (\<lambda>s. Inr (unfinishedIn s))) (\<lambda>unfinished.
     case unfinished of
       Some pending \<Rightarrow> bindA (observed env) (\<lambda>found. returnA (Some (Unfinished pending found)))
     | None \<Rightarrow>
         bindA (ask (\<lambda>s. Inr (lastActivated s))) (\<lambda>base.
         case base of
           None \<Rightarrow>
             bindA (ask (\<lambda>s. Inr (lastPublishIntent s))) (\<lambda>intent.
             case intent of
               None \<Rightarrow> returnA (Some No_baseline)
             | Some i \<Rightarrow> bindA (observed env) (\<lambda>found. returnA (Some (Dirty i found))))
         | Some expected \<Rightarrow>
             bindA (observed env) (\<lambda>saw.
             bindA (budgeted (env_observeActivation env)) (\<lambda>activation.
             let pointerOk = points_at saw expected;
                 activeOk = provesActivation activation (pr_generation expected) in
             if pointerOk \<and> activeOk then
               unless_unfinished expected saw (\<lambda>check.
               returnA (if check = Settled then Some (Converged expected) else None))
             else
               bindA (ask (\<lambda>s. big_rel (<) (leaderToken expected) (maxLeaderToken s))) (\<lambda>older.
               if older then returnA (Some (Diverged expected saw))
               else repair env expected saw pointerOk)))))"

text \<open>After the last round: one look, without touching anything.\<close>

definition last_look :: "'w environment \<Rightarrow> ('w, reconcile_result) act" where
  "last_look env =
     bindA (ask (\<lambda>s. Inr (lastActivated s))) (\<lambda>now.
     case now of
       None \<Rightarrow> returnA No_baseline
     | Some r \<Rightarrow>
         bindA (observed env) (\<lambda>found.
         bindA (budgeted (env_observeActivation env)) (\<lambda>activation.
         let ok = points_at found r \<and> provesActivation activation (pr_generation r) in
         bindA (settled_now r) (\<lambda>tail.
         returnA (case tail of
             Not_finished pending \<Rightarrow> Unfinished pending found
           | _ \<Rightarrow> if ok \<and> tail = Settled then Converged r else Diverged r found)))))"

fun reconcile_rounds :: "'w environment \<Rightarrow> nat \<Rightarrow> ('w, reconcile_result) act" where
  "reconcile_rounds env 0 = last_look env"
| "reconcile_rounds env (Suc rounds) =
     bindA (reconcile_round env) (\<lambda>res.
     case res of Some r \<Rightarrow> returnA r | None \<Rightarrow> reconcile_rounds env rounds)"

definition reconcileConfig :: "'w environment \<Rightarrow> ('w, reconcile_result) act" where
  "reconcileConfig env = reconcile_rounds env 3"

section \<open>The other calls\<close>

text \<open>What a peer of a pool may carry besides its slots; \<open>None\<close> is an absent property.\<close>

record peer_attr =
  at_softMaxConns :: "int option"
  at_isBackup :: "bool option"

type_synonym attrs = "(string, (string, peer_attr) dict) dict"

type_synonym 'w push =
  "plane \<Rightarrow> string \<Rightarrow> (string, string list) dict \<Rightarrow> attrs option \<Rightarrow> ('w, unit) effect"

definition driver_fence :: "'w environment \<Rightarrow> string \<Rightarrow> ('w, string) act" where
  "driver_fence env token = agent_tx env (fence token)"

definition applyConfig :: "'w environment \<Rightarrow> apply_operation \<Rightarrow> ('w, apply_result) act" where
  "applyConfig env opn = run env opn"

definition recoverConfig :: "'w environment \<Rightarrow> ('w, apply_result) act" where
  "recoverConfig env = recover env"

text \<open>An effect awaited without a budget; \<open>Overdue\<close> does not occur.\<close>

definition awaited :: "('w, 'a) effect \<Rightarrow> ('w, 'a) act" where
  "awaited eff y =
     (case eff y of
        (Returned x, y') \<Rightarrow> (Inr x, y')
      | (Refused e, y') \<Rightarrow> (Inl (Agent_error e), y')
      | (_, y') \<Rightarrow> (Inl Effect_error, y'))"

definition applyMembership :: "'w environment \<Rightarrow> 'w push option \<Rightarrow> apply_operation \<Rightarrow> plane \<Rightarrow>
    (string, string list) dict \<Rightarrow> ('w, plane_ack) act" where
  "applyMembership env pushMembership opn plane slots =
     (case op_planes opn plane of
        None \<Rightarrow> throwA (Agent_error (reject Envelope_mismatch))
      | Some target \<Rightarrow>
          (case pushMembership of
             None \<Rightarrow> throwA Effect_error
           | Some push \<Rightarrow>
               bindA (ask (\<lambda>_. tupleFor opn plane)) (\<lambda>t.
               bindA (agent_tx env (applyHealth t)) (\<lambda>ack.
               bindA (awaited (push plane (activationEpoch (pt_target target)) slots None)) (\<lambda>_.
               returnA ack)))))"

definition pushMembershipDirect :: "'w push option \<Rightarrow> plane \<Rightarrow> string \<Rightarrow> (string, string list) dict \<Rightarrow>
    attrs option \<Rightarrow> ('w, unit) act" where
  "pushMembershipDirect pushMembership plane epoch slots attrs =
     (case pushMembership of None \<Rightarrow> throwA Effect_error | Some push \<Rightarrow> awaited (push plane epoch slots attrs))"

definition abort_plane :: "'w environment \<Rightarrow> apply_operation \<Rightarrow> plane \<Rightarrow> plane list \<Rightarrow> ('w, plane list) act" where
  "abort_plane env opn plane refused =
     catchA (bindA (ask (\<lambda>_. tupleFor opn plane)) (\<lambda>t.
             bindA (agent_tx env (abort t)) (\<lambda>_. returnA refused)))
       (\<lambda>e. if is_rejection e then returnA (refused @ [plane]) else throwA e)"

text \<open>Without a journal the phase handed to \<open>closeJournal\<close> does not matter, as nothing is written.\<close>

definition abortConfig :: "'w environment \<Rightarrow> apply_operation \<Rightarrow> ('w, unit) act" where
  "abortConfig env opn =
     bindA (foldA (abort_plane env opn) (planesOf opn) []) (\<lambda>refused.
     bindA (agent_tx env (releaseHolderSlots opn)) (\<lambda>_.
     bindA (agent_tx env (finishOperation opn (planesOf opn))) (\<lambda>_.
     bindA reached (\<lambda>phase.
     bindA (agent_tx env (closeJournal opn phase)) (\<lambda>_.
     if refused \<noteq> [] then throwA (Agent_error (reject Terminal_reached)) else returnA ())))))"

record driver_status =
  ds_maxLeaderToken :: string
  ds_planes :: "plane \<Rightarrow> plane_state"
  ds_published :: published_state
  ds_lastEvidence :: "activation_evidence option"
  ds_unfinished :: "publish_record option"

definition status :: "'w environment \<Rightarrow> ('w, driver_status) act" where
  "status env =
     bindA (ask (\<lambda>s. Inr (Option.bind (journal s) je_evidence, maxLeaderToken s, planes s))) (\<lambda>(ev, token, at_planes).
     bindA (awaited (env_observePublished env)) (\<lambda>published.
     bindA (ask (\<lambda>s. Inr (unfinishedIn s))) (\<lambda>unfinished.
     returnA \<lparr>ds_maxLeaderToken = token, ds_planes = at_planes, ds_published = published,
       ds_lastEvidence = ev, ds_unfinished = unfinished\<rparr>)))"

section \<open>A verdict of the reconciliation\<close>

text \<open>What stands behind a good verdict: the record was seen published, then seen serving, and then, at
  the very state the verdict is given in, it is the last activation with nothing unfinished.\<close>

definition verified :: "'w environment \<Rightarrow> publish_record \<Rightarrow> 'w sys \<Rightarrow> bool" where
  "verified env expected y' \<longleftrightarrow> settled_at expected (stored (fst y')) = Settled \<and>
     (\<exists>y saw y1 ev. env_observePublished env y = (Returned (Published_owned saw), y1) \<and>
        sameRecordIdentity saw expected \<and> env_observeActivation env y1 = (Returned ev, y') \<and>
        provesActivation ev (pr_generation expected))"

definition good_verdict :: "'w environment \<Rightarrow> reconcile_result \<Rightarrow> 'w sys \<Rightarrow> bool" where
  "good_verdict env res y' =
     (case res of Converged r \<Rightarrow> verified env r y' | Repaired r found \<Rightarrow> verified env r y' | _ \<Rightarrow> True)"

lemma budgeted_Inr: "budgeted eff y = (Inr x, y') \<longleftrightarrow> eff y = (Returned x, y')"
  by (auto simp: budgeted_def split: prod.splits outcome.splits)

lemma ask_Inr: "ask f y = (Inr x, y') \<longleftrightarrow> f (stored (fst y)) = Inr x \<and> y' = y"
  by (auto simp: ask_def split: sum.splits)

lemma bindA_Inr: "bindA m f y = (Inr x, y') \<longleftrightarrow> (\<exists>v y1. m y = (Inr v, y1) \<and> f v y1 = (Inr x, y'))"
  by (auto simp: bindA_def split: prod.splits sum.splits)

lemma returnA_Inr: "returnA v y = (Inr x, y') \<longleftrightarrow> x = v \<and> y' = y"
  by (auto simp: returnA_def)

lemmas act_Inr = bindA_Inr returnA_Inr ask_Inr budgeted_Inr

lemma points_at_iff: "points_at saw r \<longleftrightarrow> (\<exists>x. saw = Published_owned x \<and> sameRecordIdentity x r)"
  by (cases saw) (simp_all add: points_at_def)

lemma unless_unfinished_Inr:
  "unless_unfinished expected found f y = (Inr x, y') \<longleftrightarrow>
     (\<exists>pending. settled_at expected (stored (fst y)) = Not_finished pending \<and> x = Some (Unfinished pending found) \<and> y' = y)
     \<or> settled_at expected (stored (fst y)) = Settled \<and> f Settled y = (Inr x, y')
     \<or> settled_at expected (stored (fst y)) = Moved \<and> f Moved y = (Inr x, y')"
  by (cases "settled_at expected (stored (fst y))") (auto simp: unless_unfinished_def settled_now_def act_Inr)

lemma verifiedI:
  assumes "env_observePublished env y = (Returned saw, y1)" "env_observeActivation env y1 = (Returned ev, (st, w))"
    "points_at saw expected" "provesActivation ev (pr_generation expected)" "settled_at expected (stored st) = Settled"
  shows "verified env expected (st, w)"
proof -
  obtain x where "saw = Published_owned x" "sameRecordIdentity x expected" using assms(3) by (auto simp: points_at_iff)
  then show ?thesis using assms unfolding verified_def fst_conv by blast
qed

lemma good_verdict_simps [simp]:
  "good_verdict env (Converged r) y' = verified env r y'"
  "good_verdict env (Repaired r found) y' = verified env r y'"
  "good_verdict env (Unfinished r found) y'" "good_verdict env (Diverged r found) y'"
  "good_verdict env (Dirty r found) y'" "good_verdict env No_baseline y'"
  by (simp_all add: good_verdict_def)

lemma verify_repair_good:
  assumes "verify_repair env expected saw y = (Inr (Some res), y')"
  shows "good_verdict env res y'"
  using assms unfolding verify_repair_def observed_def act_Inr unless_unfinished_Inr Let_def
  by (auto simp: act_Inr intro: verifiedI)

lemma repair_good:
  assumes "repair env expected saw ok y = (Inr (Some res), y')"
  shows "good_verdict env res y'"
  using assms unfolding repair_def act_Inr unless_unfinished_Inr
  by (auto simp: act_Inr unless_unfinished_Inr dest!: verify_repair_good)

lemma round_good:
  assumes "reconcile_round env y = (Inr (Some res), y')"
  shows "good_verdict env res y'"
  using assms unfolding reconcile_round_def observed_def
  by (auto simp: act_Inr unless_unfinished_Inr Let_def intro: verifiedI
      dest: repair_good split: option.splits if_splits)

lemma last_look_good:
  assumes "last_look env y = (Inr res, y')"
  shows "good_verdict env res y'"
  using assms unfolding last_look_def observed_def settled_now_def
  by (auto simp: act_Inr Let_def intro: verifiedI split: option.splits if_splits settle_check.splits)

lemma rounds_good:
  assumes "reconcile_rounds env n y = (Inr res, y')"
  shows "good_verdict env res y'"
  using assms
proof (induction n arbitrary: y)
  case 0
  then show ?case by (simp add: last_look_good)
next
  case (Suc n)
  then show ?case by (auto simp: act_Inr dest: round_good split: option.splits)
qed

section \<open>What an abort leaves behind\<close>

text \<open>Nobody else writes to the agent's store between the calls of the driver.\<close>

definition alone :: "'w environment \<Rightarrow> bool" where
  "alone env \<longleftrightarrow> (\<forall>y. fst (snd (env_turn env y)) = fst y)"

lemma alone_tx_Inr:
  assumes "alone env" "agent_tx env act y = (Inr x, y')"
  shows "\<exists>s w. transaction act (fst y) = Inr (x, s) \<and> y' = (Some s, w)"
  using assms(2)
proof (cases rule: agent_tx_cases)
  case (1 st w x' s)
  then have "st = fst y" using assms(1) unfolding alone_def by (metis fst_conv)
  then show ?thesis using 1 by simp
qed simp

lemma tx_calm:
  assumes "agent_tx env act y = (Inl e, y')" "\<And>s. calm (act s)"
  shows "e \<noteq> Agent_error (reject Terminal_reached)"
  using assms(1)
proof (cases rule: agent_tx_cases)
  case (2 er)
  have "calm (transaction act (fst y'))"
    unfolding transaction_def
    by (intro calm_bind) (auto simp: assms(2) calm_prune calm_invariants intro!: calm_bind split: prod.split)
  then show ?thesis using 2 by (auto simp: calm_def)
qed simp

lemma calm_tupleFor [simp]: "calm (tupleFor opn p)"
  by (auto simp: tupleFor_def normalizeCoordinate_def intro!: calm_bind split: option.split)

lemma calm_finalize [simp]: "calm (finalizeCandidate ids s)"
  by (auto simp: finalizeCandidate_def Let_def intro!: calm_bind split: option.split)

lemma calm_drop_owned [simp]: "calm (drop_owned_slot who eps p s)"
  by (auto simp: drop_owned_slot_def ownsSlotOp_def intro!: calm_bind split: option.split)

lemma calm_letting_go:
  "calm (releaseHolderSlots opn s)" "calm (finishOperation opn ps s)" "calm (closeJournal opn how s)"
  "calm (reachedPhase s)"
proof -
  show "calm (releaseHolderSlots opn s)" unfolding releaseHolderSlots_def
    by (auto intro!: calm_bind calm_foldE split: option.split)
  show "calm (finishOperation opn ps s)" unfolding finishOperation_def
    by (auto intro!: calm_bind calm_foldE split: option.split)
  show "calm (closeJournal opn how s)" unfolding closeJournal_def
    by (auto intro!: calm_bind split: option.split)
  show "calm (reachedPhase s)" unfolding reachedPhase_def movedByMe_def Let_def
    by (auto intro!: calm_bind calm_mapE split: option.split)
qed

definition let_go :: "apply_operation \<Rightarrow> agent_state \<Rightarrow> bool" where
  "let_go opn s \<longleftrightarrow> \<not> holding (activeOperation s) opn \<and>
     (\<forall>c. pendingActivation s = Some c \<longrightarrow> \<not> sameTransitionName c opn) \<and>
     (\<forall>p \<in> set (planesOf opn). \<forall>t. tupleFor opn p = Inr t \<longrightarrow> \<not> ownsSlot s t)"

lemma let_go_cong:
  assumes "activeOperation s' = activeOperation s" "pendingActivation s' = pendingActivation s"
    "reservations s' = reservations s"
  shows "let_go opn s' = let_go opn s"
  using slot_at_cong [OF assms(3)] assms by (simp add: let_go_def ownsSlot_def)

lemma transaction_same_core:
  assumes "transaction act st = Inr (r, s')"
  shows "\<exists>nxt. act (stored st) = Inr (r, nxt) \<and> same_core nxt s'"
  using assms prune_same_core by (fastforce simp: transaction_def stored_def errE)

lemma drop_own_slots:
  assumes "foldE (\<lambda>plane s. bindE (tupleFor opn plane) (\<lambda>t.
         Inr (if ownsSlot s t then drop_slot plane (target_epoch t) s else s))) ps s = Inr s'"
  shows "pendingActivation s' = pendingActivation s \<and> (\<forall>t. ownsSlot s' t \<longrightarrow> ownsSlot s t) \<and>
    (\<forall>p \<in> set ps. \<forall>t. tupleFor opn p = Inr t \<longrightarrow> \<not> ownsSlot s' t)"
  using assms
proof (induction ps arbitrary: s)
  case (Cons p ps)
  obtain u where u: "tupleFor opn p = Inr u"
    and rest: "foldE (\<lambda>plane s. bindE (tupleFor opn plane) (\<lambda>t.
         Inr (if ownsSlot s t then drop_slot plane (target_epoch t) s else s))) ps
       (if ownsSlot s u then drop_slot p (target_epoch u) s else s) = Inr s'"
    using Cons.prems by (auto simp: errE)
  define s0 where "s0 = (if ownsSlot s u then drop_slot p (target_epoch u) s else s)"
  have "on_plane u = p" using tupleFor_fields [OF u] by simp
  then have gone: "\<not> ownsSlot s0 u" by (simp add: ownsSlot_def s0_def)
  have fewer: "ownsSlot s0 t \<Longrightarrow> ownsSlot s t" for t
    by (auto simp: ownsSlot_def s0_def split: if_splits)
  have pend: "pendingActivation s0 = pendingActivation s" by (simp add: s0_def)
  note ih = Cons.IH [OF rest [folded s0_def]]
  have "\<not> ownsSlot s' t" if "q \<in> set (p # ps)" "tupleFor opn q = Inr t" for q t
  proof (cases "q \<in> set ps")
    case True
    then show ?thesis using ih that(2) by blast
  next
    case False
    then have "t = u" using that u by simp
    then show ?thesis using ih gone by blast
  qed
  moreover have "ownsSlot s' t \<Longrightarrow> ownsSlot s t" for t using ih fewer by blast
  moreover have "pendingActivation s' = pendingActivation s" using ih pend by simp
  ultimately show ?case by blast
qed simp

lemma finalized:
  assumes "finalizeCandidate opn s = Inr s'" "pendingActivation s' = Some c"
  shows "\<not> sameTransitionName c opn"
proof (cases "pendingActivation s")
  case None
  then show ?thesis using assms by (simp add: finalizeCandidate_def)
next
  case (Some d)
  show ?thesis
  proof (cases "sameTransitionName d opn")
    case True
    then have "pendingActivation s' = None"
      using assms(1) unfolding finalizeCandidate_def Some option.case sameTransitionName_def Let_def
      by (auto simp: bindE_eq_Inr)
    then show ?thesis using assms(2) by simp
  next
    case False
    then have "s' = s" using assms(1) unfolding finalizeCandidate_def Some option.case sameTransitionName_def
      by (auto split: if_splits)
    then show ?thesis using False Some assms(2) by simp
  qed
qed

lemma finish_lets_go:
  assumes "finishOperation opn (planesOf opn) s = Inr (r, s')"
  shows "let_go opn s'"
proof -
  from assms obtain s1 s2 where 1: "finalizeCandidate opn s = Inr s1"
    and 2: "foldE (\<lambda>plane s. bindE (tupleFor opn plane) (\<lambda>t.
         Inr (if ownsSlot s t then drop_slot plane (target_epoch t) s else s))) (planesOf opn) s1 = Inr s2"
    and 3: "s' = s2 \<or> s' = s2\<lparr>activeOperation := None\<rparr>"
    unfolding finishOperation_def by (elim bindE_InrE) (auto split: option.splits if_splits simp: errE)
  have "ownsSlot s' = ownsSlot s2" "pendingActivation s' = pendingActivation s2"
    using 3 by (auto simp: ownsSlot_def slot_at_def fun_eq_iff)
  then show ?thesis
    using finishOperation_facts(2) [OF assms] drop_own_slots [OF 2] finalized [OF 1]
    unfolding let_go_def by simp
qed

lemma close_keeps:
  assumes "closeJournal opn how s = Inr (r, s')" "isTerminalPhase how"
  shows "let_go opn s' = let_go opn s"
    "journal s' = Some j \<Longrightarrow> ownsJournal (Some j) opn = Inr True \<Longrightarrow> isTerminalPhase (je_phase j)"
proof -
  obtain owns where o: "ownsJournal (journal s) opn = Inr owns"
    using assms(1) unfolding closeJournal_def by (elim bindE_InrE)
  have "s' = s \<and> (\<forall>j. journal s = Some j \<longrightarrow> ownsJournal (Some j) opn = Inr True \<longrightarrow> isTerminalPhase (je_phase j))
      \<or> (\<exists>j. s' = s\<lparr>journal := Some (j\<lparr>je_phase := how, je_seq := je_seq j + 1\<rparr>)\<rparr>)"
  proof (cases "\<exists>j. journal s = Some j \<and> owns \<and> \<not> isTerminalPhase (je_phase j)")
    case True
    then obtain j where "journal s = Some j" "owns" "\<not> isTerminalPhase (je_phase j)" by blast
    then have "s' = s\<lparr>journal := Some (j\<lparr>je_phase := how, je_seq := je_seq j + 1\<rparr>)\<rparr>"
      using assms(1) o by (simp add: closeJournal_def)
    then show ?thesis by blast
  next
    case False
    then have "s' = s" using assms(1) o by (cases "journal s") (simp_all add: closeJournal_def split: if_splits)
    then show ?thesis using False o by auto
  qed
  moreover have "let_go opn (s\<lparr>journal := j\<rparr>) = let_go opn s" for j by (rule let_go_cong) simp_all
  ultimately show "let_go opn s' = let_go opn s"
    "journal s' = Some j \<Longrightarrow> ownsJournal (Some j) opn = Inr True \<Longrightarrow> isTerminalPhase (je_phase j)"
    using assms(2) by auto
qed

text \<open>The end of \<open>abortConfig\<close>, after its planes and the holder's slots: whoever it is, it lets go.\<close>

definition ends_abort :: "'w environment \<Rightarrow> apply_operation \<Rightarrow> plane list \<Rightarrow> ('w, unit) act" where
  "ends_abort env opn refused =
     bindA (agent_tx env (finishOperation opn (planesOf opn))) (\<lambda>_.
     bindA reached (\<lambda>phase.
     bindA (agent_tx env (closeJournal opn phase)) (\<lambda>_.
     if refused \<noteq> [] then throwA (Agent_error (reject Terminal_reached)) else returnA ())))"

definition journal_over :: "apply_operation \<Rightarrow> agent_state \<Rightarrow> bool" where
  "journal_over opn s \<longleftrightarrow>
     (\<forall>j. journal s = Some j \<longrightarrow> ownsJournal (Some j) opn = Inr True \<longrightarrow> isTerminalPhase (je_phase j))"

lemma reached_cases:
  assumes "reached y = (r, y')"
  obtains p where "r = Inr p" "isTerminalPhase p" "y' = y"
  | e where "r = Inl e" "e \<noteq> Agent_error (reject Terminal_reached)"
proof -
  have "isTerminalPhase p" if "reachedPhase s = Inr (Some p)" for s p
    using that by (auto simp: reachedPhase_def errE Let_def split: option.splits if_splits)
  moreover have "reachedPhase s \<noteq> Inl (reject Terminal_reached)" for s
    using calm_letting_go(4) [of s] by (simp add: calm_def)
  ultimately show thesis using assms that unfolding reached_def
    by (fastforce simp: bindA_def ask_def returnA_def split: sum.splits option.splits prod.splits)
qed

lemma abort_ends:
  assumes "alone env" "ends_abort env opn refused y = (res, y')"
    and "res = Inr () \<or> res = Inl (Agent_error (reject Terminal_reached))"
  shows "let_go opn (stored (fst y')) \<and> journal_over opn (stored (fst y'))"
  using assms(2) unfolding ends_abort_def
proof (elim bindA_cases, goal_cases)
  case (1 e)
  then show ?case using tx_calm [OF 1(1) calm_letting_go(2)] assms(3) by simp
next
  case (2 x y1 e)
  from 2(2) show ?case by (rule reached_cases) (use 2 assms(3) in auto)
next
  case (3 x y1 p y2 e)
  then show ?case using tx_calm [OF 3(3) calm_letting_go(3)] assms(3) by simp
next
  case (4 x y1 p y2 u y3)
  obtain s1 w1 where 1: "transaction (finishOperation opn (planesOf opn)) (fst y) = Inr (x, s1)" "y1 = (Some s1, w1)"
    using alone_tx_Inr [OF assms(1) 4(1)] by blast
  have p: "isTerminalPhase p" "y2 = y1" using 4(2) by (auto elim: reached_cases)
  obtain s3 w3 where 3: "transaction (closeJournal opn p) (Some s1) = Inr (u, s3)" "y3 = (Some s3, w3)"
    using alone_tx_Inr [OF assms(1) 4(3)] p(2) 1(2) by auto
  obtain n1 where n1: "finishOperation opn (planesOf opn) (stored (fst y)) = Inr (x, n1)" "same_core n1 s1"
    using transaction_same_core [OF 1(1)] by blast
  obtain n3 where n3: "closeJournal opn p s1 = Inr (u, n3)" "same_core n3 s3"
    using transaction_same_core [OF 3(1)] by (auto simp: stored_def)
  have "let_go opn s1" using finish_lets_go [OF n1(1)] let_go_cong [of s1 n1] n1(2) by (simp add: same_core_def)
  then have "let_go opn n3" using close_keeps(1) [OF n3(1) p(1)] by simp
  then have "let_go opn s3" using let_go_cong [of s3 n3] n3(2) by (simp add: same_core_def)
  moreover have "journal_over opn s3"
    using close_keeps(2) [OF n3(1) p(1)] n3(2) by (simp add: journal_over_def same_core_def)
  moreover have "y' = y3" using 4(4) by (auto simp: throwA_def returnA_def split: if_splits)
  ultimately show ?case using 3(2) by (simp add: stored_def)
qed

text \<open>A refusal of one plane is kept for the end; nothing else a plane does ends the abort with it.\<close>

lemma aborts_caught:
  "foldA (abort_plane env opn) ps refused y \<noteq> (Inl (Agent_error (reject Terminal_reached)), y')"
proof (induction ps arbitrary: refused y)
  case Nil
  show ?case by (simp add: returnA_def)
next
  case (Cons p ps)
  have "abort_plane env opn p r z \<noteq> (Inl (Agent_error (reject Terminal_reached)), z')" for r z z'
    unfolding abort_plane_def
    by (auto elim!: catchA_cases simp: returnA_def throwA_def is_rejection_def split: if_splits)
  then show ?case using Cons.IH by (simp del: split_paired_All) (blast elim!: bindA_cases)
qed

section \<open>The properties\<close>

text \<open>C36: The reconciliation says \<open>converged\<close> or \<open>repaired\<close> only of a record it has seen published and then
  seen serving, and that at the moment of the answer is still the last activation, with no other
  activation on its way, whatever others did in between.\<close>

theorem reconcile_verdict_true:
  assumes "reconcileConfig env y = (Inr res, y')" "res = Converged r \<or> res = Repaired r found"
  shows "settled_at r (stored (fst y')) = Settled
    \<and> (\<exists>y0 saw y1 ev. env_observePublished env y0 = (Returned (Published_owned saw), y1) \<and>
        sameRecordIdentity saw r \<and> env_observeActivation env y1 = (Returned ev, y') \<and>
        provesActivation ev (pr_generation r))"
  using assms(2) rounds_good [of env 3 y res y'] assms(1)
  by (auto simp: reconcileConfig_def verified_def)

text \<open>C37: When nobody else writes the agent's store meanwhile, an abort lets go whether it returns or says
  that some plane had already ended: the operation no longer holds the right to execute, no pending
  candidate is its, none of the planes it names is reserved for it at the epoch it asked for, and its
  journal, if the journal is its, is in a terminal phase. So a refused plane does not stop the rest.\<close>

theorem abort_lets_go:
  assumes "alone env" "abortConfig env opn y = (res, (st, w))"
    and "res = Inr () \<or> res = Inl (Agent_error (reject Terminal_reached))"
  shows "\<not> holding (activeOperation (stored st)) opn
    \<and> (\<forall>c. pendingActivation (stored st) = Some c \<longrightarrow> \<not> sameTransitionName c opn)
    \<and> (\<forall>p \<in> set (planesOf opn). \<forall>t. tupleFor opn p = Inr t \<longrightarrow> \<not> ownsSlot (stored st) t)
    \<and> (\<forall>j. journal (stored st) = Some j \<longrightarrow> ownsJournal (Some j) opn = Inr True \<longrightarrow> isTerminalPhase (je_phase j))"
proof -
  from assms(2) have "let_go opn (stored st) \<and> journal_over opn (stored st)"
    unfolding abortConfig_def ends_abort_def [symmetric]
  proof (elim bindA_cases, goal_cases)
    case (1 e)
    then show ?case using aborts_caught assms(3) by blast
  next
    case (2 refused y1 e)
    then show ?case using tx_calm [OF 2(2) calm_letting_go(1)] assms(3) by simp
  next
    case (3 refused y1 x y2)
    then show ?case using abort_ends [OF assms(1) 3(3) assms(3)] by simp
  qed
  then show ?thesis by (simp add: let_go_def journal_over_def)
qed

section \<open>A small world\<close>

definition toy_record :: publish_record where
  "toy_record = recordOf toy_op"

definition toy_base :: agent_state where
  "toy_base = initial\<lparr>maxLeaderToken := ''1'', lastActivated := Some toy_record\<rparr>"

lemma reconcile_verdict_true_witness:
  "fst (reconcileConfig toy_env (Some toy_base, toy_start)) = Inr (Repaired toy_record Published_none)
   \<and> settled_at toy_record (stored (fst (snd (reconcileConfig toy_env (Some toy_base, toy_start))))) = Settled"
proof -
  have v: "fst (reconcileConfig toy_env (Some toy_base, toy_start)) = Inr (Repaired toy_record Published_none)"
    by code_simp
  then have "reconcileConfig toy_env (Some toy_base, toy_start) =
      (Inr (Repaired toy_record Published_none), snd (reconcileConfig toy_env (Some toy_base, toy_start)))"
    by (metis prod.collapse)
  then show ?thesis using reconcile_verdict_true v by blast
qed

text \<open>An operation on its way whose plane \<open>Http\<close> has failed already: it holds the right to execute, its
  journal runs, and \<open>Stream\<close> is reserved for it.\<close>

definition half_done :: "dp_error + agent_state" where
  "half_done =
     bindE (transaction (reserveAll toy_op (Some (opening_of toy_op))) None) (\<lambda>(_, s).
     bindE (tupleFor toy_op Http) (\<lambda>t.
     bindE (transaction (fail t) (Some s)) (\<lambda>(_, s). Inr s)))"

definition half_done_state :: agent_state where
  "half_done_state = (case half_done of Inr s \<Rightarrow> s | Inl _ \<Rightarrow> initial)"

definition busy :: "agent_state \<Rightarrow> bool" where
  "busy s \<longleftrightarrow> activeOperation s \<noteq> None \<and> (case journal s of None \<Rightarrow> False | Some j \<Rightarrow> \<not> isTerminalPhase (je_phase j)) \<and>
     (case tupleFor toy_op Stream of Inr t \<Rightarrow> ownsSlot s t | Inl _ \<Rightarrow> False)"

definition refused_abort :: bool where
  "refused_abort \<longleftrightarrow> busy half_done_state \<and>
     (case fst (abortConfig toy_env toy_op (Some half_done_state, toy_start)) of
        Inl (Agent_error e) \<Rightarrow> e = reject Terminal_reached | _ \<Rightarrow> False)"

lemma refused_abort_holds: "refused_abort"
  by code_simp

lemma abort_lets_go_witness:
  "busy half_done_state \<and>
   (\<exists>st w. abortConfig toy_env toy_op (Some half_done_state, toy_start) = (Inl (Agent_error (reject Terminal_reached)), (st, w)) \<and>
      \<not> holding (activeOperation (stored st)) toy_op \<and>
      (\<forall>p \<in> set (planesOf toy_op). \<forall>t. tupleFor toy_op p = Inr t \<longrightarrow> \<not> ownsSlot (stored st) t))"
proof -
  let ?y = "(Some half_done_state, toy_start)"
  have a: "alone toy_env" by (simp add: alone_def toy_env_def)
  have f: "fst (abortConfig toy_env toy_op ?y) = Inl (Agent_error (reject Terminal_reached))" "busy half_done_state"
    using refused_abort_holds unfolding refused_abort_def by (auto split: sum.splits run_error.splits)
  then obtain st w where r: "abortConfig toy_env toy_op ?y = (Inl (Agent_error (reject Terminal_reached)), (st, w))"
    by (metis prod.collapse)
  show ?thesis using f(2) r abort_lets_go [OF a r] by blast
qed

end
