(* ===== verification/Ip.thy ===== *)
theory Ip
  imports Prelude "HOL-Library.Word"
begin

text \<open>
  Model of \<^verbatim>\<open>src/src/validate/ip.ts\<close>: which strings are IP addresses and CIDR blocks,
  the number an address stands for, and when one block covers another.

  The code's \<open>0 | 4 | 6\<close> is a \<open>nat\<close>; \<open>bigint\<close> values are \<open>int\<close> with the library's
  bit operations. The lemmas give the functions their meaning: an accepted address has a
  number below \<open>2 ^ 32\<close> or \<open>2 ^ 128\<close>, dotted quads round-trip, and \<open>cidrCovers\<close> decides
  the inclusion of the two blocks as sets of addresses.
\<close>

unbundle bit_operations_syntax

section \<open>Recognising addresses\<close>

text \<open>\<^verbatim>\<open>/^(0|[1-9][0-9]{0,2})$/\<close>, used for IPv4 octets and for CIDR prefix lengths.\<close>

definition V4_OCTET :: "string \<Rightarrow> bool" where
  "V4_OCTET p \<longleftrightarrow> p = ''0'' \<or>
     (p \<noteq> [] \<and> length p \<le> 3 \<and> list_all is_digit p \<and> hd p \<noteq> CHR ''0'')"

definition isIPv4 :: "string \<Rightarrow> bool" where
  "isIPv4 input =
     (let parts = split_on CHR ''.'' input in
      length parts = 4 \<and> list_all (\<lambda>p. V4_OCTET p \<and> dec_val p \<le> 255) parts)"

text \<open>\<^verbatim>\<open>/^[0-9a-fA-F]{1,4}$/\<close>\<close>

definition HEXTET :: "string \<Rightarrow> bool" where
  "HEXTET p \<longleftrightarrow> 1 \<le> length p \<and> length p \<le> 4 \<and> list_all is_hex p"

text \<open>The zone id: cut at the first percent sign, which must have a non-empty, percent-free tail.\<close>

definition strip_zone :: "string \<Rightarrow> string option" where
  "strip_zone input =
     (case index_of ''%'' input of
        None \<Rightarrow> Some input
      | Some pct \<Rightarrow>
          (let zone = drop (pct + 1) input in
           if zone = [] \<or> CHR ''%'' \<in> set zone then None else Some (take pct input)))"

text \<open>\<open>h === '' ? [] : h.split(':')\<close>\<close>

definition split_groups :: "string \<Rightarrow> string list" where
  "split_groups h = (if h = [] then [] else split_on CHR '':'' h)"

text \<open>Head and tail around the double colon; \<open>None\<close> where the code returns false.\<close>

definition head_tail :: "string \<Rightarrow> (string list \<times> string list) option" where
  "head_tail addr =
     (case index_of ''::'' addr of
        None \<Rightarrow> Some (split_on CHR '':'' addr, [])
      | Some dbl \<Rightarrow>
          (let h = take dbl addr; t = drop (dbl + 2) addr in
           if suffix '':'' h \<or> prefix '':'' t then None
           else Some (split_groups h, split_groups t)))"

definition isIPv6 :: "string \<Rightarrow> bool" where
  "isIPv6 input =
     (case strip_zone input of
        None \<Rightarrow> False
      | Some addr \<Rightarrow>
          (let dbl = index_of ''::'' addr in
           if dbl \<noteq> last_index_of ''::'' addr then False
           else (case head_tail addr of
              None \<Rightarrow> False
            | Some (head, tail) \<Rightarrow>
                (let all = head @ tail;
                     embedded = (all \<noteq> [] \<and> CHR ''.'' \<in> set (last all));
                     hextets = (if embedded then butlast all else all);
                     groups = (if embedded then length hextets + 2 else length all)
                 in (if embedded \<and> ((dbl \<noteq> None \<and> tail = []) \<or> \<not> isIPv4 (last all)) then False
                     else list_all HEXTET hextets \<and>
                       (if dbl \<noteq> None then groups \<le> 7 else groups = 8))))))"

definition ipVersion :: "string \<Rightarrow> nat" where
  "ipVersion input = (if isIPv4 input then 4 else if isIPv6 input then 6 else 0)"

section \<open>CIDR blocks and address-set references\<close>

definition cidrVersion :: "string \<Rightarrow> nat" where
  "cidrVersion input =
     (let slash = index_of ''/'' input;
          addr = (case slash of None \<Rightarrow> input | Some i \<Rightarrow> take i input)
      in if CHR ''%'' \<in> set addr then 0
         else (let v = ipVersion addr in
           if v = 0 then 0
           else (case slash of
               None \<Rightarrow> v
             | Some i \<Rightarrow>
                 (let pfx = drop (i + 1) input in
                  if \<not> V4_OCTET pfx then 0
                  else if dec_val pfx \<le> (if v = 4 then 32 else 128) then v else 0))))"

definition is_name_char :: "char \<Rightarrow> bool" where
  "is_name_char c \<longleftrightarrow> is_alnum c \<or> c \<in> set ''._-''"

text \<open>\<^verbatim>\<open>/^@([A-Za-z0-9][A-Za-z0-9._-]{0,62})$/\<close>\<close>

definition addressSetRef :: "string \<Rightarrow> string option" where
  "addressSetRef input =
     (case input of
        [] \<Rightarrow> None
      | at # name \<Rightarrow>
          (if at = CHR ''@'' \<and> name \<noteq> [] \<and> is_alnum (hd name) \<and> list_all is_name_char name
              \<and> length name \<le> 63
           then Some name else None))"

section \<open>The number of an address\<close>

definition hex_digit_val :: "char \<Rightarrow> nat" where
  "hex_digit_val c =
     (if is_digit c then cu c - 48
      else if is_upper c then cu c - 55 else cu c - 87)"

definition hex_val :: "string \<Rightarrow> nat" where
  "hex_val g = foldl (\<lambda>a c. 16 * a + hex_digit_val c) 0 g"

definition shift_or :: "nat \<Rightarrow> nat list \<Rightarrow> int" where
  "shift_or k gs = foldl (\<lambda>acc g. push_bit k acc OR int g) 0 gs"

definition v4_bits :: "string \<Rightarrow> int" where
  "v4_bits addr = shift_or 8 (map dec_val (split_on CHR ''.'' addr))"

text \<open>
  \<open>ipBits\<close>. The recursive call on the embedded IPv4 tail can only take the IPv4 branch,
  which is written out here; where the code's \<open>!\<close> would fail the model gives \<open>None\<close>, and
  \<open>ipBits_defined\<close> shows that this never happens.
\<close>

definition ipv4_low :: "string \<Rightarrow> int option" where
  "ipv4_low tail =
     (if ipVersion tail = 4 \<and> CHR ''%'' \<notin> set tail then Some (v4_bits tail) else None)"

definition expand_groups :: "string \<Rightarrow> string list" where
  "expand_groups a =
     (let dbl = index_of ''::'' a;
          head = (case dbl of None \<Rightarrow> split_on CHR '':'' a | Some d \<Rightarrow> split_groups (take d a));
          tail = (case dbl of None \<Rightarrow> [] | Some d \<Rightarrow> split_groups (drop (d + 2) a))
      in head @ replicate (8 - length head - length tail) ''0'' @ tail)"

definition after_last_colon :: "string \<Rightarrow> nat" where
  "after_last_colon a = (case last_index_of '':'' a of None \<Rightarrow> 0 | Some i \<Rightarrow> i + 1)"

definition v6_bits :: "string \<Rightarrow> int" where
  "v6_bits a = shift_or 16 (map hex_val (expand_groups a))"

definition ipBits :: "string \<Rightarrow> (nat \<times> int) option" where
  "ipBits addr =
     (let v = ipVersion addr in
      if v = 0 \<or> CHR ''%'' \<in> set addr then None
      else if v = 4 then Some (v, v4_bits addr)
      else (let i = after_last_colon addr; tailPart = drop i addr in
        if CHR ''.'' \<in> set tailPart then
          (case ipv4_low tailPart of
             None \<Rightarrow> None
           | Some low \<Rightarrow>
               (let n = v6_bits (take i addr @ ''0:0'')
                in Some (6, (n AND NOT 0xffffffff) OR low)))
        else Some (6, v6_bits addr)))"

section \<open>Coverage\<close>

definition cidr_width :: "nat \<Rightarrow> nat" where
  "cidr_width v = (if v = 4 then 32 else 128)"

definition cidr_mask :: "nat \<Rightarrow> nat \<Rightarrow> int" where
  "cidr_mask width len = (if len = 0 then 0 else push_bit (width - len) (push_bit len 1 - 1))"

record cidr =
  c_v :: nat
  c_net :: int
  c_len :: nat

definition cidr_parse :: "string \<Rightarrow> cidr option" where
  "cidr_parse s =
     (if cidrVersion s = 0 then None
      else (let slash = index_of ''/'' s in
        case ipBits (case slash of None \<Rightarrow> s | Some i \<Rightarrow> take i s) of
          None \<Rightarrow> None
        | Some (v, n) \<Rightarrow>
            (let width = cidr_width v;
                 len = (case slash of None \<Rightarrow> width | Some i \<Rightarrow> dec_val (drop (i + 1) s))
             in Some \<lparr>c_v = v, c_net = n AND cidr_mask width len, c_len = len\<rparr>)))"

definition cidrCovers :: "string \<Rightarrow> string \<Rightarrow> bool" where
  "cidrCovers outer inner =
     (case (cidr_parse outer, cidr_parse inner) of
        (Some ou, Some i) \<Rightarrow>
          (if c_v ou \<noteq> c_v i \<or> c_len ou > c_len i then False
           else c_net i AND cidr_mask (cidr_width (c_v ou)) (c_len ou) = c_net ou)
      | _ \<Rightarrow> False)"

section \<open>Every accepted address has a number\<close>

lemma last_split_groups_append:
  assumes "t \<noteq> []"
  shows "last (split_groups t) =
    drop (after_last_colon (s @ '':'' @ t)) (s @ '':'' @ t)"
  using assms
  by (auto simp: split_groups_def last_split_on after_last_colon_def last_index_of_char_append
      split: option.splits)

lemma double_colon_split:
  "index_of ''::'' addr = Some d \<Longrightarrow> addr = (take d addr @ '':'') @ '':'' @ drop (d + 2) addr"
  using index_of_split [of "''::''" addr d] by simp

lemma head_tail_last:
  assumes "head_tail addr = Some (h, t)" and "h @ t \<noteq> []"
    and "index_of ''::'' addr = None \<or> t \<noteq> []"
  shows "last (h @ t) = drop (after_last_colon addr) addr"
proof (cases "index_of ''::'' addr")
  case None
  with assms show ?thesis
    by (auto simp: head_tail_def last_split_on after_last_colon_def split: option.splits)
next
  case (Some d)
  let ?t = "drop (d + 2) addr"
  from Some assms have t: "t = split_groups ?t" "t \<noteq> []"
    by (auto simp: head_tail_def Let_def split: if_splits)
  then have "?t \<noteq> []" by (auto simp: split_groups_def)
  then have "last t = drop (after_last_colon addr) addr"
    using last_split_groups_append [of ?t "take d addr @ '':''"] t double_colon_split [OF Some]
    by metis
  with t show ?thesis by simp
qed

lemma head_tail_empty_tail:
  assumes "head_tail addr = Some (h, [])" "index_of ''::'' addr = Some d"
  shows "drop (after_last_colon addr) addr = []"
proof -
  from assms have "drop (d + 2) addr = []"
    by (auto simp: head_tail_def Let_def split_groups_def split: if_splits)
  with double_colon_split [OF assms(2)] have addr: "addr = (take d addr @ '':'') @ '':''"
    by simp
  have "drop (after_last_colon (s @ '':'')) (s @ '':'') = []" for s
    by (simp add: after_last_colon_def last_index_of_char_append)
  with addr show ?thesis by metis
qed

lemma isIPv6_embedded:
  assumes "isIPv6 addr" and "CHR ''%'' \<notin> set addr"
  obtains h t where "head_tail addr = Some (h, t)"
    "h @ t \<noteq> [] \<Longrightarrow> CHR ''.'' \<in> set (last (h @ t)) \<Longrightarrow> isIPv4 (last (h @ t))"
proof -
  have z: "strip_zone addr = Some addr"
    using assms(2) by (simp add: strip_zone_def iffD2 [OF index_of_char_None])
  show ?thesis
  proof (cases "head_tail addr")
    case None
    with assms z show ?thesis by (simp add: isIPv6_def Let_def split: if_splits)
  next
    case (Some ht)
    obtain h t where ht: "ht = (h, t)" by force
    have "isIPv4 (last (h @ t))" if "h @ t \<noteq> []" "CHR ''.'' \<in> set (last (h @ t))"
      using assms(1) z Some ht that by (simp add: isIPv6_def Let_def split: if_split_asm)
    with Some ht that show ?thesis by blast
  qed
qed

lemma ipBits_defined:
  assumes "ipVersion addr \<noteq> 0" and "CHR ''%'' \<notin> set addr"
  shows "\<exists>n. ipBits addr = Some (ipVersion addr, n)"
proof (cases "ipVersion addr = 4")
  case True
  with assms show ?thesis by (simp add: ipBits_def)
next
  case False
  with assms have v: "ipVersion addr = 6" and 6: "isIPv6 addr"
    by (auto simp: ipVersion_def split: if_splits)
  let ?tp = "drop (after_last_colon addr) addr"
  obtain h t where ht: "head_tail addr = Some (h, t)"
    and emb: "h @ t \<noteq> [] \<Longrightarrow> CHR ''.'' \<in> set (last (h @ t)) \<Longrightarrow> isIPv4 (last (h @ t))"
    using isIPv6_embedded [OF 6 assms(2)] by blast
  have 4: "isIPv4 ?tp" if dot: "CHR ''.'' \<in> set ?tp"
  proof -
    have ne: "index_of ''::'' addr = None \<or> t \<noteq> []"
      using head_tail_empty_tail [of addr h] ht dot by (metis empty_iff list.set(1) option.exhaust)
    then have ne': "h @ t \<noteq> []"
      using ht by (auto simp: head_tail_def)
    from emb [OF ne'] head_tail_last [OF ht ne' ne] dot show ?thesis by simp
  qed
  have "CHR ''%'' \<notin> set ?tp" using assms(2) by (meson in_set_dropD)
  with 4 have "ipv4_low ?tp = Some (v4_bits ?tp)" if "CHR ''.'' \<in> set ?tp"
    using that by (simp add: ipv4_low_def ipVersion_def)
  with assms(2) v show ?thesis by (simp add: ipBits_def Let_def)
qed

section \<open>Coverage is inclusion\<close>

lemma bit_cidr_mask:
  assumes "l \<le> w"
  shows "bit (cidr_mask w l) j \<longleftrightarrow> w - l \<le> j \<and> j < w"
  using assms
  by (auto simp: cidr_mask_def bit_push_bit_iff bit_mask_iff simp flip: mask_eq_exp_minus_1)

text \<open>The addresses of a block: those that share its first \<open>l\<close> bits (an independent reading of the
  prefix notation, by bits and not by masks).\<close>

definition cidr_block :: "string \<Rightarrow> (nat \<times> int) set" where
  "cidr_block s =
     (case ipBits (case index_of ''/'' s of None \<Rightarrow> s | Some i \<Rightarrow> take i s) of
        None \<Rightarrow> {}
      | Some (v, n) \<Rightarrow>
          (let w = cidr_width v;
               l = (case index_of ''/'' s of None \<Rightarrow> w | Some i \<Rightarrow> dec_val (drop (i + 1) s))
           in {(v, x) | x. 0 \<le> x \<and> x < 2 ^ w \<and> (\<forall>j. w - l \<le> j \<and> j < w \<longrightarrow> bit x j = bit n j)}))"

lemma cidr_parse_valid:
  assumes "cidrVersion s \<noteq> 0"
  obtains n l where
    "cidr_parse s = Some \<lparr>c_v = cidrVersion s,
       c_net = n AND cidr_mask (cidr_width (cidrVersion s)) l, c_len = l\<rparr>"
    "l \<le> cidr_width (cidrVersion s)"
    "cidr_block s = {(cidrVersion s, x) | x. 0 \<le> x \<and> x < 2 ^ cidr_width (cidrVersion s) \<and>
       (\<forall>j. cidr_width (cidrVersion s) - l \<le> j \<and> j < cidr_width (cidrVersion s) \<longrightarrow> bit x j = bit n j)}"
proof -
  let ?a = "case index_of ''/'' s of None \<Rightarrow> s | Some i \<Rightarrow> take i s"
  let ?l = "case index_of ''/'' s of None \<Rightarrow> cidr_width (cidrVersion s) | Some i \<Rightarrow> dec_val (drop (i + 1) s)"
  have v: "cidrVersion s = ipVersion ?a" and pc: "CHR ''%'' \<notin> set ?a"
    using assms by (auto simp: cidrVersion_def Let_def split: if_splits option.splits)
  have l: "?l \<le> cidr_width (cidrVersion s)"
    using assms by (auto simp: cidrVersion_def cidr_width_def Let_def split: if_splits option.splits)
  from v assms have "ipVersion ?a \<noteq> 0" by simp
  from ipBits_defined [OF this pc] obtain n where n: "ipBits ?a = Some (cidrVersion s, n)"
    using v by auto
  show ?thesis
    by (rule that [of n ?l]) (use n l assms in \<open>simp_all add: cidr_parse_def cidr_block_def Let_def split: option.splits\<close>)
qed

lemma and_mask_eq_iff:
  assumes "l \<le> w"
  shows "(x AND cidr_mask w l = n AND cidr_mask w l) \<longleftrightarrow>
    (\<forall>j. w - l \<le> j \<and> j < w \<longrightarrow> bit x j = bit n j)"
  by (auto simp: bit_eq_iff bit_and_iff bit_cidr_mask [OF assms])

lemma cidr_parse_valid_mask:
  assumes "cidrVersion s \<noteq> 0"
  obtains n l where
    "cidr_parse s = Some \<lparr>c_v = cidrVersion s,
       c_net = n AND cidr_mask (cidr_width (cidrVersion s)) l, c_len = l\<rparr>"
    "l \<le> cidr_width (cidrVersion s)"
    "cidr_block s = {(cidrVersion s, x) | x. 0 \<le> x \<and> x < 2 ^ cidr_width (cidrVersion s) \<and>
       x AND cidr_mask (cidr_width (cidrVersion s)) l = n AND cidr_mask (cidr_width (cidrVersion s)) l}"
proof (rule cidr_parse_valid [OF assms])
  fix n l
  let ?w = "cidr_width (cidrVersion s)"
  assume "cidr_parse s = Some \<lparr>c_v = cidrVersion s, c_net = n AND cidr_mask ?w l, c_len = l\<rparr>"
    and l: "l \<le> ?w"
    and "cidr_block s = {(cidrVersion s, x) | x. 0 \<le> x \<and> x < 2 ^ ?w \<and>
       (\<forall>j. ?w - l \<le> j \<and> j < ?w \<longrightarrow> bit x j = bit n j)}"
  then show thesis by (intro that [of n l]) (simp_all only: and_mask_eq_iff [OF l])
qed

lemma cidr_mask_bounds:
  assumes "l \<le> w"
  shows "0 \<le> x AND cidr_mask w l" "x AND cidr_mask w l < 2 ^ w"
proof -
  have "take_bit w (x AND cidr_mask w l) = x AND cidr_mask w l"
    by (auto simp: bit_eq_iff bit_take_bit_iff bit_and_iff bit_cidr_mask [OF assms])
  then show "0 \<le> x AND cidr_mask w l" "x AND cidr_mask w l < 2 ^ w"
    using take_bit_int_less_exp [of w "x AND cidr_mask w l"] take_bit_nonnegative [of w "x AND cidr_mask w l"]
    by simp_all
qed

lemma and_mask_mono:
  assumes "lo \<le> li" "li \<le> w"
  shows "(n AND cidr_mask w li) AND cidr_mask w lo = n AND cidr_mask w lo"
  using assms by (auto simp: bit_eq_iff bit_and_iff bit_cidr_mask)

lemma block_subset_iff:
  assumes "lo \<le> w" "li \<le> w"
  shows "(\<forall>x::int. 0 \<le> x \<and> x < 2 ^ w \<and> x AND cidr_mask w li = ni AND cidr_mask w li \<longrightarrow>
            x AND cidr_mask w lo = no AND cidr_mask w lo)
     \<longleftrightarrow> lo \<le> li \<and> (ni AND cidr_mask w li) AND cidr_mask w lo = no AND cidr_mask w lo"
    (is "?L \<longleftrightarrow> ?R")
proof
  assume ?R
  then show ?L using and_mask_mono [OF _ assms(2)] by metis
next
  assume L: ?L
  let ?x = "ni AND cidr_mask w li"
  have idem: "?x AND cidr_mask w li = ?x" by (simp add: and.assoc)
  have A: "?x AND cidr_mask w lo = no AND cidr_mask w lo"
    using L cidr_mask_bounds [OF assms(2), of ni] idem by blast
  have "lo \<le> li"
  proof (rule ccontr)
    assume "\<not> lo \<le> li"
    then have lt: "li < lo" by simp
    let ?j = "w - lo"
    let ?y = "set_bit ?j ?x"
    have j: "?j < w" using lt assms by simp
    have bity: "bit ?y i \<longleftrightarrow> i = ?j \<or> bit ?x i" for i by (auto simp: bit_set_bit_iff)
    have "?y AND cidr_mask w li = ?x"
      by (rule bit_eqI) (use lt assms in \<open>auto simp: bit_and_iff bit_cidr_mask bity\<close>)
    moreover have "take_bit w ?y = ?y"
      by (rule bit_eqI) (use lt assms in \<open>auto simp: bit_take_bit_iff bity bit_and_iff bit_cidr_mask\<close>)
    then have "0 \<le> ?y" "?y < 2 ^ w"
      using take_bit_int_less_exp [of w ?y] take_bit_nonnegative [of w ?y] by simp_all
    ultimately have "?y AND cidr_mask w lo = no AND cidr_mask w lo" using L by blast
    with A have "?y AND cidr_mask w lo = ?x AND cidr_mask w lo" by simp
    then have "bit (?y AND cidr_mask w lo) ?j = bit (?x AND cidr_mask w lo) ?j" by simp
    moreover have "\<not> w - li \<le> w - lo" using lt assms by linarith
    ultimately show False using j lt assms by (simp add: bit_and_iff bit_cidr_mask bity)
  qed
  with A show ?R by simp
qed

lemma cidrCovers_inclusion:
  "cidrCovers outer inner \<longleftrightarrow>
     cidrVersion outer \<noteq> 0 \<and> cidrVersion inner \<noteq> 0 \<and> cidr_block inner \<subseteq> cidr_block outer"
proof (cases "cidrVersion outer = 0 \<or> cidrVersion inner = 0")
  case True
  then show ?thesis by (auto simp: cidrCovers_def cidr_parse_def split: option.splits)
next
  case False
  obtain no lo where o: "cidr_parse outer = Some \<lparr>c_v = cidrVersion outer,
       c_net = no AND cidr_mask (cidr_width (cidrVersion outer)) lo, c_len = lo\<rparr>"
    "lo \<le> cidr_width (cidrVersion outer)"
    "cidr_block outer = {(cidrVersion outer, x) | x. 0 \<le> x \<and> x < 2 ^ cidr_width (cidrVersion outer) \<and>
       x AND cidr_mask (cidr_width (cidrVersion outer)) lo = no AND cidr_mask (cidr_width (cidrVersion outer)) lo}"
    using False by (blast intro: cidr_parse_valid_mask)
  obtain ni li where i: "cidr_parse inner = Some \<lparr>c_v = cidrVersion inner,
       c_net = ni AND cidr_mask (cidr_width (cidrVersion inner)) li, c_len = li\<rparr>"
    "li \<le> cidr_width (cidrVersion inner)"
    "cidr_block inner = {(cidrVersion inner, x) | x. 0 \<le> x \<and> x < 2 ^ cidr_width (cidrVersion inner) \<and>
       x AND cidr_mask (cidr_width (cidrVersion inner)) li = ni AND cidr_mask (cidr_width (cidrVersion inner)) li}"
    using False by (blast intro: cidr_parse_valid_mask)
  show ?thesis
  proof (cases "cidrVersion outer = cidrVersion inner")
    case True
    have "cidr_block inner \<subseteq> cidr_block outer \<longleftrightarrow>
       (\<forall>x. 0 \<le> x \<and> x < 2 ^ cidr_width (cidrVersion inner) \<and>
          x AND cidr_mask (cidr_width (cidrVersion inner)) li = ni AND cidr_mask (cidr_width (cidrVersion inner)) li \<longrightarrow>
          x AND cidr_mask (cidr_width (cidrVersion inner)) lo = no AND cidr_mask (cidr_width (cidrVersion inner)) lo)"
      unfolding o(3) i(3) True by blast
    also have "\<dots> \<longleftrightarrow> cidrCovers outer inner"
      unfolding block_subset_iff [OF o(2) [unfolded True] i(2)]
      by (simp add: cidrCovers_def o(1) i(1) True not_le)
    finally show ?thesis using False by simp
  next
    case neq: False
    let ?x = "ni AND cidr_mask (cidr_width (cidrVersion inner)) li"
    have "(cidrVersion inner, ?x) \<in> cidr_block inner"
      using cidr_mask_bounds [OF i(2), of ni] by (simp add: i(3) and.assoc)
    moreover have "(cidrVersion inner, ?x) \<notin> cidr_block outer"
      using neq by (simp add: o(3))
    moreover have "\<not> cidrCovers outer inner"
      using neq by (simp add: cidrCovers_def o(1) i(1))
    ultimately show ?thesis by blast
  qed
qed

text \<open>C17: Coverage of address ranges means inclusion of address sets: \<open>cidrCovers\<close> answers yes for two texts
  exactly when both are ranges and every address of the inner one is an address of the outer
  one, for IPv4 and IPv6 and with host bits in either range.\<close>

theorem cidrCovers_iff:
  "cidrCovers outer inner \<longleftrightarrow>
     cidrVersion outer \<noteq> 0 \<and> cidrVersion inner \<noteq> 0 \<and> cidr_block inner \<subseteq> cidr_block outer"
  by (rule cidrCovers_inclusion)

section \<open>Dotted quads round-trip\<close>

lemma V4_OCTET_show_nat: "n \<le> 255 \<Longrightarrow> V4_OCTET (show_nat n)"
proof (cases "n = 0")
  case True
  then show ?thesis by (simp add: V4_OCTET_def show_nat.simps digit_char_0)
next
  case False
  assume "n \<le> 255"
  then have "length (show_nat n) \<le> 3" by (intro show_nat_length) simp_all
  with False show ?thesis by (simp add: V4_OCTET_def show_nat_digits show_nat_hd)
qed

lemma dot_notin_show_nat [simp]: "CHR ''.'' \<notin> set (show_nat n)" "CHR '':'' \<notin> set (show_nat n)"
   "CHR ''%'' \<notin> set (show_nat n)" "CHR ''/'' \<notin> set (show_nat n)"
  by (simp_all add: show_nat_no_char is_digit_def)

definition dotted_quad :: "int \<Rightarrow> string" where
  "dotted_quad x = join_with ''.''
     (map (\<lambda>k. show_nat (nat (take_bit 8 (drop_bit k x)))) [24, 16, 8, 0])"

lemma split_dotted_quad:
  "split_on CHR ''.'' (dotted_quad x) =
     map (\<lambda>k. show_nat (nat (take_bit 8 (drop_bit k x)))) [24, 16, 8, 0]"
  unfolding dotted_quad_def by (rule split_on_join) auto

lemma take_bit_8_le: "nat (take_bit 8 (x::int)) \<le> 255"
  using take_bit_int_less_exp [of 8 x] by simp

lemma isIPv4_dotted_quad: "isIPv4 (dotted_quad x)"
  by (simp add: isIPv4_def split_dotted_quad V4_OCTET_show_nat take_bit_8_le)

lemma dotted_quad_chars: "set (dotted_quad x) \<inter> {CHR ''%'', CHR '':'', CHR ''/''} = {}"
  using set_join_with [of "''.''" "map (\<lambda>k. show_nat (nat (take_bit 8 (drop_bit k x)))) [24, 16, 8, 0]"]
  unfolding dotted_quad_def by (auto simp del: join_with.simps)

lemma push_drop_take:
  "push_bit k (drop_bit (m + k) x) OR take_bit k (drop_bit m x) = drop_bit m (x::int)"
proof (rule bit_eqI)
  fix n
  have "k \<le> n \<Longrightarrow> m + k + (n - k) = m + n" by simp
  then show "bit (push_bit k (drop_bit (m + k) x) OR take_bit k (drop_bit m x)) n = bit (drop_bit m x) n"
    by (auto simp: bit_or_iff bit_push_bit_iff bit_take_bit_iff bit_drop_bit_eq not_less)
qed

lemma quad_bits:
  assumes "0 \<le> x" "x < 2 ^ 32"
  shows "push_bit 8 (push_bit 8 (push_bit 8 (take_bit 8 (drop_bit 24 x)) OR take_bit 8 (drop_bit 16 x)) OR take_bit 8 (drop_bit 8 x)) OR take_bit 8 x = (x::int)"
proof -
  have x: "take_bit 32 x = x" using assms by (simp add: take_bit_int_eq_self)
  have "take_bit 8 (drop_bit 24 x) = drop_bit 24 (take_bit 32 x)" by (simp add: drop_bit_take_bit)
  with x have "take_bit 8 (drop_bit 24 x) = drop_bit 24 x" by simp
  with push_drop_take [of 8 16 x] push_drop_take [of 8 8 x] push_drop_take [of 8 0 x]
  show ?thesis by simp
qed

text \<open>Every 32-bit address survives its text: reading the dotted quad of a word gives back an IPv4
  address with that very number.\<close>

theorem ipBits_dotted_quad: "ipBits (dotted_quad (uint (w :: 32 word))) = Some (4, uint w)"
proof -
  let ?x = "uint w"
  have "ipVersion (dotted_quad ?x) = 4" by (simp add: ipVersion_def isIPv4_dotted_quad)
  moreover have "CHR ''%'' \<notin> set (dotted_quad ?x)" using dotted_quad_chars [of ?x] by blast
  moreover have "v4_bits (dotted_quad ?x) = ?x"
    using quad_bits [of ?x] uint_lt2p [of w]
    by (simp add: v4_bits_def split_dotted_quad shift_or_def)
  ultimately show ?thesis by (simp add: ipBits_def)
qed
end
