(* ===== verification/Url_Ipv6.thy ===== *)
theory Url_Ipv6
  imports Ip
begin

text \<open>
  What \<^verbatim>\<open>new URL(`http://[${a}]`).hostname\<close> does with an IPv6 address: the WHATWG URL
  standard parses the address into eight 16-bit pieces and serialises them in lower-case
  hexadecimal, replacing the first longest run of at least two zero pieces by \<open>::\<close>.
  \<^verbatim>\<open>src/src/validate/sockets.ts\<close> relies on this for its canonical form. The main fact is the
  round trip: the canonical text reads back as the same number.
\<close>

unbundle bit_operations_syntax

definition hex_char :: "nat \<Rightarrow> char" where
  "hex_char n = (if n < 10 then char_of (48 + n) else char_of (87 + n))"

fun show_hex :: "nat \<Rightarrow> string" where
  "show_hex n = (if n < 16 then [hex_char n] else show_hex (n div 16) @ [hex_char (n mod 16)])"

declare show_hex.simps [simp del]

text \<open>Length of the run of zero pieces that starts at position \<open>i\<close>.\<close>

definition run_len :: "nat list \<Rightarrow> nat \<Rightarrow> nat" where
  "run_len ps i = length (takeWhile (\<lambda>p. p = 0) (drop i ps))"

definition compress_at :: "nat list \<Rightarrow> nat option" where
  "compress_at ps =
     (let longest = fold max (map (run_len ps) [0..<length ps]) 0
      in if longest \<le> 1 then None else find (\<lambda>i. run_len ps i = longest) [0..<length ps])"

definition serialize_ipv6 :: "nat list \<Rightarrow> string" where
  "serialize_ipv6 ps =
     (case compress_at ps of
        None \<Rightarrow> join_with '':'' (map show_hex ps)
      | Some c \<Rightarrow>
          join_with '':'' (map show_hex (take c ps)) @ ''::'' @
          join_with '':'' (map show_hex (drop (c + run_len ps c) ps)))"

definition pieces_of :: "int \<Rightarrow> nat list" where
  "pieces_of n = map (\<lambda>k. nat (take_bit 16 (drop_bit k n))) [112, 96, 80, 64, 48, 32, 16, 0]"

text \<open>A zone id is not part of a URL host: the constructor throws, here \<open>None\<close>.\<close>

definition url_ipv6_hostname :: "string \<Rightarrow> string option" where
  "url_ipv6_hostname candidate =
     (case ipBits candidate of
        Some (v, n) \<Rightarrow> if v = 6 then Some (serialize_ipv6 (pieces_of n)) else None
      | None \<Rightarrow> None)"

section \<open>Hexadecimal\<close>

lemma hex_char_props:
  assumes "n < 16"
  shows "is_hex (hex_char n)" "hex_digit_val (hex_char n) = n" "cu (hex_char n) \<noteq> 58"
    "cu (hex_char n) \<noteq> 46" "cu (hex_char n) \<noteq> 37"
  using assms by (auto simp: hex_char_def char_class_defs hex_digit_val_def)

lemma hex_val_snoc: "hex_val (s @ [c]) = 16 * hex_val s + hex_digit_val c"
  by (simp add: hex_val_def)

lemma hex_val_show_hex [simp]: "hex_val (show_hex n) = n"
proof (induction n rule: show_hex.induct)
  case (1 n)
  show ?case
    by (cases "n < 16")
       (use 1 in \<open>simp_all add: show_hex.simps [of n] hex_val_snoc hex_char_props, simp add: hex_val_def hex_char_props\<close>)
qed

lemma show_hex_chars: "c \<in> set (show_hex n) \<Longrightarrow> is_hex c \<and> cu c \<noteq> 58 \<and> cu c \<noteq> 46 \<and> cu c \<noteq> 37"
proof (induction n rule: show_hex.induct)
  case (1 n)
  then show ?case
    by (cases "n < 16") (auto simp: show_hex.simps [of n] hex_char_props)
qed

lemma show_hex_nonempty [simp]: "show_hex n \<noteq> []"
  by (subst show_hex.simps) simp

lemma show_hex_length: "n < 16 ^ k \<Longrightarrow> 0 < k \<Longrightarrow> length (show_hex n) \<le> k"
proof (induction n arbitrary: k rule: show_hex.induct)
  case (1 n)
  show ?case
  proof (cases "n < 16")
    case True
    with 1 show ?thesis by (simp add: show_hex.simps [of n])
  next
    case False
    then have "1 < k" using 1(2,3) by (cases "k = 1") auto
    then obtain j where j: "k = Suc j" "0 < j" by (cases k) auto
    with 1(2) have "n div 16 < 16 ^ j" by (simp add: less_mult_imp_div_less mult.commute)
    with 1(1) False j have "length (show_hex (n div 16)) \<le> j" by simp
    with False j show ?thesis by (simp add: show_hex.simps [of n])
  qed
qed

lemma HEXTET_show_hex: "n < 2 ^ 16 \<Longrightarrow> HEXTET (show_hex n)"
  using show_hex_length [of n 4] show_hex_chars
  by (auto simp: HEXTET_def list_all_iff Suc_le_eq)

section \<open>Finding the double colon\<close>

definition colon_free :: "string \<Rightarrow> bool" where
  "colon_free w \<longleftrightarrow> w \<noteq> [] \<and> CHR '':'' \<notin> set w"

lemma index_of_colon_free_append:
  "CHR '':'' \<notin> set w \<Longrightarrow> index_of ''::'' (w @ s) = map_option ((+) (length w)) (index_of ''::'' s)"
  by (induction w) (cases "index_of ''::'' s"; auto)+

lemma last_index_of_colon_free_append:
  "CHR '':'' \<notin> set w \<Longrightarrow>
     last_index_of ''::'' (w @ s) = map_option ((+) (length w)) (last_index_of ''::'' s)"
  by (induction w) (cases "last_index_of ''::'' s"; auto split: option.splits)+

lemma join_colon_free_hd:
  "\<forall>w\<in>set ws. colon_free w \<Longrightarrow> ws \<noteq> [] \<Longrightarrow>
     \<exists>c cs. join_with '':'' ws = c # cs \<and> c \<noteq> CHR '':''"
  by (induction "'':''" ws rule: join_with.induct)
     (auto simp: colon_free_def neq_Nil_conv)

lemma join_no_double_colon:
  assumes "\<forall>w\<in>set ws. colon_free w"
  shows "index_of ''::'' (join_with '':'' ws) = None" "last_index_of ''::'' (join_with '':'' ws) = None"
  using assms
proof (induction "'':''" ws rule: join_with.induct)
  case (2 w)
  {
    case 1 then show ?case using index_of_colon_free_append [of w "[]"] by (simp add: colon_free_def)
  next
    case 2 then show ?case using last_index_of_colon_free_append [of w "[]"] by (simp add: colon_free_def)
  }
next
  case (3 w v ws)
  {
    case 1
    then obtain c cs where "join_with '':'' (v # ws) = c # cs" "c \<noteq> CHR '':''"
      using join_colon_free_hd [of "v # ws"] by auto
    with 1 "3.hyps"(1) show ?case by (auto simp: index_of_colon_free_append colon_free_def)
  next
    case 2
    then obtain c cs where "join_with '':'' (v # ws) = c # cs" "c \<noteq> CHR '':''"
      using join_colon_free_hd [of "v # ws"] by auto
    with 2 "3.hyps"(2) show ?case by (auto simp: last_index_of_colon_free_append colon_free_def)
  }
qed simp_all

lemma double_colon_tail:
  assumes "\<forall>w\<in>set vs. colon_free w"
  shows "last_index_of ''::'' (''::'' @ join_with '':'' vs) = Some 0"
proof (cases "vs = []")
  case False
  then obtain c cs where "join_with '':'' vs = c # cs" "c \<noteq> CHR '':''"
    using join_colon_free_hd assms by blast
  then show ?thesis using join_no_double_colon(2) [OF assms] by simp
qed simp

lemma join_double_colon:
  assumes "\<forall>w\<in>set ws. colon_free w" "\<forall>w\<in>set vs. colon_free w"
  shows "index_of ''::'' (join_with '':'' ws @ ''::'' @ join_with '':'' vs) = Some (length (join_with '':'' ws))"
    "last_index_of ''::'' (join_with '':'' ws @ ''::'' @ join_with '':'' vs) = Some (length (join_with '':'' ws))"
  using assms(1)
proof (induction "'':''" ws rule: join_with.induct)
  case 1
  {
    case 1 show ?case by simp
  next
    case 2 show ?case using double_colon_tail [OF assms(2)] by simp
  }
next
  case (2 w)
  {
    case 1 then show ?case
      using index_of_colon_free_append [of w "''::'' @ join_with '':'' vs"] by (simp add: colon_free_def)
  next
    case 2 then show ?case
      using last_index_of_colon_free_append [of w "''::'' @ join_with '':'' vs"] double_colon_tail [OF assms(2)]
      by (simp add: colon_free_def)
  }
next
  case (3 w v ws)
  let ?r = "join_with '':'' (v # ws) @ ''::'' @ join_with '':'' vs"
  {
    case 1
    then obtain c cs where "?r = c # cs" "c \<noteq> CHR '':''"
      using join_colon_free_hd [of "v # ws"] by auto
    with 1 "3.hyps"(1) show ?case
      using index_of_colon_free_append [of w "CHR '':'' # ?r"] by (auto simp: colon_free_def)
  next
    case 2
    then obtain c cs where "?r = c # cs" "c \<noteq> CHR '':''"
      using join_colon_free_hd [of "v # ws"] by auto
    with 2 "3.hyps"(2) show ?case
      using last_index_of_colon_free_append [of w "CHR '':'' # ?r"] by (auto simp: colon_free_def)
  }
qed

section \<open>The canonical text reads back\<close>

lemma find_Some_nth: "find P xs = Some x \<Longrightarrow> P x \<and> x \<in> set xs"
  by (induction xs) (auto split: if_splits)

lemma run_zero:
  "drop c ps = replicate (run_len ps c) 0 @ drop (c + run_len ps c) ps"
proof -
  have "takeWhile (\<lambda>p. p = 0) (drop c ps) = replicate (run_len ps c) 0"
    unfolding run_len_def by (rule nth_equalityI) (auto dest: set_takeWhileD nth_mem)
  moreover have "dropWhile (\<lambda>p. p = 0) (drop c ps) = drop (c + run_len ps c) ps"
    by (simp add: run_len_def dropWhile_eq_drop add.commute)
  ultimately show ?thesis by (metis takeWhile_dropWhile_id)
qed

lemma compress_at_Some:
  assumes "compress_at ps = Some c"
  shows "2 \<le> run_len ps c" "c + run_len ps c \<le> length ps"
    "ps = take c ps @ replicate (run_len ps c) 0 @ drop (c + run_len ps c) ps"
proof -
  from assms have f: "find (\<lambda>i. run_len ps i = fold max (map (run_len ps) [0..<length ps]) 0) [0..<length ps] = Some c"
    "\<not> fold max (map (run_len ps) [0..<length ps]) 0 \<le> 1"
    by (auto simp: compress_at_def Let_def split: if_splits)
  then show "2 \<le> run_len ps c" using find_Some_nth [OF f(1)] by simp
  have "c < length ps" using find_Some_nth [OF f(1)] by simp
  moreover have "run_len ps c \<le> length (drop c ps)"
    unfolding run_len_def by (rule length_takeWhile_le)
  ultimately show "c + run_len ps c \<le> length ps" by simp
  show "ps = take c ps @ replicate (run_len ps c) 0 @ drop (c + run_len ps c) ps"
    using run_zero [of c ps] by (metis append_take_drop_id)
qed

lemma hex_words:
  assumes "list_all (\<lambda>p. p < 2 ^ 16) ps" "w \<in> set (map show_hex ps)"
  shows "colon_free w" "CHR ''.'' \<notin> set w" "CHR ''%'' \<notin> set w" "HEXTET w"
  using assms show_hex_chars HEXTET_show_hex
  by (auto simp: colon_free_def list_all_iff) (fastforce dest: show_hex_chars)+

lemma split_groups_join:
  assumes "\<forall>w\<in>set ws. colon_free w"
  shows "split_groups (join_with '':'' ws) = ws"
proof (cases "ws = []")
  case False
  then have "join_with '':'' ws \<noteq> []" using join_colon_free_hd [OF assms] by auto
  moreover have "split_on CHR '':'' (join_with '':'' ws) = ws"
    using assms False by (intro split_on_join) (auto simp: colon_free_def)
  ultimately show ?thesis by (simp add: split_groups_def)
qed (simp add: split_groups_def)

lemma join_not_suffix_colon:
  "\<forall>w\<in>set ws. colon_free w \<Longrightarrow> \<not> suffix '':'' (join_with '':'' ws)"
proof (induction "'':''" ws rule: join_with.induct)
  case (2 w)
  then show ?case by (auto simp: colon_free_def suffix_def)
next
  case (3 w v ws)
  then obtain c cs where "join_with '':'' (v # ws) = c # cs" "c \<noteq> CHR '':''"
    using join_colon_free_hd [of "v # ws"] by auto
  with 3 show ?case by (auto simp: suffix_Cons suffix_append)
qed simp

lemma join_not_prefix_colon:
  "\<forall>w\<in>set ws. colon_free w \<Longrightarrow> \<not> prefix '':'' (join_with '':'' ws)"
  using join_colon_free_hd [of ws] by (cases "ws = []") auto

lemma isIPv6_compressed:
  assumes ws: "\<forall>w\<in>set hs. colon_free w \<and> CHR ''.'' \<notin> set w \<and> HEXTET w"
      "\<forall>w\<in>set ts. colon_free w \<and> CHR ''.'' \<notin> set w \<and> HEXTET w"
    and len: "length hs + length ts \<le> 7"
    and s: "s = join_with '':'' hs @ ''::'' @ join_with '':'' ts" and pc: "CHR ''%'' \<notin> set s"
  shows "isIPv6 s" "expand_groups s = hs @ replicate (8 - length hs - length ts) ''0'' @ ts"
proof -
  have cf: "\<forall>w\<in>set hs. colon_free w" "\<forall>w\<in>set ts. colon_free w" using ws by auto
  note ix = join_double_colon [OF cf, folded s]
  have sg: "split_groups (take (length (join_with '':'' hs)) s) = hs"
    "split_groups (drop (length (join_with '':'' hs) + 2) s) = ts"
    using cf by (simp_all add: s split_groups_join)
  have ht: "head_tail s = Some (hs, ts)"
    unfolding head_tail_def ix(1) option.case Let_def sg
    using join_not_suffix_colon [OF cf(1)] join_not_prefix_colon [OF cf(2)]
    by (simp add: s)
  have z: "strip_zone s = Some s"
    using pc by (simp add: strip_zone_def iffD2 [OF index_of_char_None])
  have "CHR ''.'' \<notin> set (last (hs @ ts))" if "hs @ ts \<noteq> []"
    using ws last_in_set [OF that] by auto
  then show "isIPv6 s"
    using ws len unfolding isIPv6_def z option.case Let_def ix ht
    by (auto simp: list_all_iff)
  show "expand_groups s = hs @ replicate (8 - length hs - length ts) ''0'' @ ts"
    unfolding expand_groups_def ix(1) option.case Let_def sg by simp
qed

lemma isIPv6_full:
  assumes ws: "\<forall>w\<in>set hs. colon_free w \<and> CHR ''.'' \<notin> set w \<and> HEXTET w"
    and len: "length hs = 8"
    and s: "s = join_with '':'' hs" and pc: "CHR ''%'' \<notin> set s"
  shows "isIPv6 s" "expand_groups s = hs"
proof -
  have cf: "\<forall>w\<in>set hs. colon_free w" using ws by auto
  note ix = join_no_double_colon [OF cf, folded s]
  have ne: "hs \<noteq> []" using len by auto
  have sp: "split_on CHR '':'' s = hs"
    unfolding s using ne cf by (intro split_on_join) (auto simp: colon_free_def)
  have ht: "head_tail s = Some (hs, [])" by (simp add: head_tail_def ix(1) sp)
  have z: "strip_zone s = Some s"
    using pc by (simp add: strip_zone_def iffD2 [OF index_of_char_None])
  have "CHR ''.'' \<notin> set (last hs)" using ws last_in_set [OF ne] by auto
  then show "isIPv6 s"
    using ws len ne unfolding isIPv6_def z option.case Let_def ix ht
    by (auto simp: list_all_iff)
  show "expand_groups s = hs"
    by (simp add: expand_groups_def ix(1) sp len)
qed

lemma show_hex_0: "show_hex 0 = ''0''"
  by code_simp

lemma serialize_chars:
  "c \<in> set (serialize_ipv6 ps) \<Longrightarrow> c = CHR '':'' \<or> (is_hex c \<and> cu c \<noteq> 46 \<and> cu c \<noteq> 37)"
  unfolding serialize_ipv6_def
  by (auto split: option.splits dest!: subsetD [OF set_join_with] show_hex_chars)

lemma serialize_reads_back:
  assumes len: "length ps = 8" and small: "list_all (\<lambda>p. p < 2 ^ 16) ps"
  shows "ipVersion (serialize_ipv6 ps) = 6"
    "map hex_val (expand_groups (serialize_ipv6 ps)) = ps"
proof -
  let ?s = "serialize_ipv6 ps"
  have chars: "CHR ''%'' \<notin> set ?s" "CHR ''.'' \<notin> set ?s"
    using serialize_chars by fastforce+
  have not4: "\<not> isIPv4 ?s" using chars(2) by (simp add: isIPv4_def split_on_no_sep)
  have sub: "\<forall>w\<in>set (map show_hex qs). colon_free w \<and> CHR ''.'' \<notin> set w \<and> HEXTET w"
    if "set qs \<subseteq> set ps" for qs
  proof -
    have "list_all (\<lambda>p. p < 2 ^ 16) qs" using that small by (auto simp: list_all_iff)
    then show ?thesis using hex_words [of qs] by blast
  qed
  have "isIPv6 ?s \<and> map hex_val (expand_groups ?s) = ps"
  proof (cases "compress_at ps")
    case None
    then have "?s = join_with '':'' (map show_hex ps)" by (simp add: serialize_ipv6_def)
    from isIPv6_full [OF sub _ this chars(1)] len show ?thesis by (simp add: comp_def)
  next
    case (Some c)
    note cs = compress_at_Some [OF Some]
    let ?h = "take c ps" and ?t = "drop (c + run_len ps c) ps"
    have s: "?s = join_with '':'' (map show_hex ?h) @ ''::'' @ join_with '':'' (map show_hex ?t)"
      using Some by (simp add: serialize_ipv6_def)
    have l: "length ?h + length ?t \<le> 7" "8 - length ?h - length ?t = run_len ps c"
      using cs(1,2) len by auto
    note e = isIPv6_compressed [OF sub sub _ s chars(1), simplified length_map, OF set_take_subset set_drop_subset l(1)]
    have "map hex_val (expand_groups ?s) = ?h @ replicate (run_len ps c) 0 @ ?t"
      unfolding e(2) l(2) by (simp add: comp_def flip: show_hex_0)
    with e(1) cs(3) show ?thesis by simp
  qed
  then show "ipVersion ?s = 6" "map hex_val (expand_groups ?s) = ps"
    using not4 by (simp_all add: ipVersion_def)
qed

lemma ipBits_serialize:
  assumes "length ps = 8" "list_all (\<lambda>p. p < 2 ^ 16) ps"
  shows "ipBits (serialize_ipv6 ps) = Some (6, shift_or 16 ps)"
proof -
  have chars: "CHR ''%'' \<notin> set (serialize_ipv6 ps)" "CHR ''.'' \<notin> set (serialize_ipv6 ps)"
    using serialize_chars by fastforce+
  then have "CHR ''.'' \<notin> set (drop i (serialize_ipv6 ps))" for i by (meson in_set_dropD)
  with chars serialize_reads_back [OF assms] show ?thesis
    by (simp add: ipBits_def Let_def v6_bits_def)
qed

lemma foldl_pieces:
  "foldl (\<lambda>acc g. push_bit k acc OR int g) a
     (map (\<lambda>i. nat (take_bit k (drop_bit (k * i) n))) (rev [0..<m])) =
   push_bit (k * m) a OR take_bit (k * m) n"
proof (induction m arbitrary: a)
  case (Suc m)
  have "push_bit (k * m) (push_bit k a OR take_bit k (drop_bit (k * m) n)) OR take_bit (k * m) n
      = push_bit (k * Suc m) a OR take_bit (k * Suc m) n"
    by (rule bit_eqI)
       (auto simp: bit_or_iff bit_push_bit_iff bit_take_bit_iff bit_drop_bit_eq not_le less_diff_conv2 add.commute [of "k * m" k])
  then show ?case by (simp add: Suc.IH)
qed simp

lemma shift_or_pieces:
  assumes "0 \<le> n" "n < 2 ^ 128"
  shows "shift_or 16 (pieces_of n) = n"
proof -
  have "pieces_of n = map (\<lambda>i. nat (take_bit 16 (drop_bit (16 * i) n))) (rev [0..<8])"
    by (simp add: pieces_of_def upt_rec)
  then have "shift_or 16 (pieces_of n) = take_bit 128 n"
    using foldl_pieces [of 16 0 n 8] by (simp only: shift_or_def) simp
  then show ?thesis using assms by (simp add: take_bit_int_eq_self)
qed

lemma pieces_small: "length (pieces_of n) = 8" "list_all (\<lambda>p. p < 2 ^ 16) (pieces_of n)"
proof -
  have "nat (take_bit 16 (x::int)) < 2 ^ 16" for x using take_bit_int_less_exp [of 16 x] by simp
  then show "length (pieces_of n) = 8" "list_all (\<lambda>p. p < 2 ^ 16) (pieces_of n)"
    by (simp_all add: pieces_of_def del: nat_less_numeral_power_cancel_iff)
qed

text \<open>Every 128-bit address survives its canonical text: reading what the URL serializer writes for
  the eight groups of a word (with the longest run of zero groups compressed) gives back an
  IPv6 address with that very number.\<close>

theorem ipv6_text_roundtrip:
  "ipBits (serialize_ipv6 (pieces_of (uint (w :: 128 word)))) = Some (6, uint w)"
  using ipBits_serialize [OF pieces_small] shift_or_pieces [of "uint w"] uint_lt2p [of w] by simp

end
