(* ===== verification/Ip_Numbers.thy ===== *)
theory Ip_Numbers
  imports Url_Ipv6
begin

text \<open>
  Facts on the numbers behind addresses that the socket and CIDR components share: every
  accepted address has a number within its family's width, and two IPv4 texts with the same
  number are the same text (an IPv6 address has many texts, which is why
  \<open>Sockets.normalizeBind\<close> canonicalises).
\<close>

unbundle bit_operations_syntax

section \<open>Ranges\<close>

lemma shift_or_lt:
  "list_all (\<lambda>g. g < 2 ^ k) gs \<Longrightarrow> 0 \<le> a \<Longrightarrow> a < 2 ^ (k * j) \<Longrightarrow>
     0 \<le> foldl (\<lambda>acc g. push_bit k acc OR int g) a gs \<and>
     foldl (\<lambda>acc g. push_bit k acc OR int g) a gs < 2 ^ (k * (j + length gs))"
proof (induction gs arbitrary: a j)
  case (Cons g gs)
  have "push_bit k a < 2 ^ (k * Suc j)"
    using Cons.prems(2,3) by (simp add: push_bit_eq_mult power_add mult.commute)
  moreover have "int g < 2 ^ (k * Suc j)"
  proof -
    have "g < 2 ^ k" using Cons.prems(1) by simp
    then have "int g < int (2 ^ k)" by (simp only: of_nat_less_iff)
    also have "int (2 ^ k) = 2 ^ k" by simp
    also have "(2::int) ^ k \<le> 2 ^ (k * Suc j)" by (rule power_increasing) simp_all
    finally show ?thesis .
  qed
  ultimately have "push_bit k a OR int g < 2 ^ (k * Suc j)" "0 \<le> push_bit k a OR int g"
    using Cons.prems(2) by (auto intro: OR_upper)
  then show ?case
    using Cons.IH [of "push_bit k a OR int g" "Suc j"] Cons.prems(1) by simp
qed simp


lemma shift_or_range:
  assumes "list_all (\<lambda>g. g < 2 ^ k) gs"
  shows "0 \<le> shift_or k gs" "shift_or k gs < 2 ^ (k * length gs)"
  using shift_or_lt [OF assms, of 0 0] by (simp_all add: shift_or_def)

lemma dec_val_bound: "list_all is_digit s \<Longrightarrow> dec_val s < 10 ^ length s"
proof (induction s rule: rev_induct)
  case (snoc c s)
  then have "digit_val c < 10" by (auto simp: digit_val_def is_digit_def)
  with snoc show ?case by (simp add: dec_val_snoc)
qed simp

lemma v4_bits_range:
  assumes "isIPv4 a"
  shows "0 \<le> v4_bits a" "v4_bits a < 2 ^ 32"
proof -
  from assms have "list_all (\<lambda>g. g < 2 ^ 8) (map dec_val (split_on CHR ''.'' a))"
    "length (split_on CHR ''.'' a) = 4"
    by (auto simp: isIPv4_def Let_def list_all_iff)
  with shift_or_range [of 8 "map dec_val (split_on CHR ''.'' a)"]
  show "0 \<le> v4_bits a" "v4_bits a < 2 ^ 32" by (simp_all add: v4_bits_def)
qed

lemma HEXTET_small: "HEXTET p \<Longrightarrow> hex_val p < 2 ^ 16"
proof -
  have b: "list_all is_hex s \<Longrightarrow> hex_val s < 16 ^ length s" for s
  proof (induction s rule: rev_induct)
    case (snoc c s)
    then have "hex_digit_val c < 16"
      by (auto simp: hex_digit_val_def char_class_defs split: if_splits)
    with snoc show ?case by (simp add: hex_val_snoc)
  qed (simp add: hex_val_def)
  assume "HEXTET p"
  then have "hex_val p < 16 ^ length p" "length p \<le> 4" using b by (auto simp: HEXTET_def)
  moreover have "(16::nat) ^ length p \<le> 16 ^ 4" by (rule power_increasing) (use calculation in auto)
  ultimately show ?thesis by simp
qed

lemma expand_groups_head_tail:
  "head_tail a = Some (h, t) \<Longrightarrow> expand_groups a = h @ replicate (8 - length h - length t) ''0'' @ t"
  by (auto simp: head_tail_def expand_groups_def Let_def split: option.splits if_splits)

lemma split_on_sep_append: "split_on d (p @ d # w) = split_on d p @ split_on d w"
  by (induction p) (auto split: list.splits)

lemma index_of_tail_irrelevant:
  assumes "index_of ''::'' w = None" "w = c # cs" "c \<noteq> CHR '':''"
    and "index_of ''::'' w' = None" "w' = c' # cs'" "c' \<noteq> CHR '':''"
  shows "index_of ''::'' (p @ CHR '':'' # w) = index_of ''::'' (p @ CHR '':'' # w')"
proof (induction p)
  case Nil
  with assms show ?case by auto
next
  case (Cons x p)
  then show ?case by (cases p) auto
qed


lemma last_colon_split:
  assumes "last_index_of '':'' s = Some k"
  shows "s = take k s @ CHR '':'' # drop (Suc k) s" "CHR '':'' \<notin> set (drop (Suc k) s)" "k < length s"
  using assms
proof (induction s arbitrary: k)
  case (Cons c s)
  {
    case 1 then show ?case using Cons.IH by (auto split: option.splits if_splits)
  next
    case 2 then show ?case using Cons.IH last_index_of_char_None [of "CHR '':''" s]
      by (auto split: option.splits if_splits)
  next
    case 3 then show ?case using Cons.IH by (auto split: option.splits if_splits)
  }
qed simp_all

lemma index_of_double_colon_no_colon: "CHR '':'' \<notin> set w \<Longrightarrow> index_of ''::'' w = None"
  using index_of_colon_free_append [of w "[]"] by simp

lemma split_groups_tail:
  assumes "r = [] \<or> (\<exists>r'. r = r' @ '':'')" "CHR '':'' \<notin> set tp" "tp \<noteq> []"
  shows "\<exists>q. split_groups (r @ tp) = q @ [tp] \<and> split_groups (r @ ''0:0'') = q @ [''0'', ''0'']"
proof (cases "r = []")
  case True
  with assms show ?thesis by (simp add: split_groups_def split_on_no_sep)
next
  case False
  then obtain r' where r: "r = r' @ '':''" using assms by blast
  then have "split_groups (r @ w) = split_on CHR '':'' r' @ split_on CHR '':'' w" for w
    using split_on_sep_append [of "CHR '':''" r' w] by (simp add: split_groups_def)
  with assms show ?thesis by (simp add: split_on_no_sep)
qed

text \<open>Replacing the embedded IPv4 tail by two zero groups leaves the other groups alone.\<close>

lemma head_tail_embedded:
  assumes li: "last_index_of '':'' s = Some k" and tp: "drop (Suc k) s = tp" "tp \<noteq> []"
    and ht: "head_tail s = Some (h, t)"
  shows "\<exists>h' t'. head_tail (take (Suc k) s @ ''0:0'') = Some (h', t') \<and>
     index_of ''::'' (take (Suc k) s @ ''0:0'') = index_of ''::'' s \<and>
     h @ t = butlast (h @ t) @ [tp] \<and> h' @ t' = butlast (h @ t) @ [''0'', ''0''] \<and>
     (index_of ''::'' s \<noteq> None \<longrightarrow> h' = h \<and> t \<noteq> [])"
proof -
  let ?p = "take k s" and ?a = "take (Suc k) s @ ''0:0''"
  note ks = last_colon_split [OF li, unfolded tp]
  have a: "?a = ?p @ CHR '':'' # ''0:0''"
    using ks(3) tp by (simp add: take_Suc_conv_app_nth) (metis ks(1) nth_append_length length_take min.absorb2 less_imp_le)
  obtain c cs where tpc: "tp = c # cs" "c \<noteq> CHR '':''" using tp(2) ks(2) by (cases tp) auto
  have "index_of ''::'' (?p @ CHR '':'' # tp) = index_of ''::'' (?p @ CHR '':'' # ''0:0'')"
    using index_of_tail_irrelevant [OF index_of_double_colon_no_colon [OF ks(2)] tpc, of "''0:0''" "CHR ''0''" "'':0''" ?p]
    by simp
  then have ix: "index_of ''::'' ?a = index_of ''::'' s"
    unfolding a using ks(1) by metis
  show ?thesis
  proof (cases "index_of ''::'' s")
    case None
    have "h = split_on CHR '':'' ?p @ [tp]" "t = []"
      using ht None split_on_sep_append [of "CHR '':''" ?p tp] ks(1) split_on_no_sep [OF ks(2)]
      by (auto simp: head_tail_def)
    moreover have "head_tail ?a = Some (split_on CHR '':'' ?p @ [''0'', ''0''], [])"
      using ix None split_on_sep_append [of "CHR '':''" ?p "''0:0''"] by (simp add: head_tail_def a)
    ultimately show ?thesis using None ix by simp
  next
    case (Some d)
    have pre: "prefix ''::'' (drop d s)" using index_of_Some [OF Some] by blast
    have dk: "d + 2 \<le> Suc k"
    proof (rule ccontr)
      assume "\<not> d + 2 \<le> Suc k"
      then have "drop (Suc d) s = drop (d - k) (drop (Suc k) s)" by simp
      moreover have "CHR '':'' \<in> set (drop (Suc d) s)"
        using pre by (auto simp: prefix_def drop_Suc drop_tl)
      ultimately show False using ks(2) tp(1) by (metis in_set_dropD)
    qed
    let ?r = "drop (d + 2) (take (Suc k) s)"
    have s: "s = take (Suc k) s @ tp" using tp(1) by (metis append_take_drop_id)
    have r: "drop (d + 2) s = ?r @ tp" "drop (d + 2) ?a = ?r @ ''0:0''" "take d ?a = take d s"
    proof -
      have lp: "length (take (Suc k) s) = Suc k" using ks(3) by simp
      have "drop (d + 2) (take (Suc k) s @ w) = ?r @ w" for w
        using dk lp by (simp only: drop_append) simp
      then show "drop (d + 2) s = ?r @ tp" "drop (d + 2) ?a = ?r @ ''0:0''" using s by metis+
      have "take d ?a = take d (take (Suc k) s)" using dk lp by (simp only: take_append) simp
      then show "take d ?a = take d s" using dk by (simp add: min_def)
    qed
    have "?r = [] \<or> (\<exists>r'. ?r = r' @ '':'')"
    proof (cases "d + 2 = Suc k")
      case False
      with dk have "d + 2 \<le> k" by simp
      moreover have "take (Suc k) s = ?p @ '':''" using a by simp
      ultimately show ?thesis using ks(3) by simp
    qed simp
    from split_groups_tail [OF this ks(2) tp(2)] obtain q where
      q: "split_groups (?r @ tp) = q @ [tp]" "split_groups (?r @ ''0:0'') = q @ [''0'', ''0'']" by blast
    have ne: "\<not> suffix '':'' (take d s)" "\<not> prefix '':'' (?r @ tp)"
      and h: "h = split_groups (take d s)" "t = q @ [tp]"
      using ht Some r q by (auto simp: head_tail_def Let_def split: if_splits)
    have "\<not> prefix '':'' (?r @ ''0:0'')" using ne(2) by (cases ?r) auto
    then have "head_tail ?a = Some (h, q @ [''0'', ''0''])"
      unfolding head_tail_def ix Some option.case Let_def r using ne h q by simp
    with h ix Some show ?thesis by (auto simp: butlast_append)
  qed
qed

lemma expanded_small:
  assumes "list_all HEXTET hs" "length hs = 8"
  shows "0 \<le> shift_or 16 (map hex_val hs)" "shift_or 16 (map hex_val hs) < 2 ^ 128"
  using shift_or_range [of 16 "map hex_val hs"] assms HEXTET_small
  by (auto simp: list_all_iff)

lemma HEXTET_0: "HEXTET ''0''"
  by code_simp

lemma isIPv6_parts:
  assumes "isIPv6 s" "CHR ''%'' \<notin> set s"
  obtains h t all where "head_tail s = Some (h, t)" "all = h @ t"
    "all \<noteq> [] \<and> CHR ''.'' \<in> set (last all) \<Longrightarrow>
       (index_of ''::'' s = None \<or> t \<noteq> []) \<and> isIPv4 (last all) \<and> list_all HEXTET (butlast all) \<and>
       (if index_of ''::'' s \<noteq> None then length all \<le> 6 else length all = 7)"
    "\<not> (all \<noteq> [] \<and> CHR ''.'' \<in> set (last all)) \<Longrightarrow>
       list_all HEXTET all \<and> (if index_of ''::'' s \<noteq> None then length all \<le> 7 else length all = 8)"
proof -
  have z: "strip_zone s = Some s"
    using assms(2) by (simp add: strip_zone_def iffD2 [OF index_of_char_None])
  obtain h t where ht: "head_tail s = Some (h, t)"
    using isIPv6_embedded [OF assms] by blast
  define all where "all = h @ t"
  define d where "d = (index_of ''::'' s \<noteq> None)"
  have u: "if all \<noteq> [] \<and> CHR ''.'' \<in> set (last all) \<and> (d \<and> t = [] \<or> \<not> isIPv4 (last all)) then False
     else list_all HEXTET (if all \<noteq> [] \<and> CHR ''.'' \<in> set (last all) then butlast all else all) \<and>
       (if d then (if all \<noteq> [] \<and> CHR ''.'' \<in> set (last all) then length (if all \<noteq> [] \<and> CHR ''.'' \<in> set (last all) then butlast all else all) + 2 else length all) \<le> 7
        else (if all \<noteq> [] \<and> CHR ''.'' \<in> set (last all) then length (if all \<noteq> [] \<and> CHR ''.'' \<in> set (last all) then butlast all else all) + 2 else length all) = 8)"
    using assms(1) [unfolded isIPv6_def z option.case Let_def ht prod.case, folded all_def]
    unfolding d_def by (simp only: conj_assoc split: if_split_asm)
  show thesis
  proof (rule that [OF ht all_def])
    assume e: "all \<noteq> [] \<and> CHR ''.'' \<in> set (last all)"
    with u show "(index_of ''::'' s = None \<or> t \<noteq> []) \<and> isIPv4 (last all) \<and> list_all HEXTET (butlast all) \<and>
       (if index_of ''::'' s \<noteq> None then length all \<le> 6 else length all = 7)"
      by (cases "index_of ''::'' s") (simp_all add: d_def split: if_split_asm)
  next
    assume "\<not> (all \<noteq> [] \<and> CHR ''.'' \<in> set (last all))"
    with u show "list_all HEXTET all \<and> (if index_of ''::'' s \<noteq> None then length all \<le> 7 else length all = 8)"
      by (cases "index_of ''::'' s") (simp_all add: d_def split: if_split_asm)
  qed
qed

lemma v6_plain_range:
  assumes "isIPv6 s" "CHR ''%'' \<notin> set s" "CHR ''.'' \<notin> set (drop (after_last_colon s) s)"
  shows "0 \<le> v6_bits s \<and> v6_bits s < 2 ^ 128"
proof (rule isIPv6_parts [OF assms(1,2)], goal_cases)
  case (1 h t all)
  have "\<not> (all \<noteq> [] \<and> CHR ''.'' \<in> set (last all))"
    using 1(3) head_tail_last [OF 1(1)] assms(3) unfolding 1(2) by metis
  from 1(4) [OF this] have hx: "list_all HEXTET (h @ t)"
    "if index_of ''::'' s \<noteq> None then length (h @ t) \<le> 7 else length (h @ t) = 8"
    unfolding 1(2) by blast+
  have "t = [] \<or> index_of ''::'' s \<noteq> None" using 1(1) by (auto simp: head_tail_def)
  then have "list_all HEXTET (expand_groups s)" "length (expand_groups s) = 8"
    unfolding expand_groups_head_tail [OF 1(1)] using hx
    by (auto simp: list_all_iff HEXTET_0 split: if_splits)
  with expanded_small show ?case by (simp add: v6_bits_def)
qed

lemma v6_embedded_range:
  assumes "isIPv6 s" "CHR ''%'' \<notin> set s" "CHR ''.'' \<in> set (drop (after_last_colon s) s)" "\<not> isIPv4 s"
  shows "0 \<le> v6_bits (take (after_last_colon s) s @ ''0:0'') \<and>
    v6_bits (take (after_last_colon s) s @ ''0:0'') < 2 ^ 128"
proof (rule isIPv6_parts [OF assms(1,2)], goal_cases)
  case (1 h t all)
  let ?tp = "drop (after_last_colon s) s"
  have tp: "?tp \<noteq> []" using assms(3) by auto
  have or: "index_of ''::'' s = None \<or> t \<noteq> []"
    using head_tail_empty_tail [of s h] 1(1) tp by (metis option.exhaust)
  have ne: "h @ t \<noteq> []" using or 1(1) by (auto simp: head_tail_def)
  have last: "last (h @ t) = ?tp" using head_tail_last [OF 1(1) ne or] .
  from 1(3) assms(3) ne have emb: "isIPv4 ?tp" "list_all HEXTET (butlast (h @ t))"
    "if index_of ''::'' s \<noteq> None then length (h @ t) \<le> 6 else length (h @ t) = 7"
    unfolding 1(2) last by blast+
  obtain k where k: "last_index_of '':'' s = Some k"
    using emb(1) assms(4) by (cases "last_index_of '':'' s") (auto simp: after_last_colon_def)
  then have i: "after_last_colon s = Suc k" by (simp add: after_last_colon_def)
  from head_tail_embedded [OF k refl _ 1(1)] tp i obtain h' t' where
    e: "head_tail (take (Suc k) s @ ''0:0'') = Some (h', t')"
      "index_of ''::'' (take (Suc k) s @ ''0:0'') = index_of ''::'' s"
      "h' @ t' = butlast (h @ t) @ [''0'', ''0'']" by auto
  have len: "length (h' @ t') = length (h @ t) + 1" unfolding e(3) using ne by simp
  have hx: "list_all HEXTET (h' @ t')" unfolding e(3) using emb(2) by (simp add: HEXTET_0)
  have "t' = [] \<or> index_of ''::'' s \<noteq> None" using e(1,2) by (auto simp: head_tail_def)
  then have "list_all HEXTET (expand_groups (take (Suc k) s @ ''0:0''))"
      "length (expand_groups (take (Suc k) s @ ''0:0'')) = 8"
    unfolding expand_groups_head_tail [OF e(1)] using hx len emb(3)
    by (auto simp: list_all_iff HEXTET_0 split: if_splits)
  with expanded_small i show ?case by (simp add: v6_bits_def)
qed

lemma ipBits_range:
  assumes "ipBits a = Some (v, n)"
  shows "v = 4 \<and> isIPv4 a \<and> n = v4_bits a \<or> v = 6 \<and> isIPv6 a" "0 \<le> n" "n < 2 ^ cidr_width v" "CHR ''%'' \<notin> set a"
proof -
  have v: "v = ipVersion a" and pc: "CHR ''%'' \<notin> set a" and v0: "ipVersion a \<noteq> 0"
    using assms by (auto simp: ipBits_def Let_def ipVersion_def split: if_splits option.splits)
  show "CHR ''%'' \<notin> set a" by (rule pc)
  show "v = 4 \<and> isIPv4 a \<and> n = v4_bits a \<or> v = 6 \<and> isIPv6 a"
    using assms v v0 by (auto simp: ipBits_def Let_def ipVersion_def split: if_splits option.splits)
  have "0 \<le> n \<and> n < 2 ^ cidr_width v"
  proof (cases "isIPv4 a")
    case True
    with assms pc v v4_bits_range [OF True] show ?thesis
      by (auto simp: ipBits_def ipVersion_def cidr_width_def)
  next
    case False
    with v v0 have 6: "isIPv6 a" "v = 6" by (auto simp: ipVersion_def split: if_splits)
    show ?thesis
    proof (cases "CHR ''.'' \<in> set (drop (after_last_colon a) a)")
      case True
      then obtain low where low: "ipv4_low (drop (after_last_colon a) a) = Some low"
        and n: "n = (v6_bits (take (after_last_colon a) a @ ''0:0'') AND NOT 0xffffffff) OR low"
        using assms 6 False v0 pc
        by (auto simp: ipBits_def Let_def ipVersion_def split: if_splits option.splits)
      have "0 \<le> low" "low < 2 ^ 32"
        using low v4_bits_range by (auto simp: ipv4_low_def ipVersion_def split: if_splits)
      then have "0 \<le> low" "low < 2 ^ 128" by simp_all
      moreover have "0 \<le> v6_bits (take (after_last_colon a) a @ ''0:0'') AND NOT 0xffffffff"
        "v6_bits (take (after_last_colon a) a @ ''0:0'') AND NOT 0xffffffff < 2 ^ 128"
        using v6_embedded_range [OF 6(1) pc True False] AND_upper1 [of "v6_bits (take (after_last_colon a) a @ ''0:0'')"]
        by (auto intro: le_less_trans)
      ultimately show ?thesis
        using 6(2) OR_upper [of "v6_bits (take (after_last_colon a) a @ ''0:0'') AND NOT 0xffffffff" 128 low]
        by (simp add: n cidr_width_def)
    next
      case dot: False
      with assms 6 False v0 pc v6_plain_range [OF 6(1) pc dot] show ?thesis
        by (auto simp: ipBits_def Let_def ipVersion_def cidr_width_def split: if_splits)
    qed
  qed
  then show "0 \<le> n" "n < 2 ^ cidr_width v" by blast+
qed


section \<open>IPv4 texts are unique\<close>

lemma V4_OCTET_show: "V4_OCTET p \<Longrightarrow> p = show_nat (dec_val p)"
proof -
  have canon: "s \<noteq> [] \<Longrightarrow> list_all is_digit s \<Longrightarrow> hd s \<noteq> CHR ''0'' \<or> length s = 1 \<Longrightarrow> show_nat (dec_val s) = s" for s
  proof (induction s rule: rev_induct)
    case (snoc c s)
    have c: "digit_val c < 10" "digit_char (digit_val c) = c"
      using snoc.prems(2) by (auto simp: digit_val_def digit_char_def is_digit_def)
    show ?case
    proof (cases "s = []")
      case True
      with c show ?thesis by (simp add: dec_val_def show_nat.simps)
    next
      case False
      then have hd: "hd s \<noteq> CHR ''0''" using snoc.prems(3) by auto
      then have IH: "show_nat (dec_val s) = s" using snoc False by simp
      have "dec_val s \<noteq> 0"
      proof
        assume "dec_val s = 0"
        then have "s = ''0''" using IH by (simp add: show_nat.simps digit_char_0)
        with hd show False by simp
      qed
      with c IH show ?thesis
        by (subst show_nat.simps) (simp add: dec_val_snoc)
    qed
  qed simp
  have "show_nat (dec_val ''0'') = ''0''" by code_simp
  moreover assume "V4_OCTET p"
  ultimately show ?thesis using canon [of p] by (auto simp: V4_OCTET_def)
qed

lemma shift_or_inject:
  assumes "length gs = length hs" "list_all (\<lambda>g. g < 2 ^ k) gs" "list_all (\<lambda>g. g < 2 ^ k) hs"
    "shift_or k gs = shift_or k hs"
  shows "gs = hs"
  using assms
proof (induction gs arbitrary: hs rule: rev_induct)
  case (snoc g gs)
  then obtain hs' h where hs: "hs = hs' @ [h]" by (cases hs rule: rev_cases) auto
  have so: "shift_or k (xs @ [x]) = push_bit k (shift_or k xs) OR int x" for xs x
    by (simp add: shift_or_def)
  have low: "take_bit k (push_bit k z OR int x) = int x" "drop_bit k (push_bit k z OR int x) = z"
    if "x < 2 ^ k" for x and z :: int
  proof -
    have "int x < 2 ^ k" using that by (metis of_nat_less_iff of_nat_numeral of_nat_power)
    then have "take_bit k (int x) = int x" by (simp add: take_bit_int_eq_self)
    then show "take_bit k (push_bit k z OR int x) = int x" by (simp add: take_bit_push_bit)
    have "bit (int x) n \<Longrightarrow> n < k" for n
      using \<open>take_bit k (int x) = int x\<close> by (metis bit_take_bit_iff)
    then show "drop_bit k (push_bit k z OR int x) = z"
      by (intro bit_eqI) (auto simp: bit_drop_bit_eq bit_or_iff bit_push_bit_iff)
  qed
  from snoc.prems hs have gh: "g < 2 ^ k" "h < 2 ^ k"
    and e: "push_bit k (shift_or k gs) OR int g = push_bit k (shift_or k hs') OR int h"
    by (auto simp: so)
  then have "int g = int h" "shift_or k gs = shift_or k hs'" using low by metis+
  with snoc hs show ?case by simp
qed simp

lemma isIPv4_numbers_eq:
  assumes "isIPv4 a" "isIPv4 b" "v4_bits a = v4_bits b"
  shows "a = b"
proof -
  let ?p = "split_on CHR ''.''"
  have parts: "length (?p x) = 4 \<and> list_all (\<lambda>g. g < 2 ^ 8) (map dec_val (?p x)) \<and>
      ?p x = map show_nat (map dec_val (?p x))" if "isIPv4 x" for x
    using that V4_OCTET_show by (auto simp: isIPv4_def Let_def list_all_iff map_idI)
  have "map dec_val (?p a) = map dec_val (?p b)"
    using parts [OF assms(1)] parts [OF assms(2)] assms(3)
    by (intro shift_or_inject [of _ _ 8]) (simp_all add: v4_bits_def)
  then have "?p a = ?p b" using parts [OF assms(1)] parts [OF assms(2)] by metis
  then show ?thesis using join_split_on by metis
qed

end
