(* ===== verification/Sockets.thy ===== *)
theory Sockets
  imports Ip_Numbers "HOL-Library.Char_ord" "HOL-Library.List_Lexorder" "HOL-Library.Product_Lexorder"
    "HOL-Library.Multiset"
begin

text \<open>
  Model of \<^verbatim>\<open>src/src/validate/sockets.ts\<close>: transports, bind addresses and their canonical
  form, loopback binds, the overlap of two socket reservations and the list of conflicts.
  \<^verbatim>\<open>Result\<close> of \<^verbatim>\<open>src/src/validate/result.ts\<close> is a sum with the error code on the left;
  message texts are left out.

  The lemmas show that overlap is a symmetric, irreflexive relation that only depends on the
  numbers of the two addresses, and that the reported conflicts are exactly the overlapping
  pairs, in an order that does not depend on the order of the input.
\<close>

section \<open>Results\<close>

datatype err_code =
    invalid_host
  | invalid_host_pattern
  | invalid_header_name
  | invalid_header_value
  | invalid_hash_key
  | invalid_bind_address
  | invalid_path_prefix

type_synonym 'a result = "err_code + 'a"

section \<open>Protocols and transports\<close>

datatype listener_protocol = L_http | L_https | L_tls_passthrough | L_tcp | L_udp

datatype transport = Tcp | Udp

definition TCP_ONLY :: "transport list" where "TCP_ONLY = [Tcp]"
definition UDP_ONLY :: "transport list" where "UDP_ONLY = [Udp]"

definition transportsOf :: "listener_protocol \<Rightarrow> transport list" where
  "transportsOf protocol = (if protocol = L_udp then UDP_ONLY else TCP_ONLY)"

definition transportOf :: "listener_protocol \<Rightarrow> transport" where
  "transportOf protocol = transportsOf protocol ! 0"

definition transportSetsOverlap :: "transport list \<Rightarrow> transport list \<Rightarrow> bool" where
  "transportSetsOverlap a b = list_ex (\<lambda>t. t \<in> set a) b"

definition sharesTransport :: "listener_protocol \<Rightarrow> listener_protocol \<Rightarrow> bool" where
  "sharesTransport a b = transportSetsOverlap (transportsOf a) (transportsOf b)"

section \<open>Bind addresses\<close>

datatype family = V4 | V6

record bind_address =
  ba_family :: family
  ba_addr :: string
  ba_wildcard :: bool

record socket_reservation =
  sr_key :: string
  sr_protocol :: listener_protocol
  sr_bind :: string
  sr_port :: nat

record socket_conflict =
  sc_a :: string
  sc_b :: string

text \<open>\<^verbatim>\<open>/^::ffff:(\d{1,3}\.\d{1,3}\.\d{1,3}\.\d{1,3})$/i\<close>, with its capture.\<close>

definition V4_MAPPED :: "string \<Rightarrow> string option" where
  "V4_MAPPED input =
     (let r = drop 7 input; parts = split_on CHR ''.'' r in
      if map lower_char (take 7 input) = ''::ffff:'' \<and> length parts = 4 \<and>
         list_all (\<lambda>p. 1 \<le> length p \<and> length p \<le> 3 \<and> list_all is_digit p) parts
      then Some r else None)"

definition bind_candidate :: "string \<Rightarrow> string" where
  "bind_candidate input = (case V4_MAPPED input of Some m \<Rightarrow> m | None \<Rightarrow> input)"

definition normalizeBind :: "string \<Rightarrow> bind_address result" where
  "normalizeBind input =
     (if input = [] then Inl invalid_bind_address
      else (let candidate = bind_candidate input; version = ipVersion candidate in
        if version = 4 then
          Inr \<lparr>ba_family = V4, ba_addr = candidate, ba_wildcard = (candidate = ''0.0.0.0'')\<rparr>
        else if version = 6 then
          (case url_ipv6_hostname candidate of
             None \<Rightarrow> Inl invalid_bind_address
           | Some canonical \<Rightarrow>
               Inr \<lparr>ba_family = V6, ba_addr = canonical, ba_wildcard = (canonical = ''::'')\<rparr>)
        else Inl invalid_bind_address))"

definition isLoopbackBind :: "string \<Rightarrow> bool" where
  "isLoopbackBind input =
     (case normalizeBind input of
        Inl _ \<Rightarrow> False
      | Inr b \<Rightarrow>
          (if ba_wildcard b then False
           else if ba_family b = V4 then prefix ''127.'' (ba_addr b) else ba_addr b = ''::1''))"

section \<open>Overlap\<close>

datatype nginx_context = Ctx_http | Ctx_stream

definition nginx_context_of :: "listener_protocol \<Rightarrow> nginx_context option" where
  "nginx_context_of p =
     (if p = L_http \<or> p = L_https then Some Ctx_http
      else if p = L_tcp \<or> p = L_tls_passthrough then Some Ctx_stream else None)"

definition sharesWildcardSocket :: "listener_protocol \<Rightarrow> listener_protocol \<Rightarrow> bool" where
  "sharesWildcardSocket a b =
     (let ca = nginx_context_of a in ca \<noteq> None \<and> ca = nginx_context_of b)"

definition socketsOverlap :: "socket_reservation \<Rightarrow> socket_reservation \<Rightarrow> bool" where
  "socketsOverlap a b =
     (if sr_key a = sr_key b then False
      else if sr_port a \<noteq> sr_port b then False
      else if \<not> sharesTransport (sr_protocol a) (sr_protocol b) then False
      else (case (normalizeBind (sr_bind a), normalizeBind (sr_bind b)) of
          (Inr x, Inr y) \<Rightarrow>
            (if ba_family x \<noteq> ba_family y then False
             else if ba_wildcard x \<and> ba_wildcard y then True
             else if \<not> ba_wildcard x \<and> \<not> ba_wildcard y then ba_addr x = ba_addr y
             else \<not> sharesWildcardSocket (sr_protocol a) (sr_protocol b))
        | _ \<Rightarrow> False))"

fun conflict_pairs :: "socket_reservation list \<Rightarrow> socket_conflict list" where
  "conflict_pairs [] = []"
| "conflict_pairs (a # rest) =
     map (\<lambda>b. \<lparr>sc_a = sr_key a, sc_b = sr_key b\<rparr>) (filter (socketsOverlap a) rest)
     @ conflict_pairs rest"

definition findSocketConflicts :: "socket_reservation list \<Rightarrow> socket_conflict list" where
  "findSocketConflicts reservations = conflict_pairs (sort_key sr_key reservations)"

section \<open>The canonical form\<close>

lemma transportOf_in: "transportOf p \<in> set (transportsOf p)"
  by (simp add: transportOf_def transportsOf_def TCP_ONLY_def UDP_ONLY_def)

lemma sharesTransport_iff: "sharesTransport a b \<longleftrightarrow> transportOf a = transportOf b"
  by (simp add: sharesTransport_def transportSetsOverlap_def transportOf_def transportsOf_def
      TCP_ONLY_def UDP_ONLY_def)

definition bind_number :: "string \<Rightarrow> (nat \<times> int) option" where
  "bind_number s = ipBits (bind_candidate s)"

definition family_version :: "family \<Rightarrow> nat" where
  "family_version f = (case f of V4 \<Rightarrow> 4 | V6 \<Rightarrow> 6)"

text \<open>
  What the operating system sees of two reservations: one port, one transport, addresses of
  one family, and the addresses equal as numbers - or one of them the wildcard, unless the
  proxy itself puts the two behind one wildcard socket.
\<close>

definition same_socket :: "socket_reservation \<Rightarrow> socket_reservation \<Rightarrow> bool" where
  "same_socket a b \<longleftrightarrow> sr_port a = sr_port b \<and>
     transportOf (sr_protocol a) = transportOf (sr_protocol b) \<and>
     (\<exists>v n m. bind_number (sr_bind a) = Some (v, n) \<and> bind_number (sr_bind b) = Some (v, m) \<and>
        (n = m \<or> (n = 0 \<or> m = 0) \<and> \<not> sharesWildcardSocket (sr_protocol a) (sr_protocol b)))"

lemma zero_v4: "isIPv4 ''0.0.0.0''" "v4_bits ''0.0.0.0'' = 0"
  by code_simp+

lemma zero_v6: "serialize_ipv6 (pieces_of 0) = ''::''" "ipBits ''::'' = Some (6, 0)"
  by code_simp+

lemma ipBits_canonical:
  assumes "ipBits a = Some (6, n)"
  shows "ipBits (serialize_ipv6 (pieces_of n)) = Some (6, n)"
  using ipBits_range [OF assms] ipBits_serialize [OF pieces_small] shift_or_pieces [of n]
  by (simp add: cidr_width_def)

lemma isIPv4_chars:
  assumes "isIPv4 s" "c \<in> set s"
  shows "is_digit c \<or> c = CHR ''.''"
proof -
  have zero: "is_digit CHR ''0''" by (simp add: is_digit_def)
  have "V4_OCTET w \<Longrightarrow> list_all is_digit w" for w
    using zero by (auto simp: V4_OCTET_def)
  with assms(1) have d: "\<forall>w\<in>set (split_on CHR ''.'' s). \<forall>x\<in>set w. is_digit x"
    by (auto simp: isIPv4_def Let_def list_all_iff)
  have "c \<in> set (join_with ''.'' (split_on CHR ''.'' s))"
    using assms(2) by (simp add: join_split_on)
  then have "c \<in> \<Union> (set ` set (split_on CHR ''.'' s)) \<union> {CHR ''.''}"
    using set_join_with [of "''.''" "split_on CHR ''.'' s"] by auto
  with d show ?thesis by blast
qed

lemma bind_number_None: "bind_number s = None \<longleftrightarrow> (\<exists>e. normalizeBind s = Inl e)"
proof (cases "ipBits (bind_candidate s)")
  case None
  have "ipVersion (bind_candidate s) \<noteq> 4"
  proof
    assume v4: "ipVersion (bind_candidate s) = 4"
    then have "isIPv4 (bind_candidate s)" by (simp add: ipVersion_def split: if_splits)
    then have "CHR ''%'' \<notin> set (bind_candidate s)"
      using isIPv4_chars [of "bind_candidate s" "CHR ''%''"] by (auto simp: is_digit_def)
    with v4 None show False by (simp add: ipBits_def)
  qed
  with None show ?thesis by (simp add: bind_number_def normalizeBind_def Let_def url_ipv6_hostname_def)
next
  case (Some vn)
  obtain v n where vn: "vn = (v, n)" by force
  note r = ipBits_range [OF Some [unfolded vn]]
  have ne: "s \<noteq> []"
  proof
    assume "s = []"
    then have "bind_candidate s = []" by (simp add: bind_candidate_def V4_MAPPED_def)
    moreover have "ipBits [] = None" by code_simp
    ultimately show False using Some by simp
  qed
  have "ipVersion (bind_candidate s) = v"
    using Some vn by (auto simp: ipBits_def Let_def ipVersion_def split: if_splits option.splits)
  with ne Some vn r(1) show ?thesis
    by (auto simp: bind_number_def normalizeBind_def Let_def url_ipv6_hostname_def)
qed

lemma normalizeBind_number:
  assumes "normalizeBind s = Inr x"
  obtains n where "bind_number s = Some (family_version (ba_family x), n)"
    "ba_wildcard x \<longleftrightarrow> n = 0"
    "ba_family x = V4 \<Longrightarrow> isIPv4 (ba_addr x) \<and> n = v4_bits (ba_addr x)"
    "ba_family x = V6 \<Longrightarrow> ipBits (ba_addr x) = Some (6, n) \<and> ba_addr x = serialize_ipv6 (pieces_of n)"
proof -
  from assms bind_number_None [of s] obtain v n where b: "bind_number s = Some (v, n)"
    by (cases "bind_number s") auto
  note r = ipBits_range [OF b [unfolded bind_number_def]]
  have ver: "ipVersion (bind_candidate s) = v"
    using b by (auto simp: bind_number_def ipBits_def Let_def ipVersion_def split: if_splits option.splits)
  from r(1) show thesis
  proof
    assume v: "v = 4 \<and> isIPv4 (bind_candidate s) \<and> n = v4_bits (bind_candidate s)"
    with assms ver have x: "x = \<lparr>ba_family = V4, ba_addr = bind_candidate s, ba_wildcard = (bind_candidate s = ''0.0.0.0'')\<rparr>"
      by (auto simp: normalizeBind_def Let_def split: if_splits)
    have "bind_candidate s = ''0.0.0.0'' \<longleftrightarrow> n = 0"
      using v isIPv4_numbers_eq [of "bind_candidate s" "''0.0.0.0''"] zero_v4 by auto
    then show thesis
      by (intro that [of n]) (simp_all add: v b x family_version_def)
  next
    assume v: "v = 6 \<and> isIPv6 (bind_candidate s)"
    with assms ver b have x: "x = \<lparr>ba_family = V6, ba_addr = serialize_ipv6 (pieces_of n), ba_wildcard = (serialize_ipv6 (pieces_of n) = ''::'')\<rparr>"
      by (auto simp: normalizeBind_def Let_def url_ipv6_hostname_def bind_number_def split: if_splits)
    have c: "ipBits (serialize_ipv6 (pieces_of n)) = Some (6, n)"
      using ipBits_canonical b v by (simp add: bind_number_def)
    then have "serialize_ipv6 (pieces_of n) = ''::'' \<longleftrightarrow> n = 0"
      using zero_v6 by auto
    then show thesis
      by (intro that [of n]) (simp_all add: v b x c family_version_def)
  qed
qed

lemma normalizeBind_addr_eq:
  assumes "normalizeBind s = Inr x" "normalizeBind t = Inr y" "ba_family x = ba_family y"
  shows "ba_addr x = ba_addr y \<longleftrightarrow> bind_number s = bind_number t"
proof -
  obtain n where n: "bind_number s = Some (family_version (ba_family x), n)"
    "ba_family x = V4 \<Longrightarrow> isIPv4 (ba_addr x) \<and> n = v4_bits (ba_addr x)"
    "ba_family x = V6 \<Longrightarrow> ipBits (ba_addr x) = Some (6, n) \<and> ba_addr x = serialize_ipv6 (pieces_of n)"
    using normalizeBind_number [OF assms(1)] by blast
  obtain m where m: "bind_number t = Some (family_version (ba_family y), m)"
    "ba_family y = V4 \<Longrightarrow> isIPv4 (ba_addr y) \<and> m = v4_bits (ba_addr y)"
    "ba_family y = V6 \<Longrightarrow> ipBits (ba_addr y) = Some (6, m) \<and> ba_addr y = serialize_ipv6 (pieces_of m)"
    using normalizeBind_number [OF assms(2)] by blast
  show ?thesis
    using n m assms(3) isIPv4_numbers_eq [of "ba_addr x" "ba_addr y"]
    by (cases "ba_family x") auto
qed

lemma socketsOverlap_iff:
  "socketsOverlap a b \<longleftrightarrow> sr_key a \<noteq> sr_key b \<and> same_socket a b"
proof (cases "\<exists>x y. normalizeBind (sr_bind a) = Inr x \<and> normalizeBind (sr_bind b) = Inr y")
  case False
  then have "bind_number (sr_bind a) = None \<or> bind_number (sr_bind b) = None"
    unfolding bind_number_None by (metis sumE)
  with False show ?thesis
    by (auto simp: socketsOverlap_def same_socket_def split: sum.splits)
next
  case True
  then obtain x y where xy: "normalizeBind (sr_bind a) = Inr x" "normalizeBind (sr_bind b) = Inr y" by blast
  obtain n where n: "bind_number (sr_bind a) = Some (family_version (ba_family x), n)" "ba_wildcard x \<longleftrightarrow> n = 0"
    using normalizeBind_number [OF xy(1)] by blast
  obtain m where m: "bind_number (sr_bind b) = Some (family_version (ba_family y), m)" "ba_wildcard y \<longleftrightarrow> m = 0"
    using normalizeBind_number [OF xy(2)] by blast
  have fam: "family_version (ba_family x) = family_version (ba_family y) \<longleftrightarrow> ba_family x = ba_family y"
    by (cases "ba_family x"; cases "ba_family y") (simp_all add: family_version_def)
  show ?thesis
  proof (cases "ba_family x = ba_family y")
    case False
    with n m fam xy show ?thesis by (simp add: socketsOverlap_def same_socket_def)
  next
    case True
    have "ba_addr x = ba_addr y \<longleftrightarrow> n = m"
      using normalizeBind_addr_eq [OF xy True] n m True by simp
    with n m xy True show ?thesis
      by (auto simp: socketsOverlap_def same_socket_def sharesTransport_iff)
  qed
qed

lemma sharesWildcardSocket_sym: "sharesWildcardSocket a b = sharesWildcardSocket b a"
  by (metis sharesWildcardSocket_def)

lemma socketsOverlap_sym: "socketsOverlap a b = socketsOverlap b a"
proof -
  have "socketsOverlap b a" if "socketsOverlap a b" for a b
    using that sharesWildcardSocket_sym [of "sr_protocol a" "sr_protocol b"]
    unfolding socketsOverlap_iff same_socket_def by metis
  then show ?thesis by metis
qed

lemma conflict_pairs_mem:
  "sorted (map sr_key rs) \<Longrightarrow> distinct (map sr_key rs) \<Longrightarrow>
   \<lparr>sc_a = k, sc_b = l\<rparr> \<in> set (conflict_pairs rs) \<longleftrightarrow>
     k < l \<and> (\<exists>a\<in>set rs. \<exists>b\<in>set rs. sr_key a = k \<and> sr_key b = l \<and> socketsOverlap a b)"
proof (induction rs)
  case (Cons r rs)
  have lt: "\<forall>b\<in>set rs. sr_key r < sr_key b" using Cons.prems by (auto simp: less_le)
  have self: "\<not> socketsOverlap r r" by (simp add: socketsOverlap_def)
  have ih: "\<lparr>sc_a = k, sc_b = l\<rparr> \<in> set (conflict_pairs rs) \<longleftrightarrow>
     k < l \<and> (\<exists>a\<in>set rs. \<exists>b\<in>set rs. sr_key a = k \<and> sr_key b = l \<and> socketsOverlap a b)"
    using Cons by simp
  have hd: "\<lparr>sc_a = k, sc_b = l\<rparr> \<in> set (conflict_pairs (r # rs)) \<longleftrightarrow>
      (sr_key r = k \<and> (\<exists>b\<in>set rs. sr_key b = l \<and> socketsOverlap r b)) \<or>
      \<lparr>sc_a = k, sc_b = l\<rparr> \<in> set (conflict_pairs rs)"
    by auto
  show ?case unfolding hd ih using lt self by (auto dest: less_asym)
qed simp

lemma mset_sort_key_eq:
  assumes "mset xs = mset ys" "inj_on f (set ys)"
  shows "sort_key f xs = sort_key f ys"
proof (rule properties_for_sort_key)
  have s: "set xs = set ys" using assms(1) by (rule mset_eq_setD)
  show "mset (sort_key f ys) = mset xs" using assms(1) by simp
  show "sorted (map f (sort_key f ys))" by simp
  fix k assume "k \<in> set (sort_key f ys)"
  then have k: "k \<in> set ys" by simp
  have one: "filter (\<lambda>x. f k = f x) zs = replicate (count (mset zs) k) k" if "set zs = set ys" for zs
  proof -
    have "filter (\<lambda>x. f k = f x) zs = filter (\<lambda>x. k = x) zs"
      using that assms(2) k by (intro filter_cong) (auto dest: inj_onD)
    also have "filter (\<lambda>x. k = x) zs = replicate (count (mset zs) k) k" for zs :: "'a list"
      by (induction zs) auto
    finally show ?thesis .
  qed
  show "filter (\<lambda>x. f k = f x) (sort_key f ys) = filter (\<lambda>x. f k = f x) xs"
    using one [of "sort_key f ys"] one [of xs] s assms(1) by simp
qed

text \<open>C18: The socket conflicts reported for reservations with distinct keys are exactly the pairs
  that claim the same socket by address number, port and transport, each pair once in key
  order: no conflict is missed and none is invented.\<close>

theorem findSocketConflicts_exact:
  assumes "distinct (map sr_key rs)"
  shows "\<lparr>sc_a = k, sc_b = l\<rparr> \<in> set (findSocketConflicts rs) \<longleftrightarrow>
     k < l \<and> (\<exists>a\<in>set rs. \<exists>b\<in>set rs. sr_key a = k \<and> sr_key b = l \<and> same_socket a b)"
proof -
  have "distinct (map sr_key (sort_key sr_key rs))"
    using assms by (simp add: distinct_map)
  then show ?thesis
    unfolding findSocketConflicts_def using conflict_pairs_mem [of "sort_key sr_key rs"]
    by (simp add: socketsOverlap_iff) (metis order_less_irrefl)
qed

text \<open>The list of socket conflicts does not depend on the order in which the reservations are
  given.\<close>

theorem findSocketConflicts_order:
  assumes "mset rs = mset rs'" "distinct (map sr_key rs)"
  shows "findSocketConflicts rs = findSocketConflicts rs'"
proof -
  have set: "set rs = set rs'" using assms(1) by (rule mset_eq_setD)
  have inj: "inj_on sr_key (set rs)" using assms(2) by (simp add: distinct_map)
  have "sort_key sr_key rs = sort_key sr_key rs'"
    using assms(1) inj unfolding set by (rule mset_sort_key_eq)
  then show ?thesis by (simp add: findSocketConflicts_def)
qed

definition sample_reservations :: "socket_reservation list" where
  "sample_reservations =
     [\<lparr>sr_key = ''b'', sr_protocol = L_udp, sr_bind = ''::ffff:10.0.0.1'', sr_port = 53\<rparr>,
      \<lparr>sr_key = ''a'', sr_protocol = L_udp, sr_bind = ''10.0.0.1'', sr_port = 53\<rparr>]"

lemma findSocketConflicts_exact_witness:
  "\<lparr>sc_a = ''a'', sc_b = ''b''\<rparr> \<in> set (findSocketConflicts sample_reservations) \<longleftrightarrow>
     ''a'' < ''b'' \<and> (\<exists>a\<in>set sample_reservations. \<exists>b\<in>set sample_reservations.
        sr_key a = ''a'' \<and> sr_key b = ''b'' \<and> same_socket a b)"
  by (rule findSocketConflicts_exact) (simp add: sample_reservations_def)

lemma findSocketConflicts_order_witness:
  "findSocketConflicts sample_reservations = findSocketConflicts (rev sample_reservations)"
  by (rule findSocketConflicts_order) (simp_all add: sample_reservations_def)

end
