(* ===== verification/Host_Names.thy ===== *)
theory Host_Names
  imports Sockets
begin

text \<open>
  The grammar of user strings, \<^verbatim>\<open>src/src/validate/strings.ts\<close>: host names and patterns, header
  names and values, path prefixes, hash keys, backend addresses.

  \<^verbatim>\<open>normalizeHost\<close> goes through the host parser of the \<^verbatim>\<open>URL\<close> class. For a text of the
  characters the code lets through, the parser lowercases an ASCII domain, hands a domain with
  a non-ASCII character or an \<^verbatim>\<open>xn--\<close> label to the IDNA algorithm, and reads a domain that ends
  in a number as an IPv4 address in any of its historical notations. The IDNA algorithm (its
  Unicode tables) is the parameter \<open>idna\<close> of the definitions.
\<close>

section \<open>Characters\<close>

text \<open>\<open>toLowerCase\<close> on the code units below 256.\<close>

definition lower_latin :: "char \<Rightarrow> char" where
  "lower_latin c = (if is_upper c \<or> (192 \<le> cu c \<and> cu c \<le> 222 \<and> cu c \<noteq> 215)
     then char_of (cu c + 32) else c)"

definition is_ascii :: "char \<Rightarrow> bool" where
  "is_ascii c \<longleftrightarrow> cu c < 128"

definition HOST_RAW_ALLOWED :: "string \<Rightarrow> bool" where
  "HOST_RAW_ALLOWED s \<longleftrightarrow> s \<noteq> [] \<and>
     list_all (\<lambda>c. is_alnum c \<or> c = CHR ''.'' \<or> c = CHR ''-'' \<or> \<not> is_ascii c) s"

definition is_lower_or_digit :: "char \<Rightarrow> bool" where
  "is_lower_or_digit c \<longleftrightarrow> is_lower c \<or> is_digit c"

definition LDH_LABEL :: "string \<Rightarrow> bool" where
  "LDH_LABEL l \<longleftrightarrow> l \<noteq> [] \<and> is_lower_or_digit (hd l) \<and> is_lower_or_digit (last l) \<and>
     list_all (\<lambda>c. is_lower_or_digit c \<or> c = CHR ''-'') l"

definition TOKEN_EXTRA :: string where
  "TOKEN_EXTRA = ''!#$%&'' @ [CHR 0x27] @ ''*+-.^_`|~''"

definition TOKEN :: "string \<Rightarrow> bool" where
  "TOKEN s \<longleftrightarrow> s \<noteq> [] \<and> list_all (\<lambda>c. is_alnum c \<or> c \<in> set TOKEN_EXTRA) s"

definition is_word :: "char \<Rightarrow> bool" where
  "is_word c \<longleftrightarrow> is_alnum c \<or> c = CHR ''_''"

definition ALLOWED_VARIABLES :: "string list" where
  "ALLOWED_VARIABLES = [''host'', ''scheme'', ''request_uri'', ''remote_addr'', ''remote_port'',
     ''server_addr'', ''server_port'', ''server_name'', ''http_upgrade'', ''connection_upgrade'',
     ''proxy_add_x_forwarded_for'', ''proxy_protocol_addr'', ''ssl_preread_server_name'',
     ''ssl_preread_protocol'']"

section \<open>The host parser\<close>

definition radix_value :: "nat \<Rightarrow> string \<Rightarrow> nat" where
  "radix_value r s = foldl (\<lambda>a c. r * a + hex_digit_val c) 0 s"

definition radix_ok :: "nat \<Rightarrow> char \<Rightarrow> bool" where
  "radix_ok r c \<longleftrightarrow> is_hex c \<and> hex_digit_val c < r"

text \<open>The IPv4 number parser: hexadecimal after \<open>0x\<close>, octal after a leading zero, else decimal.\<close>

definition ipv4_number :: "string \<Rightarrow> nat option" where
  "ipv4_number s =
     (if s = [] then None
      else
        let (r, ds) = (if 2 \<le> length s \<and> hd s = CHR ''0'' \<and> (s ! 1 = CHR ''x'' \<or> s ! 1 = CHR ''X'')
                       then (16, drop 2 s)
                       else if 2 \<le> length s \<and> hd s = CHR ''0'' then (8, tl s)
                       else (10, s))
        in if ds = [] then Some 0
           else if list_all (radix_ok r) ds then Some (radix_value r ds) else None)"

text \<open>The parts of a domain, a final empty one dropped.\<close>

definition domain_parts :: "string \<Rightarrow> string list" where
  "domain_parts d =
     (let parts = split_on CHR ''.'' d in
      if last parts = [] \<and> 1 < length parts then butlast parts else parts)"

definition ends_in_number :: "string \<Rightarrow> bool" where
  "ends_in_number d =
     (let parts = split_on CHR ''.'' d in
      if parts = [[]] then False
      else let l = last (domain_parts d) in all_digits l \<or> ipv4_number l \<noteq> None)"

text \<open>The IPv4 parser: at most four numbers, all but the last below 256, the last filling the rest.\<close>

definition ipv4_parse :: "string \<Rightarrow> nat option" where
  "ipv4_parse d =
     (let parts = domain_parts d; ns = map ipv4_number parts in
      if 4 < length parts \<or> None \<in> set ns then None
      else
        let vs = map the ns; k = length vs in
        if list_ex (\<lambda>v. 255 < v) (butlast vs) \<or> 256 ^ (5 - k) \<le> last vs then None
        else Some (last vs + sum_list (map (\<lambda>(i, v). v * 256 ^ (3 - i)) (enumerate 0 (butlast vs)))))"

definition needs_idna :: "string \<Rightarrow> bool" where
  "needs_idna d \<longleftrightarrow> \<not> list_all is_ascii d \<or>
     list_ex (\<lambda>l. take 4 (map lower_char l) = ''xn--'') (split_on CHR ''.'' d)"

definition domain_to_ascii :: "(string \<Rightarrow> string option) \<Rightarrow> string \<Rightarrow> string option" where
  "domain_to_ascii idna d = (if needs_idna d then idna d else Some (map lower_char d))"

text \<open>\<open>new URL(`http://${host}`).hostname\<close>; \<open>None\<close> when it throws.\<close>

definition url_hostname :: "(string \<Rightarrow> string option) \<Rightarrow> string \<Rightarrow> string option" where
  "url_hostname idna host =
     (case domain_to_ascii idna host of
        None \<Rightarrow> None
      | Some d \<Rightarrow>
          (if d = [] then None
           else if ends_in_number d then map_option (\<lambda>n. dotted_quad (int n)) (ipv4_parse d)
           else Some d))"

section \<open>Hosts\<close>

definition looks_ipv4 :: "string \<Rightarrow> bool" where
  "looks_ipv4 s =
     (let parts = split_on CHR ''.'' s in
      length parts = 4 \<and> list_all (\<lambda>p. p \<noteq> [] \<and> length p \<le> 3 \<and> list_all is_digit p) parts)"

definition drop_dot :: "string \<Rightarrow> string" where
  "drop_dot h = (if h \<noteq> [] \<and> last h = CHR ''.'' then butlast h else h)"

definition label_ok :: "string \<Rightarrow> bool" where
  "label_ok l \<longleftrightarrow> l \<noteq> [] \<and> length l \<le> 63 \<and> LDH_LABEL l"

definition normalizeHost :: "(string \<Rightarrow> string option) \<Rightarrow> string \<Rightarrow> string result" where
  "normalizeHost idna input =
     (if input = [] then Inl invalid_host
      else if \<not> HOST_RAW_ALLOWED input then Inl invalid_host
      else
        let host = drop_dot (map lower_latin input) in
        if host = [] then Inl invalid_host
        else (case url_hostname idna host of
            None \<Rightarrow> Inl invalid_host
          | Some ascii \<Rightarrow>
              (if looks_ipv4 ascii \<and> ascii \<noteq> host then Inl invalid_host
               else if ascii = [] then Inl invalid_host
               else if 253 < length ascii then Inl invalid_host
               else if list_all label_ok (split_on CHR ''.'' ascii) then Inr ascii
               else Inl invalid_host)))"

datatype host_pattern = Exact string | Wildcard string

definition parseHostPattern :: "(string \<Rightarrow> string option) \<Rightarrow> string \<Rightarrow> host_pattern result" where
  "parseHostPattern idna input =
     (if input = [] then Inl invalid_host_pattern
      else
        let starCount = length (filter (\<lambda>c. c = CHR ''*'') input) in
        if starCount = 0 then bindE (normalizeHost idna input) (\<lambda>h. Inr (Exact h))
        else if starCount > 1 then Inl invalid_host_pattern
        else if take 2 input \<noteq> ''*.'' then Inl invalid_host_pattern
        else
          let suffix = drop 2 input in
          if suffix = [] then Inl invalid_host_pattern
          else (case normalizeHost idna suffix of
              Inl _ \<Rightarrow> Inl invalid_host_pattern
            | Inr h \<Rightarrow> Inr (Wildcard h)))"

definition ends_with :: "string \<Rightarrow> string \<Rightarrow> bool" where
  "ends_with s e \<longleftrightarrow> length e \<le> length s \<and> drop (length s - length e) s = e"

definition coversHost :: "string \<Rightarrow> string \<Rightarrow> bool" where
  "coversHost pattern host =
     (if pattern = host then True
      else if take 2 pattern \<noteq> ''*.'' then False
      else
        let suffix = drop 2 pattern in
        if \<not> ends_with host (CHR ''.'' # suffix) then False
        else CHR ''.'' \<notin> set (take (length host - length suffix - 1) host))"

section \<open>Headers\<close>

definition validateHeaderName :: "string \<Rightarrow> string result" where
  "validateHeaderName input = (if TOKEN input then Inr input else Inl invalid_header_name)"

text \<open>The reference after a dollar sign: \<open>{name}\<close> or \<open>name\<close>, and what it leaves.\<close>

definition var_reference :: "string \<Rightarrow> (string \<times> string) option" where
  "var_reference rest =
     (let braced = (if rest \<noteq> [] \<and> hd rest = CHR ''{'' then
            (let name = takeWhile is_word (tl rest); after = dropWhile is_word (tl rest) in
             if name \<noteq> [] \<and> after \<noteq> [] \<and> hd after = CHR ''}'' then Some (name, tl after) else None)
          else None) in
      case braced of
        Some r \<Rightarrow> Some r
      | None \<Rightarrow>
          (let name = takeWhile is_word rest in
           if name \<noteq> [] then Some (name, dropWhile is_word rest) else None))"

lemma var_reference_shorter: "var_reference rest = Some (name, after) \<Longrightarrow> length after < length rest"
proof -
  have a: "length (dropWhile is_word xs) \<le> length xs" for xs by (rule length_dropWhile_le)
  have b: "takeWhile is_word xs \<noteq> [] \<Longrightarrow> length (dropWhile is_word xs) < length xs" for xs
    by (cases xs) (auto simp: length_dropWhile_le less_Suc_eq_le split: if_splits)
  assume "var_reference rest = Some (name, after)"
  then show ?thesis using a [of "tl rest"] b [of rest] b [of "tl rest"]
    by (cases rest; cases "dropWhile is_word (tl rest)")
       (auto simp: var_reference_def Let_def split: if_splits)
qed

function header_scan :: "string \<Rightarrow> bool" where
  "header_scan [] = True"
| "header_scan (ch # rest) =
     (if ch \<noteq> CHR ''$'' then header_scan rest
      else (case var_reference rest of
          None \<Rightarrow> False
        | Some (name, after) \<Rightarrow> name \<in> set ALLOWED_VARIABLES \<and> header_scan after))"
  by pat_completeness auto
termination by (relation "measure length") (auto dest: var_reference_shorter)

declare header_scan.simps(2) [simp del]

definition is_control :: "char \<Rightarrow> bool" where
  "is_control c \<longleftrightarrow> cu c \<le> 31 \<or> cu c = 127"

definition validateHeaderValue :: "string \<Rightarrow> string result" where
  "validateHeaderValue input =
     (if list_ex is_control input then Inl invalid_header_value
      else if header_scan input then Inr input
      else Inl invalid_header_value)"

section \<open>Backends, paths and hash keys\<close>

definition validateBackendHost :: "(string \<Rightarrow> string option) \<Rightarrow> string \<Rightarrow> string result" where
  "validateBackendHost idna input =
     (if ipVersion input \<noteq> 0 then Inr input
      else (case normalizeHost idna input of Inl _ \<Rightarrow> Inl invalid_host | Inr h \<Rightarrow> Inr h))"

definition PATH_EXTRA :: string where
  "PATH_EXTRA = ''-._~!$&'' @ [CHR 0x27] @ ''()*+,;=:@/%''"

definition PATH_PREFIX :: "string \<Rightarrow> bool" where
  "PATH_PREFIX s \<longleftrightarrow> s \<noteq> [] \<and> hd s = CHR ''/'' \<and>
     list_all (\<lambda>c. is_alnum c \<or> c \<in> set PATH_EXTRA) (tl s)"

definition validatePathPrefix :: "string \<Rightarrow> string result" where
  "validatePathPrefix input = (if PATH_PREFIX input then Inr input else Inl invalid_path_prefix)"

datatype protocol_class = C_http | C_tcp | C_udp

datatype hash_key =
    Key_remote_addr
  | Key_request_uri
  | Key_header string string
  | Key_cookie string string

text \<open>The nginx variable a key is rendered with.\<close>

definition key_variable :: "hash_key \<Rightarrow> string" where
  "key_variable k = (case k of
       Key_remote_addr \<Rightarrow> ''remote_addr''
     | Key_request_uri \<Rightarrow> ''request_uri''
     | Key_header _ v \<Rightarrow> v
     | Key_cookie _ v \<Rightarrow> v)"

text \<open>\<open>/^(header|cookie)\(([^()]*)\)$/\<close>: the argument of a call of the given name.\<close>

definition call_argument :: "string \<Rightarrow> string \<Rightarrow> string option" where
  "call_argument f spec =
     (let n = length f in
      if take (n + 1) spec = f @ ''('' \<and> spec \<noteq> [] \<and> last spec = CHR '')'' \<and> n + 1 < length spec
      then (let arg = butlast (drop (n + 1) spec) in
            if CHR ''('' \<in> set arg \<or> CHR '')'' \<in> set arg then None else Some arg)
      else None)"

definition dash_to_underscore :: "char \<Rightarrow> char" where
  "dash_to_underscore c = (if c = CHR ''-'' then CHR ''_'' else c)"

definition parseHashKey :: "protocol_class \<Rightarrow> string \<Rightarrow> hash_key result" where
  "parseHashKey protocolClass spec =
     (if spec = ''remote_addr'' then Inr Key_remote_addr
      else if protocolClass \<noteq> C_http then Inl invalid_hash_key
      else if spec = ''request_uri'' then Inr Key_request_uri
      else (case (call_argument ''header'' spec, call_argument ''cookie'' spec) of
          (Some name, _) \<Rightarrow>
            (if \<not> TOKEN name then Inl invalid_hash_key
             else if \<not> list_all (\<lambda>c. is_alnum c \<or> c = CHR ''-'') name then Inl invalid_hash_key
             else Inr (Key_header name (''http_'' @ map (dash_to_underscore \<circ> lower_char) name)))
        | (None, Some name) \<Rightarrow>
            (if \<not> TOKEN name then Inl invalid_hash_key
             else if \<not> list_all is_word name then Inl invalid_hash_key
             else Inr (Key_cookie name (''cookie_'' @ name)))
        | (None, None) \<Rightarrow> Inl invalid_hash_key))"

section \<open>Canonical host names\<close>

lemma lower_or_digit_facts:
  assumes "is_lower_or_digit c \<or> c = CHR ''-'' \<or> c = CHR ''.''"
  shows "is_ascii c" "lower_latin c = c" "lower_char c = c" "is_alnum c \<or> c = CHR ''.'' \<or> c = CHR ''-''"
    "c \<noteq> CHR ''*''"
  using assms by (auto simp: is_lower_or_digit_def lower_latin_def lower_char_def is_ascii_def char_class_defs)

lemma normal_chars:
  assumes "list_all label_ok (split_on CHR ''.'' a)" "c \<in> set a"
  shows "is_lower_or_digit c \<or> c = CHR ''-'' \<or> c = CHR ''.''"
proof -
  have "set a \<subseteq> \<Union> (set ` set (split_on CHR ''.'' a)) \<union> {CHR ''.''}"
    using set_join_with [of "''.''" "split_on CHR ''.'' a"] by (simp add: join_split_on)
  with assms(2) have "c = CHR ''.'' \<or> (\<exists>l \<in> set (split_on CHR ''.'' a). c \<in> set l)" by blast
  then show ?thesis using assms(1) by (auto simp: list_all_iff label_ok_def LDH_LABEL_def)
qed

lemma split_on_at: "split_on d (w @ d # s) = split_on d w @ split_on d s"
proof (induction w)
  case (Cons c w)
  obtain p ps where "split_on d w = p # ps" by (metis list.exhaust split_on_nonempty)
  then show ?case using Cons by auto
qed simp

lemma normal_no_final_dot:
  assumes "list_all label_ok (split_on CHR ''.'' a)"
  shows "a \<noteq> []" "drop_dot a = a"
proof -
  show "a \<noteq> []" using assms by (auto simp: label_ok_def)
  have "last a \<noteq> CHR ''.''" if "a \<noteq> []"
  proof
    assume "last a = CHR ''.''"
    then have a: "a = butlast a @ CHR ''.'' # []" using that append_butlast_last_id by force
    have "split_on CHR ''.'' a = split_on CHR ''.'' (butlast a) @ split_on CHR ''.'' []"
      by (subst a) (rule split_on_at)
    then show False using assms by (simp add: label_ok_def list_all_iff)
  qed
  then show "drop_dot a = a" by (auto simp: drop_dot_def)
qed

lemma lower_latin_ascii: "is_ascii c \<Longrightarrow> lower_latin c = lower_char c"
  by (auto simp: lower_latin_def lower_char_def is_ascii_def)

lemma is_ascii_lower: "is_ascii (lower_latin c) \<Longrightarrow> lower_char (lower_latin c) = lower_latin c"
  by (auto simp: lower_latin_def lower_char_def is_ascii_def char_class_defs)

lemma needs_idna_ascii: "\<not> needs_idna d \<Longrightarrow> list_all is_ascii d"
  by (simp add: needs_idna_def)

lemma lowered_ascii:
  assumes "host = drop_dot (map lower_latin s)" "list_all is_ascii host"
  shows "map lower_char host = host"
proof -
  have "set host \<subseteq> lower_latin ` set s"
    using assms(1) by (auto simp: drop_dot_def dest: in_set_butlastD)
  then have "lower_char c = c" if "c \<in> set host" for c
    using that assms(2) by (force simp: list_all_iff intro: is_ascii_lower)
  then show ?thesis by (simp add: map_idI)
qed

lemma looks_ipv4_dotted_quad: "looks_ipv4 (dotted_quad x)"
proof -
  have "length (show_nat n) \<le> 3" if "n < 256" for n using show_nat_length [of n 3] that by simp
  moreover have "nat (take_bit 8 (y :: int)) < 256" for y using take_bit_8_le [of y] by simp
  ultimately show ?thesis by (simp add: looks_ipv4_def split_dotted_quad show_nat_digits)
qed

lemma url_hostname_again:
  assumes u: "url_hostname idna host = Some a" and canon: "\<not> (looks_ipv4 a \<and> a \<noteq> host)"
    and host: "host = drop_dot (map lower_latin s)"
    and idem: "\<And>d a. idna d = Some a \<Longrightarrow> domain_to_ascii idna a = Some a"
  shows "url_hostname idna a = Some a"
proof -
  from u obtain d where d: "domain_to_ascii idna host = Some d" "d \<noteq> []"
    by (auto simp: url_hostname_def split: option.splits if_splits)
  show ?thesis
  proof (cases "ends_in_number d")
    case True
    with u d obtain n where "a = dotted_quad (int n)" by (auto simp: url_hostname_def)
    then have "a = host" using canon looks_ipv4_dotted_quad by blast
    then show ?thesis using u by simp
  next
    case False
    with u d have a: "a = d" by (simp add: url_hostname_def)
    have "domain_to_ascii idna d = Some d"
    proof (cases "needs_idna host")
      case True
      then show ?thesis using d(1) idem by (simp add: domain_to_ascii_def)
    next
      case F: False
      then have "d = host" using d(1) lowered_ascii [OF host needs_idna_ascii [OF F]]
        by (simp add: domain_to_ascii_def)
      then show ?thesis using d(1) by simp
    qed
    then show ?thesis using False d(2) by (simp add: url_hostname_def a)
  qed
qed

lemma normalizeHost_Inr:
  assumes "normalizeHost idna s = Inr a"
  obtains host where "host = drop_dot (map lower_latin s)" "host \<noteq> []" "url_hostname idna host = Some a"
    "\<not> (looks_ipv4 a \<and> a \<noteq> host)" "length a \<le> 253" "list_all label_ok (split_on CHR ''.'' a)"
  using assms by (auto simp: normalizeHost_def Let_def split: option.splits if_splits)

lemma normalizeHost_again:
  assumes n: "normalizeHost idna s = Inr a"
    and idem: "\<And>d a. idna d = Some a \<Longrightarrow> domain_to_ascii idna a = Some a"
  shows "normalizeHost idna a = Inr a"
proof -
  obtain host where host: "host = drop_dot (map lower_latin s)" and u: "url_hostname idna host = Some a"
    and c: "\<not> (looks_ipv4 a \<and> a \<noteq> host)" and l: "length a \<le> 253"
    and ok: "list_all label_ok (split_on CHR ''.'' a)"
    using n by (rule normalizeHost_Inr)
  note ch = lower_or_digit_facts [OF normal_chars [OF ok]]
  have "map lower_latin a = a" using ch(2) by (simp add: map_idI)
  moreover have "HOST_RAW_ALLOWED a"
    using ch(4) normal_no_final_dot(1) [OF ok] by (auto simp: HOST_RAW_ALLOWED_def list_all_iff)
  ultimately show ?thesis
    using url_hostname_again [OF u c host idem] l ok normal_no_final_dot [OF ok]
    by (simp add: normalizeHost_def)
qed

lemma normalizeHost_no_star: "normalizeHost idna s = Inr a \<Longrightarrow> CHR ''*'' \<notin> set a"
  by (erule normalizeHost_Inr) (metis lower_or_digit_facts(5) normal_chars)

lemma normalizeHost_nonempty: "normalizeHost idna s = Inr a \<Longrightarrow> a \<noteq> []"
  by (erule normalizeHost_Inr) (rule normal_no_final_dot(1))

definition pattern_text :: "host_pattern \<Rightarrow> string" where
  "pattern_text p = (case p of Exact h \<Rightarrow> h | Wildcard s \<Rightarrow> ''*.'' @ s)"

lemma parseHostPattern_again:
  assumes "parseHostPattern idna s = Inr p"
    and idem: "\<And>d a. idna d = Some a \<Longrightarrow> domain_to_ascii idna a = Some a"
  shows "parseHostPattern idna (pattern_text p) = Inr p"
proof -
  have stars: "filter (\<lambda>c. c = CHR ''*'') h = []" if "normalizeHost idna t = Inr h" for t h
    using normalizeHost_no_star [OF that] by (auto simp: filter_empty_conv)
  consider t h where "p = Exact h" "normalizeHost idna t = Inr h"
    | t h where "p = Wildcard h" "normalizeHost idna t = Inr h"
    using assms(1) by (auto simp: parseHostPattern_def Let_def elim!: bindE_InrE split: if_splits sum.splits)
  then show ?thesis
  proof cases
    case (1 t h)
    then show ?thesis using normalizeHost_again [OF 1(2) idem] stars [OF 1(2)] normalizeHost_nonempty [OF 1(2)]
      by (simp add: parseHostPattern_def pattern_text_def)
  next
    case (2 t h)
    then show ?thesis using normalizeHost_again [OF 2(2) idem] stars [OF 2(2)] normalizeHost_nonempty [OF 2(2)]
      by (simp add: parseHostPattern_def pattern_text_def)
  qed
qed

section \<open>Covering\<close>

lemma ends_with_iff: "ends_with s e \<longleftrightarrow> (\<exists>l. s = l @ e)"
proof
  assume "ends_with s e"
  then have "s = take (length s - length e) s @ e" by (metis append_take_drop_id ends_with_def)
  then show "\<exists>l. s = l @ e" ..
qed (auto simp: ends_with_def)

lemma covers_iff:
  "coversHost pattern host \<longleftrightarrow> pattern = host \<or>
     (\<exists>suffix l. pattern = ''*.'' @ suffix \<and> host = l @ ''.'' @ suffix \<and> CHR ''.'' \<notin> set l)"
proof (cases "pattern = host")
  case False
  have star: "take 2 pattern = ''*.'' \<longleftrightarrow> (\<exists>suffix. pattern = ''*.'' @ suffix)"
  proof
    assume "take 2 pattern = ''*.''"
    then show "\<exists>suffix. pattern = ''*.'' @ suffix" by (metis append_take_drop_id)
  qed auto
  have "coversHost (''*.'' @ suffix) host \<longleftrightarrow> (\<exists>l. host = l @ ''.'' @ suffix \<and> CHR ''.'' \<notin> set l)"
    if "''*.'' @ suffix \<noteq> host" for suffix
    using that by (auto simp: coversHost_def ends_with_iff)
  note covers = this
  show ?thesis
  proof (cases "take 2 pattern = ''*.''")
    case True
    then obtain suffix where p: "pattern = ''*.'' @ suffix" using star by blast
    show ?thesis using covers [of suffix] False by (simp add: p)
  next
    case no: False
    then have "\<not> coversHost pattern host" using False by (simp add: coversHost_def)
    then show ?thesis using False no star by blast
  qed
qed (simp add: coversHost_def)

section \<open>Header values\<close>

lemma dollar_not_word: "\<not> is_word CHR ''$''"
  by (simp add: is_word_def char_class_defs)

lemma var_reference_split:
  assumes "var_reference rest = Some (name, after)"
  shows "rest = CHR ''{'' # name @ CHR ''}'' # after \<or> rest = name @ after"
    and "CHR ''$'' \<notin> set name"
proof -
  let ?n = "takeWhile is_word (tl rest)" and ?a = "dropWhile is_word (tl rest)"
  have w: "CHR ''$'' \<notin> set (takeWhile is_word xs)" for xs
    using dollar_not_word by (metis set_takeWhileD)
  have "(rest = CHR ''{'' # name @ CHR ''}'' # after \<or> rest = name @ after) \<and> CHR ''$'' \<notin> set name"
  proof (cases "rest \<noteq> [] \<and> hd rest = CHR ''{'' \<and> ?n \<noteq> [] \<and> ?a \<noteq> [] \<and> hd ?a = CHR ''}''")
    case True
    then have "name = ?n" "after = tl ?a" using assms by (simp_all add: var_reference_def)
    moreover have "tl rest = ?n @ hd ?a # tl ?a"
      using True by (metis list.collapse takeWhile_dropWhile_id)
    ultimately show ?thesis using True w by (metis list.collapse)
  next
    case False
    then have "name = takeWhile is_word rest" "after = dropWhile is_word rest"
      using assms by (auto simp: var_reference_def Let_def split: if_splits)
    then show ?thesis using w by simp
  qed
  then show "rest = CHR ''{'' # name @ CHR ''}'' # after \<or> rest = name @ after"
    "CHR ''$'' \<notin> set name" by blast+
qed

lemma var_reference_no_dollar:
  assumes "var_reference rest = Some (name, after)"
  shows "\<exists>r. rest = r @ after \<and> CHR ''$'' \<notin> set r"
proof -
  have "CHR ''$'' \<notin> set (CHR ''{'' # name @ ''}'')" using var_reference_split(2) [OF assms] by simp
  moreover have "rest = (CHR ''{'' # name @ ''}'') @ after \<or> rest = name @ after"
    using var_reference_split(1) [OF assms] by simp
  ultimately show ?thesis using var_reference_split(2) [OF assms] by blast
qed

definition references_ok :: "string \<Rightarrow> bool" where
  "references_ok s \<longleftrightarrow> (\<forall>a b. s = a @ CHR ''$'' # b \<longrightarrow>
     (\<exists>name after. var_reference b = Some (name, after) \<and> name \<in> set ALLOWED_VARIABLES))"

lemma references_ok_skip:
  assumes "CHR ''$'' \<notin> set r"
  shows "references_ok (r @ s) = references_ok s"
proof
  assume "references_ok (r @ s)"
  then show "references_ok s" unfolding references_ok_def by (metis append_assoc)
next
  assume s: "references_ok s"
  show "references_ok (r @ s)" unfolding references_ok_def
  proof (intro allI impI)
    fix a b assume e: "r @ s = a @ CHR ''$'' # b"
    then obtain u where "(r = a @ u \<and> u @ s = CHR ''$'' # b) \<or> (r @ u = a \<and> s = u @ CHR ''$'' # b)"
      by (auto simp: append_eq_append_conv2)
    then have "\<exists>u. s = u @ CHR ''$'' # b"
      using assms by (cases u) auto
    then show "\<exists>name after. var_reference b = Some (name, after) \<and> name \<in> set ALLOWED_VARIABLES"
      using s by (auto simp: references_ok_def)
  qed
qed

lemma header_scan_iff: "header_scan s = references_ok s"
proof (induction s rule: header_scan.induct)
  case 1
  show ?case by (simp add: references_ok_def)
next
  case (2 ch rest)
  show ?case
  proof (cases "ch = CHR ''$''")
    case False
    then have "references_ok ([ch] @ rest) = references_ok rest" by (intro references_ok_skip) auto
    then show ?thesis using False 2(1) by (simp add: header_scan.simps)
  next
    case True
    have d: "references_ok (CHR ''$'' # rest) \<longleftrightarrow>
        (\<exists>name after. var_reference rest = Some (name, after) \<and> name \<in> set ALLOWED_VARIABLES) \<and> references_ok rest"
      unfolding references_ok_def by (auto simp: Cons_eq_append_conv)
    show ?thesis
    proof (cases "var_reference rest")
      case None
      then show ?thesis using True d by (simp add: header_scan.simps)
    next
      case (Some na)
      obtain name after where na: "na = (name, after)" by (cases na)
      obtain r where r: "rest = r @ after" "CHR ''$'' \<notin> set r"
        using var_reference_no_dollar [of rest name after] Some na by blast
      have "references_ok rest = references_ok after" using references_ok_skip [OF r(2)] r(1) by simp
      then show ?thesis using True d Some na 2(2) [of "(name, after)" name after] by (auto simp: header_scan.simps)
    qed
  qed
qed

section \<open>Hash keys\<close>

lemma word_lower: "is_alnum c \<or> c = CHR ''-'' \<Longrightarrow> is_word (dash_to_underscore (lower_char c))"
  by (auto simp: dash_to_underscore_def lower_char_def is_word_def char_class_defs)

lemma parseHashKey_facts:
  assumes "parseHashKey cls spec = Inr k"
  shows "list_all is_word (key_variable k)" "cls \<noteq> C_http \<Longrightarrow> k = Key_remote_addr"
proof -
  note w = is_word_def char_class_defs
  consider "k = Key_remote_addr" | "k = Key_request_uri"
    | name where "k = Key_header name (''http_'' @ map (dash_to_underscore \<circ> lower_char) name)"
        "list_all (\<lambda>c. is_alnum c \<or> c = CHR ''-'') name"
    | name where "k = Key_cookie name (''cookie_'' @ name)" "list_all is_word name"
    using assms unfolding parseHashKey_def prod.case by (auto split: option.split_asm if_split_asm)
  then show "list_all is_word (key_variable k)"
  proof cases
    case (3 name)
    then have "list_all (is_word \<circ> (dash_to_underscore \<circ> lower_char)) name"
      by (auto simp: list_all_iff word_lower)
    then show ?thesis using 3 by (simp add: key_variable_def list.pred_map) (simp add: w)
  qed (simp_all add: key_variable_def w)
  show "cls \<noteq> C_http \<Longrightarrow> k = Key_remote_addr"
    using assms by (auto simp: parseHashKey_def split: if_splits)
qed

section \<open>Properties\<close>

text \<open>Host patterns have one spelling: what parsing a pattern gives, written out again, parses to
  the very same pattern, provided that converting a converted domain again changes nothing.\<close>

theorem parseHostPattern_canonical:
  assumes "\<And>d a. idna d = Some a \<Longrightarrow> domain_to_ascii idna a = Some a"
    and "parseHostPattern idna s = Inr p"
  shows "parseHostPattern idna (pattern_text p) = Inr p"
  using assms(2,1) by (rule parseHostPattern_again)

definition no_idna :: "string \<Rightarrow> string option" where
  "no_idna d = None"

lemma parseHostPattern_canonical_witness:
  "parseHostPattern no_idna ''*.EXAMPLE.com.'' = Inr (Wildcard ''example.com'') \<and>
   parseHostPattern no_idna (pattern_text (Wildcard ''example.com'')) = Inr (Wildcard ''example.com'')"
proof -
  have p: "parseHostPattern no_idna ''*.EXAMPLE.com.'' = Inr (Wildcard ''example.com'')" by code_simp
  show ?thesis using p parseHostPattern_canonical [OF _ p] by (simp add: no_idna_def)
qed

text \<open>A wildcard covers exactly one label: a binding pattern covers a host precisely when they are the
  same text, or the pattern is \<open>*.suffix\<close> and the host is the suffix with one label, which has no
  dot, in front.\<close>

theorem coversHost_one_label:
  "coversHost pattern host \<longleftrightarrow> pattern = host \<or>
     (\<exists>suffix l. pattern = ''*.'' @ suffix \<and> host = l @ ''.'' @ suffix \<and> CHR ''.'' \<notin> set l)"
  by (rule covers_iff)

text \<open>A header value is accepted exactly when it has no control character and every dollar sign in
  it starts a reference to an allowed variable; an accepted value is passed on unchanged.\<close>

theorem validateHeaderValue_iff:
  "validateHeaderValue s =
     (if list_all (\<lambda>c. \<not> is_control c) s \<and> references_ok s then Inr s else Inl invalid_header_value)"
  by (auto simp: validateHeaderValue_def header_scan_iff list_ex_iff list_all_iff)

text \<open>A hash key is always rendered as one nginx variable: the variable of a parsed key consists of
  word characters only, and outside http the only key is the client address.\<close>

theorem parseHashKey_variable:
  assumes "parseHashKey cls spec = Inr k"
  shows "list_all is_word (key_variable k) \<and> (cls \<noteq> C_http \<longrightarrow> k = Key_remote_addr)"
  using parseHashKey_facts [OF assms] by blast

lemma parseHashKey_variable_witness:
  "parseHashKey C_http ''header(X-Real-IP)'' = Inr (Key_header ''X-Real-IP'' ''http_x_real_ip'') \<and>
   list_all is_word (key_variable (Key_header ''X-Real-IP'' ''http_x_real_ip''))"
proof -
  have p: "parseHashKey C_http ''header(X-Real-IP)'' = Inr (Key_header ''X-Real-IP'' ''http_x_real_ip'')"
    by code_simp
  show ?thesis using p parseHashKey_variable [OF p] by simp
qed

end
