(* ===== verification/Route_Compile.thy ===== *)
theory Route_Compile
  imports Host_Names
begin

text \<open>
  The route compiler, \<^verbatim>\<open>src/src/route/compile.ts\<close>: from the routes of a listener to the order in
  which nginx will try them, with the duplicates it would refuse and the priorities it would
  ignore, and the plan that lowers competing hosts to ordered regular expressions.

  The engine's rule, as the source states it: an exact host name is tried before a wildcard,
  a wildcard before the regular expressions, these in order of appearance; inside a host the
  longest path prefix wins.
\<close>

section \<open>Definitions\<close>

datatype match_class = Exact_host | Wildcard_host | Regex_host

record route_input =
  ri_key :: string
  ri_host :: string
  ri_priority :: int
  ri_pathPrefix :: "string option"

record compiled_route =
  cr_key :: string
  cr_matchClass :: match_class
  cr_pattern :: host_pattern
  cr_priority :: int
  cr_pathPrefix :: string

datatype compile_error = Err_invalid_host string | Err_duplicate_match string

datatype compile_warning =
    Priority_inversion string string
  | Path_priority_ignored "string list"

record compile_result =
  cres_order :: "compiled_route list"
  cres_warnings :: "compile_warning list"
  cres_errors :: "compile_error list"

definition CLASS_RANK :: "match_class \<Rightarrow> int" where
  "CLASS_RANK c = (case c of Exact_host \<Rightarrow> 3 | Wildcard_host \<Rightarrow> 2 | Regex_host \<Rightarrow> 1)"

definition patternKey :: "host_pattern \<Rightarrow> string" where
  "patternKey p = (case p of Exact h \<Rightarrow> CHR ''='' # h | Wildcard s \<Rightarrow> CHR ''*'' # s)"

definition class_of :: "host_pattern \<Rightarrow> match_class" where
  "class_of p = (case p of Exact _ \<Rightarrow> Exact_host | Wildcard _ \<Rightarrow> Wildcard_host)"

text \<open>The first loop: what parses, and the errors of what does not.\<close>

definition compile_route :: "(string \<Rightarrow> string option) \<Rightarrow> route_input \<Rightarrow> compile_error + compiled_route" where
  "compile_route idna r =
     (case parseHostPattern idna (ri_host r) of
        Inl _ \<Rightarrow> Inl (Err_invalid_host (ri_key r))
      | Inr p \<Rightarrow> Inr \<lparr>cr_key = ri_key r, cr_matchClass = class_of p, cr_pattern = p,
          cr_priority = ri_priority r,
          cr_pathPrefix = (case ri_pathPrefix r of None \<Rightarrow> ''/'' | Some x \<Rightarrow> x)\<rparr>)"

fun partition_results :: "('e + 'a) list \<Rightarrow> 'e list \<times> 'a list" where
  "partition_results [] = ([], [])"
| "partition_results (x # xs) =
     (let (es, as) = partition_results xs in
      case x of Inl e \<Rightarrow> (e # es, as) | Inr a \<Rightarrow> (es, a # as))"

definition match_key :: "compiled_route \<Rightarrow> string" where
  "match_key c = patternKey (cr_pattern c) @ ''|'' @ cr_pathPrefix c"

fun duplicate_errors :: "string list \<Rightarrow> compiled_route list \<Rightarrow> compile_error list" where
  "duplicate_errors seen [] = []"
| "duplicate_errors seen (c # cs) =
     (if match_key c \<in> set seen then Err_duplicate_match (cr_key c) # duplicate_errors seen cs
      else duplicate_errors (match_key c # seen) cs)"

definition host_priorities :: "compiled_route list \<Rightarrow> (string, int) dict" where
  "host_priorities cs =
     foldl (\<lambda>d c. dset (patternKey (cr_pattern c))
       (case dget d (patternKey (cr_pattern c)) of None \<Rightarrow> cr_priority c | Some q \<Rightarrow> max q (cr_priority c)) d)
       [] cs"

definition host_priority :: "compiled_route list \<Rightarrow> compiled_route \<Rightarrow> int" where
  "host_priority cs c = the (dget (host_priorities cs) (patternKey (cr_pattern c)))"

text \<open>The four criteria of the sort, as one key: class and host priority and path length downwards,
  then the key.\<close>

definition order_key :: "compiled_route list \<Rightarrow> compiled_route \<Rightarrow> int \<times> int \<times> int \<times> string" where
  "order_key cs c = (- CLASS_RANK (cr_matchClass c), - host_priority cs c,
     - int (length (cr_pathPrefix c)), cr_key c)"

definition patternsConflict :: "host_pattern \<Rightarrow> host_pattern \<Rightarrow> bool" where
  "patternsConflict a b =
     (let one_label = (\<lambda>host suffix. ends_with host (CHR ''.'' # suffix) \<and>
            CHR ''.'' \<notin> set (take (length host - length suffix - 1) host)) in
      case (a, b) of
        (Exact x, Exact y) \<Rightarrow> x = y
      | (Wildcard x, Wildcard y) \<Rightarrow> x = y
      | (Exact h, Wildcard s) \<Rightarrow> one_label h s
      | (Wildcard s, Exact h) \<Rightarrow> one_label h s)"

definition class_inversions :: "compiled_route list \<Rightarrow> compile_warning list" where
  "class_inversions order =
     concat (map (\<lambda>hi. concat (map (\<lambda>lo.
       if CLASS_RANK (cr_matchClass hi) \<le> CLASS_RANK (cr_matchClass lo) then []
       else if cr_priority hi \<ge> cr_priority lo then []
       else if \<not> patternsConflict (cr_pattern hi) (cr_pattern lo) then []
       else [Priority_inversion (cr_key hi) (cr_key lo)]) order)) order)"

definition path_inversion :: "compiled_route \<Rightarrow> compiled_route \<Rightarrow> compile_warning list" where
  "path_inversion a b =
     (if patternKey (cr_pattern a) \<noteq> patternKey (cr_pattern b) then []
      else if length (cr_pathPrefix a) = length (cr_pathPrefix b) then []
      else if cr_priority a < cr_priority b then [Path_priority_ignored (sort [cr_key b, cr_key a])]
      else [])"

fun path_inversions :: "compiled_route list \<Rightarrow> compile_warning list" where
  "path_inversions [] = []"
| "path_inversions (a # rest) = concat (map (path_inversion a) rest) @ path_inversions rest"

definition analyze :: "compiled_route list \<Rightarrow> compile_warning list" where
  "analyze order = class_inversions order @ path_inversions order"

definition compileHostRoutes :: "(string \<Rightarrow> string option) \<Rightarrow> route_input list \<Rightarrow> compile_result" where
  "compileHostRoutes idna routes =
     (let (invalid, compiled) = partition_results (map (compile_route idna) routes);
          errors = invalid @ duplicate_errors [] (sort_key cr_key compiled) in
      if errors \<noteq> [] then \<lparr>cres_order = [], cres_warnings = [], cres_errors = errors\<rparr>
      else
        let order = sort_key (order_key compiled) compiled in
        \<lparr>cres_order = order, cres_warnings = analyze order, cres_errors = []\<rparr>)"

section \<open>The strict priority plan\<close>

record plan_host =
  ph_key :: string
  ph_pattern :: host_pattern
  ph_priority :: int

record strict_plan =
  sp_lowered :: "string list"
  sp_order :: "string list"

definition conflict_lists :: "plan_host list \<Rightarrow> nat list list" where
  "conflict_lists hosts =
     map (\<lambda>i. filter (\<lambda>j. j \<noteq> i \<and> patternsConflict (ph_pattern (hosts ! min i j)) (ph_pattern (hosts ! max i j)))
       [0..<length hosts]) [0..<length hosts]"

definition neighbours :: "nat list list \<Rightarrow> nat \<Rightarrow> nat list" where
  "neighbours adj i = (if i < length adj then adj ! i else [])"

fun push_unseen :: "nat list \<Rightarrow> nat list \<Rightarrow> nat list \<Rightarrow> nat list \<times> nat list" where
  "push_unseen [] seen stack = (seen, stack)"
| "push_unseen (nb # nbs) seen stack =
     (if nb \<in> set seen then push_unseen nbs seen stack
      else push_unseen nbs (nb # seen) (nb # stack))"

lemma push_unseen_sets:
  assumes "push_unseen nbs seen stack = (seen', stack')"
  shows "set seen' = set seen \<union> set nbs" "set stack' = set stack \<union> (set nbs - set seen)"
  using assms by (induction nbs seen stack rule: push_unseen.induct) (auto split: if_splits)

lemma push_unseen_measure:
  assumes "push_unseen nbs seen stack = (seen', stack')" "set nbs \<subseteq> U" "finite U"
  shows "length stack' + card (U - set seen') = length stack + card (U - set seen)"
  using assms
proof (induction nbs seen stack rule: push_unseen.induct)
  case (2 nb nbs seen stack)
  show ?case
  proof (cases "nb \<in> set seen")
    case True
    then show ?thesis using 2 by simp
  next
    case False
    then have "card (U - set seen) = Suc (card (U - insert nb (set seen)))"
      using 2(4,5) by (metis Diff_iff Diff_insert card_Suc_Diff1 finite_Diff insert_subset list.set(2))
    then show ?thesis using False 2 by simp
  qed
qed simp

text \<open>The search of one component: the stack with its top in front, the indices met so far, and the
  component in the order of the pops.\<close>

function component :: "nat list list \<Rightarrow> nat list \<Rightarrow> nat list \<Rightarrow> nat list \<Rightarrow> nat list \<times> nat list" where
  "component adj seen [] found = (seen, found)"
| "component adj seen (cur # stack) found =
     (let (seen', stack') = push_unseen (neighbours adj cur) seen stack in
      component adj seen' stack' (found @ [cur]))"
  by pat_completeness auto
termination
proof (relation "measure (\<lambda>(adj, seen, stack, found). length stack + card (\<Union> (set ` set adj) - set seen))")
  fix adj :: "nat list list" and seen cur stack found x seen' stack'
  assume "x = push_unseen (neighbours adj cur) seen stack" "(seen', stack') = x"
  then have p: "push_unseen (neighbours adj cur) seen stack = (seen', stack')" by simp
  have "set (neighbours adj cur) \<subseteq> \<Union> (set ` set adj)" by (force simp: neighbours_def)
  moreover have "finite (\<Union> (set ` set adj))" by simp
  ultimately have "length stack' + card (\<Union> (set ` set adj) - set seen') =
      length stack + card (\<Union> (set ` set adj) - set seen)"
    using push_unseen_measure [OF p] by blast
  then show "((adj, seen', stack', found @ [cur]), adj, seen, cur # stack, found)
    \<in> measure (\<lambda>(adj, seen, stack, found). length stack + card (\<Union> (set ` set adj) - set seen))" by simp
qed simp

declare component.simps(2) [simp del]

definition is_inverted :: "plan_host list \<Rightarrow> nat list \<Rightarrow> bool" where
  "is_inverted hosts found \<longleftrightarrow> list_ex (\<lambda>i. list_ex (\<lambda>j.
     CLASS_RANK (class_of (ph_pattern (hosts ! i))) > CLASS_RANK (class_of (ph_pattern (hosts ! j))) \<and>
     ph_priority (hosts ! i) < ph_priority (hosts ! j)) found) found"

text \<open>The outer loop over the start indices, collecting the indices of inverted components.\<close>

fun lowered_indices :: "plan_host list \<Rightarrow> nat list list \<Rightarrow> nat list \<Rightarrow> nat list \<Rightarrow> nat list" where
  "lowered_indices hosts adj seen [] = []"
| "lowered_indices hosts adj seen (s # ss) =
     (if s \<in> set seen then lowered_indices hosts adj seen ss
      else (let (seen', found) = component adj (s # seen) [s] [] in
        (if is_inverted hosts found then found else []) @ lowered_indices hosts adj seen' ss))"

definition planStrictPriority :: "plan_host list \<Rightarrow> strict_plan" where
  "planStrictPriority hosts =
     (let idx = lowered_indices hosts (conflict_lists hosts) [] [0..<length hosts];
          sorted_idx = sort_key (\<lambda>i. (- ph_priority (hosts ! i), ph_key (hosts ! i))) idx;
          keys = map (\<lambda>i. patternKey (ph_pattern (hosts ! i))) in
      \<lparr>sp_lowered = remdups (keys idx), sp_order = keys sorted_idx\<rparr>)"

end
