(* ===== verification/Route_Priority.thy ===== *)
theory Route_Priority
  imports Route_Compile
begin

text \<open>
  What the strict priority plan achieves: the search finds the connected components of the
  conflict graph, and with the lowered hosts served as ordered regular expressions the engine's
  choice for every host name has the highest priority of all hosts that match it.
\<close>

section \<open>Matching\<close>

definition pattern_matches :: "host_pattern \<Rightarrow> string \<Rightarrow> bool" where
  "pattern_matches p h = (case p of
       Exact x \<Rightarrow> x = h
     | Wildcard s \<Rightarrow> ends_with h (CHR ''.'' # s) \<and> CHR ''.'' \<notin> set (take (length h - length s - 1) h))"


lemma one_label_iff:
  "ends_with h (CHR ''.'' # s) \<and> CHR ''.'' \<notin> set (take (length h - length s - 1) h) \<longleftrightarrow>
     (\<exists>l. h = l @ CHR ''.'' # s \<and> CHR ''.'' \<notin> set l)"
proof
  assume a: "ends_with h (CHR ''.'' # s) \<and> CHR ''.'' \<notin> set (take (length h - length s - 1) h)"
  then obtain l where l: "h = l @ CHR ''.'' # s" unfolding ends_with_iff by blast
  then have "take (length h - length s - 1) h = l" by simp
  then show "\<exists>l. h = l @ CHR ''.'' # s \<and> CHR ''.'' \<notin> set l" using a l by metis
next
  assume "\<exists>l. h = l @ CHR ''.'' # s \<and> CHR ''.'' \<notin> set l"
  then obtain l where l: "h = l @ CHR ''.'' # s" "CHR ''.'' \<notin> set l" by blast
  then have "take (length h - length s - 1) h = l" by simp
  then show "ends_with h (CHR ''.'' # s) \<and> CHR ''.'' \<notin> set (take (length h - length s - 1) h)"
    using l unfolding ends_with_iff by metis
qed

lemma pattern_matches_simps [simp]:
  "pattern_matches (Exact x) h \<longleftrightarrow> x = h"
  "pattern_matches (Wildcard s) h \<longleftrightarrow> (\<exists>l. h = l @ CHR ''.'' # s \<and> CHR ''.'' \<notin> set l)"
  unfolding pattern_matches_def host_pattern.case one_label_iff by (rule refl)+

lemma one_label_unique:
  assumes "l @ CHR ''.'' # s = l' @ CHR ''.'' # s'" "CHR ''.'' \<notin> set l" "CHR ''.'' \<notin> set l'"
  shows "s = s'"
  using assms by (induction l arbitrary: l') (auto simp: Cons_eq_append_conv append_eq_Cons_conv)

lemma wildcards_agree:
  "pattern_matches (Wildcard s) h \<Longrightarrow> pattern_matches (Wildcard s') h \<Longrightarrow> s = s'"
  using one_label_unique by auto

lemma conflict_simps:
  "patternsConflict (Exact x) (Exact y) \<longleftrightarrow> x = y"
  "patternsConflict (Wildcard x) (Wildcard y) \<longleftrightarrow> x = y"
  "patternsConflict (Exact x) (Wildcard y) \<longleftrightarrow> pattern_matches (Wildcard y) x"
  "patternsConflict (Wildcard y) (Exact x) \<longleftrightarrow> pattern_matches (Wildcard y) x"
  unfolding patternsConflict_def pattern_matches_def Let_def prod.case host_pattern.case by (rule refl)+

lemma conflict_sym: "patternsConflict a b = patternsConflict b a"
  by (cases a; cases b) (auto simp: conflict_simps)

lemma conflict_if_both:
  "pattern_matches a h \<Longrightarrow> pattern_matches b h \<Longrightarrow> patternsConflict a b"
  by (cases a; cases b) (auto simp: conflict_simps dest: wildcards_agree simp del: pattern_matches_simps(2))

lemma both_if_conflict:
  assumes "patternsConflict a b"
  shows "\<exists>h. pattern_matches a h \<and> pattern_matches b h"
proof (cases a; cases b)
  fix x y assume "a = Wildcard x" "b = Wildcard y"
  moreover have "pattern_matches (Wildcard x) (CHR ''.'' # x)" by (auto intro: exI [of _ "[]"])
  ultimately show ?thesis using assms by (auto simp: conflict_simps simp del: pattern_matches_simps(2))
qed (use assms in \<open>auto simp: conflict_simps simp del: pattern_matches_simps(2)\<close>)

lemma patternKey_inject [simp]: "patternKey p = patternKey q \<longleftrightarrow> p = q"
  by (cases p; cases q) (simp_all add: patternKey_def)

definition key_pattern :: "string \<Rightarrow> host_pattern" where
  "key_pattern k = (if hd k = CHR ''='' then Exact (tl k) else Wildcard (tl k))"

lemma key_pattern_inverse [simp]: "key_pattern (patternKey p) = p"
  by (cases p) (simp_all add: key_pattern_def patternKey_def)

section \<open>The search\<close>

definition edges :: "nat list list \<Rightarrow> (nat \<times> nat) set" where
  "edges adj = {(i, j). j \<in> set (neighbours adj i)}"

definition closed_under :: "nat list list \<Rightarrow> nat set \<Rightarrow> bool" where
  "closed_under adj S \<longleftrightarrow> (\<forall>x \<in> S. set (neighbours adj x) \<subseteq> S)"

lemma closed_reach:
  assumes "closed_under adj S" "(x, y) \<in> (edges adj)\<^sup>*" "x \<in> S"
  shows "y \<in> S"
  using assms(2,3,1) by (induction rule: rtrancl_induct) (auto simp: closed_under_def edges_def)

lemma component_result:
  assumes "component adj seen stack found = (seen', found')"
  shows "set seen \<subseteq> set seen'" "set found' = set found \<union> set stack \<union> (set seen' - set seen)"
    "set seen' \<subseteq> set seen \<union> (edges adj)\<^sup>* `` set stack"
    "(\<forall>x \<in> set seen - set stack. set (neighbours adj x) \<subseteq> set seen) \<Longrightarrow> closed_under adj (set seen')"
  using assms
proof (induction adj seen stack found rule: component.induct)
  case (1 adj seen found)
  {
    case 1 then show ?case by simp
  next
    case 2 then show ?case by simp
  next
    case 3 then show ?case by simp
  next
    case 4 then show ?case by (simp add: closed_under_def)
  }
next
  case (2 adj seen cur stack found)
  obtain s1 st1 where p: "push_unseen (neighbours adj cur) seen stack = (s1, st1)" by fastforce
  note sets = push_unseen_sets [OF p]
  have rec: "component adj s1 st1 (found @ [cur]) = (seen', found')"
    if "component adj seen (cur # stack) found = (seen', found')"
    using that by (simp add: component.simps p)
  note IH = 2 [OF p [symmetric] refl]
  {
    case 1
    show ?case using IH(1) [OF rec [OF 1]] sets by auto
  next
    case 2
    show ?case using IH(1,2) [OF rec [OF 2]] sets by auto
  next
    case 3
    have "(edges adj)\<^sup>* `` set st1 \<subseteq> (edges adj)\<^sup>* `` set (cur # stack)"
    proof
      fix y assume "y \<in> (edges adj)\<^sup>* `` set st1"
      then obtain x where x: "x \<in> set st1" "(x, y) \<in> (edges adj)\<^sup>*" by auto
      show "y \<in> (edges adj)\<^sup>* `` set (cur # stack)"
      proof (cases "x \<in> set stack")
        case True
        then show ?thesis using x by auto
      next
        case False
        then have "(cur, x) \<in> edges adj" using x sets by (auto simp: edges_def)
        then show ?thesis using x(2) by (auto intro: converse_rtrancl_into_rtrancl)
      qed
    qed
    moreover have "set (neighbours adj cur) \<subseteq> (edges adj)\<^sup>* `` set (cur # stack)"
      by (auto simp: edges_def)
    ultimately show ?case using IH(3) [OF rec [OF 3]] sets by blast
  next
    case 4
    have "\<forall>x \<in> set s1 - set st1. set (neighbours adj x) \<subseteq> set s1"
      using 4(1) sets by auto
    then show ?case using IH(4) [OF _ rec [OF 4(2)]] by blast
  }
qed

lemma component_exact:
  assumes c: "component adj (s # seen) [s] [] = (seen', found)" and cl: "closed_under adj (set seen)"
    and sym: "sym (edges adj)" and new: "s \<notin> set seen"
  shows "set found = (edges adj)\<^sup>* `` {s}" "set seen' = set seen \<union> (edges adj)\<^sup>* `` {s}"
    "closed_under adj (set seen')"
proof -
  note r = component_result [OF c]
  have "\<forall>x \<in> set (s # seen) - set [s]. set (neighbours adj x) \<subseteq> set (s # seen)"
    using cl by (auto simp: closed_under_def)
  then show closed: "closed_under adj (set seen')" by (rule r(4))
  have in_seen: "(edges adj)\<^sup>* `` {s} \<subseteq> set seen'"
    using closed_reach [OF closed] r(1) by auto
  have disj: "(edges adj)\<^sup>* `` {s} \<inter> set seen = {}"
  proof -
    have "(x, s) \<in> (edges adj)\<^sup>*" if "(s, x) \<in> (edges adj)\<^sup>*" for x
      using that sym by (meson symD sym_rtrancl)
    then show ?thesis using closed_reach [OF cl] new by auto
  qed
  show "set seen' = set seen \<union> (edges adj)\<^sup>* `` {s}" using r(1,3) in_seen by auto
  then show "set found = (edges adj)\<^sup>* `` {s}" using r(2) disj new by auto
qed

definition inverted :: "plan_host list \<Rightarrow> nat set \<Rightarrow> bool" where
  "inverted hosts C \<longleftrightarrow> (\<exists>i \<in> C. \<exists>j \<in> C.
     CLASS_RANK (class_of (ph_pattern (hosts ! i))) > CLASS_RANK (class_of (ph_pattern (hosts ! j))) \<and>
     ph_priority (hosts ! i) < ph_priority (hosts ! j))"

lemma is_inverted_iff: "is_inverted hosts found = inverted hosts (set found)"
  by (simp add: is_inverted_def inverted_def list_ex_iff)

lemma component_same:
  assumes "sym E" "(s, i) \<in> E\<^sup>*"
  shows "E\<^sup>* `` {s} = E\<^sup>* `` {i}"
  using assms by (meson equiv_class_eq_iff symD sym_rtrancl Image_singleton_iff rtrancl_trans
      set_eqI)

lemma lowered_indices_iff:
  assumes "closed_under adj (set seen)" "sym (edges adj)"
  shows "i \<in> set (lowered_indices hosts adj seen ss) \<longleftrightarrow>
     (\<exists>s \<in> set ss. s \<notin> set seen \<and> (s, i) \<in> (edges adj)\<^sup>* \<and> inverted hosts ((edges adj)\<^sup>* `` {s}))"
  using assms
proof (induction hosts adj seen ss rule: lowered_indices.induct)
  case (2 hosts adj seen s ss)
  show ?case
  proof (cases "s \<in> set seen")
    case True
    then show ?thesis using 2 by simp
  next
    case False
    obtain seen' found where c: "component adj (s # seen) [s] [] = (seen', found)" by fastforce
    note e = component_exact [OF c 2(3,4) False]
    have ih: "i \<in> set (lowered_indices hosts adj seen' ss) \<longleftrightarrow> (\<exists>t \<in> set ss. t \<notin> set seen' \<and>
        (t, i) \<in> (edges adj)\<^sup>* \<and> inverted hosts ((edges adj)\<^sup>* `` {t}))"
      using 2(2) [OF False c [symmetric] refl e(3) 2(4)] .
    have l: "i \<in> set (lowered_indices hosts adj seen (s # ss)) \<longleftrightarrow>
        (inverted hosts ((edges adj)\<^sup>* `` {s}) \<and> (s, i) \<in> (edges adj)\<^sup>*) \<or>
        i \<in> set (lowered_indices hosts adj seen' ss)"
      using False e(1) by (simp add: c is_inverted_iff)
    have known: "(edges adj)\<^sup>* `` {s} = (edges adj)\<^sup>* `` {t}" if "t \<in> set seen'" "t \<notin> set seen" for t
      using component_same [OF 2(4), of s t] that e(2) by auto
    show ?thesis unfolding l ih using False e(2) known by (auto; blast)
  qed
qed simp

section \<open>The plan respects the priorities\<close>

lemma edges_conflict_lists:
  "(i, j) \<in> edges (conflict_lists hosts) \<longleftrightarrow> i < length hosts \<and> j < length hosts \<and> i \<noteq> j \<and>
     patternsConflict (ph_pattern (hosts ! i)) (ph_pattern (hosts ! j))"
  by (auto simp: edges_def neighbours_def conflict_lists_def min_def max_def conflict_sym)

lemma sym_conflict_lists: "sym (edges (conflict_lists hosts))"
  by (auto simp: sym_def edges_conflict_lists conflict_sym)

definition conflict_component :: "plan_host list \<Rightarrow> nat \<Rightarrow> nat set" where
  "conflict_component hosts i = (edges (conflict_lists hosts))\<^sup>* `` {i}"

lemma component_bounds: "(i, j) \<in> (edges (conflict_lists hosts))\<^sup>* \<Longrightarrow> i < length hosts \<Longrightarrow> j < length hosts"
  by (induction rule: rtrancl_induct) (auto simp: edges_conflict_lists)

lemma lowered_index_iff:
  "i \<in> set (lowered_indices hosts (conflict_lists hosts) [] [0..<length hosts]) \<longleftrightarrow>
     i < length hosts \<and> inverted hosts (conflict_component hosts i)"
proof -
  note same = component_same [OF sym_conflict_lists]
  have "i \<in> set (lowered_indices hosts (conflict_lists hosts) [] [0..<length hosts]) \<longleftrightarrow>
      (\<exists>s<length hosts. (s, i) \<in> (edges (conflict_lists hosts))\<^sup>* \<and> inverted hosts (conflict_component hosts s))"
    by (subst lowered_indices_iff)
      (auto simp: closed_under_def sym_conflict_lists conflict_component_def)
  also have "\<dots> \<longleftrightarrow> i < length hosts \<and> inverted hosts (conflict_component hosts i)"
    unfolding conflict_component_def using same component_bounds by (metis rtrancl.rtrancl_refl)
  finally show ?thesis .
qed

lemma lowered_exactly_aux:
  assumes "distinct (map ph_pattern hosts)" "i < length hosts"
  shows "patternKey (ph_pattern (hosts ! i)) \<in> set (sp_lowered (planStrictPriority hosts)) \<longleftrightarrow>
    inverted hosts (conflict_component hosts i)"
proof -
  have "j = i" if "j < length hosts" "ph_pattern (hosts ! j) = ph_pattern (hosts ! i)" for j
    using assms that by (simp add: distinct_conv_nth) metis
  moreover have "patternKey (ph_pattern (hosts ! i)) \<in> set (sp_lowered (planStrictPriority hosts)) \<longleftrightarrow>
      (\<exists>j \<in> set (lowered_indices hosts (conflict_lists hosts) [] [0..<length hosts]).
        ph_pattern (hosts ! i) = ph_pattern (hosts ! j))"
    by (simp add: planStrictPriority_def Let_def image_iff)
  ultimately show ?thesis using assms(2) lowered_index_iff by metis
qed

text \<open>A host is lowered to a regular expression exactly when its connected component of competing
  hosts holds a pair whose classes and priorities disagree: the plan lowers no host that could
  stay, and leaves none that has to go.\<close>
theorem lowered_exactly_inverted_components:
  assumes "distinct (map ph_pattern hosts)" "i < length hosts"
  shows "patternKey (ph_pattern (hosts ! i)) \<in> set (sp_lowered (planStrictPriority hosts)) \<longleftrightarrow>
    (\<exists>a \<in> conflict_component hosts i. \<exists>b \<in> conflict_component hosts i.
       CLASS_RANK (class_of (ph_pattern (hosts ! a))) > CLASS_RANK (class_of (ph_pattern (hosts ! b))) \<and>
       ph_priority (hosts ! a) < ph_priority (hosts ! b))"
  using lowered_exactly_aux [OF assms] unfolding inverted_def .

text \<open>The engine that serves the plan: a name is looked up among the exact hosts that stayed, then among
  the wildcards that stayed, then among the regular expressions in their order.\<close>

definition engine_pick :: "plan_host list \<Rightarrow> string \<Rightarrow> host_pattern option" where
  "engine_pick hosts h =
     (let plan = planStrictPriority hosts;
          stayed = filter (\<lambda>p. patternKey p \<notin> set (sp_lowered plan)) (map ph_pattern hosts) in
      case find (\<lambda>p. class_of p = Exact_host \<and> pattern_matches p h) stayed of
        Some p \<Rightarrow> Some p
      | None \<Rightarrow> (case find (\<lambda>p. class_of p = Wildcard_host \<and> pattern_matches p h) stayed of
          Some p \<Rightarrow> Some p
        | None \<Rightarrow> find (\<lambda>p. pattern_matches p h) (map key_pattern (sp_order plan))))"

lemma find_sorted_max:
  assumes "sorted (map f xs)" "x \<in> set xs" "P x"
  shows "\<exists>y. find P xs = Some y \<and> y \<in> set xs \<and> P y \<and> f y \<le> f x"
  using assms by (induction xs) auto

lemma find_map_image: "find P (map f xs) = map_option f (find (\<lambda>x. P (f x)) xs)"
  by (induction xs) simp_all

lemma find_first:
  assumes "x \<in> set xs" "P x"
  obtains y where "find P xs = Some y" "y \<in> set xs" "P y"
  using assms by (cases "find P xs") (auto simp: find_None_iff find_Some_iff)

lemma nth_pattern:
  "p \<in> set (filter P (map ph_pattern hosts)) \<Longrightarrow> \<exists>i<length hosts. p = ph_pattern (hosts ! i)"
  by (metis (no_types, lifting) filter_is_subset in_set_conv_nth length_map nth_map subsetD)

lemma matching_same_component:
  assumes "i < length hosts" "k < length hosts"
    "pattern_matches (ph_pattern (hosts ! i)) h" "pattern_matches (ph_pattern (hosts ! k)) h"
  shows "conflict_component hosts i = conflict_component hosts k" "i \<in> conflict_component hosts k"
proof -
  have "(k, i) \<in> (edges (conflict_lists hosts))\<^sup>*"
    using assms conflict_if_both by (cases "i = k") (auto simp: edges_conflict_lists)
  then show "conflict_component hosts i = conflict_component hosts k" "i \<in> conflict_component hosts k"
    using component_same [OF sym_conflict_lists] by (auto simp: conflict_component_def)
qed

lemma pick_lowered:
  assumes dist: "distinct (map ph_pattern hosts)" and k: "k < length hosts"
    "pattern_matches (ph_pattern (hosts ! k)) h" "inverted hosts (conflict_component hosts k)"
  shows "\<exists>w < length hosts. engine_pick hosts h = Some (ph_pattern (hosts ! w)) \<and>
    pattern_matches (ph_pattern (hosts ! w)) h \<and> ph_priority (hosts ! k) \<le> ph_priority (hosts ! w)"
proof -
  define plan where "plan = planStrictPriority hosts"
  define idx where "idx = lowered_indices hosts (conflict_lists hosts) [] [0..<length hosts]"
  define ord where "ord = (\<lambda>i. (- ph_priority (hosts ! i), ph_key (hosts ! i)))"
  define stayed where "stayed = filter (\<lambda>p. patternKey p \<notin> set (sp_lowered plan)) (map ph_pattern hosts)"
  have low: "sp_lowered plan = remdups (map (\<lambda>i. patternKey (ph_pattern (hosts ! i))) idx)"
    and order: "map key_pattern (sp_order plan) = map (\<lambda>i. ph_pattern (hosts ! i)) (sort_key ord idx)"
    by (simp_all add: plan_def planStrictPriority_def Let_def idx_def ord_def comp_def)
  have mem: "i \<in> set idx \<longleftrightarrow> i < length hosts \<and> inverted hosts (conflict_component hosts i)" for i
    unfolding idx_def by (rule lowered_index_iff)
  have none: "\<not> pattern_matches p h" if p: "p \<in> set stayed" for p
  proof
    assume "pattern_matches p h"
    moreover obtain i where i: "i < length hosts" "p = ph_pattern (hosts ! i)"
      using nth_pattern p unfolding stayed_def by blast
    ultimately have "i \<in> set idx" using matching_same_component(1) [of i hosts k h] k by (simp add: mem)
    then show False using p i by (auto simp: stayed_def low)
  qed
  have "k \<in> set (sort_key ord idx)" using k by (simp add: mem)
  moreover have "sorted (map ord (sort_key ord idx))" by simp
  ultimately obtain w where w: "find (\<lambda>i. pattern_matches (ph_pattern (hosts ! i)) h) (sort_key ord idx) = Some w"
    "w \<in> set (sort_key ord idx)" "pattern_matches (ph_pattern (hosts ! w)) h" "ord w \<le> ord k"
    using find_sorted_max [of ord "sort_key ord idx" k "\<lambda>i. pattern_matches (ph_pattern (hosts ! i)) h"] k
    by blast
  have direct: "find (\<lambda>p. c p \<and> pattern_matches p h) stayed = None" for c
    using none by (auto simp: find_None_iff)
  have "engine_pick hosts h = find (\<lambda>p. pattern_matches p h) (map key_pattern (sp_order plan))"
    unfolding engine_pick_def Let_def plan_def [symmetric] stayed_def [symmetric] direct by simp
  also have "\<dots> = Some (ph_pattern (hosts ! w))"
    unfolding order using find_map_image [of "\<lambda>p. pattern_matches p h" "\<lambda>i. ph_pattern (hosts ! i)"] w(1) by simp
  finally have "engine_pick hosts h = Some (ph_pattern (hosts ! w))" .
  moreover have "ph_priority (hosts ! k) \<le> ph_priority (hosts ! w)"
    using w(4) by (auto simp: ord_def less_eq_prod_def)
  ultimately show ?thesis using w mem by auto
qed

lemma pick_stayed:
  assumes dist: "distinct (map ph_pattern hosts)" and k: "k < length hosts"
    "pattern_matches (ph_pattern (hosts ! k)) h" "\<not> inverted hosts (conflict_component hosts k)"
  shows "\<exists>w < length hosts. engine_pick hosts h = Some (ph_pattern (hosts ! w)) \<and>
    pattern_matches (ph_pattern (hosts ! w)) h \<and> ph_priority (hosts ! k) \<le> ph_priority (hosts ! w)"
proof -
  define plan where "plan = planStrictPriority hosts"
  define stayed where "stayed = filter (\<lambda>p. patternKey p \<notin> set (sp_lowered plan)) (map ph_pattern hosts)"
  have unique: "i = j" if "i < length hosts" "j < length hosts" "ph_pattern (hosts ! i) = ph_pattern (hosts ! j)" for i j
    using dist that by (simp add: distinct_conv_nth) metis
  have stays: "ph_pattern (hosts ! i) \<in> set stayed"
    if "i < length hosts" "pattern_matches (ph_pattern (hosts ! i)) h" for i
  proof -
    have "\<not> inverted hosts (conflict_component hosts i)"
      using matching_same_component(1) [of i hosts k h] that k by simp
    then have "patternKey (ph_pattern (hosts ! i)) \<notin> set (sp_lowered plan)"
      unfolding plan_def lowered_exactly_aux [OF dist that(1)] .
    then show ?thesis using that(1) by (simp add: stayed_def)
  qed
  have pick: "engine_pick hosts h = (case find (\<lambda>p. class_of p = Exact_host \<and> pattern_matches p h) stayed of
      Some p \<Rightarrow> Some p
    | None \<Rightarrow> (case find (\<lambda>p. class_of p = Wildcard_host \<and> pattern_matches p h) stayed of
        Some p \<Rightarrow> Some p
      | None \<Rightarrow> find (\<lambda>p. pattern_matches p h) (map key_pattern (sp_order plan))))"
    unfolding engine_pick_def Let_def plan_def [symmetric] stayed_def [symmetric] ..
  show ?thesis
  proof (cases "find (\<lambda>p. class_of p = Exact_host \<and> pattern_matches p h) stayed")
    case (Some p)
    then have p: "class_of p = Exact_host" "pattern_matches p h" "p \<in> set stayed"
      by (auto simp: find_Some_iff)
    obtain w where w: "w < length hosts" "p = ph_pattern (hosts ! w)"
      using nth_pattern p(3) unfolding stayed_def by blast
    have "ph_priority (hosts ! k) \<le> ph_priority (hosts ! w)"
    proof (cases "class_of (ph_pattern (hosts ! k))")
      case Exact_host
      then have "ph_pattern (hosts ! k) = ph_pattern (hosts ! w)"
        using p w k(2) by (auto simp: class_of_def split: host_pattern.splits)
      then show ?thesis using unique w k by auto
    next
      case Wildcard_host
      have "w \<in> conflict_component hosts k" "k \<in> conflict_component hosts k"
        using matching_same_component(2) [of _ hosts k h] w p k by auto
      then show ?thesis using k(3) p(1) w(2) Wildcard_host
        unfolding inverted_def by (force simp: CLASS_RANK_def)
    qed (simp add: class_of_def split: host_pattern.splits)
    then show ?thesis using Some w p pick by auto
  next
    case None
    then have wild: "class_of (ph_pattern (hosts ! k)) = Wildcard_host"
      using stays [OF k(1,2)] k(2) by (auto simp: find_None_iff class_of_def split: host_pattern.splits)
    obtain p where p: "find (\<lambda>p. class_of p = Wildcard_host \<and> pattern_matches p h) stayed = Some p"
      "class_of p = Wildcard_host \<and> pattern_matches p h"
      by (rule find_first [OF stays [OF k(1,2)], of "\<lambda>p. class_of p = Wildcard_host \<and> pattern_matches p h"])
        (use wild k in auto)
    have "p = ph_pattern (hosts ! k)"
      using p(2) wild k(2) wildcards_agree
      by (auto simp: class_of_def split: host_pattern.splits simp del: pattern_matches_simps(2))
    then show ?thesis using pick None p k(1) by auto
  qed
qed

text \<open>C20: Under the strict priority plan the engine serves every host name that some host matches, by a
  host that matches it and whose priority is the highest of all that match.\<close>
theorem strict_priority_respected:
  assumes "distinct (map ph_pattern hosts)" "x \<in> set hosts" "pattern_matches (ph_pattern x) h"
  shows "\<exists>w \<in> set hosts. engine_pick hosts h = Some (ph_pattern w) \<and> pattern_matches (ph_pattern w) h \<and>
    ph_priority x \<le> ph_priority w"
proof -
  obtain k where k: "k < length hosts" "x = hosts ! k" using assms(2) by (auto simp: in_set_conv_nth)
  have "\<exists>w < length hosts. engine_pick hosts h = Some (ph_pattern (hosts ! w)) \<and>
      pattern_matches (ph_pattern (hosts ! w)) h \<and> ph_priority (hosts ! k) \<le> ph_priority (hosts ! w)"
    using pick_lowered pick_stayed assms(1,3) k by metis
  then show ?thesis using k(2) nth_mem by blast
qed

end
