(* ===== verification/Route_Order.thy ===== *)
theory Route_Order
  imports Route_Priority "HOL-Library.Sublist" "HOL-Library.Product_Lexorder"
begin

text \<open>
  What the compiled order promises: it is an arrangement of the routes that were given, the errors
  are exactly the ones nginx would refuse, the first route of the order that takes a request is
  the one of the engine's rule, and an order without warnings respects the priorities.
\<close>

definition takes :: "compiled_route \<Rightarrow> string \<Rightarrow> string \<Rightarrow> bool" where
  "takes c h path \<longleftrightarrow> pattern_matches (cr_pattern c) h \<and> prefix (cr_pathPrefix c) path"

definition first_match :: "compiled_route list \<Rightarrow> string \<Rightarrow> string \<Rightarrow> compiled_route option" where
  "first_match order h path = find (\<lambda>c. takes c h path) order"

definition route_prefix :: "route_input \<Rightarrow> string" where
  "route_prefix r = (case ri_pathPrefix r of None \<Rightarrow> ''/'' | Some x \<Rightarrow> x)"

section \<open>Errors\<close>

lemma partition_results_simps:
  "fst (partition_results xs) = concat (map (\<lambda>x. case x of Inl e \<Rightarrow> [e] | Inr _ \<Rightarrow> []) xs)"
  "snd (partition_results xs) = concat (map (\<lambda>x. case x of Inl _ \<Rightarrow> [] | Inr a \<Rightarrow> [a]) xs)"
  by (induction xs) (auto simp: split_beta Let_def split: sum.splits)

lemma duplicate_errors_empty:
  "duplicate_errors seen cs = [] \<longleftrightarrow> distinct (map match_key cs) \<and> set (map match_key cs) \<inter> set seen = {}"
  by (induction seen cs rule: duplicate_errors.induct) auto

lemma distinct_map_sort: "distinct (map f (sort_key g xs)) = distinct (map f xs)"
proof -
  have "mset (map f (sort_key g xs)) = mset (map f xs)" by simp
  then show ?thesis by (rule mset_eq_imp_distinct_iff)
qed

definition no_bar :: "host_pattern \<Rightarrow> bool" where
  "no_bar p = (case p of Exact h \<Rightarrow> CHR ''|'' \<notin> set h | Wildcard h \<Rightarrow> CHR ''|'' \<notin> set h)"

lemma normalizeHost_no_bar: "normalizeHost idna s = Inr a \<Longrightarrow> CHR ''|'' \<notin> set a"
  by (erule normalizeHost_Inr) (use normal_chars lower_or_digit_facts(4) in \<open>fastforce simp: char_class_defs\<close>)

lemma parseHostPattern_no_bar: "parseHostPattern idna s = Inr p \<Longrightarrow> no_bar p"
  by (auto simp: parseHostPattern_def no_bar_def Let_def dest: normalizeHost_no_bar elim!: bindE_InrE
      split: if_splits sum.splits)

lemma append_bar_inject:
  "CHR ''|'' \<notin> set a \<Longrightarrow> CHR ''|'' \<notin> set b \<Longrightarrow> a @ CHR ''|'' # x = b @ CHR ''|'' # y \<longleftrightarrow> a = b \<and> x = y"
proof (induction a arbitrary: b)
  case (Cons u a)
  then show ?case by (cases b) auto
qed (auto simp: Cons_eq_append_conv)

lemma match_key_inject:
  assumes "no_bar (cr_pattern c)" "no_bar (cr_pattern d)"
  shows "match_key c = match_key d \<longleftrightarrow> cr_pattern c = cr_pattern d \<and> cr_pathPrefix c = cr_pathPrefix d"
proof -
  have "CHR ''|'' \<notin> set (patternKey p)" if "no_bar p" for p
    using that by (auto simp: no_bar_def patternKey_def split: host_pattern.splits)
  then show ?thesis using assms by (simp add: match_key_def append_bar_inject)
qed

lemma compile_route_Inr:
  "compile_route idna r = Inr c \<longleftrightarrow> (\<exists>p. parseHostPattern idna (ri_host r) = Inr p \<and>
     c = \<lparr>cr_key = ri_key r, cr_matchClass = class_of p, cr_pattern = p, cr_priority = ri_priority r,
       cr_pathPrefix = route_prefix r\<rparr>)"
  by (auto simp: compile_route_def route_prefix_def split: sum.splits)

definition compiled_of :: "(string \<Rightarrow> string option) \<Rightarrow> route_input list \<Rightarrow> compiled_route list" where
  "compiled_of idna rs = snd (partition_results (map (compile_route idna) rs))"

lemma compiled_of_simps [simp]:
  "compiled_of idna [] = []"
  "compiled_of idna (r # rs) =
     (case compile_route idna r of Inl _ \<Rightarrow> [] | Inr c \<Rightarrow> [c]) @ compiled_of idna rs"
  by (auto simp: compiled_of_def split_beta Let_def split: sum.splits)

lemma compiled_of_pattern:
  assumes "c \<in> set (compiled_of idna rs)"
  shows "no_bar (cr_pattern c)" "cr_matchClass c = class_of (cr_pattern c)"
proof -
  have "\<exists>r \<in> set rs. compile_route idna r = Inr c"
    using assms by (induction rs) (auto split: sum.split_asm)
  then show "no_bar (cr_pattern c)" "cr_matchClass c = class_of (cr_pattern c)"
    by (auto simp: compile_route_Inr parseHostPattern_no_bar)
qed

lemma compile_result_cases:
  assumes "cres_errors (compileHostRoutes idna rs) = []"
  shows "cres_order (compileHostRoutes idna rs) = sort_key (order_key (compiled_of idna rs)) (compiled_of idna rs)"
    "cres_warnings (compileHostRoutes idna rs) =
       analyze (sort_key (order_key (compiled_of idna rs)) (compiled_of idna rs))"
  using assms unfolding compileHostRoutes_def compiled_of_def
  by (auto simp: Let_def split_beta split: if_splits)

lemma errors_empty_iff:
  "cres_errors (compileHostRoutes idna rs) = [] \<longleftrightarrow>
     fst (partition_results (map (compile_route idna) rs)) = [] \<and> distinct (map match_key (compiled_of idna rs))"
  by (auto simp: compileHostRoutes_def compiled_of_def Let_def split_beta duplicate_errors_empty distinct_map_sort)

lemma invalid_empty_iff:
  "fst (partition_results (map (compile_route idna) rs)) = [] \<longleftrightarrow>
     (\<forall>r \<in> set rs. \<exists>p. parseHostPattern idna (ri_host r) = Inr p)"
  by (induction rs) (auto simp: split_beta Let_def compile_route_def split: sum.splits)

lemma not_isl: "\<not> isl x \<longleftrightarrow> (\<exists>p. x = Inr p)"
  by (cases x) simp_all

lemma compiled_of_all:
  assumes "\<forall>r \<in> set rs. \<exists>p. parseHostPattern idna (ri_host r) = Inr p"
  shows "map (\<lambda>c. (cr_pattern c, cr_pathPrefix c)) (compiled_of idna rs) =
      map (\<lambda>r. (projr (parseHostPattern idna (ri_host r)), route_prefix r)) rs"
    "map cr_key (compiled_of idna rs) = map ri_key rs"
  using assms by (induction rs) (auto simp: compile_route_def route_prefix_def)

lemma distinct_match_key:
  assumes "\<forall>c \<in> set cs. no_bar (cr_pattern c)"
  shows "distinct (map match_key cs) \<longleftrightarrow> distinct (map (\<lambda>c. (cr_pattern c, cr_pathPrefix c)) cs)"
  using assms by (induction cs) (auto simp: match_key_inject image_iff)

text \<open>C22: The compiler refuses a set of routes exactly when one of the hosts does not parse or two routes
  have the same host pattern and the same path prefix; what it accepts comes out complete, each
  route once.\<close>
theorem compileHostRoutes_errors:
  "(cres_errors (compileHostRoutes idna rs) = [] \<longleftrightarrow>
     list_all (\<lambda>r. \<not> isl (parseHostPattern idna (ri_host r))) rs \<and>
     distinct (map (\<lambda>r. (projr (parseHostPattern idna (ri_host r)), route_prefix r)) rs)) \<and>
   mset (map cr_key (cres_order (compileHostRoutes idna rs))) =
     (if cres_errors (compileHostRoutes idna rs) = [] then mset (map ri_key rs) else {#})"
proof (intro conjI)
  have "\<forall>c \<in> set (compiled_of idna rs). no_bar (cr_pattern c)" using compiled_of_pattern by blast
  then show "cres_errors (compileHostRoutes idna rs) = [] \<longleftrightarrow>
     list_all (\<lambda>r. \<not> isl (parseHostPattern idna (ri_host r))) rs \<and>
     distinct (map (\<lambda>r. (projr (parseHostPattern idna (ri_host r)), route_prefix r)) rs)"
    using compiled_of_all(1) by (auto simp: errors_empty_iff invalid_empty_iff distinct_match_key list_all_iff not_isl)
  show "mset (map cr_key (cres_order (compileHostRoutes idna rs))) =
     (if cres_errors (compileHostRoutes idna rs) = [] then mset (map ri_key rs) else {#})"
  proof (cases "cres_errors (compileHostRoutes idna rs) = []")
    case True
    then have "map cr_key (compiled_of idna rs) = map ri_key rs"
      using compiled_of_all(2) by (simp add: errors_empty_iff invalid_empty_iff)
    then have "mset (map cr_key (compiled_of idna rs)) = mset (map ri_key rs)" by (rule arg_cong)
    then show ?thesis using True by (simp add: compile_result_cases(1))
  next
    case False
    then show ?thesis by (auto simp: compileHostRoutes_def Let_def split_beta)
  qed
qed

section \<open>The order\<close>

lemma find_sorted_first:
  assumes "sorted_wrt R xs" "find P xs = Some w" "x \<in> set xs" "P x"
  shows "x = w \<or> R w x"
  using assms by (induction xs) (auto split: if_splits)

lemma pattern_class_rank:
  "cr_matchClass c = class_of (cr_pattern c) \<Longrightarrow> cr_matchClass d = class_of (cr_pattern d) \<Longrightarrow>
   CLASS_RANK (cr_matchClass c) = CLASS_RANK (cr_matchClass d) \<Longrightarrow>
   takes c h path \<Longrightarrow> takes d h path \<Longrightarrow> cr_pattern c = cr_pattern d"
  using wildcards_agree
  by (auto simp: takes_def class_of_def CLASS_RANK_def simp del: pattern_matches_simps(2) split: host_pattern.splits)

lemma order_key_le:
  assumes "order_key cs w \<le> order_key cs c"
  shows "CLASS_RANK (cr_matchClass c) \<le> CLASS_RANK (cr_matchClass w)"
    "CLASS_RANK (cr_matchClass c) = CLASS_RANK (cr_matchClass w) \<Longrightarrow> cr_pattern c = cr_pattern w \<Longrightarrow>
     length (cr_pathPrefix c) \<le> length (cr_pathPrefix w)"
  using assms by (auto simp: order_key_def less_eq_prod_def host_priority_def)

text \<open>The compiled order is the engine's: the first route of the order that takes a request has an
  exact host if any route that takes it has one, and among the routes of its own host it has the
  longest path prefix.\<close>
theorem first_match_engine:
  assumes "cres_errors (compileHostRoutes idna rs) = []"
    and "first_match (cres_order (compileHostRoutes idna rs)) h path = Some w"
    and "c \<in> set (cres_order (compileHostRoutes idna rs))" "takes c h path"
  shows "takes w h path \<and> CLASS_RANK (cr_matchClass c) \<le> CLASS_RANK (cr_matchClass w) \<and>
    (cr_matchClass c = cr_matchClass w \<longrightarrow> cr_pattern c = cr_pattern w \<and>
       length (cr_pathPrefix c) \<le> length (cr_pathPrefix w))"
proof -
  define cs where "cs = compiled_of idna rs"
  note order = compile_result_cases(1) [OF assms(1), folded cs_def]
  have "sorted_wrt (\<lambda>x y. order_key cs x \<le> order_key cs y) (sort_key (order_key cs) cs)"
    using sorted_sort_key [of "order_key cs" cs] by (simp add: sorted_wrt_map)
  then have le: "order_key cs w \<le> order_key cs c"
    using find_sorted_first [of _ _ "\<lambda>c. takes c h path" w c] assms(2-4) unfolding first_match_def order
    by (metis order_refl)
  have w: "takes w h path" "w \<in> set cs" "c \<in> set cs"
    using assms(2,3) unfolding first_match_def order by (auto dest: find_Some_nth)
  note classes = compiled_of_pattern(2) [OF w(2) [unfolded cs_def]] compiled_of_pattern(2) [OF w(3) [unfolded cs_def]]
  have "CLASS_RANK (cr_matchClass c) \<le> CLASS_RANK (cr_matchClass w)"
    by (rule order_key_le(1) [OF le])
  moreover have "cr_pattern c = cr_pattern w" if "cr_matchClass c = cr_matchClass w"
    by (rule pattern_class_rank [OF classes(2,1) _ assms(4) w(1)]) (simp only: that)
  moreover have "length (cr_pathPrefix c) \<le> length (cr_pathPrefix w)"
    if "cr_matchClass c = cr_matchClass w" "cr_pattern c = cr_pattern w"
    by (rule order_key_le(2) [OF le]) (simp_all only: that)
  ultimately show ?thesis using w(1) by metis
qed

section \<open>Warnings\<close>

lemma path_inversion_member:
  assumes "x \<in> set order" "y \<in> set order" "sorted_wrt R order" "\<not> R y x" "path_inversion x y \<noteq> []"
  shows "path_inversions order \<noteq> []"
  using assms by (induction order) (auto simp: path_inversion_def [of x x])

lemma class_inversion_member:
  assumes "x \<in> set order" "y \<in> set order" "CLASS_RANK (cr_matchClass y) < CLASS_RANK (cr_matchClass x)"
    "cr_priority x < cr_priority y" "patternsConflict (cr_pattern x) (cr_pattern y)"
  shows "class_inversions order \<noteq> []"
proof -
  have "Priority_inversion (cr_key x) (cr_key y) \<in> set (class_inversions order)"
    using assms unfolding class_inversions_def set_concat set_map image_image UN_iff
    by (intro bexI [of _ x] bexI [of _ y]) auto
  then show ?thesis by auto
qed

lemma prefixes_same_length: "prefix a x \<Longrightarrow> prefix b x \<Longrightarrow> length a = length b \<Longrightarrow> a = b"
  by (metis prefix_length_prefix prefix_order.antisym order_refl)

text \<open>C21: An order without warnings can be trusted: when the compiler accepts the routes and warns of
  nothing, the route that serves a request has the highest priority of all routes that take it.\<close>
theorem no_warnings_priority_respected:
  assumes "cres_errors (compileHostRoutes idna rs) = []" "cres_warnings (compileHostRoutes idna rs) = []"
    and "first_match (cres_order (compileHostRoutes idna rs)) h path = Some w"
    and "c \<in> set (cres_order (compileHostRoutes idna rs))" "takes c h path"
  shows "cr_priority c \<le> cr_priority w"
proof (rule ccontr)
  assume less: "\<not> cr_priority c \<le> cr_priority w"
  define cs where "cs = compiled_of idna rs"
  define order where "order = sort_key (order_key cs) cs"
  note res = compile_result_cases [OF assms(1), folded cs_def, folded order_def]
  have none: "class_inversions order = []" "path_inversions order = []"
    using assms(2) res(2) by (simp_all add: analyze_def)
  have w: "w \<in> set order" "takes w h path"
    using assms(3) unfolding first_match_def res by (auto dest: find_Some_nth)
  have c: "c \<in> set order" using assms(4) res by simp
  have "sorted (map (order_key cs) order)" by (simp add: order_def)
  then have sw: "sorted_wrt (\<lambda>x y. order_key cs x \<le> order_key cs y) order" by (simp add: sorted_wrt_map)
  have engine: "order_key cs w \<le> order_key cs c"
    using find_sorted_first [OF sw] assms(3,5) c unfolding first_match_def res by blast
  have inset: "w \<in> set cs" "c \<in> set cs" using w(1) c by (simp_all add: order_def)
  note facts = compiled_of_pattern [OF inset(1) [unfolded cs_def]] compiled_of_pattern [OF inset(2) [unfolded cs_def]]
  show False
  proof (cases "CLASS_RANK (cr_matchClass c) < CLASS_RANK (cr_matchClass w)")
    case True
    then show ?thesis using class_inversion_member [OF w(1) c True] none less
        conflict_if_both [of "cr_pattern w" h "cr_pattern c"] w(2) assms(5) by (auto simp: takes_def)
  next
    case False
    then have rank: "CLASS_RANK (cr_matchClass c) = CLASS_RANK (cr_matchClass w)"
      using order_key_le(1) [OF engine] by simp
    then have pat: "cr_pattern c = cr_pattern w"
      by (intro pattern_class_rank [OF facts(4,2) _ assms(5) w(2)])
    have "length (cr_pathPrefix c) \<noteq> length (cr_pathPrefix w)"
    proof
      assume "length (cr_pathPrefix c) = length (cr_pathPrefix w)"
      then have "cr_pathPrefix c = cr_pathPrefix w"
        using prefixes_same_length w(2) assms(5) by (auto simp: takes_def)
      then have "match_key c = match_key w" using pat by (simp add: match_key_def)
      moreover have "distinct (map match_key cs)" using assms(1) by (simp add: errors_empty_iff cs_def)
      ultimately have "c = w" using inset by (metis distinct_map inj_onD)
      then show False using less by simp
    qed
    moreover from this have "\<not> order_key cs c \<le> order_key cs w"
      using order_key_le(2) [of cs c w] order_key_le(2) [OF engine] rank pat by auto
    ultimately show ?thesis
      using path_inversion_member [OF w(1) c sw] none less pat by (simp add: path_inversion_def)
  qed
qed

section \<open>Samples\<close>

definition sample_routes :: "route_input list" where
  "sample_routes =
     [\<lparr>ri_key = ''wild'', ri_host = ''*.example.com'', ri_priority = 5, ri_pathPrefix = None\<rparr>,
      \<lparr>ri_key = ''main'', ri_host = ''a.example.com'', ri_priority = 10, ri_pathPrefix = None\<rparr>,
      \<lparr>ri_key = ''api'', ri_host = ''a.example.com'', ri_priority = 20, ri_pathPrefix = Some ''/api''\<rparr>]"

lemma sample_compiled:
  "cres_errors (compileHostRoutes no_idna sample_routes) = []"
  "cres_warnings (compileHostRoutes no_idna sample_routes) = []"
  "map cr_key (cres_order (compileHostRoutes no_idna sample_routes)) = [''api'', ''main'', ''wild'']"
  by code_simp+

definition sample_winner :: compiled_route where
  "sample_winner = \<lparr>cr_key = ''api'', cr_matchClass = Exact_host, cr_pattern = Exact ''a.example.com'',
     cr_priority = 20, cr_pathPrefix = ''/api''\<rparr>"

definition sample_loser :: compiled_route where
  "sample_loser = \<lparr>cr_key = ''wild'', cr_matchClass = Wildcard_host, cr_pattern = Wildcard ''example.com'',
     cr_priority = 5, cr_pathPrefix = ''/''\<rparr>"

lemma sample_matches:
  "first_match (cres_order (compileHostRoutes no_idna sample_routes)) ''a.example.com'' ''/api/x'' = Some sample_winner"
  "sample_loser \<in> set (cres_order (compileHostRoutes no_idna sample_routes))"
  "takes sample_loser ''a.example.com'' ''/api/x''"
  by code_simp+

lemma first_match_engine_witness:
  "CLASS_RANK (cr_matchClass sample_loser) \<le> CLASS_RANK (cr_matchClass sample_winner)"
  using first_match_engine [OF sample_compiled(1) sample_matches] by (rule conjunct2 [THEN conjunct1])

lemma no_warnings_priority_respected_witness:
  "cr_priority sample_loser \<le> cr_priority sample_winner"
  by (rule no_warnings_priority_respected [OF sample_compiled(1,2) sample_matches])

definition sample_hosts :: "plan_host list" where
  "sample_hosts =
     [\<lparr>ph_key = ''a'', ph_pattern = Exact ''a.example.com'', ph_priority = 1\<rparr>,
      \<lparr>ph_key = ''w'', ph_pattern = Wildcard ''example.com'', ph_priority = 5\<rparr>,
      \<lparr>ph_key = ''o'', ph_pattern = Exact ''other.net'', ph_priority = 9\<rparr>]"

lemma sample_plan:
  "sp_order (planStrictPriority sample_hosts) = [''*example.com'', ''=a.example.com'']"
  "engine_pick sample_hosts ''a.example.com'' = Some (Wildcard ''example.com'')"
  by code_simp+

lemma strict_priority_respected_witness:
  "\<exists>w \<in> set sample_hosts. engine_pick sample_hosts ''a.example.com'' = Some (ph_pattern w) \<and>
     pattern_matches (ph_pattern w) ''a.example.com'' \<and> 5 \<le> ph_priority w"
proof -
  have "distinct (map ph_pattern sample_hosts)" "sample_hosts ! 1 \<in> set sample_hosts"
    "pattern_matches (ph_pattern (sample_hosts ! 1)) ''a.example.com''"
    by code_simp+
  from strict_priority_respected [OF this] show ?thesis by (simp add: sample_hosts_def)
qed

lemma lowered_exactly_inverted_components_witness:
  "patternKey (ph_pattern (sample_hosts ! 0)) \<in> set (sp_lowered (planStrictPriority sample_hosts)) \<longleftrightarrow>
    (\<exists>a \<in> conflict_component sample_hosts 0. \<exists>b \<in> conflict_component sample_hosts 0.
       CLASS_RANK (class_of (ph_pattern (sample_hosts ! a))) > CLASS_RANK (class_of (ph_pattern (sample_hosts ! b))) \<and>
       ph_priority (sample_hosts ! a) < ph_priority (sample_hosts ! b))"
proof -
  have "distinct (map ph_pattern sample_hosts)" "0 < length sample_hosts" by code_simp+
  then show ?thesis by (rule lowered_exactly_inverted_components)
qed

end
