(* ===== verification/Data_Model.thy ===== *)
theory Data_Model
  imports Host_Names
begin

text \<open>
  The data model of \<^verbatim>\<open>src/src/model/provisional.ts\<close>: what operators edit and what is validated,
  rendered and applied. An optional property is an option, a union of string literals a datatype
  of its names, an object a record. Numbers are naturals: the decoder lets no other one in.

  A listener is the record of \<^verbatim>\<open>RawListener\<close>, which has the properties of all protocols; the five
  listeners of the union \<^verbatim>\<open>Listener\<close> are its values in which only the protocol's own are set.

  With it go the small functions every reader of the model shares: the actions and the paths of a
  route, the redirect listener of a listener, and the expansion of address sets.
\<close>

section \<open>Listeners\<close>

datatype udp_preset = Dns | Wireguard | Game_generic | Custom_udp

record inbound_proxy_protocol =
  ipp_trustedCidrs :: "string list"

datatype real_ip_header_name = CF_Connecting_IP | X_Forwarded_For | X_Real_IP

record inbound_real_ip_header =
  irh_header :: real_ip_header_name
  irh_trustedCidrs :: "string list"

datatype tls_version = Tls_1_2 | Tls_1_3

datatype cipher_policy_ref = Modern_2026 | Intermediate_2026

record acme_intent =
  ai_account :: string
  ai_domains :: "string list"

record certificate =
  ce_key :: string
  ce_materialRef :: "string option"
  ce_chainDigest :: "string option"
  ce_keyDigest :: "string option"
  ce_acme :: "acme_intent option"

record hsts_policy =
  hs_maxAgeSeconds :: nat
  hs_includeSubdomains :: "bool option"
  hs_preload :: "bool option"

datatype sni_host_mismatch = Mismatch_allow | Mismatch_reject_421

record tls_policy =
  tp_key :: string
  tp_minVersion :: tls_version
  tp_maxVersion :: "tls_version option"
  tp_sniHostMismatch :: "sni_host_mismatch option"
  tp_cipherPolicy :: "cipher_policy_ref option"
  tp_hsts :: "hsts_policy option"

record version_override =
  vo_minVersion :: "tls_version option"
  vo_maxVersion :: "tls_version option"

record sni_certificate_binding =
  sb_key :: string
  sb_listener :: string
  sb_hosts :: "string list"
  sb_certificate :: string
  sb_override :: "version_override option"

text \<open>\<open>'reject' | { pool }\<close>, of a server name and of the default action of a profile.\<close>

datatype default_action = Reject | To_pool string

type_synonym sni_outcome = default_action

record raw_tls_binding =
  tb_policy :: string
  tb_defaultCertificate :: string

record rate_limit =
  rl_requestsPerSecond :: "nat option"
  rl_burst :: "nat option"
  rl_nodelay :: "bool option"
  rl_maxConnections :: "nat option"
  rl_zoneKb :: "nat option"

record header_rule =
  hr_name :: string
  hr_value :: string

record header_rules =
  hrs_request :: "header_rule list option"
  hrs_response :: "header_rule list option"

record proxy_limits =
  pl_connectTimeoutMs :: "nat option"
  pl_readTimeoutMs :: "nat option"
  pl_sendTimeoutMs :: "nat option"
  pl_clientMaxBodyBytes :: "nat option"

record http_profile =
  hp_defaultAction :: "default_action option"
  hp_limits :: "proxy_limits option"
  hp_headers :: "header_rules option"
  hp_rateLimit :: "rate_limit option"
  hp_strictPriority :: "bool option"

record listener =
  l_key :: string
  l_protocol :: listener_protocol
  l_bind :: string
  l_port :: nat
  l_enabled :: bool
  l_sourceAllow :: "string list option"
  l_defaultPool :: "string option"
  l_acceptProxyProtocol :: "inbound_proxy_protocol option"
  l_realIpFromHeader :: "inbound_real_ip_header option"
  l_udp :: "udp_preset option"
  l_http :: "http_profile option"
  l_onUnmatchedSni :: "sni_outcome option"
  l_onNoSni :: "sni_outcome option"
  l_prereadTimeoutS :: "nat option"
  l_tls :: "raw_tls_binding option"
  l_http2 :: "bool option"
  l_hosts :: "string list option"
  l_httpRedirect :: "nat option"

section \<open>Pools and backends\<close>

datatype algorithm = Round_robin | Source_ip_hash | Hash_key | Least_conn

datatype probe_mode = Mode_none | Mode_active

datatype probe_protocol = Probe_tcp_connect | Probe_http

record health_check =
  hc_mode :: "probe_mode option"
  hc_protocol :: "probe_protocol option"
  hc_port :: "nat option"
  hc_hostOverride :: "string option"
  hc_path :: "string option"
  hc_expectStatus :: "nat list option"
  hc_expectBody :: "string option"
  hc_hostHeader :: "string option"
  hc_intervalS :: "nat option"
  hc_timeoutS :: "nat option"
  hc_rise :: "nat option"
  hc_fall :: "nat option"

datatype discovery_source_kind = Dns_srv | Consul | Kubernetes | File_source

datatype empty_means = Keep_last | Really_empty

record pool_discovery =
  pd_source :: discovery_source_kind
  pd_query :: string
  pd_port :: "nat option"
  pd_emptyMeans :: "empty_means option"

record upstream_tls =
  ut_enabled :: bool
  ut_sni :: "string option"
  ut_verify :: "bool option"
  ut_caBundle :: "string option"

datatype send_proxy_protocol = Proxy_v1

record pool =
  po_key :: string
  po_protocolClass :: protocol_class
  po_algorithm :: algorithm
  po_hashKey :: "string option"
  po_sendProxyProtocol :: "send_proxy_protocol option"
  po_healthCheck :: "health_check option"
  po_upstreamTls :: "upstream_tls option"
  po_discovery :: "pool_discovery option"

record backend =
  be_key :: string
  be_pool :: string
  be_host :: string
  be_port :: nat
  be_weight :: nat
  be_softMaxConns :: "nat option"
  be_isBackup :: "bool option"

section \<open>Routes\<close>

record proxy_action =
  pa_pool :: string
  pa_websocket :: bool
  pa_requestHeaders :: "header_rule list option"
  pa_rewritePrefix :: "string option"

datatype http_action =
    Act_proxy proxy_action
  | Act_redirect string nat
  | Act_reject nat

datatype source_address = Visitor | Connection

record http_source_rule =
  ru_from :: "string list"
  ru_action :: http_action
  ru_address :: "source_address option"

record http_route =
  hro_key :: string
  hro_listener :: string
  hro_hosts :: "string list"
  hro_priority :: int
  hro_pathPrefix :: "string option"
  hro_pathPrefixes :: "string list option"
  hro_action :: http_action
  hro_sourceRules :: "http_source_rule list option"

datatype passthrough_action = Pass_proxy string | Pass_reject

record passthrough_route =
  pr_key :: string
  pr_listener :: string
  pr_snis :: "string list"
  pr_priority :: int
  pr_action :: passthrough_action

section \<open>The model\<close>

record engine_settings =
  es_workerShutdownTimeoutS :: "nat option"
  es_membershipDictKb :: "nat option"
  es_acmeDictKb :: "nat option"

datatype address_source_kind = Cloudflare | Aws | Gcp | Fastly | Url_source

datatype address_family = Ipv4 | Ipv6

record address_source_options =
  aso_family :: "address_family option"
  aso_services :: "string list option"
  aso_regions :: "string list option"
  aso_url :: "string option"
  aso_jsonPath :: "string option"

record address_set =
  as_key :: string
  as_cidrs :: "string list"
  as_source :: "address_source_kind option"
  as_sourceOptions :: "address_source_options option"

record model =
  m_engine :: "engine_settings option"
  m_listeners :: "listener list"
  m_httpRoutes :: "http_route list"
  m_passthroughRoutes :: "passthrough_route list"
  m_pools :: "pool list"
  m_backends :: "backend list"
  m_certificates :: "certificate list"
  m_tlsPolicies :: "tls_policy list"
  m_sniBindings :: "sni_certificate_binding list"
  m_addressSets :: "address_set list option"

section \<open>Readers of routes\<close>

definition list_of_option :: "'a list option \<Rightarrow> 'a list" where
  "list_of_option x = (case x of None \<Rightarrow> [] | Some ys \<Rightarrow> ys)"

definition routeActions :: "http_route \<Rightarrow> http_action list" where
  "routeActions r = hro_action r # map ru_action (list_of_option (hro_sourceRules r))"

definition routePaths :: "http_route \<Rightarrow> string list" where
  "routePaths r =
     (case hro_pathPrefixes r of
        Some (p # ps) \<Rightarrow> p # ps
      | _ \<Rightarrow> [case hro_pathPrefix r of None \<Rightarrow> ''/'' | Some p \<Rightarrow> p])"

definition routePathKey :: "string \<Rightarrow> string \<Rightarrow> bool \<Rightarrow> string" where
  "routePathKey key path many = (if many then key @ '' '' @ path else key)"

section \<open>Address sets\<close>

definition refs_in :: "string list \<Rightarrow> string list" where
  "refs_in cidrs = List.map_filter addressSetRef cidrs"

text \<open>A set of names, sorted.\<close>

definition sorted_set :: "string list \<Rightarrow> string list" where
  "sorted_set xs = sort (remdups xs)"

definition referencedSets :: "listener \<Rightarrow> string list" where
  "referencedSets l = sorted_set (refs_in
     (list_of_option (l_sourceAllow l) @
      list_of_option (map_option irh_trustedCidrs (l_realIpFromHeader l)) @
      list_of_option (map_option ipp_trustedCidrs (l_acceptProxyProtocol l))))"

definition referencedSetsOfRoute :: "http_route \<Rightarrow> string list" where
  "referencedSetsOfRoute r =
     sorted_set (refs_in (concat (map ru_from (list_of_option (hro_sourceRules r)))))"

definition push_cidr :: "string list \<Rightarrow> string \<Rightarrow> string list" where
  "push_cidr xs c = (if c \<in> set xs then xs else xs @ [c])"

definition expandList :: "string list \<Rightarrow> (string \<Rightarrow> string list option) \<Rightarrow> string list" where
  "expandList xs sets =
     foldl push_cidr [] (concat (map (\<lambda>s.
       case addressSetRef s of
         None \<Rightarrow> [s]
       | Some ref \<Rightarrow> (case sets ref of None \<Rightarrow> [s] | Some cs \<Rightarrow> cs)) xs))"

text \<open>A map made from pairs: a later pair of the same key replaces the value.\<close>

definition js_map :: "('k \<times> 'v) list \<Rightarrow> 'k \<Rightarrow> 'v option" where
  "js_map ps = map_of (rev ps)"

definition set_cidrs :: "model \<Rightarrow> string \<Rightarrow> string list option" where
  "set_cidrs m = js_map (map (\<lambda>s. (as_key s, as_cidrs s)) (list_of_option (m_addressSets m)))"

definition expand_route :: "(string \<Rightarrow> string list option) \<Rightarrow> http_route \<Rightarrow> http_route" where
  "expand_route sets r =
     (if referencedSetsOfRoute r = [] then r
      else r\<lparr>hro_sourceRules := map_option (map (\<lambda>x. x\<lparr>ru_from := expandList (ru_from x) sets\<rparr>)) (hro_sourceRules r)\<rparr>)"

definition expand_listener :: "(string \<Rightarrow> string list option) \<Rightarrow> listener \<Rightarrow> listener" where
  "expand_listener sets l =
     (if referencedSets l = [] then l
      else l\<lparr>
        l_sourceAllow := map_option (\<lambda>x. expandList x sets) (l_sourceAllow l),
        l_realIpFromHeader := map_option (\<lambda>x. x\<lparr>irh_trustedCidrs := expandList (irh_trustedCidrs x) sets\<rparr>) (l_realIpFromHeader l),
        l_acceptProxyProtocol := map_option (\<lambda>x. x\<lparr>ipp_trustedCidrs := expandList (ipp_trustedCidrs x) sets\<rparr>) (l_acceptProxyProtocol l)\<rparr>)"

definition expandAddressSets :: "model \<Rightarrow> model" where
  "expandAddressSets m =
     (let sets = set_cidrs m;
          listenerRefs = list_ex (\<lambda>l. referencedSets l \<noteq> []) (m_listeners m);
          routeRefs = list_ex (\<lambda>r. referencedSetsOfRoute r \<noteq> []) (m_httpRoutes m) in
      if \<not> listenerRefs \<and> \<not> routeRefs then m
      else
        let m1 = (if routeRefs then m\<lparr>m_httpRoutes := map (expand_route sets) (m_httpRoutes m)\<rparr> else m) in
        if \<not> listenerRefs then m1
        else m1\<lparr>m_listeners := map (expand_listener sets) (m_listeners m)\<rparr>)"

section \<open>What expansion does\<close>

lemma set_foldl_push_cidr: "set (foldl push_cidr acc xs) = set acc \<union> set xs"
  by (induction xs arbitrary: acc) (auto simp: push_cidr_def)

lemma distinct_foldl_push_cidr: "distinct acc \<Longrightarrow> distinct (foldl push_cidr acc xs)"
  by (induction xs arbitrary: acc) (auto simp: push_cidr_def)

lemma distinct_expandList [simp]: "distinct (expandList xs sets)"
  by (simp add: expandList_def distinct_foldl_push_cidr)

lemma set_expandList:
  "set (expandList xs sets) = (\<Union>s \<in> set xs. case addressSetRef s of None \<Rightarrow> {s}
     | Some ref \<Rightarrow> (case sets ref of None \<Rightarrow> {s} | Some cs \<Rightarrow> set cs))"
  unfolding expandList_def set_foldl_push_cidr set_concat set_map image_image
  by (simp, rule SUP_cong [OF refl]) (simp split: option.split)

lemma set_sorted_set [simp]: "set (sorted_set xs) = set xs"
  by (simp add: sorted_set_def)

lemma set_refs_in: "set (refs_in xs) = {ref. \<exists>s \<in> set xs. addressSetRef s = Some ref}"
  unfolding refs_in_def by (induction xs) (auto simp: List.map_filter_simps split: option.splits)

lemma sorted_set_Nil [simp]: "sorted_set xs = [] \<longleftrightarrow> xs = []"
  by (metis empty_set set_empty set_sorted_set)

end
