(* ===== verification/Membership.thy ===== *)
theory Membership
  imports Data_Model Complex_Main
begin

text \<open>
  Membership slots, \<^verbatim>\<open>src/src/control/membership.ts\<close>: the expansion of weights into the slots of a
  balancer, and the resolution of host names in them.

  Weights are at most a million and the slots at most a few hundred, where the double precision
  quotients of the code are rounded as the exact ones: \<open>Math.floor\<close> of a quotient is \<open>div\<close>, and the
  place of a copy is the rational number itself.
\<close>

section \<open>Weights as copies\<close>

record weighted_peer =
  wp_peer :: string
  wp_weight :: nat

definition SLOT_EXPANSION_CAP :: nat where
  "SLOT_EXPANSION_CAP = 256"

fun gcd2 :: "nat \<Rightarrow> nat \<Rightarrow> nat" where
  "gcd2 a b = (if b = 0 then a else gcd2 b (a mod b))"

declare gcd2.simps [simp del]

definition common_divisor :: "weighted_peer list \<Rightarrow> nat" where
  "common_divisor peers =
     (let g = foldl (\<lambda>acc p. gcd2 acc (max 1 (wp_weight p))) 0 peers in if g = 0 then 1 else g)"

text \<open>The remaining places, given to the heaviest first, round and round.\<close>

fun fill_slots :: "nat list \<Rightarrow> nat \<Rightarrow> nat \<Rightarrow> nat list \<Rightarrow> nat list" where
  "fill_slots order i 0 counts = counts"
| "fill_slots order i (Suc left) counts =
     fill_slots order ((i + 1) mod length order) left
       (counts[order ! i := counts ! (order ! i) + 1])"

definition capped :: "nat list \<Rightarrow> nat list" where
  "capped counts =
     (let total = sum_list counts; n = length counts in
      if SLOT_EXPANSION_CAP < total \<and> n < SLOT_EXPANSION_CAP then
        let budget = SLOT_EXPANSION_CAP - n;
            excess = map (\<lambda>c. c - 1) counts;
            excessTotal = sum_list excess;
            counts' = map (\<lambda>e. 1 + (e * budget) div excessTotal) excess;
            order = sort_key (\<lambda>i. (- int (excess ! i), i)) [0..<n] in
        fill_slots order 0 (SLOT_EXPANSION_CAP - sum_list counts') counts'
      else if SLOT_EXPANSION_CAP < total then map (\<lambda>_. 1) counts
      else counts)"

text \<open>The copies of a peer, each with its place in the round.\<close>

definition copies :: "weighted_peer \<Rightarrow> nat \<Rightarrow> (rat \<times> string) list" where
  "copies p w = map (\<lambda>k. ((of_nat k + 1 / 2) / of_nat w, wp_peer p)) [0..<w]"

definition slot_counts :: "weighted_peer list \<Rightarrow> nat list" where
  "slot_counts sorted_peers =
     (let g = common_divisor sorted_peers in
      capped (map (\<lambda>p. max 1 (max 1 (wp_weight p) div g)) sorted_peers))"

definition weightedSlots :: "weighted_peer list \<Rightarrow> string list" where
  "weightedSlots peers =
     (let sorted_peers = sort_key wp_peer peers;
          counts = slot_counts sorted_peers;
          marks = concat (map (\<lambda>(p, w). copies p w) (zip sorted_peers counts)) in
      map snd (sort marks))"

section \<open>Names in slots\<close>

text \<open>What the resolver answers for a host: an address and its family, or it throws.\<close>

type_synonym lookup = "string \<Rightarrow> (string \<times> nat) option"

definition bare_host :: "string \<Rightarrow> string" where
  "bare_host host =
     (if host \<noteq> [] \<and> hd host = CHR ''['' \<and> last host = CHR '']'' then butlast (tl host) else host)"

definition resolvePeer :: "lookup \<Rightarrow> string \<Rightarrow> string option" where
  "resolvePeer lookup hp =
     (case last_index_of '':'' hp of
        None \<Rightarrow> Some hp
      | Some colon \<Rightarrow>
          if colon = 0 then Some hp
          else
            let host = take colon hp; port = drop (colon + 1) hp; bare = bare_host host in
            if ipVersion bare \<noteq> 0 then Some hp
            else (case lookup bare of
                None \<Rightarrow> None
              | Some (address, fam) \<Rightarrow>
                  Some (if fam = 6 then ''['' @ address @ '']:'' @ port else address @ '':'' @ port)))"

definition resolveSlots :: "(string \<Rightarrow> string option) \<Rightarrow> (string, string list) dict \<Rightarrow> (string, string list) dict" where
  "resolveSlots lookupPeer slots = map (\<lambda>(name, peers). (name, List.map_filter lookupPeer peers)) slots"

definition socket_char :: "char \<Rightarrow> bool" where
  "socket_char c \<longleftrightarrow> is_alnum c \<or> c \<in> {CHR ''/'', CHR ''.'', CHR ''_'', CHR ''-''}"

definition assertAdminSocket :: "string \<Rightarrow> string option" where
  "assertAdminSocket path = (if prefix ''/'' path \<and> list_all socket_char path then Some path else None)"

section \<open>Reduction\<close>

lemma gcd2_gcd: "gcd2 a b = gcd a b"
  by (induction a b rule: gcd2.induct) (metis gcd2.simps gcd_0_nat gcd_non_0_nat gr0I)

lemma common_divisor_gcd: "peers \<noteq> [] \<Longrightarrow> common_divisor peers = Gcd ((\<lambda>p. max 1 (wp_weight p)) ` set peers)"
  "common_divisor [] = 1"
proof -
  have fold: "foldl (\<lambda>acc p. gcd2 acc (max 1 (wp_weight p))) a ps = gcd a (Gcd ((\<lambda>p. max 1 (wp_weight p)) ` set ps))" for a ps
    by (induction ps arbitrary: a) (simp_all add: gcd2_gcd gcd.assoc)
  assume "peers \<noteq> []"
  then have "Gcd ((\<lambda>p. max 1 (wp_weight p)) ` set peers) \<noteq> 0"
  proof -
    obtain p where "p \<in> set peers" using \<open>peers \<noteq> []\<close> by (cases peers) auto
    then have "Gcd ((\<lambda>p. max 1 (wp_weight p)) ` set peers) dvd max 1 (wp_weight p)" by (intro Gcd_dvd) auto
    moreover have "max 1 (wp_weight p) \<noteq> 0" by simp
    ultimately show ?thesis by (metis dvd_0_left)
  qed
  then show "common_divisor peers = Gcd ((\<lambda>p. max 1 (wp_weight p)) ` set peers)"
    by (simp only: common_divisor_def fold Let_def gcd_0_left_nat if_False)
qed (simp add: common_divisor_def)

section \<open>The cap\<close>

lemma sum_list_div_le: "0 < t \<Longrightarrow> sum_list (map (\<lambda>e. (e * b) div t) es) \<le> (sum_list es * b) div (t :: nat)"
proof (induction es)
  case (Cons e es)
  have "(e * b) div t + (sum_list es * b) div t \<le> (e * b + sum_list es * b) div t"
    by (simp add: div_add1_eq [of "e * b"])
  then show ?case using Cons by (simp add: algebra_simps)
qed simp

lemma sum_list_Suc_map: "sum_list (map (\<lambda>e. 1 + f e) es) = length es + sum_list (map f es)"
  by (induction es) auto

lemma fill_slots_props:
  assumes "order \<noteq> []" "\<forall>i \<in> set order. i < length counts" "i < length order" "\<forall>c \<in> set counts. 1 \<le> c"
  shows "length (fill_slots order i left counts) = length counts \<and>
    sum_list (fill_slots order i left counts) = sum_list counts + left \<and>
    (\<forall>c \<in> set (fill_slots order i left counts). 1 \<le> c)"
  using assms
proof (induction left arbitrary: i counts)
  case (Suc left)
  let ?j = "order ! i"
  let ?counts = "counts[?j := counts ! ?j + 1]"
  have j: "?j < length counts" using Suc.prems by auto
  have "\<forall>c \<in> set ?counts. 1 \<le> c" using Suc.prems(4) set_update_subset_insert [of counts ?j] by fastforce
  then have "length (fill_slots order ((i + 1) mod length order) left ?counts) = length ?counts \<and>
    sum_list (fill_slots order ((i + 1) mod length order) left ?counts) = sum_list ?counts + left \<and>
    (\<forall>c \<in> set (fill_slots order ((i + 1) mod length order) left ?counts). 1 \<le> c)"
    using Suc.prems by (intro Suc.IH) auto
  moreover have "sum_list ?counts = sum_list counts + 1"
    using j elem_le_sum_list [OF j] by (simp add: sum_list_update)
  ultimately show ?case by simp
qed simp

lemma capped_props:
  assumes "\<forall>c \<in> set counts. 1 \<le> c"
  shows "length (capped counts) = length counts \<and> (\<forall>c \<in> set (capped counts). 1 \<le> c) \<and>
    sum_list (capped counts) =
      (if sum_list counts \<le> SLOT_EXPANSION_CAP then sum_list counts else max SLOT_EXPANSION_CAP (length counts))"
proof -
  define n where "n = length counts"
  consider "sum_list counts \<le> SLOT_EXPANSION_CAP"
    | "SLOT_EXPANSION_CAP < sum_list counts" "n < SLOT_EXPANSION_CAP"
    | "SLOT_EXPANSION_CAP < sum_list counts" "SLOT_EXPANSION_CAP \<le> n"
    by linarith
  then show ?thesis
  proof cases
    case 1
    then show ?thesis using assms by (simp add: capped_def)
  next
    case 2
    define es where "es = map (\<lambda>c. c - 1) counts"
    define b where "b = SLOT_EXPANSION_CAP - n"
    define cs where "cs = map (\<lambda>e. 1 + (e * b) div sum_list es) es"
    define order where "order = sort_key (\<lambda>i. (- int (es ! i), i)) [0..<n]"
    have sum_es: "sum_list es + n = sum_list counts"
      using assms unfolding es_def n_def by (induction counts) auto
    then have pos: "0 < sum_list es" using 2 by linarith
    have "sum_list cs = n + sum_list (map (\<lambda>e. (e * b) div sum_list es) es)"
      unfolding cs_def sum_list_Suc_map by (simp add: n_def es_def)
    also have "\<dots> \<le> n + (sum_list es * b) div sum_list es" using sum_list_div_le [OF pos, of b es] by (intro add_left_mono)
    also have "\<dots> = SLOT_EXPANSION_CAP" using pos 2 by (simp add: b_def)
    finally have le: "sum_list cs \<le> SLOT_EXPANSION_CAP" .
    have "n \<noteq> 0" using 2 by (cases counts) (auto simp: n_def)
    moreover have o1: "length order = n" "set order = {0..<n}" by (simp_all add: order_def)
    moreover have o2: "length cs = n" "\<forall>c \<in> set cs. 1 \<le> c" by (auto simp: cs_def es_def n_def)
    ultimately have pre: "order \<noteq> []" "\<forall>i \<in> set order. i < length cs" "0 < length order" by auto
    then have "length (fill_slots order 0 (SLOT_EXPANSION_CAP - sum_list cs) cs) = length cs \<and>
      sum_list (fill_slots order 0 (SLOT_EXPANSION_CAP - sum_list cs) cs) = sum_list cs + (SLOT_EXPANSION_CAP - sum_list cs) \<and>
      (\<forall>c \<in> set (fill_slots order 0 (SLOT_EXPANSION_CAP - sum_list cs) cs). 1 \<le> c)"
      using o2(2) by (intro fill_slots_props)
    moreover have "capped counts = fill_slots order 0 (SLOT_EXPANSION_CAP - sum_list cs) cs"
      unfolding capped_def Let_def n_def [symmetric] es_def [symmetric] b_def [symmetric]
        cs_def [symmetric] order_def [symmetric] using 2 by simp
    moreover have "length cs = n" by (simp add: cs_def es_def n_def)
    ultimately show ?thesis using 2 le by (simp add: n_def)
  next
    case 3
    then have "capped counts = map (\<lambda>_. 1) counts" by (simp add: capped_def n_def Let_def)
    then show ?thesis using 3 by (auto simp: n_def sum_list_triv)
  qed
qed

section \<open>The slots\<close>

lemma slot_counts_props:
  "length (slot_counts ps) = length ps \<and> (\<forall>c \<in> set (slot_counts ps). 1 \<le> c) \<and>
   sum_list (slot_counts ps) \<le> max SLOT_EXPANSION_CAP (length ps)"
proof -
  define cs where "cs = map (\<lambda>p. max 1 (max 1 (wp_weight p) div common_divisor ps)) ps"
  have "\<forall>c \<in> set cs. 1 \<le> c" "length cs = length ps" by (auto simp: cs_def)
  moreover have "slot_counts ps = capped cs" by (simp add: slot_counts_def Let_def cs_def)
  ultimately show ?thesis using capped_props [of cs] by (simp split: if_splits)
qed

lemma mset_weightedSlots:
  "mset (weightedSlots peers) =
     mset (concat (map (\<lambda>(p, w). replicate w (wp_peer p)) (zip (sort_key wp_peer peers) (slot_counts (sort_key wp_peer peers)))))"
proof -
  have "map snd (copies p w) = replicate w (wp_peer p)" for p w
    by (simp add: copies_def comp_def map_replicate_const)
  then have "map snd (concat (map (\<lambda>(p, w). copies p w) xs)) = concat (map (\<lambda>(p, w). replicate w (wp_peer p)) xs)" for xs
    by (induction xs) auto
  moreover have "mset (map snd (sort xs)) = mset (map snd xs)" for xs :: "(rat \<times> string) list" by simp
  ultimately show ?thesis unfolding weightedSlots_def Let_def by (simp only:)
qed

lemma set_weightedSlots: "set (weightedSlots peers) = wp_peer ` set peers"
proof -
  let ?s = "sort_key wp_peer peers"
  have each: "set (concat (map (\<lambda>(p, w). replicate w (wp_peer p)) (zip ps ws))) = wp_peer ` set ps"
    if "length ws = length ps" "\<forall>c \<in> set ws. 1 \<le> c" for ps and ws :: "nat list"
    using that by (induction ps ws rule: list_induct2') auto
  then show ?thesis
    using mset_weightedSlots [of peers, THEN mset_eq_setD] slot_counts_props [of ?s] each [of "slot_counts ?s" ?s] by simp
qed

lemma length_weightedSlots: "length (weightedSlots peers) = sum_list (slot_counts (sort_key wp_peer peers))"
proof -
  let ?s = "sort_key wp_peer peers"
  have each: "length (concat (map (\<lambda>(p, w). replicate w (wp_peer p)) (zip ps ws))) = sum_list ws"
    if "length ws = length ps" for ps and ws :: "nat list"
    using that by (induction ps ws rule: list_induct2') auto
  then show ?thesis
    using mset_weightedSlots [of peers, THEN mset_eq_length] slot_counts_props [of ?s] each [of "slot_counts ?s" ?s] by simp
qed

text \<open>The copies a peer gets when the reduced weights fit: its weight by the common divisor.\<close>

lemma slot_counts_fit:
  assumes "\<forall>p \<in> set ps. 1 \<le> wp_weight p" "ps \<noteq> []"
    "(\<Sum>p\<leftarrow>ps. wp_weight p div common_divisor ps) \<le> SLOT_EXPANSION_CAP"
  shows "slot_counts ps = map (\<lambda>p. wp_weight p div common_divisor ps) ps"
proof -
  have one: "max 1 (max 1 (wp_weight p) div common_divisor ps) = wp_weight p div common_divisor ps" if "p \<in> set ps" for p
  proof -
    have "common_divisor ps dvd max 1 (wp_weight p)"
      unfolding common_divisor_gcd(1) [OF assms(2)] using that by (intro Gcd_dvd) auto
    then have "common_divisor ps dvd wp_weight p" "1 \<le> wp_weight p" using assms(1) that by (auto simp: max_def split: if_splits)
    then have "1 \<le> wp_weight p div common_divisor ps"
      by (metis One_nat_def Suc_leI dvd_div_eq_0_iff gr0I not_one_le_zero)
    then show ?thesis using \<open>1 \<le> wp_weight p\<close> by (simp add: max_def)
  qed
  then have "map (\<lambda>p. max 1 (max 1 (wp_weight p) div common_divisor ps)) ps = map (\<lambda>p. wp_weight p div common_divisor ps) ps"
    by (intro map_cong [OF refl])
  then show ?thesis using assms(3) by (simp only: slot_counts_def Let_def capped_def) simp
qed

lemma count_copies_absent:
  "x \<notin> wp_peer ` set ps \<Longrightarrow>
   count (mset (concat (map (\<lambda>(p, w). replicate w (wp_peer p)) (zip ps (map f ps))))) x = 0"
  by (induction ps) auto

lemma count_copies:
  assumes "distinct (map wp_peer ps)" "p \<in> set ps"
  shows "count (mset (concat (map (\<lambda>(p, w). replicate w (wp_peer p)) (zip ps (map f ps))))) (wp_peer p) = f p"
  using assms
proof (induction ps)
  case (Cons q ps)
  show ?case
  proof (cases "p = q")
    case True
    then show ?thesis using Cons.prems(1) count_copies_absent [of "wp_peer q" ps f] by simp
  next
    case False
    then have "p \<in> set ps" using Cons.prems by simp
    moreover from this have "wp_peer p \<noteq> wp_peer q" using Cons.prems(1) by (metis distinct.simps(2) image_eqI list.simps(9) set_map)
    ultimately show ?thesis using Cons by simp
  qed
qed simp

lemma mset_sort_keyed: "mset (map f (sort_key g xs)) = mset (map f xs)"
  by simp

text \<open>C32: The slots of a balancer stay within 256 places, or one for each peer when there are more peers,
  and expansion invents and loses no peer: every peer keeps at least one place.\<close>
theorem weightedSlots_bounded:
  "set (weightedSlots peers) = wp_peer ` set peers \<and>
   length (weightedSlots peers) \<le> max SLOT_EXPANSION_CAP (length peers)"
  using set_weightedSlots length_weightedSlots slot_counts_props [of "sort_key wp_peer peers"] by simp

text \<open>When the reduced weights fit into the cap, a peer has exactly its weight divided by the greatest
  common divisor of all weights as places.\<close>
theorem weightedSlots_exact_ratio:
  assumes "distinct (map wp_peer peers)" "\<forall>p \<in> set peers. 1 \<le> wp_weight p" "p \<in> set peers"
    and "(\<Sum>q\<leftarrow>peers. wp_weight q div Gcd (wp_weight ` set peers)) \<le> SLOT_EXPANSION_CAP"
  shows "count (mset (weightedSlots peers)) (wp_peer p) = wp_weight p div Gcd (wp_weight ` set peers)"
proof -
  let ?s = "sort_key wp_peer peers"
  have "(\<lambda>p. max 1 (wp_weight p)) ` set peers = wp_weight ` set peers"
    using assms(2) by (intro image_cong) (auto simp: max_def)
  moreover have ne: "?s \<noteq> []" using assms(3) by (metis empty_iff list.set(1) set_sort)
  ultimately have g: "common_divisor ?s = Gcd (wp_weight ` set peers)"
    using common_divisor_gcd(1) [OF ne] by simp
  have "sum_list (map (\<lambda>q. wp_weight q div common_divisor ?s) ?s) = sum_list (map (\<lambda>q. wp_weight q div common_divisor ?s) peers)"
    using mset_sort_keyed by (metis sum_mset_sum_list)
  then have "slot_counts ?s = map (\<lambda>p. wp_weight p div common_divisor ?s) ?s"
    using assms(2,4) g ne by (intro slot_counts_fit) simp_all
  moreover have "distinct (map wp_peer ?s)" using assms(1) by (simp add: distinct_map)
  ultimately show ?thesis
    using mset_weightedSlots [of peers] count_copies [of ?s p "\<lambda>p. wp_weight p div common_divisor ?s"] assms(3) g
    by simp
qed

lemma weightedSlots_exact_ratio_witness:
  "count (mset (weightedSlots [\<lparr>wp_peer = ''a'', wp_weight = 2\<rparr>, \<lparr>wp_peer = ''b'', wp_weight = 6\<rparr>])) ''b'' = 3"
proof -
  let ?ps = "[\<lparr>wp_peer = ''a'', wp_weight = 2\<rparr>, \<lparr>wp_peer = ''b'', wp_weight = 6\<rparr>]"
  have g: "Gcd (wp_weight ` set ?ps) = 2" by (simp add: gcd_non_0_nat)
  have "count (mset (weightedSlots ?ps)) (wp_peer \<lparr>wp_peer = ''b'', wp_weight = 6\<rparr>) =
      wp_weight \<lparr>wp_peer = ''b'', wp_weight = 6\<rparr> div Gcd (wp_weight ` set ?ps)"
    by (rule weightedSlots_exact_ratio) (simp_all add: g [simplified] SLOT_EXPANSION_CAP_def)
  then show ?thesis by (simp add: g [simplified])
qed

end
