(* ===== verification/Health.thy ===== *)
theory Health
  imports Data_Model
begin

text \<open>
  Health probing and the membership reducer, \<^verbatim>\<open>src/src/control/health.ts\<close>: how each pool is probed,
  the transaction that takes one probe result into the health table and the event log, a sweep
  over all backends, and the reduction of a model to its eligible backends.

  The tables of the database are the record \<open>health_db\<close>; the network is the record \<open>network\<close> of what
  a connection and a request end in. The numbers of a sweep are taken from \<open>#next\<close> and the table.
\<close>

section \<open>Plans\<close>

datatype health_state = Healthy | Unhealthy | Unknown

record probe_tls =
  pt_servername :: "string option"

record http_probe_opts =
  hpo_path :: string
  hpo_expectStatus :: "nat list option"
  hpo_expectBody :: "string option"
  hpo_hostHeader :: "string option"
  hpo_tls :: "probe_tls option"

record probe_plan =
  pp_mode :: probe_mode
  pp_protocol :: probe_protocol
  pp_port :: "nat option"
  pp_hostOverride :: "string option"
  pp_http :: "http_probe_opts option"
  pp_intervalS :: "nat option"
  pp_timeoutS :: "nat option"
  pp_rise :: "nat option"
  pp_fall :: "nat option"

definition HTTP_PROBE_PATH :: string where
  "HTTP_PROBE_PATH = ''/''"

definition or_else :: "'a option \<Rightarrow> 'a \<Rightarrow> 'a" where
  "or_else x d = (case x of None \<Rightarrow> d | Some y \<Rightarrow> y)"

definition probePlanOf :: "model \<Rightarrow> string \<Rightarrow> probe_plan" where
  "probePlanOf m poolKey =
     (let pool = find (\<lambda>p. po_key p = poolKey) (m_pools m);
          spec = Option.bind pool po_healthCheck;
          ut = Option.bind pool po_upstreamTls;
          tls_on = (case ut of None \<Rightarrow> False | Some t \<Rightarrow> ut_enabled t);
          unverified = (case ut of None \<Rightarrow> False | Some t \<Rightarrow> ut_enabled t \<and> ut_verify t \<noteq> Some True);
          protocol = or_else (Option.bind spec hc_protocol)
            (if map_option po_protocolClass pool = Some C_http \<and> \<not> unverified then Probe_http else Probe_tcp_connect);
          tls = (if tls_on \<and> Option.bind spec hc_port = None \<and> Option.bind spec hc_hostOverride = None
                 then Some \<lparr>pt_servername = Option.bind ut ut_sni\<rparr> else None) in
      \<lparr>pp_mode = or_else (Option.bind spec hc_mode) Mode_active,
        pp_protocol = protocol,
        pp_port = Option.bind spec hc_port,
        pp_hostOverride = Option.bind spec hc_hostOverride,
        pp_http = (if protocol = Probe_http then Some
          \<lparr>hpo_path = or_else (Option.bind spec hc_path) HTTP_PROBE_PATH,
           hpo_expectStatus = Option.bind spec hc_expectStatus,
           hpo_expectBody = Option.bind spec hc_expectBody,
           hpo_hostHeader = Option.bind spec hc_hostHeader,
           hpo_tls = tls\<rparr> else None),
        pp_intervalS = Option.bind spec hc_intervalS,
        pp_timeoutS = Option.bind spec hc_timeoutS,
        pp_rise = Option.bind spec hc_rise,
        pp_fall = Option.bind spec hc_fall\<rparr>)"

section \<open>One probe\<close>

text \<open>What the network answers: a connection that fails with a text, or a response with its status and
  the pieces in which its body arrives. The reasons of failure keep their kinds only.\<close>

datatype probe_failure = Timed_out | Network_error string | Wrong_status nat | Empty_body | Wrong_body

datatype http_answer =
    No_answer probe_failure
  | Answer (ha_status: nat) (ha_chunks: "string list")

definition status_ok :: "nat list option \<Rightarrow> nat \<Rightarrow> bool" where
  "status_ok want status =
     (case want of None \<Rightarrow> 200 \<le> status \<and> status < 300 | Some ss \<Rightarrow> status \<in> set ss)"

text \<open>The body is read piece by piece and given up as soon as it is longer than what is expected; the
  pieces and the expected text are their UTF-8 bytes.\<close>

fun read_body :: "string \<Rightarrow> nat \<Rightarrow> string list \<Rightarrow> string \<Rightarrow> probe_failure option" where
  "read_body expect got [] body =
     (if body = expect then None else Some (if body = [] then Empty_body else Wrong_body))"
| "read_body expect got (c # cs) body =
     (if length expect < got + length c then Some Wrong_body
      else read_body expect (got + length c) cs (body @ c))"

definition probeHttp :: "(string \<Rightarrow> nat \<Rightarrow> nat \<Rightarrow> http_probe_opts \<Rightarrow> http_answer) \<Rightarrow> string \<Rightarrow> nat \<Rightarrow> nat \<Rightarrow> http_probe_opts \<Rightarrow> probe_failure option" where
  "probeHttp request host port timeoutMs opts =
     (case request host port timeoutMs opts of
        No_answer why \<Rightarrow> Some why
      | Answer status chunks \<Rightarrow>
          if \<not> status_ok (hpo_expectStatus opts) status then Some (Wrong_status status)
          else (case hpo_expectBody opts of
              None \<Rightarrow> None
            | Some expect \<Rightarrow> read_body expect 0 chunks []))"

definition bare_probe :: http_probe_opts where
  "bare_probe = \<lparr>hpo_path = HTTP_PROBE_PATH, hpo_expectStatus = None, hpo_expectBody = None,
     hpo_hostHeader = None, hpo_tls = None\<rparr>"

text \<open>The network: how a TCP connection ends, and what an HTTP request is answered.\<close>

record network =
  net_tcp :: "string \<Rightarrow> nat \<Rightarrow> nat \<Rightarrow> probe_failure option"
  net_http :: "string \<Rightarrow> nat \<Rightarrow> nat \<Rightarrow> http_probe_opts \<Rightarrow> http_answer"

definition probeBackend :: "network \<Rightarrow> probe_plan \<Rightarrow> string \<Rightarrow> nat \<Rightarrow> nat \<Rightarrow> probe_failure option" where
  "probeBackend net plan host port timeoutMs =
     (let at_host = or_else (pp_hostOverride plan) host; at_port = or_else (pp_port plan) port in
      if pp_protocol plan = Probe_http
      then probeHttp (net_http net) at_host at_port timeoutMs (or_else (pp_http plan) bare_probe)
      else net_tcp net at_host at_port timeoutMs)"

text \<open>A bounded number of probes at a time; \<open>None\<close> is a loop that never ends.\<close>

partial_function (option) inBatches_from :: "'a list \<Rightarrow> nat \<Rightarrow> ('a \<Rightarrow> 'b) \<Rightarrow> nat \<Rightarrow> 'b list \<Rightarrow> 'b list option" where
  "inBatches_from items limit run i done_so_far =
     (if i < length items
      then inBatches_from items limit run (i + limit) (done_so_far @ map run (take limit (drop i items)))
      else Some done_so_far)"

definition inBatches :: "'a list \<Rightarrow> nat \<Rightarrow> ('a \<Rightarrow> 'b) \<Rightarrow> 'b list option" where
  "inBatches items limit run = inBatches_from items limit run 0 []"

section \<open>One observation\<close>

record health_row =
  h_state :: health_state
  h_seq :: nat
  h_consecutive :: nat
  h_last_ok :: bool
  h_observed_at :: "int option"
  h_detail :: "probe_failure option"

record health_event =
  ev_seq :: nat
  ev_backend :: string
  ev_state :: health_state
  ev_detail :: "probe_failure option"

record health_db =
  db_health :: "(string, health_row) dict"
  db_next_seq :: nat
  db_events :: "health_event list"

record health_flip =
  hf_backendKey :: string
  hf_state :: health_state

definition emit :: "string \<Rightarrow> health_state \<Rightarrow> probe_failure option \<Rightarrow> health_db \<Rightarrow> health_db" where
  "emit key st detail db =
     db\<lparr>db_next_seq := db_next_seq db + 1,
        db_events := db_events db @ [\<lparr>ev_seq = db_next_seq db, ev_backend = key, ev_state = st, ev_detail = detail\<rparr>]\<rparr>"

text \<open>A finished probe: the backend, the number it got when it started, and why it failed, if it did.\<close>

record probe_result =
  pres_key :: string
  pres_seq :: nat
  pres_pool :: string
  pres_reason :: "probe_failure option"

definition row_state :: "health_db \<Rightarrow> string \<Rightarrow> health_state" where
  "row_state db key = (case dget (db_health db) key of None \<Rightarrow> Unknown | Some r \<Rightarrow> h_state r)"

definition row_seq :: "health_db \<Rightarrow> string \<Rightarrow> nat" where
  "row_seq db key = (case dget (db_health db) key of None \<Rightarrow> 0 | Some r \<Rightarrow> h_seq r)"

definition next_streak :: "health_db \<Rightarrow> string \<Rightarrow> bool \<Rightarrow> nat" where
  "next_streak db key ok =
     (case dget (db_health db) key of
        None \<Rightarrow> 1
      | Some r \<Rightarrow> if h_last_ok r = ok then h_consecutive r + 1 else 1)"

definition next_state :: "nat \<Rightarrow> nat \<Rightarrow> health_state \<Rightarrow> bool \<Rightarrow> nat \<Rightarrow> health_state" where
  "next_state riseN failN prev ok streak =
     (let next = prev;
          next = (if ok \<and> prev \<noteq> Healthy \<and> riseN \<le> streak then Healthy else next);
          next = (if \<not> ok \<and> prev \<noteq> Unhealthy \<and> failN \<le> streak then Unhealthy else next) in
      next)"

definition record_probe :: "nat \<Rightarrow> nat \<Rightarrow> int \<Rightarrow> probe_result \<Rightarrow> health_db \<Rightarrow> health_db \<times> health_flip option" where
  "record_probe riseN failN now r db =
     (if pres_seq r \<le> row_seq db (pres_key r) then (db, None)
      else
        let key = pres_key r;
            prev = row_state db key;
            ok = (pres_reason r = None);
            streak = next_streak db key ok;
            next = next_state riseN failN prev ok streak;
            db' = db\<lparr>db_health := dset key \<lparr>h_state = next, h_seq = pres_seq r, h_consecutive = streak,
              h_last_ok = ok, h_observed_at = Some now, h_detail = pres_reason r\<rparr> (db_health db)\<rparr> in
        if next = prev then (db', None)
        else (emit key next (pres_reason r) db', Some \<lparr>hf_backendKey = key, hf_state = next\<rparr>))"

section \<open>A sweep\<close>

record probe_options =
  pop_timeoutMs :: "nat option"
  pop_failThreshold :: "nat option"
  pop_riseThreshold :: "nat option"
  pop_concurrency :: "nat option"

definition DEFAULT_TIMEOUT_MS :: nat where "DEFAULT_TIMEOUT_MS = 1000"
definition DEFAULT_FAIL_THRESHOLD :: nat where "DEFAULT_FAIL_THRESHOLD = 2"
definition DEFAULT_RISE_THRESHOLD :: nat where "DEFAULT_RISE_THRESHOLD = 1"
definition DEFAULT_CONCURRENCY :: nat where "DEFAULT_CONCURRENCY = 32"

text \<open>The numbers continue after the highest one stored, so that they grow across restarts.\<close>

definition first_number :: "health_db \<Rightarrow> nat \<Rightarrow> nat" where
  "first_number db next = (if next = 0 then foldl max 0 (map (\<lambda>(k, r). h_seq r) (db_health db)) + 1 else next)"

definition plan_of :: "model \<Rightarrow> string \<Rightarrow> probe_plan option" where
  "plan_of m = js_map (map (\<lambda>p. (po_key p, probePlanOf m (po_key p))) (m_pools m))"

definition due :: "model \<Rightarrow> health_db \<Rightarrow> int \<Rightarrow> backend \<Rightarrow> bool" where
  "due m db now b =
     (case Option.bind (plan_of m (be_pool b)) pp_intervalS of
        None \<Rightarrow> True
      | Some everyS \<Rightarrow> (case Option.bind (dget (db_health db) (be_key b)) h_observed_at of
            None \<Rightarrow> True
          | Some t \<Rightarrow> int everyS * 1000 \<le> now - t))"

definition targets :: "model \<Rightarrow> health_db \<Rightarrow> int \<Rightarrow> backend list" where
  "targets m db now =
     filter (due m db now) (filter (\<lambda>b. map_option pp_mode (plan_of m (be_pool b)) \<noteq> Some Mode_none) (m_backends m))"

definition fallback_plan :: probe_plan where
  "fallback_plan = \<lparr>pp_mode = Mode_active, pp_protocol = Probe_tcp_connect, pp_port = None, pp_hostOverride = None,
     pp_http = None, pp_intervalS = None, pp_timeoutS = None, pp_rise = None, pp_fall = None\<rparr>"

definition probe_one :: "network \<Rightarrow> nat \<Rightarrow> model \<Rightarrow> nat \<times> backend \<Rightarrow> probe_result" where
  "probe_one net timeoutMs m numbered =
     (let seq = fst numbered; b = snd numbered; plan = plan_of m (be_pool b);
          own = or_else (Option.bind plan pp_timeoutS) 0 in
      \<lparr>pres_key = be_key b, pres_seq = seq, pres_pool = be_pool b,
       pres_reason = probeBackend net (or_else plan fallback_plan) (be_host b) (be_port b)
         (if 0 < own then own * 1000 else timeoutMs)\<rparr>)"

fun record_all :: "model \<Rightarrow> nat \<Rightarrow> nat \<Rightarrow> int \<Rightarrow> probe_result list \<Rightarrow> health_db \<Rightarrow> health_db \<times> health_flip list" where
  "record_all m rise fall now [] db = (db, [])"
| "record_all m rise fall now (r # rs) db =
     (let plan = plan_of m (pres_pool r);
          (db1, flip) = record_probe (or_else (Option.bind plan pp_rise) rise) (or_else (Option.bind plan pp_fall) fall) now r db;
          (db2, flips) = record_all m rise fall now rs db1 in
      (db2, (case flip of None \<Rightarrow> flips | Some f \<Rightarrow> f # flips)))"

definition sweep :: "probe_options \<Rightarrow> network \<Rightarrow> int \<Rightarrow> model \<Rightarrow> nat \<times> health_db \<Rightarrow> ((nat \<times> health_db) \<times> health_flip list) option" where
  "sweep opts net now m st =
     (let timeoutMs = or_else (pop_timeoutMs opts) DEFAULT_TIMEOUT_MS;
          fall = or_else (pop_failThreshold opts) DEFAULT_FAIL_THRESHOLD;
          rise = or_else (pop_riseThreshold opts) DEFAULT_RISE_THRESHOLD;
          first = first_number (snd st) (fst st);
          runs = enumerate first (targets m (snd st) now) in
      case inBatches runs (or_else (pop_concurrency opts) DEFAULT_CONCURRENCY) (probe_one net timeoutMs m) of
        None \<Rightarrow> None
      | Some results \<Rightarrow>
          let (db, flips) = record_all m rise fall now results (snd st) in
          Some ((first + length runs, db), flips))"

section \<open>The reducer\<close>

definition currentHealth :: "health_db \<Rightarrow> (string, health_state) dict" where
  "currentHealth db = map (\<lambda>(k, r). (k, h_state r)) (db_health db)"

definition reduceMembership :: "model \<Rightarrow> (string, health_state) dict \<Rightarrow> string set \<Rightarrow> model" where
  "reduceMembership m health draining =
     m\<lparr>m_backends := filter (\<lambda>b. dget health (be_key b) \<noteq> Some Unhealthy \<and> be_key b \<notin> draining) (m_backends m)\<rparr>"

definition shouldPushMembership :: "nat \<Rightarrow> nat \<Rightarrow> bool" where
  "shouldPushMembership eligibleCount slotCount = (if 0 < slotCount then True else eligibleCount = 0)"

definition eligibleCountForPlane :: "model \<Rightarrow> bool \<Rightarrow> nat" where
  "eligibleCountForPlane m http_plane =
     length (filter (\<lambda>b. case find (\<lambda>p. po_key p = be_pool b) (m_pools m) of
         None \<Rightarrow> False
       | Some p \<Rightarrow> if http_plane then po_protocolClass p = C_http else po_protocolClass p \<noteq> C_http) (m_backends m))"

section \<open>Batches\<close>

lemma inBatches_from_done:
  "limit > 0 \<Longrightarrow> inBatches_from items limit run i acc = Some (acc @ map run (drop i items))"
proof (induction "length items - i" arbitrary: i acc rule: less_induct)
  case less
  show ?case
  proof (cases "i < length items")
    case True
    then have "inBatches_from items limit run (i + limit) (acc @ map run (take limit (drop i items)))
      = Some ((acc @ map run (take limit (drop i items))) @ map run (drop (i + limit) items))"
      using less.prems by (intro less.hyps) auto
    moreover have "map run (take limit (drop i items)) @ map run (drop (i + limit) items) = map run (drop i items)"
      by (metis append_take_drop_id drop_drop add.commute map_append)
    ultimately show ?thesis using True by (subst inBatches_from.simps) simp
  next
    case False
    then show ?thesis by (subst inBatches_from.simps) simp
  qed
qed

lemma inBatches_map: "limit > 0 \<Longrightarrow> inBatches items limit run = Some (map run items)"
  by (simp add: inBatches_def inBatches_from_done)

lemma inBatches_empty: "inBatches [] limit run = Some []"
  by (simp add: inBatches_def inBatches_from.simps)

lemma read_body_result:
  "read_body expect (length body) chunks body = None \<longleftrightarrow> body @ concat chunks = expect"
proof (induction chunks arbitrary: body)
  case (Cons c cs)
  have "length body + length c = length (body @ c)" by simp
  then show ?case using Cons.IH [of "body @ c"] by (auto simp del: length_append) (simp_all add: not_less)
qed simp

section \<open>The table and the log agree\<close>

definition last_event_state :: "health_event list \<Rightarrow> string \<Rightarrow> health_state" where
  "last_event_state es key =
     (case find (\<lambda>e. ev_backend e = key) (rev es) of None \<Rightarrow> Unknown | Some e \<Rightarrow> ev_state e)"

definition log_agrees :: "health_db \<Rightarrow> bool" where
  "log_agrees db \<longleftrightarrow> (\<forall>key. row_state db key = last_event_state (db_events db) key)
     \<and> map ev_seq (db_events db) = [1..<db_next_seq db] \<and> 0 < db_next_seq db"

lemma last_event_state_snoc:
  "last_event_state (es @ [e]) key = (if ev_backend e = key then ev_state e else last_event_state es key)"
  by (simp add: last_event_state_def)

lemma dget_dset_cases: "dget (dset k v xs) j = (if j = k then Some v else dget xs j)"
  by (simp add: AList.update_conv')

lemma row_state_dset:
  "row_state (db\<lparr>db_health := dset key r (db_health db)\<rparr>) k = (if k = key then h_state r else row_state db k)"
  by (simp add: row_state_def dget_dset_cases)

lemma row_seq_dset:
  "row_seq (db\<lparr>db_health := dset key r (db_health db)\<rparr>) k = (if k = key then h_seq r else row_seq db k)"
  by (simp add: row_seq_def dget_dset_cases)

lemma emit_row [simp]: "row_state (emit key st d db) k = row_state db k" "row_seq (emit key st d db) k = row_seq db k"
  "db_health (emit key st d db) = db_health db"
  by (simp_all add: emit_def row_state_def row_seq_def)

text \<open>What one observation does to the rows, in one equation for each part.\<close>

definition stored_row :: "nat \<Rightarrow> nat \<Rightarrow> int \<Rightarrow> probe_result \<Rightarrow> health_db \<Rightarrow> health_row" where
  "stored_row rise fall now r db =
     (let ok = (pres_reason r = None); streak = next_streak db (pres_key r) ok in
      \<lparr>h_state = next_state rise fall (row_state db (pres_key r)) ok streak, h_seq = pres_seq r,
       h_consecutive = streak, h_last_ok = ok, h_observed_at = Some now, h_detail = pres_reason r\<rparr>)"

lemma record_probe_health:
  "db_health (fst (record_probe rise fall now r db)) =
     (if pres_seq r \<le> row_seq db (pres_key r) then db_health db
      else dset (pres_key r) (stored_row rise fall now r db) (db_health db))"
  by (simp add: record_probe_def Let_def stored_row_def)

lemma record_probe_row:
  "dget (db_health (fst (record_probe rise fall now r db))) key =
     (if key = pres_key r \<and> row_seq db key < pres_seq r then Some (stored_row rise fall now r db)
      else dget (db_health db) key)"
  by (auto simp: record_probe_health dget_dset_cases)

lemma record_probe_state:
  "row_state (fst (record_probe rise fall now r db)) key =
     (if key = pres_key r \<and> row_seq db key < pres_seq r then h_state (stored_row rise fall now r db)
      else row_state db key)"
  by (auto simp: row_state_def record_probe_row)

lemma record_probe_seq:
  "row_seq (fst (record_probe rise fall now r db)) key =
     (if key = pres_key r then max (row_seq db key) (pres_seq r) else row_seq db key)"
  by (auto simp: row_seq_def [of "fst _"] record_probe_row stored_row_def Let_def) (auto simp: row_seq_def)

definition flips :: "nat \<Rightarrow> nat \<Rightarrow> int \<Rightarrow> probe_result \<Rightarrow> health_db \<Rightarrow> bool" where
  "flips rise fall now r db \<longleftrightarrow> row_seq db (pres_key r) < pres_seq r
     \<and> h_state (stored_row rise fall now r db) \<noteq> row_state db (pres_key r)"

lemma record_probe_events:
  "db_events (fst (record_probe rise fall now r db)) = db_events db @
     (if flips rise fall now r db
      then [\<lparr>ev_seq = db_next_seq db, ev_backend = pres_key r,
             ev_state = h_state (stored_row rise fall now r db), ev_detail = pres_reason r\<rparr>] else [])"
  "db_next_seq (fst (record_probe rise fall now r db)) = db_next_seq db + (if flips rise fall now r db then 1 else 0)"
  by (simp_all add: record_probe_def Let_def stored_row_def emit_def flips_def)

lemma record_probe_log: "log_agrees db \<Longrightarrow> log_agrees (fst (record_probe rise fall now r db))"
  by (auto simp: log_agrees_def record_probe_events record_probe_state last_event_state_snoc flips_def)

lemma record_all_Cons:
  "fst (record_all m rise fall now (r # rs) db) =
     fst (record_all m rise fall now rs (fst (record_probe
       (or_else (Option.bind (plan_of m (pres_pool r)) pp_rise) rise)
       (or_else (Option.bind (plan_of m (pres_pool r)) pp_fall) fall) now r db)))"
  by (simp add: Let_def split: prod.splits)

lemma record_all_log: "log_agrees db \<Longrightarrow> log_agrees (fst (record_all m rise fall now rs db))"
  by (induction rs arbitrary: db) (simp_all add: record_all_Cons record_probe_log del: record_all.simps(2))

lemma sweep_cases:
  assumes "sweep opts net now m st = Some (st', flipped)"
  obtains rise fall results where "snd st' = fst (record_all m rise fall now results (snd st))"
  using assms by (auto simp: sweep_def Let_def split: option.splits prod.splits) (metis fst_conv that)

lemma sweep_log:
  assumes "sweep opts net now m st = Some (st', flipped)" "log_agrees (snd st)"
  shows "log_agrees (snd st')"
  using assms by (auto elim!: sweep_cases intro: record_all_log)

section \<open>Late answers\<close>

lemma record_all_seq:
  "row_seq (fst (record_all m rise fall now rs db)) key =
     foldl max (row_seq db key) (map pres_seq (filter (\<lambda>r. pres_key r = key) rs))"
  by (induction rs arbitrary: db) (simp_all add: record_all_Cons record_probe_seq del: record_all.simps(2))

definition tells :: "probe_result \<Rightarrow> health_row \<Rightarrow> bool" where
  "tells r row \<longleftrightarrow> pres_seq r = h_seq row \<and> h_detail row = pres_reason r \<and> h_last_ok row = (pres_reason r = None)"

lemma stored_row_tells: "tells r (stored_row rise fall now r db)"
  by (simp add: tells_def stored_row_def Let_def)

lemma record_all_row:
  "(dget (db_health (fst (record_all m rise fall now rs db))) key = dget (db_health db) key \<and>
      list_all (\<lambda>r. pres_key r = key \<longrightarrow> pres_seq r \<le> row_seq db key) rs)
   \<or> (\<exists>r row. r \<in> set rs \<and> pres_key r = key \<and> tells r row \<and>
        dget (db_health (fst (record_all m rise fall now rs db))) key = Some row)"
proof (induction rs arbitrary: db)
  case (Cons r rs)
  let ?db = "fst (record_probe (or_else (Option.bind (plan_of m (pres_pool r)) pp_rise) rise)
    (or_else (Option.bind (plan_of m (pres_pool r)) pp_fall) fall) now r db)"
  show ?case
    using Cons.IH [of ?db] stored_row_tells [of r]
    by (auto simp: record_all_Cons record_probe_row record_probe_seq simp del: record_all.simps(2) split: if_splits)
qed simp

section \<open>Thresholds\<close>

text \<open>What the outcomes of a backend, the newest first, say of it: the verdict of the last outcome that
  had repeated as often as its threshold asks.\<close>

definition run_length :: "bool list \<Rightarrow> nat" where
  "run_length oks = length (takeWhile (\<lambda>x. x = hd oks) oks)"

fun verdict :: "nat \<Rightarrow> nat \<Rightarrow> bool list \<Rightarrow> health_state" where
  "verdict rise fall [] = Unknown"
| "verdict rise fall (ok # earlier) =
     (if (if ok then rise else fall) \<le> run_length (ok # earlier)
      then (if ok then Healthy else Unhealthy) else verdict rise fall earlier)"

definition row_fits :: "nat \<Rightarrow> nat \<Rightarrow> bool list \<Rightarrow> health_row option \<Rightarrow> bool" where
  "row_fits rise fall oks row =
     (case row of None \<Rightarrow> oks = []
      | Some r \<Rightarrow> oks \<noteq> [] \<and> h_last_ok r = hd oks \<and> h_consecutive r = run_length oks \<and> h_state r = verdict rise fall oks)"

lemma stored_row_fits:
  assumes "row_fits rise fall oks (dget (db_health db) (pres_key r))"
  shows "row_fits rise fall ((pres_reason r = None) # oks) (Some (stored_row rise fall now r db))"
  using assms
  by (cases oks; cases "pres_reason r")
    (auto simp: row_fits_def stored_row_def next_streak_def next_state_def Let_def row_state_def run_length_def
      split: option.splits)

lemma record_all_fits:
  assumes "list_all (\<lambda>r. pres_key r = key \<longrightarrow> or_else (Option.bind (plan_of m (pres_pool r)) pp_rise) rise0 = rise
      \<and> or_else (Option.bind (plan_of m (pres_pool r)) pp_fall) fall0 = fall) rs"
    and "sorted_wrt (<) (row_seq db key # map pres_seq (filter (\<lambda>r. pres_key r = key) rs))"
    and "row_fits rise fall oks (dget (db_health db) key)"
  shows "row_fits rise fall (rev (map (\<lambda>r. pres_reason r = None) (filter (\<lambda>r. pres_key r = key) rs)) @ oks)
    (dget (db_health (fst (record_all m rise0 fall0 now rs db))) key)"
  using assms
proof (induction rs arbitrary: db oks)
  case (Cons r rs)
  let ?rise = "or_else (Option.bind (plan_of m (pres_pool r)) pp_rise) rise0"
  let ?fall = "or_else (Option.bind (plan_of m (pres_pool r)) pp_fall) fall0"
  let ?db = "fst (record_probe ?rise ?fall now r db)"
  show ?case
  proof (cases "pres_key r = key")
    case True
    have "row_fits rise fall ((pres_reason r = None) # oks) (dget (db_health ?db) key)"
      using Cons.prems True by (auto simp: record_probe_row intro: stored_row_fits)
    then have "row_fits rise fall (rev (map (\<lambda>r. pres_reason r = None) (filter (\<lambda>r. pres_key r = key) rs)) @ (pres_reason r = None) # oks)
      (dget (db_health (fst (record_all m rise0 fall0 now rs ?db))) key)"
      using Cons.prems True by (intro Cons.IH) (auto simp: record_probe_seq)
    then show ?thesis using True by (simp add: record_all_Cons del: record_all.simps)
  next
    case False
    have "row_fits rise fall (rev (map (\<lambda>r. pres_reason r = None) (filter (\<lambda>r. pres_key r = key) rs)) @ oks)
      (dget (db_health (fst (record_all m rise0 fall0 now rs ?db))) key)"
      using Cons.prems False by (intro Cons.IH) (auto simp: record_probe_seq record_probe_row)
    then show ?thesis using False by (simp add: record_all_Cons del: record_all.simps)
  qed
qed simp

section \<open>The properties\<close>

definition empty_db :: health_db where
  "empty_db = \<lparr>db_health = [], db_next_seq = 1, db_events = []\<rparr>"

text \<open>Sweeps one after another; \<open>None\<close> in the list is a restart, which forgets the next number.\<close>

fun sweeps :: "(probe_options \<times> network \<times> int \<times> model) option list \<Rightarrow> nat \<times> health_db \<Rightarrow> (nat \<times> health_db) option" where
  "sweeps [] st = Some st"
| "sweeps (None # rest) st = sweeps rest (0, snd st)"
| "sweeps (Some (opts, net, now, m) # rest) st =
     (case sweep opts net now m st of None \<Rightarrow> None | Some (st', flipped) \<Rightarrow> sweeps rest st')"

lemma sweeps_log: "sweeps ss st = Some st' \<Longrightarrow> log_agrees (snd st) \<Longrightarrow> log_agrees (snd st')"
  by (induction ss st rule: sweeps.induct) (simp_all add: sweep_log split: option.splits prod.splits)

lemma empty_log_agrees: "log_agrees empty_db"
  by (simp add: log_agrees_def empty_db_def row_state_def last_event_state_def)

text \<open>C33: Whatever sweeps and restarts there have been since an empty table, with whatever models and
  networks, the event log is numbered from one without a gap, and the state of every backend in the
  table is the one its last event announced.\<close>

theorem sweeps_log_agrees:
  assumes "sweeps ss (0, empty_db) = Some st"
  shows "map ev_seq (db_events (snd st)) = [1..<db_next_seq (snd st)]
    \<and> (\<forall>key. row_state (snd st) key = last_event_state (db_events (snd st)) key)"
  using sweeps_log [OF assms] empty_log_agrees by (simp add: log_agrees_def)

lemma record_probe_flip:
  "snd (record_probe rise fall now r db) = (if flips rise fall now r db
     then Some \<lparr>hf_backendKey = pres_key r, hf_state = h_state (stored_row rise fall now r db)\<rparr> else None)"
  by (simp add: record_probe_def Let_def stored_row_def flips_def)

definition announces :: "health_event list \<Rightarrow> health_flip list" where
  "announces = map (\<lambda>e. \<lparr>hf_backendKey = ev_backend e, hf_state = ev_state e\<rparr>)"

lemma record_all_flips:
  "announces (db_events (fst (record_all m rise fall now rs db))) =
     announces (db_events db) @ snd (record_all m rise fall now rs db)"
proof (induction rs arbitrary: db)
  case (Cons r rs)
  let ?p = "record_probe (or_else (Option.bind (plan_of m (pres_pool r)) pp_rise) rise)
    (or_else (Option.bind (plan_of m (pres_pool r)) pp_fall) fall) now r db"
  have "announces (db_events (fst ?p)) = announces (db_events db) @ (case snd ?p of None \<Rightarrow> [] | Some f \<Rightarrow> [f])"
    by (simp add: record_probe_flip record_probe_events announces_def)
  then show ?case using Cons.IH [of "fst ?p"] by (auto simp: Let_def split: prod.splits option.splits)
qed simp

text \<open>C35: With any limit on the probes in flight but zero a sweep ends; it takes a new number for each
  backend it probes, and the changes it reports are exactly the events it appends to the log.\<close>

theorem sweep_ends:
  assumes "pop_concurrency opts \<noteq> Some 0"
  shows "\<exists>db' flipped. sweep opts net now m (next, db) =
      Some ((first_number db next + length (targets m db now), db'), flipped)
    \<and> announces (db_events db') = announces (db_events db) @ flipped"
proof -
  have "or_else (pop_concurrency opts) DEFAULT_CONCURRENCY > 0"
    using assms by (cases "pop_concurrency opts") (auto simp: or_else_def DEFAULT_CONCURRENCY_def)
  then show ?thesis
    using record_all_flips [of m "or_else (pop_riseThreshold opts) DEFAULT_RISE_THRESHOLD"
        "or_else (pop_failThreshold opts) DEFAULT_FAIL_THRESHOLD" now _ db]
    by (simp add: sweep_def inBatches_map Let_def split: prod.splits) (metis fst_conv snd_conv)
qed

text \<open>In whatever order the answers of the probes arrive, the row of a backend carries the highest
  number seen, and tells the outcome of the probe that was started last.\<close>

theorem newest_probe_wins:
  "(case dget (db_health (fst (record_all m rise fall now rs db))) key of
      None \<Rightarrow> dget (db_health db) key = None \<and> filter (\<lambda>r. pres_key r = key \<and> 0 < pres_seq r) rs = []
    | Some row \<Rightarrow> h_seq row = foldl max (row_seq db key) (map pres_seq (filter (\<lambda>r. pres_key r = key) rs))
        \<and> (dget (db_health db) key = Some row \<or> (\<exists>r. r \<in> set rs \<and> pres_key r = key \<and> tells r row)))"
proof (cases "dget (db_health (fst (record_all m rise fall now rs db))) key")
  case None
  then show ?thesis using record_all_row [where m = m and rise = rise and fall = fall and now = now and rs = rs and db = db and key = key]
    by (auto simp: list_all_iff filter_empty_conv row_seq_def)
next
  case (Some row)
  have "h_seq row = row_seq (fst (record_all m rise fall now rs db)) key" using Some by (simp add: row_seq_def)
  then show ?thesis using Some record_all_row [where m = m and rise = rise and fall = fall and now = now and rs = rs and db = db and key = key]
    by (auto simp: record_all_seq)
qed

text \<open>C34: A backend changes its state exactly at the thresholds of its pool: for answers taken in the order
  of their numbers from an empty table, its state is the verdict of the last outcome that had repeated
  as often as the threshold of rising or falling asks, and unknown when none had.\<close>

theorem thresholds_decide:
  assumes "list_all (\<lambda>r. pres_key r = key \<longrightarrow> or_else (Option.bind (plan_of m (pres_pool r)) pp_rise) rise0 = rise
      \<and> or_else (Option.bind (plan_of m (pres_pool r)) pp_fall) fall0 = fall) rs"
    and "sorted_wrt (<) (0 # map pres_seq (filter (\<lambda>r. pres_key r = key) rs))"
  shows "row_state (fst (record_all m rise0 fall0 now rs empty_db)) key =
    verdict rise fall (rev (map (\<lambda>r. pres_reason r = None) (filter (\<lambda>r. pres_key r = key) rs)))"
proof -
  have "row_fits rise fall (rev (map (\<lambda>r. pres_reason r = None) (filter (\<lambda>r. pres_key r = key) rs)) @ [])
    (dget (db_health (fst (record_all m rise0 fall0 now rs empty_db))) key)"
    using assms by (intro record_all_fits) (auto simp: row_fits_def empty_db_def row_seq_def)
  then show ?thesis by (auto simp: row_fits_def row_state_def split: option.splits)
qed

section \<open>A small pool\<close>

definition sample_pool_model :: model where
  "sample_pool_model = \<lparr>m_engine = None, m_listeners = [], m_httpRoutes = [], m_passthroughRoutes = [],
     m_pools = [\<lparr>po_key = ''web'', po_protocolClass = C_http, po_algorithm = Round_robin, po_hashKey = None,
       po_sendProxyProtocol = None, po_healthCheck = None, po_upstreamTls = None, po_discovery = None\<rparr>],
     m_backends = [\<lparr>be_key = ''b1'', be_pool = ''web'', be_host = ''10.0.0.1'', be_port = 80, be_weight = 1,
       be_softMaxConns = None, be_isBackup = None\<rparr>],
     m_certificates = [], m_tlsPolicies = [], m_sniBindings = [], m_addressSets = None\<rparr>"

definition plain_options :: probe_options where
  "plain_options = \<lparr>pop_timeoutMs = None, pop_failThreshold = None, pop_riseThreshold = None, pop_concurrency = None\<rparr>"

definition answering :: "nat \<Rightarrow> network" where
  "answering status = \<lparr>net_tcp = (\<lambda>host port ms. None), net_http = (\<lambda>host port ms opts. Answer status [])\<rparr>"

definition sample_sweep :: "nat \<Rightarrow> int \<Rightarrow> (probe_options \<times> network \<times> int \<times> model) option" where
  "sample_sweep status now = Some (plain_options, answering status, now, sample_pool_model)"

lemma plain_sweep:
  "sweep plain_options net now m st =
     (let results = map (probe_one net 1000 m) (enumerate (first_number (snd st) (fst st)) (targets m (snd st) now));
          (db, flips) = record_all m 1 2 now results (snd st) in
      Some ((first_number (snd st) (fst st) + length results, db), flips))"
  by (simp add: sweep_def inBatches_map plain_options_def or_else_def DEFAULT_CONCURRENCY_def DEFAULT_TIMEOUT_MS_def
      DEFAULT_RISE_THRESHOLD_def DEFAULT_FAIL_THRESHOLD_def Let_def split: prod.splits)

definition sample_result :: "nat \<Rightarrow> bool \<Rightarrow> probe_result" where
  "sample_result seq ok = \<lparr>pres_key = ''b1'', pres_seq = seq, pres_pool = ''web'', pres_reason = (if ok then None else Some (Wrong_status 503))\<rparr>"

lemma thresholds_decide_witness:
  "row_state (fst (record_all sample_pool_model 1 2 0 [sample_result 1 True, sample_result 2 False, sample_result 3 False] empty_db)) ''b1''
    = Unhealthy"
proof -
  have v: "verdict 1 2 (rev (map (\<lambda>r. pres_reason r = None) (filter (\<lambda>r. pres_key r = ''b1'')
      [sample_result 1 True, sample_result 2 False, sample_result 3 False]))) = Unhealthy"
    by code_simp
  have l: "list_all (\<lambda>r. pres_key r = ''b1'' \<longrightarrow> or_else (Option.bind (plan_of sample_pool_model (pres_pool r)) pp_rise) 1 = 1
      \<and> or_else (Option.bind (plan_of sample_pool_model (pres_pool r)) pp_fall) 2 = 2)
      [sample_result 1 True, sample_result 2 False, sample_result 3 False]" by code_simp
  have srt: "sorted_wrt (<) (0 # map pres_seq (filter (\<lambda>r. pres_key r = ''b1'')
      [sample_result 1 True, sample_result 2 False, sample_result 3 False]))" by code_simp
  show ?thesis by (rule thresholds_decide [OF l srt, THEN trans, OF v])
qed

lemma sweep_ends_witness:
  "\<exists>db' flipped. sweep plain_options (answering 200) 0 sample_pool_model (0, empty_db) = Some ((2, db'), flipped)"
proof -
  have "first_number empty_db 0 + length (targets sample_pool_model empty_db 0) = 2" by code_simp
  then show ?thesis
    using sweep_ends [of plain_options "answering 200" 0 sample_pool_model 0 empty_db] by (auto simp: plain_options_def)
qed

lemma sweeps_log_agrees_witness:
  "\<exists>st. sweeps [sample_sweep 200 0, None, sample_sweep 503 2000, sample_sweep 503 4000] (0, empty_db) = Some st
    \<and> map ev_state (db_events (snd st)) = [Healthy, Unhealthy]
    \<and> row_state (snd st) ''b1'' = last_event_state (db_events (snd st)) ''b1''"
proof -
  have "(case sweeps [sample_sweep 200 0, None, sample_sweep 503 2000, sample_sweep 503 4000] (0, empty_db) of
      None \<Rightarrow> False | Some st \<Rightarrow> map ev_state (db_events (snd st)) = [Healthy, Unhealthy])"
    unfolding sample_sweep_def sweeps.simps plain_sweep by code_simp
  then show ?thesis using sweeps_log_agrees by (auto split: option.splits)
qed

end
