(* ===== verification/Generations.thy ===== *)
theory Generations
  imports Prelude Complex_Main
begin

text \<open>
  The retention of configuration generations on a node, \<^verbatim>\<open>src/src/dp/retention.ts\<close>: which of the
  directories under \<^verbatim>\<open>generations\<close> are removed.

  What the file system answers is given: the names of the directories in the order it lists them,
  the modification time of one (\<open>None\<close> when it cannot be read) and the reason a removal fails.
\<close>

definition DEFAULT_KEEP :: int where "DEFAULT_KEEP = 10"

record sweep_options =
  so_keep :: "int option"
  so_protect :: "string list"
  so_workerLingerMs :: "rat option"
  so_now :: rat

record file_system =
  fs_directories :: "string list option"
  fs_mtime :: "string \<Rightarrow> rat option"
  fs_remove :: "string \<Rightarrow> string option"

record sweep_result =
  sw_kept :: "string list"
  sw_removed :: "string list"
  sw_failed :: "(string \<times> string) list"

definition nothing_swept :: sweep_result where
  "nothing_swept = \<lparr>sw_kept = [], sw_removed = [], sw_failed = []\<rparr>"

type_synonym candidate = "string \<times> rat"

definition mtime_of :: "file_system \<Rightarrow> string \<Rightarrow> rat" where
  "mtime_of fs name = (case fs_mtime fs name of None \<Rightarrow> 0 | Some t \<Rightarrow> t)"

definition candidates_of :: "file_system \<Rightarrow> string list \<Rightarrow> string list \<Rightarrow> candidate list" where
  "candidates_of fs protect entries =
     sort_key (\<lambda>(name, mtime). - mtime)
       (map (\<lambda>name. (name, mtime_of fs name))
         (filter (\<lambda>name. name \<noteq> ''bootstrap'') (filter (\<lambda>name. name \<notin> set protect) entries)))"

text \<open>A generation may still be held by workers while the one after it is younger than their linger.\<close>

definition still_held :: "rat option \<Rightarrow> rat \<Rightarrow> candidate list \<Rightarrow> string set" where
  "still_held linger now cs =
     (case linger of
        None \<Rightarrow> {}
      | Some l \<Rightarrow> set (List.map_filter (\<lambda>i. if now - snd (cs ! (i - 1)) < l then Some (fst (cs ! i)) else None) [1..<length cs]))"

definition doomed_of :: "nat \<Rightarrow> string set \<Rightarrow> candidate list \<Rightarrow> string list" where
  "doomed_of keep held cs = map fst (filter (\<lambda>c. fst c \<notin> held) (drop keep cs))"

text \<open>\<open>new Set(opts.protect)\<close> keeps the first of each name.\<close>

definition set_order :: "string list \<Rightarrow> string list" where
  "set_order xs = rev (remdups (rev xs))"

definition kept_of :: "string list \<Rightarrow> nat \<Rightarrow> string set \<Rightarrow> candidate list \<Rightarrow> string list" where
  "kept_of protect keep held cs =
     set_order protect @ map fst (take keep cs) @ map fst (filter (\<lambda>c. fst c \<in> held) (drop keep cs))"

definition sweepGenerations :: "file_system \<Rightarrow> sweep_options \<Rightarrow> sweep_result" where
  "sweepGenerations fs opts =
     (let keep = (case so_keep opts of None \<Rightarrow> DEFAULT_KEEP | Some k \<Rightarrow> k) in
      if keep \<le> 0 then nothing_swept
      else (case fs_directories fs of
          None \<Rightarrow> nothing_swept
        | Some entries \<Rightarrow>
            let cs = candidates_of fs (so_protect opts) entries;
                held = still_held (so_workerLingerMs opts) (so_now opts) cs;
                doomed = doomed_of (nat keep) held cs in
            \<lparr>sw_kept = kept_of (so_protect opts) (nat keep) held cs,
             sw_removed = filter (\<lambda>name. fs_remove fs name = None) doomed,
             sw_failed = List.map_filter (\<lambda>name. map_option (\<lambda>why. (name, why)) (fs_remove fs name)) doomed\<rparr>))"

section \<open>What is removed\<close>

lemma candidates_of_sorted: "sorted_wrt (\<lambda>c d. snd d \<le> snd c) (candidates_of fs protect entries)"
proof -
  have "sorted (map (\<lambda>(name, mtime). - mtime) (candidates_of fs protect entries))"
    by (simp add: candidates_of_def)
  then show ?thesis by (simp add: sorted_map case_prod_beta)
qed

lemma candidates_of_set:
  "set (candidates_of fs protect entries) =
     (\<lambda>name. (name, mtime_of fs name)) ` {name \<in> set entries. name \<notin> set protect \<and> name \<noteq> ''bootstrap''}"
  by (auto simp: candidates_of_def)

lemma candidates_of_distinct: "distinct entries \<Longrightarrow> distinct (map fst (candidates_of fs protect entries))"
  unfolding candidates_of_def
  by (subst distinct_map) (auto simp: distinct_map inj_on_def intro!: distinct_filter)

lemma still_held_iff:
  "i < length cs \<Longrightarrow> 0 < i \<Longrightarrow> now - snd (cs ! (i - 1)) < l \<Longrightarrow> fst (cs ! i) \<in> still_held (Some l) now cs"
  by (auto simp: still_held_def List.map_filter_def image_iff) (metis atLeastLessThan_iff One_nat_def Suc_leI)

lemma doomed_position:
  assumes "name \<in> set (doomed_of keep (still_held linger now cs) cs)"
  obtains i where "i < length cs" "keep \<le> i" "fst (cs ! i) = name"
    "\<And>l. 0 < i \<Longrightarrow> linger = Some l \<Longrightarrow> l \<le> now - snd (cs ! (i - 1))"
proof -
  obtain c where c: "c \<in> set (drop keep cs)" "fst c = name" "name \<notin> still_held linger now cs"
    using assms by (auto simp: doomed_of_def)
  then obtain j where "j < length (drop keep cs)" "drop keep cs ! j = c" by (metis in_set_conv_nth)
  then have "keep + j < length cs" "cs ! (keep + j) = c" by auto
  moreover have "l \<le> now - snd (cs ! (keep + j - 1))" if p: "0 < keep + j" "linger = Some l" for l
    using still_held_iff [of "keep + j" cs now l] calculation c p by (metis not_less)
  ultimately show thesis using that [of "keep + j"] c by simp
qed

definition keep_of :: "sweep_options \<Rightarrow> int" where
  "keep_of opts = (case so_keep opts of None \<Rightarrow> DEFAULT_KEEP | Some k \<Rightarrow> k)"

text \<open>What a sweep has tried to remove, and the generations it may touch at all.\<close>

definition swept :: "sweep_result \<Rightarrow> string set" where
  "swept res = set (sw_removed res) \<union> fst ` set (sw_failed res)"

definition sweepable :: "file_system \<Rightarrow> sweep_options \<Rightarrow> string set" where
  "sweepable fs opts =
     (case fs_directories fs of None \<Rightarrow> {} | Some entries \<Rightarrow> {x \<in> set entries. x \<notin> set (so_protect opts) \<and> x \<noteq> ''bootstrap''})"

definition cands :: "file_system \<Rightarrow> sweep_options \<Rightarrow> candidate list" where
  "cands fs opts = (case fs_directories fs of None \<Rightarrow> [] | Some entries \<Rightarrow> candidates_of fs (so_protect opts) entries)"

definition dooms :: "file_system \<Rightarrow> sweep_options \<Rightarrow> string list" where
  "dooms fs opts = (if keep_of opts \<le> 0 then []
     else doomed_of (nat (keep_of opts)) (still_held (so_workerLingerMs opts) (so_now opts) (cands fs opts)) (cands fs opts))"

lemma split_by_removal:
  "{x \<in> set xs. f x = None} \<union> fst ` set (List.map_filter (\<lambda>x. map_option (Pair x) (f x)) xs) = set xs"
  by (induction xs) (auto simp: List.map_filter_def split: option.splits)

lemma swept_doomed: "swept (sweepGenerations fs opts) = set (dooms fs opts)"
  by (cases "fs_directories fs")
    (simp_all add: sweepGenerations_def swept_def nothing_swept_def Let_def keep_of_def [symmetric] dooms_def cands_def
      split_by_removal, simp add: doomed_of_def)

lemma kept_sweep:
  "fs_directories fs \<noteq> None \<Longrightarrow> 0 < keep_of opts \<Longrightarrow> sw_kept (sweepGenerations fs opts) =
     kept_of (so_protect opts) (nat (keep_of opts)) (still_held (so_workerLingerMs opts) (so_now opts) (cands fs opts)) (cands fs opts)"
  by (auto simp: sweepGenerations_def Let_def keep_of_def [symmetric] cands_def)

lemma cands_names: "fst ` set (cands fs opts) = sweepable fs opts"
  by (cases "fs_directories fs") (auto simp: cands_def sweepable_def candidates_of_set image_iff)

lemma cands_time: "c \<in> set (cands fs opts) \<Longrightarrow> snd c = mtime_of fs (fst c)"
  by (cases "fs_directories fs") (auto simp: cands_def candidates_of_set)

lemma cands_newer:
  assumes "k < i" "i < length (cands fs opts)"
  shows "mtime_of fs (fst (cands fs opts ! i)) \<le> mtime_of fs (fst (cands fs opts ! k))"
proof -
  have "sorted_wrt (\<lambda>c d. snd d \<le> snd c) (cands fs opts)"
    by (simp add: cands_def candidates_of_sorted split: option.split)
  then have "snd (cands fs opts ! i) \<le> snd (cands fs opts ! k)" using assms by (simp add: sorted_wrt_iff_nth_less)
  then show ?thesis using assms by (simp flip: cands_time [OF nth_mem])
qed

lemma cands_distinct:
  "fs_directories fs = Some entries \<Longrightarrow> distinct entries \<Longrightarrow> distinct (map fst (cands fs opts))"
  by (simp add: cands_def candidates_of_distinct)

lemma dooms_position:
  assumes "name \<in> set (dooms fs opts)"
  obtains i where "0 < keep_of opts" "i < length (cands fs opts)" "nat (keep_of opts) \<le> i" "fst (cands fs opts ! i) = name"
    "\<And>l. so_workerLingerMs opts = Some l \<Longrightarrow> l \<le> so_now opts - mtime_of fs (fst (cands fs opts ! (i - 1)))"
proof -
  have k: "0 < keep_of opts" using assms by (auto simp: dooms_def split: if_splits)
  then have "name \<in> set (doomed_of (nat (keep_of opts)) (still_held (so_workerLingerMs opts) (so_now opts) (cands fs opts)) (cands fs opts))"
    using assms by (simp add: dooms_def)
  then obtain i where i: "i < length (cands fs opts)" "nat (keep_of opts) \<le> i" "fst (cands fs opts ! i) = name"
    "\<And>l. 0 < i \<Longrightarrow> so_workerLingerMs opts = Some l \<Longrightarrow> l \<le> so_now opts - snd (cands fs opts ! (i - 1))"
    by (elim doomed_position) blast
  then have "cands fs opts ! (i - 1) \<in> set (cands fs opts)" by (intro nth_mem) simp
  then have "snd (cands fs opts ! (i - 1)) = mtime_of fs (fst (cands fs opts ! (i - 1)))" by (rule cands_time)
  with i k show thesis by (intro that [of i]) auto
qed

lemma newer_count:
  assumes "fs_directories fs = Some entries" "distinct entries" "i < length (cands fs opts)"
  defines "name \<equiv> fst (cands fs opts ! i)"
  shows "i \<le> card {x \<in> sweepable fs opts. x \<noteq> name \<and> mtime_of fs name \<le> mtime_of fs x}"
proof -
  have d: "distinct (map fst (cands fs opts))" by (rule cands_distinct [OF assms(1,2)])
  have count: "card (set (map fst (take i (cands fs opts)))) = i"
    using d assms(3) by (subst distinct_card) (simp_all add: take_map [symmetric])
  have sub: "set (map fst (take i (cands fs opts))) \<subseteq> {x \<in> sweepable fs opts. x \<noteq> name \<and> mtime_of fs name \<le> mtime_of fs x}"
  proof
    fix x assume "x \<in> set (map fst (take i (cands fs opts)))"
    then obtain k where k: "k < i" "x = fst (cands fs opts ! k)" by (auto simp: in_set_conv_nth)
    have "x \<noteq> name" using nth_eq_iff_index_eq [OF d, of k i] k assms(3) by (simp add: name_def)
    moreover have "x \<in> sweepable fs opts"
      unfolding cands_names [symmetric] k(2) using k(1) assms(3) by (intro imageI nth_mem) simp
    ultimately show "x \<in> {x \<in> sweepable fs opts. x \<noteq> name \<and> mtime_of fs name \<le> mtime_of fs x}"
      using cands_newer [OF k(1) assms(3)] k(2) by (simp add: name_def)
  qed
  have fin: "finite {x \<in> sweepable fs opts. x \<noteq> name \<and> mtime_of fs name \<le> mtime_of fs x}"
    by (rule finite_subset [of _ "sweepable fs opts"]) (auto simp flip: cands_names)
  show ?thesis using card_mono [OF fin sub] unfolding count .
qed

lemma kept_partition:
  assumes "fs_directories fs = Some entries" "distinct entries" "0 < keep_of opts"
  shows "set (sw_kept (sweepGenerations fs opts)) = set (so_protect opts) \<union> (sweepable fs opts - set (dooms fs opts))"
proof -
  let ?k = "nat (keep_of opts)" and ?cs = "cands fs opts"
  let ?held = "still_held (so_workerLingerMs opts) (so_now opts) ?cs"
  have "distinct (map fst (take ?k ?cs @ drop ?k ?cs))" using cands_distinct [OF assms(1,2)] by simp
  then have dis: "fst ` set (take ?k ?cs) \<inter> fst ` set (drop ?k ?cs) = {}"
    by (simp only: map_append distinct_append set_map)
  have all: "fst ` set (take ?k ?cs) \<union> fst ` set (drop ?k ?cs) = sweepable fs opts"
    by (metis cands_names image_Un set_append append_take_drop_id)
  have "set (dooms fs opts) = {x \<in> fst ` set (drop ?k ?cs). x \<notin> ?held}"
    using assms(3) by (auto simp: dooms_def doomed_of_def)
  moreover have "set (sw_kept (sweepGenerations fs opts)) =
      set (so_protect opts) \<union> fst ` set (take ?k ?cs) \<union> {x \<in> fst ` set (drop ?k ?cs). x \<in> ?held}"
    using assms by (auto simp: kept_sweep kept_of_def set_order_def)
  moreover have "P \<union> A \<union> {x \<in> B. x \<in> H} = P \<union> (S - {x \<in> B. x \<notin> H})" if "A \<inter> B = {}" "A \<union> B = S" for A B P S :: "string set" and H
    using that by blast
  ultimately show ?thesis using dis all by simp
qed

lemma dooms_old:
  assumes "fs_directories fs = Some entries" "distinct entries" "name \<in> set (dooms fs opts)"
  shows "name \<in> sweepable fs opts"
    "keep_of opts \<le> int (card {x \<in> sweepable fs opts. x \<noteq> name \<and> mtime_of fs name \<le> mtime_of fs x})"
    "so_workerLingerMs opts = Some l \<Longrightarrow>
      \<exists>x \<in> sweepable fs opts. x \<noteq> name \<and> mtime_of fs name \<le> mtime_of fs x \<and> l \<le> so_now opts - mtime_of fs x"
proof -
  obtain i where i: "0 < keep_of opts" "i < length (cands fs opts)" "nat (keep_of opts) \<le> i" "fst (cands fs opts ! i) = name"
    "\<And>l. so_workerLingerMs opts = Some l \<Longrightarrow> l \<le> so_now opts - mtime_of fs (fst (cands fs opts ! (i - 1)))"
    using assms(3) by (elim dooms_position) blast
  show "name \<in> sweepable fs opts" unfolding cands_names [symmetric] i(4) [symmetric] using i(2) by (intro imageI nth_mem)
  show "keep_of opts \<le> int (card {x \<in> sweepable fs opts. x \<noteq> name \<and> mtime_of fs name \<le> mtime_of fs x})"
    using newer_count [OF assms(1,2) i(2)] i by simp
  let ?x = "fst (cands fs opts ! (i - 1))"
  have "i - 1 < i" using i(1,3) by simp
  moreover from this have "?x \<noteq> name"
    using nth_eq_iff_index_eq [OF cands_distinct [OF assms(1,2)], where i = "i - 1" and j = i] i(2,4) by auto
  moreover have "?x \<in> sweepable fs opts"
    unfolding cands_names [symmetric] using i(2) by (intro imageI nth_mem) simp
  ultimately show "\<exists>x \<in> sweepable fs opts. x \<noteq> name \<and> mtime_of fs name \<le> mtime_of fs x \<and> l \<le> so_now opts - mtime_of fs x"
    if "so_workerLingerMs opts = Some l"
    using i(5) [OF that] cands_newer [of "i - 1" i fs opts] i(2,4) by blast
qed

text \<open>C38: A sweep removes, or tries to remove, only directories that are neither protected nor the
  bootstrap generation; at least as many others as are to be kept are no older than one it removes,
  and under a linger one of those has been there at least that long. With nothing to keep it
  touches nothing, and what it spares of the rest it reports as kept.\<close>

theorem sweep_spares:
  assumes "fs_directories fs = Some entries" "distinct entries"
  shows "set (sw_kept (sweepGenerations fs opts)) =
      (if 0 < keep_of opts then set (so_protect opts) \<union> (sweepable fs opts - swept (sweepGenerations fs opts)) else {})
    \<and> (\<forall>name \<in> swept (sweepGenerations fs opts). 0 < keep_of opts \<and> name \<in> sweepable fs opts
      \<and> keep_of opts \<le> int (card {x \<in> sweepable fs opts. x \<noteq> name \<and> mtime_of fs name \<le> mtime_of fs x})
      \<and> (case so_workerLingerMs opts of None \<Rightarrow> True
         | Some l \<Rightarrow> (\<exists>x \<in> sweepable fs opts. x \<noteq> name \<and> mtime_of fs name \<le> mtime_of fs x \<and> l \<le> so_now opts - mtime_of fs x)))"
proof -
  have "sw_kept (sweepGenerations fs opts) = []" if "\<not> 0 < keep_of opts"
    using that by (simp add: sweepGenerations_def nothing_swept_def Let_def keep_of_def)
  moreover have "0 < keep_of opts" if "name \<in> set (dooms fs opts)" for name
    using that by (auto simp: dooms_def split: if_splits)
  ultimately show ?thesis
    unfolding swept_doomed using kept_partition [OF assms] dooms_old [OF assms] by (auto split: option.splits)
qed

definition sample_disk :: file_system where
  "sample_disk = \<lparr>fs_directories = Some [''bootstrap'', ''g1'', ''g2'', ''g3'', ''g4''],
     fs_mtime = (\<lambda>name. if name = ''g1'' then Some 1 else if name = ''g2'' then Some 2
       else if name = ''g3'' then Some 3 else if name = ''g4'' then Some 4 else None),
     fs_remove = (\<lambda>name. None)\<rparr>"

definition sample_retention :: sweep_options where
  "sample_retention = \<lparr>so_keep = Some 1, so_protect = [''g4''], so_workerLingerMs = Some 2, so_now = 4\<rparr>"

lemma sweep_spares_witness:
  "sw_removed (sweepGenerations sample_disk sample_retention) = [''g1''] \<and> ''g1'' \<in> sweepable sample_disk sample_retention"
proof -
  have r: "sw_removed (sweepGenerations sample_disk sample_retention) = [''g1'']" by code_simp
  then have "''g1'' \<in> swept (sweepGenerations sample_disk sample_retention)" by (simp add: swept_def)
  moreover have d: "fs_directories sample_disk = Some [''bootstrap'', ''g1'', ''g2'', ''g3'', ''g4'']"
    by (simp add: sample_disk_def)
  moreover have "distinct [''bootstrap'', ''g1'', ''g2'', ''g3'', ''g4'']" by simp
  ultimately show ?thesis using sweep_spares [OF d] r by blast
qed

end
