(* ===== verification/Leader.thy ===== *)
theory Leader
  imports Prelude
begin

text \<open>
  Leader election, \<^verbatim>\<open>src/src/control/leader.ts\<close>: what one instance believes of its leadership while
  attempts to take the lock, losses of sessions and its own stepping down come in any order. The lock
  itself (\<^verbatim>\<open>LeaderLock\<close> in \<^verbatim>\<open>store/db.ts\<close>) answers an attempt; a session is named by a number.
\<close>

section \<open>The election\<close>

datatype loss_kind = Loss_error | Loss_end

text \<open>Why an instance is not the leader; the texts of the lock and of a session are kept.\<close>

datatype not_leader_reason =
    Never_tried
  | Attempt_refused string
  | Session_lost string
  | Stepped_down
  | Not_the_leader

record leader_session =
  se_id :: nat
  se_token :: string
  se_since :: string

datatype lock_attempt =
    Refused_because string
  | Granted leader_session "(loss_kind \<times> string) list"

record election =
  el_session :: "leader_session option"
  el_token :: "string option"
  el_since :: "string option"
  el_reason :: "not_leader_reason option"
  el_lost :: bool

definition fresh_election :: election where
  "fresh_election = \<lparr>el_session = None, el_token = None, el_since = None, el_reason = Some Never_tried, el_lost = False\<rparr>"

record leadership =
  le_isLeader :: bool
  le_token :: "string option"
  le_since :: "string option"
  le_reason :: "not_leader_reason option"

definition in_office :: "election \<Rightarrow> bool" where
  "in_office el \<longleftrightarrow> el_session el \<noteq> None \<and> \<not> el_lost el"

definition state :: "election \<Rightarrow> leadership" where
  "state el =
     (let ok = in_office el in
      \<lparr>le_isLeader = ok, le_token = (if ok then el_token el else None), le_since = (if ok then el_since el else None),
       le_reason = (if ok then None else Some (case el_reason el of None \<Rightarrow> Not_the_leader | Some r \<Rightarrow> r))\<rparr>)"

definition assertElected :: "election \<Rightarrow> not_leader_reason + string" where
  "assertElected el =
     (let s = state el in
      case le_token s of
        Some token \<Rightarrow> if le_isLeader s then Inr token
          else Inl (case le_reason s of None \<Rightarrow> Not_the_leader | Some r \<Rightarrow> r)
      | None \<Rightarrow> Inl (case le_reason s of None \<Rightarrow> Not_the_leader | Some r \<Rightarrow> r))"

text \<open>The callback given to \<open>onLost\<close>; every session that was ever granted calls it.\<close>

definition on_lost :: "loss_kind \<Rightarrow> string \<Rightarrow> election \<Rightarrow> election" where
  "on_lost kind reason el =
     el\<lparr>el_lost := True,
        el_reason := (if kind = Loss_error then Some (Session_lost reason)
          else (case el_reason el of None \<Rightarrow> Some (Session_lost reason) | Some r \<Rightarrow> Some r))\<rparr>"

text \<open>\<open>tryAcquire\<close> asks the lock only when it is not in office, and goes on when the lock has answered. A
  granted session replays, as the callback is attached, the losses that came before.\<close>

definition asks_lock :: "election \<Rightarrow> bool" where
  "asks_lock el \<longleftrightarrow> \<not> in_office el"

definition acquired :: "lock_attempt \<Rightarrow> election \<Rightarrow> election \<times> bool" where
  "acquired answer el =
     (case answer of
        Refused_because why \<Rightarrow> (el\<lparr>el_reason := Some (Attempt_refused why)\<rparr>, False)
      | Granted session early \<Rightarrow>
          let el1 = foldl (\<lambda>el (kind, why). on_lost kind why el) el early in
          (el1\<lparr>el_session := Some session, el_token := Some (se_token session), el_since := Some (se_since session),
               el_reason := None, el_lost := False\<rparr>, True))"

text \<open>\<open>release\<close> lets go of the session at once, and goes on when the session has closed.\<close>

definition release_begin :: "election \<Rightarrow> election \<times> leader_session option" where
  "release_begin el = (el\<lparr>el_session := None\<rparr>, el_session el)"

definition release_end :: "election \<Rightarrow> election" where
  "release_end el = el\<lparr>el_token := None, el_reason := Some Stepped_down\<rparr>"

section \<open>What may happen to it\<close>

text \<open>The instance in its world: the election, how many attempts and releases wait for an answer, the
  sessions granted so far, and those of which a loss was reported to the callback.\<close>

record office =
  of_election :: election
  of_asking :: nat
  of_releasing :: nat
  of_granted :: "nat set"
  of_dead :: "nat set"

datatype event =
    Try_acquire
  | Lock_answers lock_attempt
  | Session_loss nat loss_kind string
  | Release
  | Session_closed

inductive office_step :: "office \<Rightarrow> event \<Rightarrow> office \<Rightarrow> bool" where
  try_idle: "\<not> asks_lock (of_election w) \<Longrightarrow> office_step w Try_acquire w"
| try_asks: "asks_lock (of_election w) \<Longrightarrow> office_step w Try_acquire (w\<lparr>of_asking := of_asking w + 1\<rparr>)"
| refused: "of_asking w = Suc n \<Longrightarrow>
    office_step w (Lock_answers (Refused_because why))
      (w\<lparr>of_election := fst (acquired (Refused_because why) (of_election w)), of_asking := n\<rparr>)"
| granted: "of_asking w = Suc n \<Longrightarrow> se_id session \<notin> of_granted w \<Longrightarrow>
    office_step w (Lock_answers (Granted session early))
      (w\<lparr>of_election := fst (acquired (Granted session early) (of_election w)), of_asking := n,
         of_granted := insert (se_id session) (of_granted w),
         of_dead := (if early = [] then of_dead w else insert (se_id session) (of_dead w))\<rparr>)"
| loss: "i \<in> of_granted w \<Longrightarrow>
    office_step w (Session_loss i kind why)
      (w\<lparr>of_election := on_lost kind why (of_election w), of_dead := insert i (of_dead w)\<rparr>)"
| release_none: "el_session (of_election w) = None \<Longrightarrow> office_step w Release w"
| release_some: "el_session (of_election w) = Some session \<Longrightarrow>
    office_step w Release (w\<lparr>of_election := fst (release_begin (of_election w)), of_releasing := of_releasing w + 1\<rparr>)"
| closed: "of_releasing w = Suc n \<Longrightarrow>
    office_step w Session_closed (w\<lparr>of_election := release_end (of_election w), of_releasing := n\<rparr>)"

definition first_office :: office where
  "first_office = \<lparr>of_election = fresh_election, of_asking = 0, of_releasing = 0, of_granted = {}, of_dead = {}\<rparr>"

inductive office_history :: "event list \<Rightarrow> office \<Rightarrow> bool" where
  history_first: "office_history [] first_office"
| history_next: "office_history es w \<Longrightarrow> office_step w e w' \<Longrightarrow> office_history (es @ [e]) w'"

inductive_cases office_stepE: "office_step w e w'"

definition lost_early :: "event \<Rightarrow> bool" where
  "lost_early e = (case e of Lock_answers (Granted session early) \<Rightarrow> early \<noteq> [] | _ \<Rightarrow> False)"

section \<open>What it believes\<close>

text \<open>In office the session is one that was granted, and of whose loss nobody has heard; its token is
  known unless a release was waiting meanwhile.\<close>

definition sound_office :: "office \<Rightarrow> bool" where
  "sound_office w \<longleftrightarrow> of_dead w \<subseteq> of_granted w \<and>
     (case el_session (of_election w) of
        None \<Rightarrow> True
      | Some s \<Rightarrow> se_id s \<in> of_granted w \<and> (el_lost (of_election w) \<or> se_id s \<notin> of_dead w)
          \<and> (el_token (of_election w) = Some (se_token s) \<or> el_token (of_election w) = None))"

lemma sound_first: "sound_office first_office"
  by (simp add: sound_office_def first_office_def fresh_election_def)

lemma sound_step:
  assumes "office_step w e w'" "sound_office w" "\<not> lost_early e"
  shows "sound_office w'"
  using assms
  by (cases rule: office_step.cases)
    (auto simp: sound_office_def acquired_def on_lost_def release_begin_def release_end_def lost_early_def
      split: option.splits if_splits)

lemma sound_history:
  assumes "office_history es w" "list_all (\<lambda>e. \<not> lost_early e) es"
  shows "sound_office w"
  using assms by (induction rule: office_history.induct) (auto intro: sound_first sound_step)

text \<open>C39: However attempts, losses and releases follow each other, as long as no session is lost before
  its callback is attached, an instance that says it is the leader is in a session the lock granted
  it, of which no loss was ever reported, and the token it hands out is the one of that session.\<close>

theorem leader_session_alive:
  assumes "office_history es w" "list_all (\<lambda>e. \<not> lost_early e) es" "assertElected (of_election w) = Inr token"
  shows "\<exists>s. el_session (of_election w) = Some s \<and> se_id s \<in> of_granted w - of_dead w \<and> se_token s = token"
proof -
  have "sound_office w" by (rule sound_history [OF assms(1,2)])
  then show ?thesis using assms(3)
    by (auto simp: assertElected_def state_def in_office_def sound_office_def Let_def split: option.splits if_splits)
qed

section \<open>Where it errs\<close>

definition sample_session :: "nat \<Rightarrow> leader_session" where
  "sample_session i = \<lparr>se_id = i, se_token = show_nat i, se_since = ''t''\<rparr>"

text \<open>Two events after the first: the instance asks and is granted a session.\<close>

definition take_office :: "lock_attempt \<Rightarrow> office \<Rightarrow> office" where
  "take_office a w = w\<lparr>of_election := fst (acquired a (of_election w)), of_asking := 0,
     of_granted := (case a of Granted s early \<Rightarrow> insert (se_id s) (of_granted w) | _ \<Rightarrow> of_granted w),
     of_dead := (case a of Granted s early \<Rightarrow> if early = [] then of_dead w else insert (se_id s) (of_dead w) | _ \<Rightarrow> of_dead w)\<rparr>"

lemma take_office_history:
  assumes "office_history es w" "asks_lock (of_election w)" "of_asking w = 0" "se_id s \<notin> of_granted w"
  shows "office_history (es @ [Try_acquire, Lock_answers (Granted s early)]) (take_office (Granted s early) w)"
proof -
  let ?w1 = "w\<lparr>of_asking := of_asking w + 1\<rparr>"
  have "office_step ?w1 (Lock_answers (Granted s early)) (take_office (Granted s early) w)"
    using granted [of ?w1 0 s early] assms(3,4) by (cases early) (simp_all add: take_office_def)
  then have "office_history ((es @ [Try_acquire]) @ [Lock_answers (Granted s early)]) (take_office (Granted s early) w)"
    by (rule history_next [OF history_next [OF assms(1) try_asks [OF assms(2)]]])
  then show ?thesis by simp
qed

lemma first_take: "office_history [Try_acquire, Lock_answers (Granted s early)] (take_office (Granted s early) first_office)"
  using take_office_history [OF history_first, of s early]
  by (simp add: first_office_def fresh_election_def asks_lock_def in_office_def)

text \<open>A session lost before its callback is attached: the loss is replayed into the election, and then
  overwritten by the rest of \<open>tryAcquire\<close>, so a dead session counts as office.\<close>

lemma early_loss_forgotten:
  "\<exists>es w s. office_history es w \<and> el_session (of_election w) = Some s \<and> se_id s \<in> of_dead w
    \<and> assertElected (of_election w) = Inr (se_token s)"
  by (intro exI [of _ "sample_session 1"] exI conjI, rule first_take [of "sample_session 1" "[(Loss_error, ''gone'')]"])
    (simp_all add: take_office_def acquired_def first_office_def sample_session_def assertElected_def state_def in_office_def Let_def)

text \<open>A session reports its error, the instance takes office again, and only then the old session reports
  its end: the new session, of whose loss nobody has heard, no longer counts.\<close>

definition replaced_office :: office where
  "replaced_office = take_office (Granted (sample_session 2) [])
     ((take_office (Granted (sample_session 1) []) first_office)
       \<lparr>of_election := on_lost Loss_error ''error'' (of_election (take_office (Granted (sample_session 1) []) first_office)),
        of_dead := {1}\<rparr>)"

lemma late_end_unseats:
  "\<exists>es w s. office_history es w \<and> el_session (of_election w) = Some s \<and> se_id s \<in> of_granted w - of_dead w
    \<and> \<not> le_isLeader (state (of_election w))"
proof -
  let ?w1 = "take_office (Granted (sample_session 1) []) first_office"
  let ?w2 = "?w1\<lparr>of_election := on_lost Loss_error ''error'' (of_election ?w1), of_dead := {1}\<rparr>"
  let ?w3 = "replaced_office\<lparr>of_election := on_lost Loss_end ''end'' (of_election replaced_office), of_dead := {1}\<rparr>"
  have "office_step ?w1 (Session_loss 1 Loss_error ''error'') ?w2"
    using loss [of 1 ?w1 Loss_error "''error''"] by (simp add: take_office_def first_office_def sample_session_def)
  from history_next [OF first_take this]
  have "office_history (([Try_acquire, Lock_answers (Granted (sample_session 1) [])] @ [Session_loss 1 Loss_error ''error'']) @
      [Try_acquire, Lock_answers (Granted (sample_session 2) [])]) replaced_office"
    unfolding replaced_office_def
    by (rule take_office_history) (simp_all add: take_office_def first_office_def sample_session_def asks_lock_def in_office_def on_lost_def)
  moreover have "office_step replaced_office (Session_loss 1 Loss_end ''end'') ?w3"
    using loss [of 1 replaced_office Loss_end "''end''"]
    by (simp add: replaced_office_def take_office_def first_office_def sample_session_def)
  ultimately have h: "office_history ((([Try_acquire, Lock_answers (Granted (sample_session 1) [])] @ [Session_loss 1 Loss_error ''error'']) @
      [Try_acquire, Lock_answers (Granted (sample_session 2) [])]) @ [Session_loss 1 Loss_end ''end'']) ?w3"
    by (rule history_next)
  show ?thesis
    by (intro exI [of _ "sample_session 2"] exI conjI, rule h)
      (simp_all add: replaced_office_def take_office_def acquired_def first_office_def sample_session_def state_def
        in_office_def on_lost_def Let_def)
qed

text \<open>C40: Two orders of events deceive an instance: a session lost before its callback is attached counts as
  office all the same, and the late end of a session already replaced unseats the one that replaced it,
  of which no loss was reported.\<close>

theorem leader_election_errs:
  "(\<exists>es w s. office_history es w \<and> el_session (of_election w) = Some s \<and> se_id s \<in> of_dead w
     \<and> assertElected (of_election w) = Inr (se_token s))
   \<and> (\<exists>es w s. office_history es w \<and> el_session (of_election w) = Some s \<and> se_id s \<in> of_granted w - of_dead w
     \<and> \<not> le_isLeader (state (of_election w)))"
  by (rule conjI [OF early_loss_forgotten late_end_unseats])

lemma leader_session_alive_witness:
  "office_history [Try_acquire, Lock_answers (Granted (sample_session 1) [])] (take_office (Granted (sample_session 1) []) first_office)
    \<and> (\<exists>s :: leader_session. se_token s = show_nat 1 \<and> se_id s \<in> of_granted (take_office (Granted (sample_session 1) []) first_office))"
proof -
  have h: "office_history [Try_acquire, Lock_answers (Granted (sample_session 1) [])] (take_office (Granted (sample_session 1) []) first_office)"
    by (rule first_take)
  have "assertElected (of_election (take_office (Granted (sample_session 1) []) first_office)) = Inr (show_nat 1)"
    by (simp add: take_office_def acquired_def first_office_def sample_session_def assertElected_def state_def in_office_def Let_def)
  from leader_session_alive [OF h _ this] obtain t :: leader_session where "se_token t = show_nat 1"
      "se_id t \<in> of_granted (take_office (Granted (sample_session 1) []) first_office)"
    by (auto simp: lost_early_def)
  then show ?thesis using h by blast
qed

end
