(* ===== verification/Conf_Ast.thy ===== *)
theory Conf_Ast
  imports Prelude
begin

text \<open>
  The configuration tree, \<^verbatim>\<open>src/src/conf/ast.ts\<close>: values and nodes as the renderer builds them, the
  checks of their constructors, and the one place where they become text.

  The theorem at the end is why the renderer has no other way to write text: reading the text of
  a tree back by the quoting rules of the engine gives the same directives with the same
  arguments, so no value, whatever the user wrote, opens or ends a directive.
\<close>

section \<open>Values and nodes\<close>

text \<open>The numbers of a configuration are ports, counts and status codes; the other JavaScript
  numbers are the ones \<open>num\<close> refuses.\<close>

datatype js_number = Whole int | Not_finite

datatype conf_value =
    Literal string
  | Number js_number
  | Variable string
  | Regex string

datatype conf_node =
    Directive string "conf_value list"
  | Block string "conf_value list" "conf_node list"
  | Entry conf_value conf_value
  | Lua string string

datatype conf_error = Control_character | Infinite_number | Bad_variable | Bad_regex | Bad_name | Unbalanced_lua

definition is_name_start :: "char \<Rightarrow> bool" where
  "is_name_start c \<longleftrightarrow> is_upper c \<or> is_lower c \<or> c = CHR ''_''"

definition NAME :: "string \<Rightarrow> bool" where
  "NAME s \<longleftrightarrow> s \<noteq> [] \<and> is_name_start (hd s) \<and> list_all (\<lambda>c. is_name_start c \<or> is_digit c) (tl s)"

definition CONTROL :: "string \<Rightarrow> bool" where
  "CONTROL s = list_ex (\<lambda>c. cu c < 32 \<or> cu c = 127) s"

text \<open>The white space of \<open>\s\<close> and of \<open>trim\<close>, among the code units of the model.\<close>

definition js_space :: "char \<Rightarrow> bool" where
  "js_space c \<longleftrightarrow> (9 \<le> cu c \<and> cu c \<le> 13) \<or> cu c = 32 \<or> cu c = 160"

definition punctuation :: "char \<Rightarrow> bool" where
  "punctuation c \<longleftrightarrow> c \<in> {CHR '';'', CHR ''{'', CHR ''}'', CHR 0x22, CHR 0x27, CHR ''#''}"

abbreviation backslash :: char where
  "backslash \<equiv> CHR 0x5C"

definition NEEDS_QUOTE :: "string \<Rightarrow> bool" where
  "NEEDS_QUOTE s = list_ex (\<lambda>c. js_space c \<or> punctuation c \<or> c = backslash) s"

section \<open>Constructors\<close>

definition lit :: "string \<Rightarrow> conf_error + conf_value" where
  "lit t = (if CONTROL t then Inl Control_character else Inr (Literal t))"

definition num :: "js_number \<Rightarrow> conf_error + conf_value" where
  "num n = (if n = Not_finite then Inl Infinite_number else Inr (Number n))"

definition variable :: "string \<Rightarrow> conf_error + conf_value" where
  "variable n = (if \<not> NAME n then Inl Bad_variable else Inr (Variable n))"

definition trailing_backslashes :: "string \<Rightarrow> nat" where
  "trailing_backslashes p = length (takeWhile (\<lambda>c. c = backslash) (rev p))"

definition regex :: "string \<Rightarrow> conf_error + conf_value" where
  "regex p =
     (if CONTROL p \<or> list_ex (\<lambda>c. js_space c \<or> punctuation c) p then Inl Bad_regex
      else if odd (trailing_backslashes p) then Inl Bad_regex
      else Inr (Regex p))"

definition directive :: "string \<Rightarrow> conf_value list \<Rightarrow> conf_error + conf_node" where
  "directive name args = (if \<not> NAME name then Inl Bad_name else Inr (Directive name args))"

definition block :: "string \<Rightarrow> conf_value list \<Rightarrow> conf_node list \<Rightarrow> conf_error + conf_node" where
  "block name args children = (if \<not> NAME name then Inl Bad_name else Inr (Block name args children))"

definition entry :: "conf_value \<Rightarrow> conf_value \<Rightarrow> conf_node" where
  "entry k v = Entry k v"

text \<open>The depth of the braces of a body, the scan stopping below zero.\<close>

fun brace_depth :: "int \<Rightarrow> string \<Rightarrow> int" where
  "brace_depth d [] = d"
| "brace_depth d (c # cs) =
     (let d' = (if c = CHR ''{'' then d + 1 else if c = CHR ''}'' then d - 1 else d) in
      if d' < 0 then d' else brace_depth d' cs)"

definition lua :: "string \<Rightarrow> string \<Rightarrow> conf_error + conf_node" where
  "lua name body =
     (if \<not> NAME name then Inl Bad_name
      else if brace_depth 0 body \<noteq> 0 then Inl Unbalanced_lua
      else Inr (Lua name body))"

section \<open>Text\<close>

definition show_int :: "int \<Rightarrow> string" where
  "show_int i = (if i < 0 then CHR ''-'' # show_nat (nat (- i)) else show_nat (nat i))"

definition show_number :: "js_number \<Rightarrow> string" where
  "show_number n = (case n of Whole i \<Rightarrow> show_int i | Not_finite \<Rightarrow> ''Infinity'')"

definition replace_all :: "char \<Rightarrow> string \<Rightarrow> string \<Rightarrow> string" where
  "replace_all c w s = concat (map (\<lambda>x. if x = c then w else [x]) s)"

definition renderValue :: "conf_value \<Rightarrow> string" where
  "renderValue v = (case v of
       Number n \<Rightarrow> show_number n
     | Variable n \<Rightarrow> CHR ''$'' # n
     | Regex p \<Rightarrow> p
     | Literal t \<Rightarrow>
         (if t \<noteq> [] \<and> \<not> NEEDS_QUOTE t then t
          else [CHR 0x22] @ replace_all (CHR 0x22) [backslash, CHR 0x22]
                 (replace_all backslash [backslash, backslash] t) @ [CHR 0x22]))"

definition newline :: string where
  "newline = [CHR 0x0A]"

definition indent :: "nat \<Rightarrow> string" where
  "indent d = concat (replicate d ''    '')"

text \<open>The lines of a Lua body, without the blank ends and the indentation they share.\<close>

definition blank :: "string \<Rightarrow> bool" where
  "blank l = list_all js_space l"

definition lua_lines :: "string \<Rightarrow> string list" where
  "lua_lines body = split_on (CHR 0x0A)
     (rev (dropWhile js_space (rev (dropWhile (\<lambda>c. c = CHR 0x0A) body))))"

definition lua_strip :: "string list \<Rightarrow> nat" where
  "lua_strip ls = (case map (\<lambda>l. length (takeWhile js_space l)) (filter (\<lambda>l. \<not> blank l) ls) of
       [] \<Rightarrow> 0
     | n # ns \<Rightarrow> foldl min n ns)"

fun serialize :: "conf_node list \<Rightarrow> nat \<Rightarrow> string" where
  "serialize [] depth = []"
| "serialize (Entry k v # rest) depth =
     indent depth @ renderValue k @ '' '' @ renderValue v @ '';'' @ newline @ serialize rest depth"
| "serialize (Lua name body # rest) depth =
     (let ls = lua_lines body in
      indent depth @ name @ '' {'' @ newline @
      concat (map (\<lambda>l. if blank l then newline else indent depth @ ''    '' @ drop (lua_strip ls) l @ newline) ls) @
      indent depth @ ''}'' @ newline @ serialize rest depth)"
| "serialize (Directive name args # rest) depth =
     indent depth @ join_with '' '' (name # map renderValue args) @ '';'' @ newline @ serialize rest depth"
| "serialize (Block name args children # rest) depth =
     indent depth @ join_with '' '' (name # map renderValue args) @ '' {'' @ newline @
     serialize children (depth + 1) @ indent depth @ ''}'' @ newline @ serialize rest depth"

section \<open>What the constructors build\<close>

definition built_value :: "conf_value \<Rightarrow> bool" where
  "built_value v = (case v of
       Literal t \<Rightarrow> lit t = Inr v
     | Number n \<Rightarrow> num n = Inr v
     | Variable n \<Rightarrow> variable n = Inr v
     | Regex p \<Rightarrow> p \<noteq> [] \<and> regex p = Inr v)"

fun built :: "conf_node \<Rightarrow> bool" where
  "built (Directive name args) \<longleftrightarrow> NAME name \<and> list_all built_value args"
| "built (Block name args children) \<longleftrightarrow> NAME name \<and> list_all built_value args \<and> list_all built children"
| "built (Entry k v) \<longleftrightarrow> built_value k \<and> built_value v"
| "built (Lua name body) \<longleftrightarrow> False"

section \<open>The reader\<close>

text \<open>A reader of configuration text by the quoting rules: words end at white space, a semicolon or an
  opening brace, a backslash keeps the next character in the word, quotes end at the next quote
  that is not escaped, and a quoted word must be followed by an end.\<close>

datatype token = Bare string | Quoted string | Semi | Opening | Closing

datatype mode = Between | In_bare string | In_bare_escape string | In_quote string | In_quote_escape string | After_quote

definition conf_space :: "char \<Rightarrow> bool" where
  "conf_space c \<longleftrightarrow> c \<in> {CHR '' '', CHR 0x09, CHR 0x0A, CHR 0x0D}"

fun lex :: "mode \<Rightarrow> string \<Rightarrow> token list option" where
  "lex Between [] = Some []"
| "lex _ [] = None"
| "lex Between (c # cs) =
     (if conf_space c then lex Between cs
      else if c = CHR '';'' then map_option ((#) Semi) (lex Between cs)
      else if c = CHR ''{'' then map_option ((#) Opening) (lex Between cs)
      else if c = CHR ''}'' then map_option ((#) Closing) (lex Between cs)
      else if c = CHR 0x22 then lex (In_quote []) cs
      else if c = CHR 0x27 \<or> c = CHR ''#'' then None
      else if c = backslash then lex (In_bare_escape [c]) cs
      else lex (In_bare [c]) cs)"
| "lex (In_bare w) (c # cs) =
     (if conf_space c then map_option ((#) (Bare w)) (lex Between cs)
      else if c = CHR '';'' then map_option (\<lambda>ts. Bare w # Semi # ts) (lex Between cs)
      else if c = CHR ''{'' then map_option (\<lambda>ts. Bare w # Opening # ts) (lex Between cs)
      else if c = backslash then lex (In_bare_escape (w @ [c])) cs
      else lex (In_bare (w @ [c])) cs)"
| "lex (In_bare_escape w) (c # cs) = lex (In_bare (w @ [c])) cs"
| "lex (In_quote w) (c # cs) =
     (if c = CHR 0x22 then map_option ((#) (Quoted w)) (lex After_quote cs)
      else if c = backslash then lex (In_quote_escape w) cs
      else lex (In_quote (w @ [c])) cs)"
| "lex (In_quote_escape w) (c # cs) = lex (In_quote (w @ [c])) cs"
| "lex After_quote (c # cs) =
     (if conf_space c then lex Between cs
      else if c = CHR '';'' then map_option ((#) Semi) (lex Between cs)
      else if c = CHR ''{'' then map_option ((#) Opening) (lex Between cs)
      else None)"

datatype conf_tree = Simple "token list" | Nested "token list" "conf_tree list"

fun parse :: "token list \<Rightarrow> token list \<Rightarrow> conf_tree list \<Rightarrow> (token list \<times> conf_tree list) list \<Rightarrow> conf_tree list option" where
  "parse [] ws acc stack = (if ws = [] \<and> stack = [] then Some acc else None)"
| "parse (Semi # ts) ws acc stack = (if ws = [] then None else parse ts [] (acc @ [Simple ws]) stack)"
| "parse (Opening # ts) ws acc stack = (if ws = [] then None else parse ts [] [] ((ws, acc) # stack))"
| "parse (Closing # ts) ws acc stack =
     (case stack of
        [] \<Rightarrow> None
      | (ws', acc') # stack' \<Rightarrow> if ws = [] then parse ts [] (acc' @ [Nested ws' acc]) stack' else None)"
| "parse (w # ts) ws acc stack = parse ts (ws @ [w]) acc stack"

definition read_conf :: "string \<Rightarrow> conf_tree list option" where
  "read_conf s = Option.bind (lex Between s) (\<lambda>ts. parse ts [] [] [])"

text \<open>What a node means: its words, a literal that was quoted being read back unquoted.\<close>

definition value_word :: "conf_value \<Rightarrow> token" where
  "value_word v = (case v of
       Literal t \<Rightarrow> (if t \<noteq> [] \<and> \<not> NEEDS_QUOTE t then Bare t else Quoted t)
     | Number n \<Rightarrow> Bare (show_number n)
     | Variable n \<Rightarrow> Bare (CHR ''$'' # n)
     | Regex p \<Rightarrow> Bare p)"

fun node_tree :: "conf_node \<Rightarrow> conf_tree" where
  "node_tree (Directive name args) = Simple (Bare name # map value_word args)"
| "node_tree (Block name args children) = Nested (Bare name # map value_word args) (map node_tree children)"
| "node_tree (Entry k v) = Simple [value_word k, value_word v]"
| "node_tree (Lua name body) = Nested [Bare name] []"

section \<open>Words survive\<close>

lemma char_neqs:
  assumes "\<not> js_space c" "\<not> punctuation c"
  shows "\<not> conf_space c" "c \<noteq> CHR '';''" "c \<noteq> CHR ''{''" "c \<noteq> CHR ''}''" "c \<noteq> CHR 0x22" "c \<noteq> CHR 0x27" "c \<noteq> CHR ''#''"
proof -
  show "\<not> conf_space c" using assms(1) by (auto simp: conf_space_def js_space_def)
qed (use assms(2) in \<open>auto simp: punctuation_def\<close>)

lemma lex_ends [simp]:
  "lex Between (CHR '' '' # r) = lex Between r"
  "lex Between (CHR 0x0A # r) = lex Between r"
  "lex Between (CHR '';'' # r) = map_option ((#) Semi) (lex Between r)"
  "lex Between (CHR ''{'' # r) = map_option ((#) Opening) (lex Between r)"
  "lex Between (CHR ''}'' # r) = map_option ((#) Closing) (lex Between r)"
  by (simp_all add: conf_space_def)

lemma conf_space_simps [simp]: "conf_space CHR '' ''" "\<not> conf_space CHR '';''" "\<not> conf_space backslash"
  by (simp_all add: conf_space_def)

definition word_chars :: "string \<Rightarrow> bool" where
  "word_chars t = list_all (\<lambda>c. \<not> js_space c \<and> \<not> punctuation c) t"

lemma lex_bare_chars:
  assumes "word_chars p"
  shows "lex (In_bare w) (p @ r) =
    lex (if odd (trailing_backslashes p) then In_bare_escape (w @ p) else In_bare (w @ p)) r"
  using assms
proof (induction p arbitrary: r rule: rev_induct)
  case (snoc c p)
  have p: "word_chars p" and c: "\<not> js_space c" "\<not> punctuation c" using snoc.prems by (auto simp: word_chars_def)
  have t: "trailing_backslashes (p @ [c]) = (if c = backslash then Suc (trailing_backslashes p) else 0)"
    by (simp add: trailing_backslashes_def)
  show ?case using snoc.IH [OF p, of "c # r"] by (simp add: t char_neqs [OF c])
qed (simp add: trailing_backslashes_def)

lemma lex_start:
  assumes "word_chars p" "p \<noteq> []"
  shows "lex Between (p @ r) = lex (In_bare []) (p @ r)"
  using assms by (cases p) (auto simp: word_chars_def char_neqs)

lemma lex_bare_word:
  assumes "word_chars p" "p \<noteq> []" "even (trailing_backslashes p)" "e = CHR '' '' \<or> e = CHR '';''"
  shows "lex Between (p @ e # r) = map_option ((#) (Bare p)) (lex Between (e # r))"
proof -
  have "lex Between (p @ e # r) = lex (In_bare p) (e # r)"
    using lex_start [OF assms(1,2)] lex_bare_chars [OF assms(1), of "[]" "e # r"] assms(3) by simp
  also have "\<dots> = map_option ((#) (Bare p)) (lex Between (e # r))"
    using assms(4) by (elim disjE) (simp_all add: option.map_comp comp_def)
  finally show ?thesis .
qed

definition escaped :: "string \<Rightarrow> string" where
  "escaped t = replace_all (CHR 0x22) [backslash, CHR 0x22] (replace_all backslash [backslash, backslash] t)"

lemma escaped_simps [simp]:
  "escaped [] = []"
  "escaped (c # t) = (if c = backslash then [backslash, backslash] else if c = CHR 0x22 then [backslash, CHR 0x22]
     else [c]) @ escaped t"
  by (auto simp: escaped_def replace_all_def)

lemma lex_quoted_chars: "lex (In_quote w) (escaped t @ r) = lex (In_quote (w @ t)) r"
  by (induction t arbitrary: w) auto

lemma lex_quoted_word:
  assumes "e = CHR '' '' \<or> e = CHR '';''"
  shows "lex Between (CHR 0x22 # escaped t @ CHR 0x22 # e # r) = map_option ((#) (Quoted t)) (lex Between (e # r))"
  using assms by (auto simp: lex_quoted_chars conf_space_def)

lemma no_backslash_even: "list_all (\<lambda>c. c \<noteq> backslash) p \<Longrightarrow> trailing_backslashes p = 0"
  by (cases p rule: rev_cases) (auto simp: trailing_backslashes_def)

lemma plain_char:
  assumes "is_alnum c \<or> c = CHR ''_'' \<or> c = CHR ''-''"
  shows "\<not> js_space c" "\<not> punctuation c" "c \<noteq> backslash" "32 \<le> cu c" "cu c \<noteq> 127"
proof -
  show "\<not> js_space c" using assms by (auto simp: js_space_def char_class_defs)
  show "\<not> punctuation c" using assms by (auto simp: punctuation_def char_class_defs)
  show "c \<noteq> backslash" "32 \<le> cu c" "cu c \<noteq> 127" using assms by (auto simp: char_class_defs)
qed

lemma name_chars:
  assumes "NAME n"
  shows "word_chars n" "list_all (\<lambda>c. c \<noteq> backslash) n" "n \<noteq> []" "\<not> CONTROL n" "\<not> NEEDS_QUOTE n"
proof -
  have "is_alnum c \<or> c = CHR ''_'' \<or> c = CHR ''-''" if "c \<in> set n" for c
    using assms that by (cases n) (auto simp: NAME_def list_all_iff is_name_start_def is_alnum_def)
  note plain = plain_char [OF this]
  show "word_chars n" using plain(1,2) by (simp add: word_chars_def list_all_iff)
  show "list_all (\<lambda>c. c \<noteq> backslash) n" using plain(3) by (simp add: list_all_iff)
  show "\<not> CONTROL n" using plain(4,5) by (auto simp: CONTROL_def list_ex_iff) fastforce
  show "\<not> NEEDS_QUOTE n" using plain(1-3) by (auto simp: NEEDS_QUOTE_def list_ex_iff)
  show "n \<noteq> []" using assms by (simp add: NAME_def)
qed

lemma number_chars: "word_chars (show_int i)" "list_all (\<lambda>c. c \<noteq> backslash) (show_int i)" "show_int i \<noteq> []"
proof -
  have "is_alnum c \<or> c = CHR ''_'' \<or> c = CHR ''-''" if "c \<in> set (show_int i)" for c
    using that show_nat_digits [unfolded list_all_iff]
    by (auto simp: show_int_def is_alnum_def split: if_splits)
  note plain = plain_char [OF this]
  show "word_chars (show_int i)" using plain(1,2) by (simp add: word_chars_def list_all_iff)
  show "list_all (\<lambda>c. c \<noteq> backslash) (show_int i)" using plain(3) by (simp add: list_all_iff)
  show "show_int i \<noteq> []" by (simp add: show_int_def)
qed

lemma lex_value:
  assumes "built_value v" "e = CHR '' '' \<or> e = CHR '';''"
  shows "lex Between (renderValue v @ e # r) = map_option ((#) (value_word v)) (lex Between (e # r))"
proof (cases v)
  case (Literal t)
  show ?thesis
  proof (cases "t \<noteq> [] \<and> \<not> NEEDS_QUOTE t")
    case True
    then have "word_chars t" "trailing_backslashes t = 0"
      by (auto simp: NEEDS_QUOTE_def word_chars_def list_ex_iff list_all_iff no_backslash_even)
    then show ?thesis using True Literal assms(2) lex_bare_word [of t e r]
      by (simp add: renderValue_def value_word_def)
  next
    case False
    then have "renderValue v = [CHR 0x22] @ escaped t @ [CHR 0x22]" "value_word v = Quoted t"
      using Literal by (auto simp: renderValue_def value_word_def escaped_def)
    then show ?thesis using lex_quoted_word [OF assms(2), of t r] by simp
  qed
next
  case (Number n)
  then obtain i where "n = Whole i" using assms(1) by (cases n) (auto simp: built_value_def num_def)
  then show ?thesis using Number number_chars [of i] lex_bare_word [of "show_int i" e r] assms(2)
    by (simp add: renderValue_def value_word_def show_number_def no_backslash_even)
next
  case (Variable n)
  then have "NAME n" using assms(1) by (auto simp: built_value_def variable_def split: if_splits)
  then have "word_chars (CHR ''$'' # n)" "list_all (\<lambda>c. c \<noteq> backslash) (CHR ''$'' # n)"
    using name_chars [of n] by (auto simp: word_chars_def js_space_def punctuation_def)
  then show ?thesis using Variable lex_bare_word [of "CHR ''$'' # n" e r] assms(2)
    by (simp add: renderValue_def value_word_def no_backslash_even)
next
  case (Regex p)
  then have "word_chars p" "p \<noteq> []" "even (trailing_backslashes p)"
    using assms(1) by (auto simp: built_value_def regex_def word_chars_def list_all_iff list_ex_iff split: if_splits)
  then show ?thesis using Regex lex_bare_word [of p e r] assms(2)
    by (simp add: renderValue_def value_word_def)
qed

lemma lex_values:
  assumes "vs \<noteq> []" "list_all built_value vs" "e = CHR '' '' \<or> e = CHR '';''"
  shows "lex Between (join_with '' '' (map renderValue vs) @ e # r) =
    map_option ((@) (map value_word vs)) (lex Between (e # r))"
  using assms
proof (induction vs rule: induct_list012)
  case (2 v)
  have "(#) (value_word v) = (@) (map value_word [v])" by auto
  then show ?case using lex_value [of v e r] 2 by simp
next
  case (3 v w vs)
  then have "lex Between (renderValue v @ CHR '' '' # join_with '' '' (map renderValue (w # vs)) @ e # r) =
      map_option ((#) (value_word v)) (lex Between (join_with '' '' (map renderValue (w # vs)) @ e # r))"
    using lex_value [of v "CHR '' ''" "join_with '' '' (map renderValue (w # vs)) @ e # r"] by simp
  then show ?case using 3 by (simp add: option.map_comp comp_def)
qed simp

section \<open>Trees survive\<close>

fun node_tokens :: "conf_node \<Rightarrow> token list" where
  "node_tokens (Directive name args) = Bare name # map value_word args @ [Semi]"
| "node_tokens (Block name args children) =
     Bare name # map value_word args @ Opening # concat (map node_tokens children) @ [Closing]"
| "node_tokens (Entry k v) = [value_word k, value_word v, Semi]"
| "node_tokens (Lua name body) = [Bare name, Opening, Closing]"

lemma lex_indent [simp]: "lex Between (indent d @ r) = lex Between r"
  by (induction d) (simp_all add: indent_def conf_space_def)

lemma lex_newline [simp]: "lex Between (newline @ r) = lex Between r"
  by (simp add: newline_def conf_space_def)

lemma built_name: "NAME name \<Longrightarrow> built_value (Literal name)"
  "NAME name \<Longrightarrow> renderValue (Literal name) = name" "NAME name \<Longrightarrow> value_word (Literal name) = Bare name"
  by (simp_all add: built_value_def lit_def renderValue_def value_word_def name_chars)

lemma lex_head:
  assumes "NAME name" "list_all built_value args" "e = CHR '' '' \<or> e = CHR '';''"
  shows "lex Between (join_with '' '' (name # map renderValue args) @ e # r) =
    map_option ((@) (Bare name # map value_word args)) (lex Between (e # r))"
  using lex_values [of "Literal name # args" e r] assms built_name [of name] by simp

lemma lex_serialize:
  assumes "list_all built nodes"
  shows "lex Between (serialize nodes d @ r) = map_option ((@) (concat (map node_tokens nodes))) (lex Between r)"
  using assms
proof (induction nodes d arbitrary: r rule: serialize.induct)
  case (1 depth)
  then show ?case by (simp add: option.map_id0 id_def [symmetric])
next
  case (2 k v rest depth)
  then show ?case using lex_values [of "[k, v]" "CHR '';''"] by (simp add: option.map_comp comp_def)
next
  case (4 name args rest depth)
  then show ?case using lex_head [of name args "CHR '';''"] by (simp add: option.map_comp comp_def)
next
  case (5 name args children depth rest)
  then show ?case using lex_head [of name args "CHR '' ''"]
    by (simp add: option.map_comp comp_def conf_space_def)
qed simp

lemma parse_words: "parse (map value_word vs @ ts) ws acc stack = parse ts (ws @ map value_word vs) acc stack"
proof (induction vs arbitrary: ws)
  case (Cons v vs)
  have "\<exists>w. value_word v = Bare w \<or> value_word v = Quoted w"
    by (cases v) (auto simp: value_word_def)
  then show ?case using Cons by auto
qed simp

lemma parse_node: "built n \<Longrightarrow> parse (node_tokens n @ ts) [] acc stack = parse ts [] (acc @ [node_tree n]) stack"
proof (induction n arbitrary: ts acc stack)
  case (Directive name args)
  then show ?case using parse_words [of args "Semi # ts" "[Bare name]"] by simp
next
  case (Block name args children)
  have inner: "parse (concat (map node_tokens cs) @ us) [] a st = parse us [] (a @ map node_tree cs) st"
    if "set cs \<subseteq> set children" for cs us a st
    using that Block by (induction cs arbitrary: a) (auto simp: list_all_iff)
  show ?case
    using parse_words [of args "Opening # concat (map node_tokens children) @ Closing # ts" "[Bare name]"]
      inner [of children "Closing # ts"] by simp
next
  case (Entry k v)
  then show ?case using parse_words [of "[k, v]" "Semi # ts" "[]"] by simp
qed simp

lemma parse_nodes:
  "list_all built ns \<Longrightarrow> parse (concat (map node_tokens ns) @ ts) [] acc stack = parse ts [] (acc @ map node_tree ns) stack"
  by (induction ns arbitrary: acc) (simp_all add: parse_node)

text \<open>Serialised configuration reads back as the tree it was made from: whatever texts the values hold,
  every directive keeps its name and its arguments, and every block its children.\<close>
theorem conf_reads_back:
  assumes "list_all built nodes"
  shows "read_conf (serialize nodes depth) = Some (map node_tree nodes)"
  using lex_serialize [OF assms, of depth "[]"] parse_nodes [OF assms, of "[]" "[]" "[]"]
  by (simp add: read_conf_def)

lemma conf_reads_back_witness:
  "read_conf (serialize [Block ''server'' [] [Directive ''return'' [Number (Whole 301), Literal ''a; } b'']]] 0) =
     Some [Nested [Bare ''server''] [Simple [Bare ''return'', Bare ''301'', Quoted ''a; } b'']]]"
proof -
  have "list_all built [Block ''server'' [] [Directive ''return'' [Number (Whole 301), Literal ''a; } b'']]]"
    by code_simp
  from conf_reads_back [OF this, of 0] show ?thesis
    by (simp add: value_word_def show_number_def show_int_def NEEDS_QUOTE_def punctuation_def js_space_def) code_simp
qed

end
