(* ===== verification/Bind_Transition.thy ===== *)
theory Bind_Transition
  imports Data_Model
begin

text \<open>
  Model of \<^verbatim>\<open>src/src/validate/bind-transition.ts\<close> and \<^verbatim>\<open>src/src/model/redirect.ts\<close>: the
  sockets a set of listeners really opens (the plain redirect sockets of https listeners
  included, one wildcard socket standing for every specific address of its port), and the
  binds of a reload that the kernel would refuse.

  The lemmas show that the opened sockets are exactly the enabled TCP binds less those a
  wildcard absorbs, that they never overlap, and that the list of conflicts is empty exactly
  when a reload under the kernel's rule goes through.
\<close>

section \<open>Listeners and their redirect sockets\<close>

definition redirectKeyOf :: "string \<Rightarrow> string" where
  "redirectKeyOf listenerKey = listenerKey @ '':http''"

definition redirectListenerOf :: "listener \<Rightarrow> listener option" where
  "redirectListenerOf l =
     (if l_protocol l \<noteq> L_https then None
      else (case l_httpRedirect l of
          None \<Rightarrow> None
        | Some port \<Rightarrow> Some \<lparr>
            l_key = redirectKeyOf (l_key l), l_protocol = L_http, l_bind = l_bind l,
            l_port = port, l_enabled = l_enabled l, l_sourceAllow = l_sourceAllow l,
            l_defaultPool = None, l_acceptProxyProtocol = None, l_realIpFromHeader = None, l_udp = None,
            l_http = Some \<lparr>hp_defaultAction = Some Reject, hp_limits = None, hp_headers = None,
              hp_rateLimit = None, hp_strictPriority = None\<rparr>,
            l_onUnmatchedSni = None, l_onNoSni = None, l_prereadTimeoutS = None, l_tls = None,
            l_http2 = None, l_hosts = l_hosts l, l_httpRedirect = None\<rparr>))"

definition withRedirectListeners :: "listener list \<Rightarrow> listener list" where
  "withRedirectListeners listeners = listeners @ List.map_filter redirectListenerOf listeners"

section \<open>Bound sockets\<close>

record bound =
  bo_family :: family
  bo_addr :: string
  bo_wildcard :: bool
  bo_port :: nat

definition socketName :: "bound \<Rightarrow> string" where
  "socketName b = ''tcp://''
     @ (if bo_family b = V6 then ''['' @ bo_addr b @ '']'' else bo_addr b)
     @ '':'' @ show_nat (bo_port b)"

text \<open>The two \<open>continue\<close> guards of the loop and the socket they let through.\<close>

definition active_bound :: "listener \<Rightarrow> bound option" where
  "active_bound l =
     (if \<not> l_enabled l \<or> transportOf (l_protocol l) \<noteq> Tcp then None
      else (case normalizeBind (l_bind l) of
          Inl _ \<Rightarrow> None
        | Inr n \<Rightarrow> Some \<lparr>bo_family = ba_family n, bo_addr = ba_addr n,
            bo_wildcard = ba_wildcard n, bo_port = l_port l\<rparr>))"

type_synonym groups = "(family \<times> nat, bound list) dict"

definition add_bound :: "groups \<Rightarrow> listener \<Rightarrow> groups" where
  "add_bound groups l =
     (case active_bound l of
        None \<Rightarrow> groups
      | Some b \<Rightarrow>
          (let g = (bo_family b, bo_port b);
               list = (case dget groups g of Some x \<Rightarrow> x | None \<Rightarrow> []);
               list' = (if list_ex (\<lambda>x. bo_addr x = bo_addr b) list then list else list @ [b])
           in dset g list' groups))"

definition opened :: "bound list \<Rightarrow> bound list" where
  "opened list = (case find bo_wildcard list of None \<Rightarrow> list | Some wild \<Rightarrow> [wild])"

text \<open>
  \<open>localeCompare\<close> on canonical addresses: the root collation sorts the colon before the full
  stop, both before the digits, and the digits before the letters a to f.
\<close>

definition collation_rank :: "char \<Rightarrow> nat" where
  "collation_rank c = (if c = CHR '':'' then 0 else if c = CHR ''.'' then 1 else 2 + cu c)"

definition bound_order :: "bound \<Rightarrow> nat \<times> nat list" where
  "bound_order b = (bo_port b, map collation_rank (bo_addr b))"

definition boundTcpSockets :: "listener list \<Rightarrow> bound list" where
  "boundTcpSockets listeners =
     (let groups = foldl add_bound [] (withRedirectListeners listeners)
      in sort_key bound_order (concat (map (opened \<circ> snd) groups)))"

section \<open>Conflicts of a reload\<close>

record bind_transition_conflict =
  bc_opens :: string
  bc_blockedBy :: "string list"

definition blockers_of :: "bound list \<Rightarrow> bound \<Rightarrow> bound list" where
  "blockers_of opn n =
     filter (\<lambda>x. bo_family x = bo_family n \<and> bo_port x = bo_port n
       \<and> (bo_wildcard x \<or> bo_wildcard n)) opn"

definition bindTransitionConflicts ::
    "listener list \<Rightarrow> listener list \<Rightarrow> bind_transition_conflict list" where
  "bindTransitionConflicts before after =
     (let opn = boundTcpSockets before;
          openNames = map socketName opn
      in List.map_filter (\<lambda>n.
           (let name = socketName n; blockers = blockers_of opn n in
            if name \<in> set openNames then None
            else if blockers = [] then None
            else Some \<lparr>bc_opens = name, bc_blockedBy = map socketName blockers\<rparr>))
         (boundTcpSockets after))"

section \<open>Which sockets are opened\<close>

definition bound_wf :: "bound \<Rightarrow> bool" where
  "bound_wf b \<longleftrightarrow> (\<exists>s x. normalizeBind s = Inr x \<and> bo_family b = ba_family x
     \<and> bo_addr b = ba_addr x \<and> bo_wildcard b = ba_wildcard x)"

definition same_group :: "bound \<Rightarrow> bound \<Rightarrow> bool" where
  "same_group a b \<longleftrightarrow> bo_family a = bo_family b \<and> bo_port a = bo_port b"

lemma active_bound_wf: "active_bound l = Some b \<Longrightarrow> bound_wf b"
  by (auto simp: active_bound_def bound_wf_def split: if_splits sum.splits) blast

lemma normalizeBind_wildcard:
  "normalizeBind s = Inr x \<Longrightarrow>
     ba_wildcard x = (ba_addr x = (if ba_family x = V4 then ''0.0.0.0'' else ''::''))"
  by (auto simp: normalizeBind_def Let_def split: if_splits option.splits)

lemma bound_wf_eq:
  assumes "bound_wf a" "bound_wf b" "same_group a b" "bo_addr a = bo_addr b"
  shows "a = b"
proof -
  have "bo_wildcard a = bo_wildcard b"
    using assms normalizeBind_wildcard unfolding bound_wf_def same_group_def by metis
  with assms show ?thesis by (simp add: same_group_def)
qed

lemma bound_wf_V4: "bound_wf b \<Longrightarrow> bo_family b = V4 \<Longrightarrow> isIPv4 (bo_addr b)"
  using normalizeBind_number unfolding bound_wf_def by metis

definition groups_ok :: "bound set \<Rightarrow> groups \<Rightarrow> bool" where
  "groups_ok A groups \<longleftrightarrow> distinct (dkeys groups) \<and>
     (\<Union> (set ` snd ` set groups)) = A \<and>
     (\<forall>(g, list) \<in> set groups. list \<noteq> [] \<and> distinct list \<and>
        (\<forall>b\<in>set list. (bo_family b, bo_port b) = g))"

lemma groups_okD:
  assumes "groups_ok A groups" "(g, q) \<in> set groups"
  shows "q \<noteq> []" "distinct q" "b \<in> set q \<Longrightarrow> (bo_family b, bo_port b) = g" "b \<in> set q \<Longrightarrow> b \<in> A"
proof -
  have "\<Union> (set ` snd ` set groups) = A" using assms(1) by (simp add: groups_ok_def)
  then show "b \<in> set q \<Longrightarrow> b \<in> A" using assms(2) by force
  have "case (g, q) of (g, list) \<Rightarrow> list \<noteq> [] \<and> distinct list \<and>
        (\<forall>b\<in>set list. (bo_family b, bo_port b) = g)"
    using assms unfolding groups_ok_def by blast
  then show "q \<noteq> []" "distinct q" "b \<in> set q \<Longrightarrow> (bo_family b, bo_port b) = g" by auto
qed

lemma groups_ok_cover:
  assumes "groups_ok A groups" "b \<in> A"
  obtains g q where "(g, q) \<in> set groups" "b \<in> set q"
  using assms unfolding groups_ok_def by force

lemma groups_ok_add:
  assumes ok: "groups_ok (set (List.map_filter active_bound ls)) groups"
  shows "groups_ok (set (List.map_filter active_bound (ls @ [l]))) (add_bound groups l)"
proof (cases "active_bound l")
  case None
  with ok show ?thesis by (simp add: add_bound_def map_filter_simps map_filter_def)
next
  case (Some b)
  let ?g = "(bo_family b, bo_port b)"
  let ?A = "set (List.map_filter active_bound ls)"
  define lst where "lst = (case dget groups ?g of Some x \<Rightarrow> x | None \<Rightarrow> [])"
  define lst' where "lst' = (if list_ex (\<lambda>x. bo_addr x = bo_addr b) lst then lst else lst @ [b])"
  have add: "add_bound groups l = dset ?g lst' groups"
    by (simp add: add_bound_def Some Let_def lst_def lst'_def)
  have dist: "distinct (dkeys groups)" using ok by (simp add: groups_ok_def)
  have mem: "(?g, lst) \<in> set groups \<or> lst = [] \<and> ?g \<notin> set (dkeys groups)"
  proof (cases "dget groups ?g")
    case None
    then have "lst = []" "?g \<notin> set (dkeys groups)" by (simp add: lst_def) (use None in \<open>simp only: dget_None_iff not_False_eq_True\<close>)
    then show ?thesis by simp
  next
    case (Some q)
    then show ?thesis by (simp add: lst_def map_of_SomeD)
  qed
  have lst: "distinct lst" "\<forall>x\<in>set lst. (bo_family x, bo_port x) = ?g" "set lst \<subseteq> ?A"
  proof -
    show "distinct lst" using mem groups_okD(2) [OF ok, of ?g lst] by (elim disjE) simp_all
    show "\<forall>x\<in>set lst. (bo_family x, bo_port x) = ?g"
      using mem groups_okD(3) [OF ok, of ?g lst] by (elim disjE) simp_all
    show "set lst \<subseteq> ?A"
      using mem groups_okD(4) [OF ok, of ?g lst] by (elim disjE) (simp_all add: subset_iff)
  qed
  have wf: "\<forall>x\<in>?A. bound_wf x"
    using active_bound_wf by (auto simp: map_filter_def)
  have eq: "b \<in> set lst" if "x \<in> set lst" "bo_addr x = bo_addr b" for x
  proof -
    have "x = b"
      using that lst wf active_bound_wf [OF Some]
      by (intro bound_wf_eq) (auto simp: same_group_def)
    with that show ?thesis by simp
  qed
  then have set': "set lst' = insert b (set lst)" and d': "distinct lst'" and n': "lst' \<noteq> []"
    using lst(1) by (auto simp: lst'_def list_ex_iff)
  have upd: "set (dset ?g lst' groups) = insert (?g, lst') {p \<in> set groups. fst p \<noteq> ?g}"
    using dist by (rule set_dset)
  have A': "set (List.map_filter active_bound (ls @ [l])) = insert b ?A"
    using Some by (auto simp: map_filter_def)
  have U: "\<Union> (set ` snd ` set groups) = ?A" using ok by (simp add: groups_ok_def)
  have uniq: "q = lst" if "(?g, q) \<in> set groups" for q
    using that dist by (simp add: lst_def)
  have "\<Union> (set ` snd ` {p \<in> set groups. fst p \<noteq> ?g}) \<union> set lst = ?A"
  proof -
    have "p \<in> {p \<in> set groups. fst p \<noteq> ?g} \<or> snd p = lst" if "p \<in> set groups" for p
      using that uniq [of "snd p"] by (metis (mono_tags, lifting) mem_Collect_eq prod.collapse)
    then have "?A \<subseteq> \<Union> (set ` snd ` {p \<in> set groups. fst p \<noteq> ?g}) \<union> set lst"
      unfolding U [symmetric] by blast
    moreover have "\<Union> (set ` snd ` {p \<in> set groups. fst p \<noteq> ?g}) \<subseteq> ?A"
      unfolding U [symmetric] by blast
    ultimately show ?thesis using lst(3) by blast
  qed
  then have U': "\<Union> (set ` snd ` set (dset ?g lst' groups)) = insert b ?A"
    unfolding upd using set' by auto
  have "\<forall>(g, list) \<in> set (dset ?g lst' groups). list \<noteq> [] \<and> distinct list \<and>
        (\<forall>b\<in>set list. (bo_family b, bo_port b) = g)"
    unfolding upd using ok d' n' set' lst(2) by (auto simp: groups_ok_def)
  with U' A' dist show ?thesis
    by (simp add: add groups_ok_def distinct_update)
qed

lemma groups_ok_fold:
  "groups_ok (set (List.map_filter active_bound ls)) (foldl add_bound [] ls)"
proof (induction ls rule: rev_induct)
  case Nil
  show ?case by (simp add: groups_ok_def map_filter_simps)
next
  case (snoc l ls)
  then show ?case using groups_ok_add by simp
qed

section \<open>The opened sockets\<close>

text \<open>Linux refuses a bind when a listening socket of the port has the same address, or either
  of the two is the wildcard.\<close>

definition blocks :: "bound \<Rightarrow> bound \<Rightarrow> bool" where
  "blocks a b \<longleftrightarrow> same_group a b \<and> (bo_wildcard a \<or> bo_wildcard b \<or> bo_addr a = bo_addr b)"

definition wants :: "listener list \<Rightarrow> bound set" where
  "wants ls = {b. \<exists>l\<in>set (withRedirectListeners ls). active_bound l = Some b}"

lemma wants_eq: "set (List.map_filter active_bound (withRedirectListeners ls)) = wants ls"
  by (force simp: wants_def map_filter_def)

lemma opened_set:
  assumes "list \<noteq> []" "\<forall>x\<in>set list. \<forall>y\<in>set list. bo_wildcard x \<longrightarrow> bo_wildcard y \<longrightarrow> x = y"
  shows "set (opened list) =
    {x \<in> set list. bo_wildcard x \<or> \<not> (\<exists>w\<in>set list. bo_wildcard w)}"
proof (cases "find bo_wildcard list")
  case None
  then have "\<not> (\<exists>w\<in>set list. bo_wildcard w)" by (auto simp: find_None_iff)
  with None show ?thesis by (simp add: opened_def)
next
  case (Some w)
  then have "w \<in> set list" "bo_wildcard w" by (auto simp: find_Some_iff)
  with Some assms show ?thesis by (auto simp: opened_def)
qed

lemma opened_distinct: "distinct list \<Longrightarrow> distinct (opened list)"
  by (auto simp: opened_def split: option.splits)

lemma wants_wf: "b \<in> wants ls \<Longrightarrow> bound_wf b"
  using active_bound_wf by (auto simp: wants_def)

lemma wildcard_unique:
  assumes "bound_wf a" "bound_wf b" "same_group a b" "bo_wildcard a" "bo_wildcard b"
  shows "a = b"
proof -
  have "bo_addr a = bo_addr b"
    using assms normalizeBind_wildcard unfolding bound_wf_def same_group_def by metis
  with assms show ?thesis by (intro bound_wf_eq)
qed

lemma groups_of:
  fixes ls
  defines "gs \<equiv> foldl add_bound [] (withRedirectListeners ls)"
  assumes "(g, list) \<in> set gs"
  shows "list \<noteq> []" "distinct list" "set list = {b \<in> wants ls. (bo_family b, bo_port b) = g}"
    "set (opened list) = {b \<in> wants ls. (bo_family b, bo_port b) = g \<and>
       (bo_wildcard b \<or> \<not> (\<exists>w \<in> wants ls. same_group w b \<and> bo_wildcard w))}"
proof -
  have ok: "groups_ok (wants ls) gs"
    using groups_ok_fold [of "withRedirectListeners ls"] by (simp add: gs_def wants_eq)
  then show ne: "list \<noteq> []" and "distinct list" using assms by (auto simp: groups_ok_def)
  show set: "set list = {b \<in> wants ls. (bo_family b, bo_port b) = g}"
  proof
    show "set list \<subseteq> {b \<in> wants ls. (bo_family b, bo_port b) = g}"
      using groups_okD(3,4) [OF ok assms(2)[unfolded gs_def[symmetric]]] by blast
    show "{b \<in> wants ls. (bo_family b, bo_port b) = g} \<subseteq> set list"
    proof
      fix b assume b: "b \<in> {b \<in> wants ls. (bo_family b, bo_port b) = g}"
      then have bw: "b \<in> wants ls" by simp
      obtain h q where q: "(h, q) \<in> set gs" "b \<in> set q"
        by (rule groups_ok_cover [OF ok bw])
      then have "h = g" using groups_okD(3) [OF ok q] b by simp
      moreover have "distinct (dkeys gs)" using ok by (simp add: groups_ok_def)
      ultimately have "q = list" using q assms by (metis map_of_is_SomeI option.inject)
      with q show "b \<in> set list" by simp
    qed
  qed
  have "\<forall>x\<in>set list. \<forall>y\<in>set list. bo_wildcard x \<longrightarrow> bo_wildcard y \<longrightarrow> x = y"
    using wildcard_unique wants_wf by (auto simp: set same_group_def)
  from opened_set [OF ne this]
  show "set (opened list) = {b \<in> wants ls. (bo_family b, bo_port b) = g \<and>
       (bo_wildcard b \<or> \<not> (\<exists>w \<in> wants ls. same_group w b \<and> bo_wildcard w))}"
    unfolding set same_group_def by auto
qed

lemma set_boundTcpSockets:
  "set (boundTcpSockets ls) = {b \<in> wants ls.
     bo_wildcard b \<or> \<not> (\<exists>w\<in>wants ls. same_group w b \<and> bo_wildcard w)}"
proof -
  let ?gs = "foldl add_bound [] (withRedirectListeners ls)"
  have ok: "groups_ok (wants ls) ?gs"
    using groups_ok_fold [of "withRedirectListeners ls"] by (simp add: wants_eq)
  have "b \<in> set (boundTcpSockets ls) \<longleftrightarrow>
      b \<in> wants ls \<and> (bo_wildcard b \<or> \<not> (\<exists>w\<in>wants ls. same_group w b \<and> bo_wildcard w))" for b
  proof
    assume "b \<in> set (boundTcpSockets ls)"
    then obtain g q where q: "(g, q) \<in> set ?gs" "b \<in> set (opened q)"
      by (auto simp: boundTcpSockets_def Let_def)
    with groups_of(4) [OF q(1)]
    show "b \<in> wants ls \<and> (bo_wildcard b \<or> \<not> (\<exists>w\<in>wants ls. same_group w b \<and> bo_wildcard w))"
      by blast
  next
    assume b: "b \<in> wants ls \<and> (bo_wildcard b \<or> \<not> (\<exists>w\<in>wants ls. same_group w b \<and> bo_wildcard w))"
    then have bw: "b \<in> wants ls" by simp
    obtain g q where q: "(g, q) \<in> set ?gs" "b \<in> set q"
      by (rule groups_ok_cover [OF ok bw])
    then have "(bo_family b, bo_port b) = g" using groups_okD(3) [OF ok q] by simp
    then have "b \<in> set (opened q)" using groups_of(4) [OF q(1)] b by simp
    with q show "b \<in> set (boundTcpSockets ls)"
      by (force simp: boundTcpSockets_def Let_def)
  qed
  then show ?thesis by blast
qed

lemma distinct_concat_groups:
  assumes "distinct (dkeys gs)" "\<forall>(g, q)\<in>set gs. distinct q \<and> (\<forall>b\<in>set q. key b = g)"
    and "\<And>q. distinct q \<Longrightarrow> distinct (f q) \<and> set (f q) \<subseteq> set q"
  shows "distinct (concat (map (f \<circ> snd) gs))"
  using assms(1,2)
proof (induction gs)
  case (Cons p gs)
  obtain g q where p: "p = (g, q)" by force
  have disj: "b \<notin> set (f r)" if "b \<in> set (f q)" "(h, r) \<in> set gs" for b h r
  proof
    assume b: "b \<in> set (f r)"
    have "distinct q" "\<forall>b\<in>set q. key b = g" using Cons.prems(2) by (simp_all add: p)
    moreover have r: "distinct r \<and> (\<forall>b\<in>set r. key b = h)"
      using Cons.prems(2) that(2) by (auto simp: p)
    ultimately have "key b = g" "key b = h"
      using assms(3) [of q] assms(3) [of r] b that(1) by blast+
    moreover have "h \<noteq> g" using that(2) Cons.prems(1) by (force simp: p)
    ultimately show False by simp
  qed
  have c: "distinct (concat (map (f \<circ> snd) gs))"
    by (rule Cons.IH) (use Cons.prems in \<open>auto simp: p\<close>)
  have "distinct (f q)" using Cons.prems(2) assms(3) [of q] by (simp add: p)
  moreover have "set (f q) \<inter> set (concat (map (f \<circ> snd) gs)) = {}" using disj by auto
  ultimately show ?case using c by (simp add: p comp_def)
qed simp

lemma distinct_boundTcpSockets: "distinct (boundTcpSockets ls)"
proof -
  let ?gs = "foldl add_bound [] (withRedirectListeners ls)"
  have ok: "groups_ok (wants ls) ?gs"
    using groups_ok_fold [of "withRedirectListeners ls"] by (simp add: wants_eq)
  have sub: "distinct (opened q) \<and> set (opened q) \<subseteq> set q" if "distinct q" for q
    using that by (auto simp: opened_def find_Some_iff split: option.splits)
  have "distinct (concat (map (opened \<circ> snd) ?gs))"
  proof (rule distinct_concat_groups [where key = "\<lambda>b. (bo_family b, bo_port b)", OF _ _ sub])
    show "distinct (dkeys ?gs)" using ok by (simp only: groups_ok_def)
    show "\<forall>(g, q)\<in>set ?gs. distinct q \<and> (\<forall>b\<in>set q. (bo_family b, bo_port b) = g)"
      using groups_okD(2,3) [OF ok] by (intro ballI case_prodI2 conjI) simp_all
  qed simp
  then show ?thesis by (simp add: boundTcpSockets_def Let_def)
qed

lemma boundTcpSockets_free:
  assumes "a \<in> set (boundTcpSockets ls)" "b \<in> set (boundTcpSockets ls)" "blocks a b"
  shows "a = b"
proof -
  have wf: "bound_wf a" "bound_wf b" using assms wants_wf by (auto simp: set_boundTcpSockets)
  have sg: "same_group a b" "same_group b a"
    using assms(3) by (auto simp: blocks_def same_group_def)
  have "bo_wildcard b" if "bo_wildcard a"
    using assms(1,2) sg that by (auto simp: set_boundTcpSockets)
  moreover have "bo_wildcard a" if "bo_wildcard b"
    using assms(1,2) sg that by (auto simp: set_boundTcpSockets)
  ultimately have "bo_wildcard a \<and> bo_wildcard b \<or> bo_addr a = bo_addr b"
    using assms(3) unfolding blocks_def by blast
  then show ?thesis
    using wildcard_unique [OF wf sg(1)] bound_wf_eq [OF wf sg(1)] by blast
qed

section \<open>The reload\<close>

text \<open>A reload opens the new sockets while the old ones are still open: it goes through when
  every new socket is inherited or meets no old socket that blocks it.\<close>

definition reload_succeeds :: "bound set \<Rightarrow> bound set \<Rightarrow> bool" where
  "reload_succeeds old new \<longleftrightarrow> (\<forall>n\<in>new. n \<in> old \<or> \<not> (\<exists>b\<in>old. blocks b n))"

lemma append_colon_inject:
  assumes "a @ '':'' @ s = b @ '':'' @ t" "CHR '':'' \<notin> set s" "CHR '':'' \<notin> set t"
  shows "a = b \<and> s = t"
proof -
  have "last_index_of '':'' (CHR '':'' # s) = Some 0" "last_index_of '':'' (CHR '':'' # t) = Some 0"
    using assms(2,3) last_index_of_char_None by (auto split: option.splits)
  then have "last_index_of '':'' (a @ '':'' @ s) = Some (length a)"
    "last_index_of '':'' (b @ '':'' @ t) = Some (length b)"
    by (simp_all add: last_index_of_char_append)
  with assms(1) have "length a = length b" by simp
  with assms(1) show ?thesis by simp
qed

lemma socketName_inject:
  assumes "bound_wf a" "bound_wf b" "socketName a = socketName b"
  shows "a = b"
proof -
  have nc: "CHR '':'' \<notin> set (show_nat n)" for n
    by (rule show_nat_no_char) (simp add: is_digit_def)
  have e: "(if bo_family a = V6 then ''['' @ bo_addr a @ '']'' else bo_addr a) =
      (if bo_family b = V6 then ''['' @ bo_addr b @ '']'' else bo_addr b) \<and>
      show_nat (bo_port a) = show_nat (bo_port b)"
    using assms(3) unfolding socketName_def
    by (intro append_colon_inject [OF _ nc nc]) simp
  have nb: "CHR ''['' \<notin> set (bo_addr x)" if "bound_wf x" "bo_family x = V4" for x
    using isIPv4_chars [OF bound_wf_V4 [OF that], of "CHR ''[''"] by (auto simp: is_digit_def)
  have fam: "bo_family a = bo_family b"
  proof (rule ccontr)
    assume ne: "bo_family a \<noteq> bo_family b"
    then consider "bo_family a = V4" "bo_family b = V6" | "bo_family a = V6" "bo_family b = V4"
      by (metis family.exhaust)
    then show False
    proof cases
      case 1
      with e have "bo_addr a = ''['' @ bo_addr b @ '']''" by simp
      with nb [OF assms(1) 1(1)] show False by simp
    next
      case 2
      with e have "bo_addr b = ''['' @ bo_addr a @ '']''" by simp
      with nb [OF assms(2) 2(2)] show False by simp
    qed
  qed
  with e have "bo_addr a = bo_addr b" "bo_port a = bo_port b"
    by (auto split: if_splits)
  with fam show ?thesis using assms by (intro bound_wf_eq) (auto simp: same_group_def)
qed

text \<open>The sockets nginx opens for a configuration never collide: they are pairwise distinct
  and no two of them would block each other's bind, whatever wildcards, specific addresses and
  redirect sockets the listeners mix.\<close>

theorem boundTcpSockets_no_overlap:
  "sorted_wrt (\<lambda>a b. a \<noteq> b \<and> \<not> blocks a b) (boundTcpSockets ls)"
proof -
  have "sorted_wrt (\<lambda>a b. a \<noteq> b \<and> \<not> blocks a b) bs"
    if "distinct bs" "\<forall>a\<in>set bs. \<forall>b\<in>set bs. blocks a b \<longrightarrow> a = b" for bs
    using that by (induction bs) auto
  then show ?thesis using distinct_boundTcpSockets boundTcpSockets_free by blast
qed

lemma bindTransitionConflicts_Nil:
  "bindTransitionConflicts before after = [] \<longleftrightarrow>
     (\<forall>n\<in>set (boundTcpSockets after).
        socketName n \<in> set (map socketName (boundTcpSockets before)) \<or>
        blockers_of (boundTcpSockets before) n = [])"
  by (auto simp: bindTransitionConflicts_def Let_def map_filter_def filter_empty_conv split: if_splits)

text \<open>C19: The bind transition check is exact: it reports nothing precisely when a reload that opens
  the new sockets while the old ones still listen succeeds under the kernel's bind rule.\<close>

theorem bindTransitionConflicts_exact:
  "bindTransitionConflicts before after = [] \<longleftrightarrow>
     reload_succeeds (set (boundTcpSockets before)) (set (boundTcpSockets after))"
proof -
  have wf: "bound_wf x" if "x \<in> set (boundTcpSockets ls)" for x ls
    using that wants_wf by (auto simp: set_boundTcpSockets)
  have name: "socketName n \<in> set (map socketName (boundTcpSockets before)) \<longleftrightarrow>
      n \<in> set (boundTcpSockets before)" if "n \<in> set (boundTcpSockets after)" for n
    using wf [OF that] wf socketName_inject by auto
  have block: "blockers_of (boundTcpSockets before) n = [] \<longleftrightarrow>
      \<not> (\<exists>b\<in>set (boundTcpSockets before). blocks b n)"
    if "n \<in> set (boundTcpSockets after)" "n \<notin> set (boundTcpSockets before)" for n
    using wf [OF that(1)] wf bound_wf_eq that(2)
    by (auto simp: blockers_of_def filter_empty_conv blocks_def same_group_def)
  show ?thesis
    unfolding bindTransitionConflicts_Nil reload_succeeds_def using name block by blast
qed

end
