(* ===== verification/Validate_Model.thy ===== *)
theory Validate_Model
  imports Bind_Transition Route_Compile
begin

text \<open>
  The validator of models, \<^verbatim>\<open>src/src/validate/model.ts\<close>. Every loop of \<^verbatim>\<open>validateModel\<close> is a
  definition that returns the issues the loop pushes; \<open>validateModel\<close> concatenates them in the
  order of the code. An issue keeps its code and its subjects, its message is dropped; the two
  subjects that the code decorates with a Korean word carry an English one.
\<close>

section \<open>Issues\<close>

datatype model_issue_code =
    Unknown_address_set | Source_rule_shadowed | Invalid_bind_address | Unknown_pool
  | Unknown_listener | Pool_has_no_backend | Socket_conflict | Route_compile_error
  | Invalid_hash_key | Mixed_proxy_protocol_pool | Listener_requires_default_pool
  | Route_protocol_mismatch | Pool_protocol_mismatch | Orphan_backend | Option_not_supported
  | Unknown_tls_reference | Sni_binding_protocol_mismatch | Sni_binding_missing
  | Strict_priority_too_many | Sni_binding_conflict | Invalid_sni_host | Acme_path_reserved
  | Certificate_has_no_material | Invalid_acme_intent | Invalid_hsts | Host_conflict
  | Route_host_outside_listener | Invalid_type | Invalid_enum | Missing_field | Unknown_field
  | Out_of_range | Invalid_value | Duplicate_name

record model_issue =
  mi_code :: model_issue_code
  mi_subjects :: "string list"

definition issue :: "model_issue_code \<Rightarrow> string list \<Rightarrow> model_issue" where
  "issue c subjects = \<lparr>mi_code = c, mi_subjects = subjects\<rparr>"

definition issue_if :: "bool \<Rightarrow> model_issue_code \<Rightarrow> string list \<Rightarrow> model_issue list" where
  "issue_if b c subjects = (if b then [issue c subjects] else [])"

record validation_capabilities =
  vc_streamRealip :: bool
  vc_http2 :: "bool option"
  vc_sslRejectHandshake :: "bool option"

definition STRICT_PRIORITY_MAX_LOWERED :: nat where
  "STRICT_PRIORITY_MAX_LOWERED = 128"

definition ACME_PREFIX :: string where
  "ACME_PREFIX = ''/.well-known/acme-challenge/''"

definition classOfListener :: "listener_protocol \<Rightarrow> protocol_class" where
  "classOfListener p = (if p = L_http \<or> p = L_https then C_http else if p = L_udp then C_udp else C_tcp)"

definition routesTraffic :: "listener_protocol \<Rightarrow> bool" where
  "routesTraffic p \<longleftrightarrow> p = L_http \<or> p = L_https \<or> p = L_tls_passthrough"

definition http_family :: "listener_protocol \<Rightarrow> bool" where
  "http_family p \<longleftrightarrow> p = L_http \<or> p = L_https"

text \<open>The first element with a key, and the lookup in a map built from the list.\<close>

definition listener_by_key :: "model \<Rightarrow> string \<Rightarrow> listener option" where
  "listener_by_key m = js_map (map (\<lambda>l. (l_key l, l)) (m_listeners m))"

definition pool_by_key :: "model \<Rightarrow> string \<Rightarrow> pool option" where
  "pool_by_key m = js_map (map (\<lambda>p. (po_key p, p)) (m_pools m))"

section \<open>Sockets shared by virtual hosts\<close>

definition protocol_name :: "listener_protocol \<Rightarrow> string" where
  "protocol_name p = (case p of L_http \<Rightarrow> ''http'' | L_https \<Rightarrow> ''https''
     | L_tls_passthrough \<Rightarrow> ''tls_passthrough'' | L_tcp \<Rightarrow> ''tcp'' | L_udp \<Rightarrow> ''udp'')"

definition family_name :: "family \<Rightarrow> string" where
  "family_name f = (case f of V4 \<Rightarrow> ''v4'' | V6 \<Rightarrow> ''v6'')"

definition socketKeyOf :: "listener \<Rightarrow> string option" where
  "socketKeyOf l =
     (case normalizeBind (l_bind l) of
        Inl _ \<Rightarrow> None
      | Inr n \<Rightarrow> Some (protocol_name (l_protocol l) @ ''|'' @ family_name (ba_family n) @ ''|''
          @ (if ba_wildcard n then ''*'' else ba_addr n) @ ''|'' @ show_nat (l_port l)))"

definition socketSharing :: "listener \<Rightarrow> listener \<Rightarrow> bool" where
  "socketSharing a b =
     (if \<not> http_family (l_protocol a) \<or> \<not> http_family (l_protocol b) then False
      else if l_hosts a = None \<and> l_hosts b = None then False
      else
        let ka = socketKeyOf (a\<lparr>l_protocol := L_http\<rparr>); kb = socketKeyOf (b\<lparr>l_protocol := L_http\<rparr>) in
        if ka = None \<or> ka \<noteq> kb then False
        else if l_protocol a \<noteq> l_protocol b then False
        else if (l_acceptProxyProtocol a = None) \<noteq> (l_acceptProxyProtocol b = None) then False
        else True)"

definition lower_host :: "string \<Rightarrow> string" where
  "lower_host h = map lower_latin h"

fun vhost_names :: "(string \<Rightarrow> string option) \<Rightarrow> string \<Rightarrow> string list \<Rightarrow> string list \<Rightarrow> model_issue list" where
  "vhost_names idna key seen [] = []"
| "vhost_names idna key seen (h # hs) =
     issue_if (isl (parseHostPattern idna h)) Invalid_value [key] @
     issue_if (lower_host h \<in> set seen) Duplicate_name [key] @
     vhost_names idna key (lower_host h # seen) hs"

definition route_hosts_outside :: "model \<Rightarrow> http_route \<Rightarrow> model_issue list" where
  "route_hosts_outside m r =
     (case find (\<lambda>x. l_key x = hro_listener r) (m_listeners m) of
        None \<Rightarrow> []
      | Some l \<Rightarrow> (case l_hosts l of
            None \<Rightarrow> []
          | Some hosts \<Rightarrow> concat (map (\<lambda>h.
              issue_if (lower_host h \<notin> set (map lower_host hosts)) Route_host_outside_listener [hro_key r, l_key l])
              (hro_hosts r))))"

definition by_socket :: "listener list \<Rightarrow> (string, listener list) dict" where
  "by_socket ls = foldl (\<lambda>d l. case socketKeyOf l of
       None \<Rightarrow> d
     | Some k \<Rightarrow> dset k (list_of_option (dget d k) @ [l]) d) [] ls"

text \<open>The claims of the hosts of one socket: who claimed a host first, and who comes too late.\<close>

fun claims :: "(string \<times> string) list \<Rightarrow> (string \<Rightarrow> string option) \<Rightarrow> model_issue list" where
  "claims [] owner = []"
| "claims ((host, listener) # rest) owner =
     (case owner (lower_host host) of
        Some prev \<Rightarrow>
          if prev \<noteq> listener then issue Host_conflict [prev, listener] # claims rest owner
          else claims rest (owner(lower_host host \<mapsto> listener))
      | None \<Rightarrow> claims rest (owner(lower_host host \<mapsto> listener)))"

definition group_claims :: "model \<Rightarrow> listener list \<Rightarrow> (string \<times> string) list" where
  "group_claims m grp =
     concat (map (\<lambda>l. case l_hosts l of
         Some hosts \<Rightarrow> map (\<lambda>h. (h, l_key l)) hosts
       | None \<Rightarrow> concat (map (\<lambda>r. if hro_listener r = l_key l then map (\<lambda>h. (h, l_key l)) (hro_hosts r) else [])
           (m_httpRoutes m)))
       (sort_key l_key grp))"

definition group_issues :: "model \<Rightarrow> validation_capabilities \<Rightarrow> listener list \<Rightarrow> model_issue list" where
  "group_issues m caps grp =
     (if \<not> list_ex (\<lambda>l. l_hosts l \<noteq> None) grp then []
      else claims (group_claims m grp) (\<lambda>_. None) @
        issue_if (l_protocol (hd grp) = L_https \<and> \<not> list_ex (\<lambda>l. l_hosts l = None) grp \<and>
            vc_sslRejectHandshake caps \<noteq> Some True)
          Option_not_supported (map l_key grp))"

definition vhostIssues :: "(string \<Rightarrow> string option) \<Rightarrow> model \<Rightarrow> validation_capabilities \<Rightarrow> listener list \<Rightarrow> model_issue list" where
  "vhostIssues idna m caps redirects =
     (let http = filter (\<lambda>l. l_enabled l \<and> http_family (l_protocol l)) (m_listeners m @ redirects) in
      concat (map (\<lambda>l. vhost_names idna (l_key l) [] (list_of_option (l_hosts l))) (m_listeners m)) @
      concat (map (route_hosts_outside m) (m_httpRoutes m)) @
      concat (map (\<lambda>(k, grp). group_issues m caps grp) (by_socket http)))"

section \<open>Pools and backends\<close>

definition needPool :: "model \<Rightarrow> string \<Rightarrow> string \<Rightarrow> protocol_class \<Rightarrow> model_issue list" where
  "needPool m subject key expect =
     (if key \<notin> set (map po_key (m_pools m)) then [issue Unknown_pool [subject]]
      else
        issue_if (key \<notin> set (map be_pool (m_backends m))) Pool_has_no_backend [subject, key] @
        (case pool_by_key m key of
           None \<Rightarrow> []
         | Some p \<Rightarrow> issue_if (po_protocolClass p \<noteq> expect) Pool_protocol_mismatch [subject, key]))"

definition orphan_backends :: "model \<Rightarrow> model_issue list" where
  "orphan_backends m = concat (map (\<lambda>b.
     issue_if (be_pool b \<notin> set (map po_key (m_pools m))) Orphan_backend [be_key b, be_pool b]) (m_backends m))"

definition pool_issues :: "model \<Rightarrow> pool \<Rightarrow> model_issue list" where
  "pool_issues m p =
     issue_if (po_sendProxyProtocol p \<noteq> None \<and> po_protocolClass p \<noteq> C_tcp) Option_not_supported [po_key p] @
     issue_if (po_healthCheck p \<noteq> None \<and> po_protocolClass p \<noteq> C_http) Option_not_supported [po_key p] @
     (case Option.bind (po_healthCheck p) hc_path of
        None \<Rightarrow> []
      | Some path \<Rightarrow> issue_if (isl (validatePathPrefix path)) Option_not_supported [po_key p]) @
     (if po_algorithm p = Hash_key \<or> po_algorithm p = Source_ip_hash then
        let backups = map be_key (filter (\<lambda>b. be_pool b = po_key p \<and> be_isBackup b = Some True) (m_backends m)) in
        issue_if (backups \<noteq> []) Option_not_supported (po_key p # backups)
      else []) @
     (if po_algorithm p \<noteq> Hash_key then []
      else issue_if (isl (parseHashKey (po_protocolClass p)
          (case po_hashKey p of None \<Rightarrow> ''remote_addr'' | Some k \<Rightarrow> k))) Invalid_hash_key [po_key p])"

section \<open>Listeners\<close>

definition unknown_sets :: "model \<Rightarrow> string \<Rightarrow> string list \<Rightarrow> model_issue list" where
  "unknown_sets m key refs =
     concat (map (\<lambda>ref. issue_if (ref \<notin> set (map as_key (list_of_option (m_addressSets m))))
       Unknown_address_set [key, ref]) refs)"

definition outcome_pool :: "model \<Rightarrow> string \<Rightarrow> protocol_class \<Rightarrow> default_action option \<Rightarrow> model_issue list" where
  "outcome_pool m key cls out = (case out of Some (To_pool p) \<Rightarrow> needPool m key p cls | _ \<Rightarrow> [])"

definition listener_issues :: "model \<Rightarrow> validation_capabilities \<Rightarrow> listener \<Rightarrow> model_issue list" where
  "listener_issues m caps l =
     (let notHere = (\<lambda>b. issue_if b Option_not_supported [l_key l]); p = l_protocol l in
      issue_if (isl (normalizeBind (l_bind l))) Invalid_bind_address [l_key l] @
      issue_if (\<not> routesTraffic p \<and> l_defaultPool l = None) Listener_requires_default_pool [l_key l] @
      issue_if (routesTraffic p \<and> l_defaultPool l \<noteq> None) Option_not_supported [l_key l] @
      notHere (p = L_udp \<and> l_acceptProxyProtocol l \<noteq> None) @
      notHere (l_sourceAllow l \<noteq> None \<and> l_acceptProxyProtocol l \<noteq> None \<and> (p = L_tcp \<or> p = L_tls_passthrough)) @
      notHere (\<not> http_family p \<and> l_realIpFromHeader l \<noteq> None) @
      notHere (l_acceptProxyProtocol l \<noteq> None \<and> l_realIpFromHeader l \<noteq> None) @
      notHere (\<not> http_family p \<and> l_http l \<noteq> None) @
      notHere (p \<noteq> L_https \<and> l_tls l \<noteq> None) @
      notHere (p \<noteq> L_https \<and> l_http2 l \<noteq> None) @
      notHere (p = L_https \<and> l_http2 l = Some True \<and> vc_http2 caps \<noteq> Some True) @
      notHere (p \<noteq> L_udp \<and> l_udp l \<noteq> None) @
      notHere (p \<noteq> L_tls_passthrough \<and> l_onUnmatchedSni l \<noteq> None) @
      notHere (p \<noteq> L_tls_passthrough \<and> l_onNoSni l \<noteq> None) @
      notHere (p \<noteq> L_tls_passthrough \<and> l_prereadTimeoutS l \<noteq> None) @
      (case l_defaultPool l of None \<Rightarrow> [] | Some d \<Rightarrow> needPool m (l_key l) d (classOfListener p)) @
      (if p = L_tls_passthrough then
         outcome_pool m (l_key l) C_tcp (l_onUnmatchedSni l) @ outcome_pool m (l_key l) C_tcp (l_onNoSni l)
       else []) @
      (if http_family p then outcome_pool m (l_key l) C_http (Option.bind (l_http l) hp_defaultAction) else []))"

definition reservation_of :: "listener \<Rightarrow> socket_reservation option" where
  "reservation_of l =
     (if isl (normalizeBind (l_bind l)) \<or> \<not> l_enabled l then None
      else Some \<lparr>sr_key = l_key l, sr_protocol = l_protocol l, sr_bind = l_bind l, sr_port = l_port l\<rparr>)"

definition redirects_of :: "model \<Rightarrow> listener list" where
  "redirects_of m = List.map_filter (\<lambda>l.
     if \<not> l_enabled l \<or> isl (normalizeBind (l_bind l)) then None else redirectListenerOf l) (m_listeners m)"

definition redirect_reservation :: "listener \<Rightarrow> socket_reservation" where
  "redirect_reservation r = \<lparr>sr_key = l_key r, sr_protocol = L_http, sr_bind = l_bind r, sr_port = l_port r\<rparr>"

definition reservations_of :: "model \<Rightarrow> socket_reservation list" where
  "reservations_of m =
     List.map_filter reservation_of (m_listeners m) @ map redirect_reservation (redirects_of m)"

definition socket_issues :: "model \<Rightarrow> model_issue list" where
  "socket_issues m =
     (let by_key = js_map (map (\<lambda>l. (l_key l, l)) (m_listeners m @ redirects_of m)) in
      concat (map (\<lambda>c.
        let share = (case (by_key (sc_a c), by_key (sc_b c)) of
               (Some a, Some b) \<Rightarrow> socketSharing a b | _ \<Rightarrow> False) in
        issue_if (\<not> share) Socket_conflict [sc_a c, sc_b c])
        (findSocketConflicts (reservations_of m))))"

definition stream_realip_issues :: "model \<Rightarrow> validation_capabilities \<Rightarrow> model_issue list" where
  "stream_realip_issues m caps = concat (map (\<lambda>l.
     issue_if (\<not> (\<not> l_enabled l \<or> l_protocol l = L_udp \<or> http_family (l_protocol l)) \<and>
         l_acceptProxyProtocol l \<noteq> None \<and> \<not> vc_streamRealip caps)
       Option_not_supported [l_key l]) (m_listeners m))"

section \<open>Routes\<close>

definition wantProtocol :: "model \<Rightarrow> string \<Rightarrow> listener_protocol list \<Rightarrow> bool" where
  "wantProtocol m listener want =
     (case listener_by_key m listener of None \<Rightarrow> True | Some l \<Rightarrow> l_protocol l \<in> set want)"

text \<open>What one call of \<open>addRoute\<close> contributes: an issue, or an input of the compiler for a listener.\<close>

definition addRoute :: "model \<Rightarrow> string \<Rightarrow> string \<Rightarrow> string \<Rightarrow> int \<Rightarrow> string option \<Rightarrow> model_issue + (string \<times> route_input)" where
  "addRoute m listener key host priority path =
     (if listener \<notin> set (map l_key (m_listeners m)) then Inl (issue Unknown_listener [key])
      else Inr (listener, \<lparr>ri_key = key, ri_host = host, ri_priority = priority, ri_pathPrefix = path\<rparr>))"

definition route_path_at :: "http_route \<Rightarrow> nat \<Rightarrow> string option" where
  "route_path_at r j =
     (case hro_pathPrefix r of
        Some p \<Rightarrow> Some p
      | None \<Rightarrow> (case hro_pathPrefixes r of
            None \<Rightarrow> None
          | Some ps \<Rightarrow> if j < length ps then Some (ps ! j) else None))"

definition http_route_inputs :: "model \<Rightarrow> http_route \<Rightarrow> (model_issue + (string \<times> route_input)) list" where
  "http_route_inputs m r =
     (let paths = routePaths r in
      concat (map (\<lambda>(i, h). map (\<lambda>(j, p).
        addRoute m (hro_listener r)
          (if 1 < length paths then hro_key r @ ''#'' @ show_nat i @ ''.'' @ show_nat j
           else hro_key r @ ''#'' @ show_nat i)
          h (hro_priority r) (route_path_at r j)) (enumerate 0 paths)) (enumerate 0 (hro_hosts r))))"

definition http_route_steps :: "model \<Rightarrow> http_route \<Rightarrow> (model_issue + (string \<times> route_input)) list" where
  "http_route_steps m r =
     map Inl (concat (map (\<lambda>a. case a of Act_proxy p \<Rightarrow> needPool m (hro_key r) (pa_pool p) C_http | _ \<Rightarrow> [])
       (routeActions r))) @
     (if \<not> wantProtocol m (hro_listener r) [L_http, L_https]
      then [Inl (issue Route_protocol_mismatch [hro_key r, hro_listener r])]
      else http_route_inputs m r)"

definition passthrough_steps :: "model \<Rightarrow> passthrough_route \<Rightarrow> (model_issue + (string \<times> route_input)) list" where
  "passthrough_steps m r =
     map Inl (case pr_action r of Pass_proxy p \<Rightarrow> needPool m (pr_key r) p C_tcp | Pass_reject \<Rightarrow> []) @
     (if \<not> wantProtocol m (pr_listener r) [L_tls_passthrough]
      then [Inl (issue Route_protocol_mismatch [pr_key r, pr_listener r])]
      else map (\<lambda>(i, h). addRoute m (pr_listener r) (pr_key r @ ''#'' @ show_nat i) h (pr_priority r) None)
        (enumerate 0 (pr_snis r)))"

definition route_steps :: "model \<Rightarrow> (model_issue + (string \<times> route_input)) list" where
  "route_steps m =
     concat (map (http_route_steps m) (m_httpRoutes m)) @
     concat (map (passthrough_steps m) (m_passthroughRoutes m))"

definition route_issues :: "model \<Rightarrow> model_issue list" where
  "route_issues m = fst (partition_results (route_steps m))"

definition push_route :: "(string, route_input list) dict \<Rightarrow> string \<times> route_input \<Rightarrow> (string, route_input list) dict" where
  "push_route d x = dset (fst x) (list_of_option (dget d (fst x)) @ [snd x]) d"

definition by_listener :: "model \<Rightarrow> (string, route_input list) dict" where
  "by_listener m = foldl push_route [] (snd (partition_results (route_steps m)))"

section \<open>Source rules and reserved paths\<close>

record seen_source =
  ss_cidr :: string
  ss_address :: source_address

definition rule_address :: "http_source_rule \<Rightarrow> source_address" where
  "rule_address rule = (case ru_address rule of None \<Rightarrow> Visitor | Some a \<Rightarrow> a)"

fun shadow_scan :: "(string \<Rightarrow> string list option) \<Rightarrow> string \<Rightarrow> seen_source list \<Rightarrow> http_source_rule list \<Rightarrow> model_issue list" where
  "shadow_scan sets key seen [] = []"
| "shadow_scan sets key seen (rule # rules) =
     (let from_cidrs = expandList (ru_from rule) sets; address = rule_address rule in
      concat (map (\<lambda>cidr. issue_if (find (\<lambda>x. ss_address x = address \<and> cidrCovers (ss_cidr x) cidr) seen \<noteq> None)
        Source_rule_shadowed [key]) from_cidrs) @
      shadow_scan sets key (seen @ map (\<lambda>cidr. \<lparr>ss_cidr = cidr, ss_address = address\<rparr>) from_cidrs) rules)"

definition source_rule_issues :: "model \<Rightarrow> model_issue list" where
  "source_rule_issues m =
     concat (map (\<lambda>r. unknown_sets m (hro_key r) (referencedSetsOfRoute r)) (m_httpRoutes m)) @
     concat (map (\<lambda>r. shadow_scan (set_cidrs m) (hro_key r) [] (list_of_option (hro_sourceRules r))) (m_httpRoutes m))"

definition acme_path_issues :: "model \<Rightarrow> model_issue list" where
  "acme_path_issues m = concat (map (\<lambda>r. concat (map (\<lambda>path.
     issue_if (path = ACME_PREFIX \<or> prefix ACME_PREFIX path) Acme_path_reserved [hro_key r]) (routePaths r)))
     (m_httpRoutes m))"

section \<open>Strict priority\<close>

definition strict_inputs :: "model \<Rightarrow> (string, route_input list) dict" where
  "strict_inputs m = foldl push_route [] (concat (map (\<lambda>r.
     case listener_by_key m (hro_listener r) of
       None \<Rightarrow> []
     | Some l \<Rightarrow>
         if Option.bind (l_http l) hp_strictPriority \<noteq> Some True then []
         else map (\<lambda>h. (hro_listener r, \<lparr>ri_key = h, ri_host = h, ri_priority = hro_priority r, ri_pathPrefix = None\<rparr>))
           (hro_hosts r)) (m_httpRoutes m)))"

definition strict_by_host :: "(string \<Rightarrow> string option) \<Rightarrow> route_input list \<Rightarrow> (string, host_pattern \<times> int) dict" where
  "strict_by_host idna inputs = foldl (\<lambda>d i.
     case parseHostPattern idna (ri_host i) of
       Inl _ \<Rightarrow> d
     | Inr p \<Rightarrow> dset (ri_host i)
         (p, case dget d (ri_host i) of None \<Rightarrow> ri_priority i | Some cur \<Rightarrow> max (snd cur) (ri_priority i)) d) [] inputs"

definition strict_hosts :: "(string \<Rightarrow> string option) \<Rightarrow> route_input list \<Rightarrow> plan_host list" where
  "strict_hosts idna inputs =
     map (\<lambda>(h, v). \<lparr>ph_key = h, ph_pattern = fst v, ph_priority = snd v\<rparr>) (strict_by_host idna inputs)"

definition strict_issues :: "(string \<Rightarrow> string option) \<Rightarrow> model \<Rightarrow> model_issue list" where
  "strict_issues idna m = concat (map (\<lambda>(key, inputs).
     issue_if (STRICT_PRIORITY_MAX_LOWERED < length (sp_lowered (planStrictPriority (strict_hosts idna inputs))))
       Strict_priority_too_many [key]) (strict_inputs m))"

section \<open>Certificates\<close>

definition cert_keys :: "model \<Rightarrow> string list" where
  "cert_keys m = map ce_key (m_certificates m)"

definition passthrough_pools :: "model \<Rightarrow> string list" where
  "passthrough_pools m = List.map_filter (\<lambda>r. case pr_action r of Pass_proxy p \<Rightarrow> Some p | Pass_reject \<Rightarrow> None)
     (m_passthroughRoutes m)"

definition upstream_tls_issues :: "model \<Rightarrow> pool \<Rightarrow> model_issue list" where
  "upstream_tls_issues m p =
     (case po_upstreamTls p of
        None \<Rightarrow> []
      | Some t \<Rightarrow>
          issue_if (po_protocolClass p = C_udp) Option_not_supported [po_key p] @
          issue_if (ut_enabled t \<and> po_key p \<in> set (passthrough_pools m)) Option_not_supported [po_key p] @
          issue_if (ut_verify t = Some True \<and> ut_caBundle t = None) Option_not_supported [po_key p] @
          (case ut_caBundle t of
             None \<Rightarrow> []
           | Some ca \<Rightarrow>
               issue_if (ca \<notin> set (cert_keys m)) Unknown_tls_reference [po_key p] @
               (case find (\<lambda>c. ce_key c = ca) (m_certificates m) of
                  None \<Rightarrow> []
                | Some c \<Rightarrow> issue_if (ce_materialRef c = None) Unknown_tls_reference [po_key p])))"

definition tls_binding_issues :: "model \<Rightarrow> listener \<Rightarrow> model_issue list" where
  "tls_binding_issues m l =
     (if l_protocol l \<noteq> L_https then []
      else (case l_tls l of
          None \<Rightarrow> [issue Missing_field [l_key l]]
        | Some t \<Rightarrow>
            issue_if (tb_policy t \<notin> set (map tp_key (m_tlsPolicies m))) Unknown_tls_reference [l_key l] @
            issue_if (tb_defaultCertificate t \<notin> set (cert_keys m)) Unknown_tls_reference [l_key l]))"

definition usedBy :: "model \<Rightarrow> string \<Rightarrow> string \<Rightarrow> model_issue list" where
  "usedBy m certKey subject =
     issue_if (certKey \<in> set (map ce_key (filter (\<lambda>c. ce_materialRef c = None) (m_certificates m))))
       Certificate_has_no_material [subject, certKey]"

definition default_certificate_issues :: "model \<Rightarrow> listener \<Rightarrow> model_issue list" where
  "default_certificate_issues m l =
     (if l_protocol l \<noteq> L_https then []
      else (case l_tls l of None \<Rightarrow> []
        | Some t \<Rightarrow> usedBy m (tb_defaultCertificate t) (''listener '' @ l_key l)))"

definition acme_intent_issues :: "(string \<Rightarrow> string option) \<Rightarrow> certificate \<Rightarrow> model_issue list" where
  "acme_intent_issues idna c =
     (case ce_acme c of
        None \<Rightarrow> []
      | Some a \<Rightarrow>
          issue_if (ai_domains a = []) Invalid_acme_intent [ce_key c] @
          concat (map (\<lambda>d. issue_if (isl (parseHostPattern idna d)) Invalid_acme_intent [ce_key c]) (ai_domains a)))"

definition hsts_issues :: "tls_policy \<Rightarrow> model_issue list" where
  "hsts_issues t =
     (case tp_hsts t of
        None \<Rightarrow> []
      | Some h \<Rightarrow>
          if hs_preload h \<noteq> Some True then []
          else issue_if (hs_maxAgeSeconds h < 31536000) Invalid_hsts [tp_key t] @
            issue_if (hs_includeSubdomains h \<noteq> Some True) Invalid_hsts [tp_key t])"

text \<open>One SNI binding: its issues, and whether it takes part in the checks of its listener.\<close>

definition binding_issues :: "(string \<Rightarrow> string option) \<Rightarrow> model \<Rightarrow> sni_certificate_binding \<Rightarrow> model_issue list" where
  "binding_issues idna m b =
     (case listener_by_key m (sb_listener b) of
        None \<Rightarrow> [issue Unknown_listener [sb_key b]]
      | Some l \<Rightarrow>
          if l_protocol l \<noteq> L_https then [issue Sni_binding_protocol_mismatch [sb_key b, sb_listener b]]
          else
            issue_if (sb_certificate b \<notin> set (cert_keys m)) Unknown_tls_reference [sb_key b] @
            usedBy m (sb_certificate b) (''SNI binding '' @ sb_key b) @
            concat (map (\<lambda>h. issue_if (isl (parseHostPattern idna h)) Invalid_sni_host [sb_key b]) (sb_hosts b)))"

definition binding_taken :: "model \<Rightarrow> sni_certificate_binding \<Rightarrow> bool" where
  "binding_taken m b = (case listener_by_key m (sb_listener b) of None \<Rightarrow> False | Some l \<Rightarrow> l_protocol l = L_https)"

definition bindings_by_listener :: "model \<Rightarrow> (string, sni_certificate_binding list) dict" where
  "bindings_by_listener m = foldl (\<lambda>d b. dset (sb_listener b) (list_of_option (dget d (sb_listener b)) @ [b]) d) []
     (filter (binding_taken m) (m_sniBindings m))"

fun binding_conflicts :: "string \<Rightarrow> (string \<Rightarrow> string option) \<Rightarrow> (string \<times> string) list \<Rightarrow> model_issue list" where
  "binding_conflicts listener seen [] = []"
| "binding_conflicts listener seen ((h, cert) # rest) =
     issue_if (seen h \<noteq> None \<and> seen h \<noteq> Some cert) Sni_binding_conflict [listener, h] @
     binding_conflicts listener (seen(h \<mapsto> cert)) rest"

definition binding_hosts :: "sni_certificate_binding list \<Rightarrow> (string \<times> string) list" where
  "binding_hosts bs = concat (map (\<lambda>b. map (\<lambda>h. (h, sb_certificate b)) (sb_hosts b)) bs)"

definition sni_missing_issues :: "model \<Rightarrow> http_route \<Rightarrow> model_issue list" where
  "sni_missing_issues m r =
     (case listener_by_key m (hro_listener r) of
        None \<Rightarrow> []
      | Some l \<Rightarrow>
          if l_protocol l \<noteq> L_https \<or> l_hosts l \<noteq> None then []
          else
            let bs = list_of_option (dget (bindings_by_listener m) (hro_listener r)) in
            concat (map (\<lambda>h. issue_if (\<not> list_ex (\<lambda>b. list_ex (\<lambda>p. coversHost p h) (sb_hosts b)) bs)
              Sni_binding_missing [hro_key r, h]) (hro_hosts r)))"

definition certificate_issues :: "(string \<Rightarrow> string option) \<Rightarrow> model \<Rightarrow> model_issue list" where
  "certificate_issues idna m =
     concat (map (tls_binding_issues m) (m_listeners m)) @
     concat (map (default_certificate_issues m) (m_listeners m)) @
     concat (map (acme_intent_issues idna) (m_certificates m)) @
     concat (map hsts_issues (m_tlsPolicies m)) @
     concat (map (binding_issues idna m) (m_sniBindings m)) @
     concat (map (\<lambda>(listener, bs). binding_conflicts listener (\<lambda>_. None) (binding_hosts bs)) (bindings_by_listener m)) @
     concat (map (sni_missing_issues m) (m_httpRoutes m))"

section \<open>The whole validator\<close>

definition error_route :: "compile_error \<Rightarrow> string" where
  "error_route e = (case e of Err_invalid_host k \<Rightarrow> k | Err_duplicate_match k \<Rightarrow> k)"

definition compile_issues :: "(string \<Rightarrow> string option) \<Rightarrow> model \<Rightarrow> model_issue list" where
  "compile_issues idna m = concat (map (\<lambda>(listener, inputs).
     map (\<lambda>e. issue Route_compile_error [listener, error_route e]) (cres_errors (compileHostRoutes idna inputs)))
     (by_listener m))"

definition validateModel :: "(string \<Rightarrow> string option) \<Rightarrow> model \<Rightarrow> validation_capabilities \<Rightarrow> model_issue list" where
  "validateModel idna m caps =
     orphan_backends m @
     concat (map (pool_issues m) (m_pools m)) @
     concat (map (\<lambda>l. unknown_sets m (l_key l) (referencedSets l)) (m_listeners m)) @
     concat (map (listener_issues m caps) (m_listeners m)) @
     socket_issues m @
     vhostIssues idna m caps (redirects_of m) @
     stream_realip_issues m caps @
     route_issues m @
     source_rule_issues m @
     acme_path_issues m @
     strict_issues idna m @
     concat (map (upstream_tls_issues m) (m_pools m)) @
     certificate_issues idna m @
     compile_issues idna m"

end
