(* ===== verification/Decode_Base.thy ===== *)
theory Decode_Base
  imports Validate_Model Complex_Main
begin

text \<open>
  What the decoder of models is made of, \<^verbatim>\<open>src/src/model/decode.ts\<close>: JSON values, the decoders of single
  values and of the properties of an object, and the encoding the decoder is measured against.

  A decoder returns the issues it adds, in their order, and the value, \<open>None\<close> for \<open>undefined\<close>. Objects
  keep the order of their properties as they are written; numbers are the rationals they denote.
\<close>

section \<open>JSON\<close>

datatype json =
    J_null
  | J_bool bool
  | J_num rat
  | J_str string
  | J_arr "json list"
  | J_obj "(string \<times> json) list"

section \<open>Decoders\<close>

type_synonym 'a dec = "model_issue list \<times> 'a option"

definition added :: "model_issue_code \<Rightarrow> string \<Rightarrow> 'a dec" where
  "added c path = ([issue c [path]], None)"

definition gives :: "'a option \<Rightarrow> 'a dec" where
  "gives x = ([], x)"

definition bindD :: "'a dec \<Rightarrow> ('a option \<Rightarrow> 'b dec) \<Rightarrow> 'b dec" where
  "bindD m f = (fst m @ fst (f (snd m)), snd (f (snd m)))"

definition str_d :: "json \<Rightarrow> string \<Rightarrow> string dec" where
  "str_d v path = (case v of J_str s \<Rightarrow> gives (Some s) | _ \<Rightarrow> added Invalid_type path)"

definition bool_d :: "json \<Rightarrow> string \<Rightarrow> bool dec" where
  "bool_d v path = (case v of J_bool b \<Rightarrow> gives (Some b) | _ \<Rightarrow> added Invalid_type path)"

definition int_d :: "int \<Rightarrow> int \<Rightarrow> json \<Rightarrow> string \<Rightarrow> int dec" where
  "int_d lo hi v path =
     (case v of
        J_num q \<Rightarrow> if of_int \<lfloor>q\<rfloor> \<noteq> q \<or> q < of_int lo \<or> of_int hi < q then added Out_of_range path
          else gives (Some \<lfloor>q\<rfloor>)
      | _ \<Rightarrow> added Invalid_type path)"

definition nat_d :: "nat \<Rightarrow> nat \<Rightarrow> json \<Rightarrow> string \<Rightarrow> nat dec" where
  "nat_d lo hi v path = (let (es, x) = int_d (int lo) (int hi) v path in (es, map_option nat x))"

definition oneOf :: "(json \<times> 'a) list \<Rightarrow> json \<Rightarrow> string \<Rightarrow> 'a dec" where
  "oneOf allowed v path = (case map_of allowed v of None \<Rightarrow> added Invalid_enum path | x \<Rightarrow> gives x)"

definition noExtraKeys :: "(string \<times> json) list \<Rightarrow> string \<Rightarrow> string list \<Rightarrow> unit dec" where
  "noExtraKeys obj path known =
     (concat (map (\<lambda>k. issue_if (k \<notin> set known) Unknown_field [path]) (dkeys obj)), None)"

fun elements :: "(json \<Rightarrow> string \<Rightarrow> 'a dec) \<Rightarrow> string \<Rightarrow> nat \<Rightarrow> json list \<Rightarrow> model_issue list \<times> 'a list" where
  "elements each path i [] = ([], [])"
| "elements each path i (v # vs) =
     (let (es, x) = each v (path @ ''['' @ show_nat i @ '']''); (es', xs) = elements each path (i + 1) vs in
      (es @ es', (case x of None \<Rightarrow> xs | Some y \<Rightarrow> y # xs)))"

text \<open>\<open>arrayOf\<close> returns the empty list where it is not given an array.\<close>

definition arrayOf :: "(json \<Rightarrow> string \<Rightarrow> 'a dec) \<Rightarrow> json \<Rightarrow> string \<Rightarrow> 'a list dec" where
  "arrayOf each v path =
     (case v of
        J_arr vs \<Rightarrow> let (es, xs) = elements each path 0 vs in (es, Some xs)
      | _ \<Rightarrow> ([issue Invalid_type [path]], Some []))"

definition sub :: "string \<Rightarrow> string \<Rightarrow> string" where
  "sub path name = path @ ''.'' @ name"

definition optional :: "(json \<Rightarrow> string \<Rightarrow> 'a dec) \<Rightarrow> (string \<times> json) list \<Rightarrow> string \<Rightarrow> string \<Rightarrow> 'a dec" where
  "optional d obj path name =
     (case dget obj name of None \<Rightarrow> gives None | Some v \<Rightarrow> d v (sub path name))"

definition required :: "(json \<Rightarrow> string \<Rightarrow> 'a dec) \<Rightarrow> (string \<times> json) list \<Rightarrow> string \<Rightarrow> string \<Rightarrow> 'a dec" where
  "required d obj path name =
     (case dget obj name of None \<Rightarrow> added Missing_field path | Some v \<Rightarrow> d v (sub path name))"

text \<open>A property read without asking whether it is there: a missing one is of the wrong type, or not
  one of the values.\<close>

definition direct :: "model_issue_code \<Rightarrow> (json \<Rightarrow> string \<Rightarrow> 'a dec) \<Rightarrow> (string \<times> json) list \<Rightarrow> string \<Rightarrow> string \<Rightarrow> 'a dec" where
  "direct missing d obj path name =
     (case dget obj name of None \<Rightarrow> added missing (sub path name) | Some v \<Rightarrow> d v (sub path name))"

definition object_d :: "((string \<times> json) list \<Rightarrow> string \<Rightarrow> 'a dec) \<Rightarrow> json \<Rightarrow> string \<Rightarrow> 'a dec" where
  "object_d d v path = (case v of J_obj obj \<Rightarrow> d obj path | _ \<Rightarrow> added Invalid_type path)"

section \<open>Encodings\<close>

text \<open>An object as it is written: the properties that are there.\<close>

fun fields :: "(string \<times> json option) list \<Rightarrow> (string \<times> json) list" where
  "fields [] = []"
| "fields ((n, x) # rest) = (case x of None \<Rightarrow> fields rest | Some v \<Rightarrow> (n, v) # fields rest)"

definition enc_nat :: "nat \<Rightarrow> json" where "enc_nat n = J_num (of_nat n)"
definition enc_int :: "int \<Rightarrow> json" where "enc_int n = J_num (of_int n)"

definition enc_list :: "('a \<Rightarrow> json) \<Rightarrow> 'a list \<Rightarrow> json" where
  "enc_list enc xs = J_arr (map enc xs)"

text \<open>A decoder is exact for an encoding and a set of values: without issues it gives one of them, and
  it reads back each of them.\<close>

definition exact :: "(json \<Rightarrow> string \<Rightarrow> 'a dec) \<Rightarrow> ('a \<Rightarrow> json) \<Rightarrow> ('a \<Rightarrow> bool) \<Rightarrow> bool" where
  "exact d enc ok \<longleftrightarrow>
     (\<forall>v path. fst (d v path) = [] \<longrightarrow> (\<exists>x. snd (d v path) = Some x \<and> ok x)) \<and>
     (\<forall>x path. ok x \<longrightarrow> d (enc x) path = ([], Some x))"

named_theorems readback "what a decoder reads from what was written"
named_theorems readsound "what a decoder without issues has read"
named_theorems decodes "when a decoder adds no issue, and what it gives then"

lemma exactI:
  assumes "\<And>v path. fst (d v path) = [] \<Longrightarrow> \<exists>x. snd (d v path) = Some x \<and> ok x"
    and "\<And>x path. ok x \<Longrightarrow> d (enc x) path = ([], Some x)"
  shows "exact d enc ok"
  using assms by (simp add: exact_def)

lemma exact_sound: "exact d enc ok \<Longrightarrow> fst (d v path) = [] \<Longrightarrow> \<exists>x. snd (d v path) = Some x \<and> ok x"
  by (simp add: exact_def)

lemma exact_complete: "exact d enc ok \<Longrightarrow> ok x \<Longrightarrow> d (enc x) path = ([], Some x)"
  by (simp add: exact_def)

lemma bindD_issues [decodes]: "fst (bindD m f) = [] \<longleftrightarrow> fst m = [] \<and> fst (f (snd m)) = []"
  and bindD_value [decodes]: "snd (bindD m f) = snd (f (snd m))"
  by (simp_all add: bindD_def)

lemma bindD_pure [simp]: "bindD ([], x) f = f x"
  by (simp add: bindD_def)

lemma gives_simps [simp]: "fst (gives x) = []" "snd (gives x) = x"
  by (simp_all add: gives_def)

lemma added_simps [simp]: "fst (added c p) \<noteq> []" "snd (added c p) = None"
  by (simp_all add: added_def)

lemma noExtraKeys_value [simp]: "snd (noExtraKeys obj path known) = None"
  by (simp add: noExtraKeys_def)

lemma noExtraKeys_issues: "fst (noExtraKeys obj path known) = [] \<longleftrightarrow> set (dkeys obj) \<subseteq> set known"
  by (auto simp: noExtraKeys_def issue_if_def)

lemma fields_keys: "set (dkeys (fields l)) \<subseteq> fst ` set l"
  by (induction l rule: fields.induct) (auto split: option.splits)

lemma noExtraKeys_fields: "fst ` set l \<subseteq> set known \<Longrightarrow> noExtraKeys (fields l) path known = ([], None)"
  using fields_keys [of l] noExtraKeys_issues [of "fields l" path known]
  by (metis noExtraKeys_value prod.collapse order_trans)

lemma exact_str: "exact str_d J_str (\<lambda>_. True)"
  by (rule exactI) (auto simp: str_d_def gives_def split: json.splits)

lemma exact_bool: "exact bool_d J_bool (\<lambda>_. True)"
  by (rule exactI) (auto simp: bool_d_def gives_def split: json.splits)

lemma int_d_value: "fst (int_d lo hi v path) = [] \<longleftrightarrow> (\<exists>x. int_d lo hi v path = gives (Some x) \<and> lo \<le> x \<and> x \<le> hi)"
  by (auto simp: int_d_def split: json.splits) (auto simp: gives_def added_def not_less dest: of_int_le_iff [THEN iffD1])

lemma exact_int: "exact (int_d lo hi) enc_int (\<lambda>x. lo \<le> x \<and> x \<le> hi)"
proof (rule exactI)
  fix v path assume "fst (int_d lo hi v path) = []"
  then show "\<exists>x. snd (int_d lo hi v path) = Some x \<and> lo \<le> x \<and> x \<le> hi" by (auto simp: int_d_value)
next
  fix x path assume "lo \<le> x \<and> x \<le> hi"
  then show "int_d lo hi (enc_int x) path = ([], Some x)" by (simp add: int_d_def enc_int_def gives_def)
qed

lemma exact_nat: "exact (nat_d lo hi) enc_nat (\<lambda>x. lo \<le> x \<and> x \<le> hi)"
proof (rule exactI)
  fix v path assume "fst (nat_d lo hi v path) = []"
  then have "fst (int_d (int lo) (int hi) v path) = []" by (simp add: nat_d_def split: prod.splits)
  then obtain x where "int_d (int lo) (int hi) v path = gives (Some x)" "int lo \<le> x" "x \<le> int hi"
    by (auto simp: int_d_value)
  then show "\<exists>x. snd (nat_d lo hi v path) = Some x \<and> lo \<le> x \<and> x \<le> hi"
    by (auto simp: nat_d_def gives_def le_nat_iff nat_le_iff)
next
  fix x path assume "lo \<le> x \<and> x \<le> hi"
  then show "nat_d lo hi (enc_nat x) path = ([], Some x)"
    using exact_complete [OF exact_int, of "int lo" "int x" "int hi" path]
    by (simp add: nat_d_def enc_nat_def enc_int_def)
qed

lemma exact_oneOf:
  assumes "\<And>x. map_of allowed (enc x) = Some x"
  shows "exact (oneOf allowed) enc (\<lambda>_. True)"
  by (rule exactI) (use assms in \<open>auto simp: oneOf_def gives_def split: option.splits\<close>)

lemma elements_sound:
  assumes "exact d enc ok" "fst (elements d path i vs) = []"
  shows "list_all ok (snd (elements d path i vs))"
  using assms(2)
proof (induction vs arbitrary: i)
  case (Cons v vs)
  then show ?case using exact_sound [OF assms(1), of v "path @ ''['' @ show_nat i @ '']''"]
    by (auto split: prod.splits option.splits) (metis fst_conv snd_conv)+
qed simp

lemma elements_complete:
  assumes "exact d enc ok" "list_all ok xs"
  shows "elements d path i (map enc xs) = ([], xs)"
  using assms(2) by (induction xs arbitrary: i) (simp_all add: exact_complete [OF assms(1)])

lemma exact_array: "exact d enc ok \<Longrightarrow> exact (arrayOf d) (enc_list enc) (list_all ok)"
proof (rule exactI)
  fix v path assume "exact d enc ok" "fst (arrayOf d v path) = []"
  then show "\<exists>xs. snd (arrayOf d v path) = Some xs \<and> list_all ok xs"
    using elements_sound [of d enc ok path 0]
    by (cases v) (auto simp: arrayOf_def split: prod.splits, metis fst_conv snd_conv)
next
  fix xs path assume "exact d enc ok" "list_all ok xs"
  then show "arrayOf d (enc_list enc xs) path = ([], Some xs)"
    by (simp add: arrayOf_def enc_list_def elements_complete)
qed

text \<open>The decoders of a property.\<close>

lemma optional_sound:
  assumes "exact d enc ok" "fst (optional d obj path name) = []"
  shows "pred_option ok (snd (optional d obj path name))"
  using exact_sound [OF assms(1)] assms(2) by (fastforce simp: optional_def split: option.splits)

lemma required_sound:
  assumes "exact d enc ok" "fst (required d obj path name) = []"
  shows "\<exists>x. snd (required d obj path name) = Some x \<and> ok x"
  using exact_sound [OF assms(1)] assms(2) by (auto simp: required_def split: option.splits)

lemma direct_sound:
  assumes "exact d enc ok" "fst (direct c d obj path name) = []"
  shows "\<exists>x. snd (direct c d obj path name) = Some x \<and> ok x"
  using exact_sound [OF assms(1)] assms(2) by (auto simp: direct_def split: option.splits)

text \<open>Reading what was written.\<close>

definition opt_at :: "(json \<Rightarrow> string \<Rightarrow> 'a dec) \<Rightarrow> json option \<Rightarrow> string \<Rightarrow> 'a dec" where
  "opt_at d x path = (case x of None \<Rightarrow> gives None | Some v \<Rightarrow> d v path)"

lemma opt_at_simps [readback]: "opt_at d None path = ([], None)" "opt_at d (Some v) path = d v path"
  by (simp_all add: opt_at_def gives_def)

lemma optional_at [readback]: "optional d (fields l) path name = opt_at d (dget (fields l) name) (sub path name)"
  by (simp add: optional_def opt_at_def)

lemma required_at [readback]: "dget (fields l) name = Some v \<Longrightarrow> required d (fields l) path name = d v (sub path name)"
  by (simp add: required_def)

lemma direct_at [readback]: "dget (fields l) name = Some v \<Longrightarrow> direct c d (fields l) path name = d v (sub path name)"
  by (simp add: direct_def)

lemma dget_fields_here [readback]: "n \<notin> fst ` set rest \<Longrightarrow> dget (fields ((n, x) # rest)) n = x"
proof -
  assume "n \<notin> fst ` set rest"
  then have "dget (fields rest) n = None" using fields_keys [of rest] by (auto simp: dget_None_iff)
  then show ?thesis by (cases x) simp_all
qed

lemma dget_fields_later [readback]: "k \<noteq> n \<Longrightarrow> dget (fields ((n, x) # rest)) k = dget (fields rest) k"
  by (cases x) simp_all

lemma opt_at_complete:
  assumes "exact d enc ok" "pred_option ok x"
  shows "opt_at d (map_option enc x) path = ([], x)"
  using assms(2) exact_complete [OF assms(1)] by (cases x) (auto simp: opt_at_def gives_def)

declare fields.simps [simp del] noExtraKeys_fields [readback]

lemma pred_option_any [simp]: "pred_option (\<lambda>_. True) x"
  by (cases x) simp_all

lemma list_all_any [simp]: "list_all (\<lambda>_. True) = (\<lambda>_. True)"
  by (auto simp: list_all_iff)

lemmas completes = exact_complete opt_at_complete
lemmas sounds = required_sound optional_sound direct_sound

lemmas [readback] = completes [OF exact_str, simplified] completes [OF exact_bool, simplified]
  completes [OF exact_int] completes [OF exact_nat] completes [OF exact_array [OF exact_str], simplified]
lemmas [readsound] = sounds [OF exact_str] sounds [OF exact_bool] sounds [OF exact_int] sounds [OF exact_nat]
  sounds [OF exact_array [OF exact_str]]

lemma exact_object:
  assumes "\<And>obj path. fst (d obj path) = [] \<Longrightarrow> \<exists>x. snd (d obj path) = Some x \<and> ok x"
    and "\<And>x path. ok x \<Longrightarrow> d (enc x) path = ([], Some x)"
  shows "exact (object_d d) (\<lambda>x. J_obj (enc x)) ok"
  by (rule exactI) (use assms in \<open>auto simp: object_d_def split: json.splits\<close>)

section \<open>Checked values\<close>

text \<open>A value decoded, and refused with a code when it fails a test.\<close>

definition checked :: "('a \<Rightarrow> bool) \<Rightarrow> model_issue_code \<Rightarrow> (json \<Rightarrow> string \<Rightarrow> 'a dec) \<Rightarrow> json \<Rightarrow> string \<Rightarrow> 'a dec" where
  "checked test c d v path =
     bindD (d v path) (\<lambda>x. case x of None \<Rightarrow> gives None | Some y \<Rightarrow> if test y then gives (Some y) else added c path)"

lemma exact_checked:
  assumes "exact d enc ok"
  shows "exact (checked test c d) enc (\<lambda>x. ok x \<and> test x)"
  by (rule exactI)
    (auto simp: checked_def decodes gives_def exact_complete [OF assms] dest: exact_sound [OF assms]
      split: option.splits if_splits dest!: exact_sound [OF assms])

lemmas [readback] = completes [OF exact_checked [OF exact_str], simplified]
lemmas [readsound] = sounds [OF exact_checked [OF exact_str], simplified]

text \<open>A list of strings that may not be empty, and of which none may come twice.\<close>

fun repeated :: "string \<Rightarrow> nat \<Rightarrow> string list \<Rightarrow> json list \<Rightarrow> model_issue list" where
  "repeated path i seen_before [] = []"
| "repeated path i seen_before (v # vs) =
     (case v of
        J_str s \<Rightarrow> issue_if (s \<in> set seen_before) Duplicate_name [path @ ''['' @ show_nat i @ '']''] @ repeated path (i + 1) (s # seen_before) vs
      | _ \<Rightarrow> repeated path (i + 1) seen_before vs)"

lemma repeated_distinct:
  "repeated path i seen_before (map J_str xs) = [] \<longleftrightarrow> distinct xs \<and> set xs \<inter> set seen_before = {}"
  by (induction xs arbitrary: i seen_before) (auto simp: issue_if_def)

definition elements_of :: "json \<Rightarrow> json list" where
  "elements_of v = (case v of J_arr vs \<Rightarrow> vs | _ \<Rightarrow> [])"

lemma elements_strings:
  assumes "fst (elements (checked test c str_d) path i vs) = []"
  shows "vs = map J_str (snd (elements (checked test c str_d) path i vs))"
  using assms
proof (induction vs arbitrary: i)
  case (Cons v vs)
  let ?p = "path @ ''['' @ show_nat i @ '']''"
  have "fst (checked test c str_d v ?p) = []" and rest: "fst (elements (checked test c str_d) path (i + 1) vs) = []"
    using Cons.prems by (auto split: prod.splits)
  then obtain s where "v = J_str s" "checked test c str_d v ?p = ([], Some s)"
    by (cases v) (auto simp: checked_def str_d_def gives_def added_def bindD_def split: if_splits)
  moreover obtain es xs where e: "elements (checked test c str_d) path (i + 1) vs = (es, xs)" by fastforce
  moreover have "vs = map J_str xs" using Cons.IH [OF rest] unfolding e by simp
  ultimately show ?case by simp
qed simp

lemma arrayOf_strings:
  assumes "fst (arrayOf (checked test c str_d) v path) = []" "snd (arrayOf (checked test c str_d) v path) = Some xs"
  shows "v = J_arr (map J_str xs)"
  using assms elements_strings [of test c path 0]
  by (cases v) (auto simp: arrayOf_def split: prod.splits, metis fst_conv snd_conv)

lemma exact_object_fields:
  assumes "\<And>obj path. fst (d obj path) = [] \<Longrightarrow> \<exists>x. snd (d obj path) = Some x \<and> ok x"
    and "\<And>x path. ok x \<Longrightarrow> d (fields (props x)) path = ([], Some x)"
  shows "exact (object_d d) (\<lambda>x. J_obj (fields (props x))) ok"
  by (rule exact_object) (use assms in auto)

end
