(* ===== verification/Decode_Parts.thy ===== *)
theory Decode_Parts
  imports Decode_Base
begin

text \<open>
  The decoders of the parts of a model, \<^verbatim>\<open>src/src/model/decode.ts\<close>, each with the encoding it reads
  back and the values it lets in: it is exact for them.
\<close>

section \<open>Enumerations\<close>

fun enc_udp_preset :: "udp_preset \<Rightarrow> json" where
  "enc_udp_preset Dns = J_str ''dns''"
| "enc_udp_preset Wireguard = J_str ''wireguard''"
| "enc_udp_preset Game_generic = J_str ''game_generic''"
| "enc_udp_preset Custom_udp = J_str ''custom''"

definition UDP_PRESETS :: "(json \<times> udp_preset) list" where
  "UDP_PRESETS = [(J_str ''dns'', Dns), (J_str ''wireguard'', Wireguard),
     (J_str ''game_generic'', Game_generic), (J_str ''custom'', Custom_udp)]"

lemma exact_udp_preset: "exact (oneOf UDP_PRESETS) enc_udp_preset (\<lambda>_. True)"
  by (rule exact_oneOf) (case_tac x; simp add: UDP_PRESETS_def)

fun enc_protocol :: "listener_protocol \<Rightarrow> json" where
  "enc_protocol L_http = J_str ''http''"
| "enc_protocol L_https = J_str ''https''"
| "enc_protocol L_tls_passthrough = J_str ''tls_passthrough''"
| "enc_protocol L_tcp = J_str ''tcp''"
| "enc_protocol L_udp = J_str ''udp''"

definition LISTENER_PROTOCOLS :: "(json \<times> listener_protocol) list" where
  "LISTENER_PROTOCOLS = [(J_str ''http'', L_http), (J_str ''https'', L_https),
     (J_str ''tls_passthrough'', L_tls_passthrough), (J_str ''tcp'', L_tcp), (J_str ''udp'', L_udp)]"

lemma exact_protocol: "exact (oneOf LISTENER_PROTOCOLS) enc_protocol (\<lambda>_. True)"
  by (rule exact_oneOf) (case_tac x; simp add: LISTENER_PROTOCOLS_def)

fun enc_tls_version :: "tls_version \<Rightarrow> json" where
  "enc_tls_version Tls_1_2 = J_str ''1.2''"
| "enc_tls_version Tls_1_3 = J_str ''1.3''"

definition TLS_VERSIONS :: "(json \<times> tls_version) list" where
  "TLS_VERSIONS = [(J_str ''1.2'', Tls_1_2), (J_str ''1.3'', Tls_1_3)]"

lemma exact_tls_version: "exact (oneOf TLS_VERSIONS) enc_tls_version (\<lambda>_. True)"
  by (rule exact_oneOf) (case_tac x; simp add: TLS_VERSIONS_def)

fun enc_mismatch :: "sni_host_mismatch \<Rightarrow> json" where
  "enc_mismatch Mismatch_allow = J_str ''allow''"
| "enc_mismatch Mismatch_reject_421 = J_str ''reject_421''"

definition SNI_HOST_MISMATCH :: "(json \<times> sni_host_mismatch) list" where
  "SNI_HOST_MISMATCH = [(J_str ''allow'', Mismatch_allow), (J_str ''reject_421'', Mismatch_reject_421)]"

lemma exact_mismatch: "exact (oneOf SNI_HOST_MISMATCH) enc_mismatch (\<lambda>_. True)"
  by (rule exact_oneOf) (case_tac x; simp add: SNI_HOST_MISMATCH_def)

fun enc_cipher_policy :: "cipher_policy_ref \<Rightarrow> json" where
  "enc_cipher_policy Modern_2026 = J_str ''modern-2026''"
| "enc_cipher_policy Intermediate_2026 = J_str ''intermediate-2026''"

definition CIPHER_POLICIES :: "(json \<times> cipher_policy_ref) list" where
  "CIPHER_POLICIES = [(J_str ''modern-2026'', Modern_2026), (J_str ''intermediate-2026'', Intermediate_2026)]"

lemma exact_cipher_policy: "exact (oneOf CIPHER_POLICIES) enc_cipher_policy (\<lambda>_. True)"
  by (rule exact_oneOf) (case_tac x; simp add: CIPHER_POLICIES_def)

fun enc_class :: "protocol_class \<Rightarrow> json" where
  "enc_class C_http = J_str ''http''"
| "enc_class C_tcp = J_str ''tcp''"
| "enc_class C_udp = J_str ''udp''"

definition PROTOCOL_CLASSES :: "(json \<times> protocol_class) list" where
  "PROTOCOL_CLASSES = [(J_str ''http'', C_http), (J_str ''tcp'', C_tcp), (J_str ''udp'', C_udp)]"

lemma exact_class: "exact (oneOf PROTOCOL_CLASSES) enc_class (\<lambda>_. True)"
  by (rule exact_oneOf) (case_tac x; simp add: PROTOCOL_CLASSES_def)

fun enc_algorithm :: "algorithm \<Rightarrow> json" where
  "enc_algorithm Round_robin = J_str ''round_robin''"
| "enc_algorithm Source_ip_hash = J_str ''source_ip_hash''"
| "enc_algorithm Hash_key = J_str ''hash''"
| "enc_algorithm Least_conn = J_str ''least_conn''"

definition ALGORITHMS :: "(json \<times> algorithm) list" where
  "ALGORITHMS = [(J_str ''round_robin'', Round_robin), (J_str ''source_ip_hash'', Source_ip_hash),
     (J_str ''hash'', Hash_key), (J_str ''least_conn'', Least_conn)]"

lemma exact_algorithm: "exact (oneOf ALGORITHMS) enc_algorithm (\<lambda>_. True)"
  by (rule exact_oneOf) (case_tac x; simp add: ALGORITHMS_def)

fun enc_real_ip :: "real_ip_header_name \<Rightarrow> json" where
  "enc_real_ip CF_Connecting_IP = J_str ''CF-Connecting-IP''"
| "enc_real_ip X_Forwarded_For = J_str ''X-Forwarded-For''"
| "enc_real_ip X_Real_IP = J_str ''X-Real-IP''"

definition REAL_IP_HEADERS :: "(json \<times> real_ip_header_name) list" where
  "REAL_IP_HEADERS = [(J_str ''CF-Connecting-IP'', CF_Connecting_IP), (J_str ''X-Forwarded-For'', X_Forwarded_For),
     (J_str ''X-Real-IP'', X_Real_IP)]"

lemma exact_real_ip: "exact (oneOf REAL_IP_HEADERS) enc_real_ip (\<lambda>_. True)"
  by (rule exact_oneOf) (case_tac x; simp add: REAL_IP_HEADERS_def)

fun enc_probe_mode :: "probe_mode \<Rightarrow> json" where
  "enc_probe_mode Mode_none = J_str ''none''"
| "enc_probe_mode Mode_active = J_str ''active''"

definition PROBE_MODES :: "(json \<times> probe_mode) list" where
  "PROBE_MODES = [(J_str ''none'', Mode_none), (J_str ''active'', Mode_active)]"

lemma exact_probe_mode: "exact (oneOf PROBE_MODES) enc_probe_mode (\<lambda>_. True)"
  by (rule exact_oneOf) (case_tac x; simp add: PROBE_MODES_def)

fun enc_probe_protocol :: "probe_protocol \<Rightarrow> json" where
  "enc_probe_protocol Probe_tcp_connect = J_str ''tcp_connect''"
| "enc_probe_protocol Probe_http = J_str ''http''"

definition PROBE_PROTOCOLS :: "(json \<times> probe_protocol) list" where
  "PROBE_PROTOCOLS = [(J_str ''tcp_connect'', Probe_tcp_connect), (J_str ''http'', Probe_http)]"

lemma exact_probe_protocol: "exact (oneOf PROBE_PROTOCOLS) enc_probe_protocol (\<lambda>_. True)"
  by (rule exact_oneOf) (case_tac x; simp add: PROBE_PROTOCOLS_def)

fun enc_send_proxy :: "send_proxy_protocol \<Rightarrow> json" where
  "enc_send_proxy Proxy_v1 = J_str ''v1''"

definition SEND_PROXY_PROTOCOL :: "(json \<times> send_proxy_protocol) list" where
  "SEND_PROXY_PROTOCOL = [(J_str ''v1'', Proxy_v1)]"

lemma exact_send_proxy: "exact (oneOf SEND_PROXY_PROTOCOL) enc_send_proxy (\<lambda>_. True)"
  by (rule exact_oneOf) (case_tac x; simp add: SEND_PROXY_PROTOCOL_def)

fun enc_discovery_source :: "discovery_source_kind \<Rightarrow> json" where
  "enc_discovery_source Dns_srv = J_str ''dns-srv''"
| "enc_discovery_source Consul = J_str ''consul''"
| "enc_discovery_source Kubernetes = J_str ''kubernetes''"
| "enc_discovery_source File_source = J_str ''file''"

definition DISCOVERY_SOURCE_KINDS :: "(json \<times> discovery_source_kind) list" where
  "DISCOVERY_SOURCE_KINDS = [(J_str ''dns-srv'', Dns_srv), (J_str ''consul'', Consul),
     (J_str ''kubernetes'', Kubernetes), (J_str ''file'', File_source)]"

lemma exact_discovery_source: "exact (oneOf DISCOVERY_SOURCE_KINDS) enc_discovery_source (\<lambda>_. True)"
  by (rule exact_oneOf) (case_tac x; simp add: DISCOVERY_SOURCE_KINDS_def)

fun enc_empty_means :: "empty_means \<Rightarrow> json" where
  "enc_empty_means Keep_last = J_str ''keep''"
| "enc_empty_means Really_empty = J_str ''empty''"

definition EMPTY_MEANS :: "(json \<times> empty_means) list" where
  "EMPTY_MEANS = [(J_str ''keep'', Keep_last), (J_str ''empty'', Really_empty)]"

lemma exact_empty_means: "exact (oneOf EMPTY_MEANS) enc_empty_means (\<lambda>_. True)"
  by (rule exact_oneOf) (case_tac x; simp add: EMPTY_MEANS_def)

fun enc_address_source :: "address_source_kind \<Rightarrow> json" where
  "enc_address_source Cloudflare = J_str ''cloudflare''"
| "enc_address_source Aws = J_str ''aws''"
| "enc_address_source Gcp = J_str ''gcp''"
| "enc_address_source Fastly = J_str ''fastly''"
| "enc_address_source Url_source = J_str ''url''"

definition ADDRESS_SOURCE_KINDS :: "(json \<times> address_source_kind) list" where
  "ADDRESS_SOURCE_KINDS = [(J_str ''cloudflare'', Cloudflare), (J_str ''aws'', Aws), (J_str ''gcp'', Gcp),
     (J_str ''fastly'', Fastly), (J_str ''url'', Url_source)]"

lemma exact_address_source: "exact (oneOf ADDRESS_SOURCE_KINDS) enc_address_source (\<lambda>_. True)"
  by (rule exact_oneOf) (case_tac x; simp add: ADDRESS_SOURCE_KINDS_def)

fun enc_family :: "address_family \<Rightarrow> json" where
  "enc_family Ipv4 = J_str ''ipv4''"
| "enc_family Ipv6 = J_str ''ipv6''"

definition FAMILIES :: "(json \<times> address_family) list" where
  "FAMILIES = [(J_str ''ipv4'', Ipv4), (J_str ''ipv6'', Ipv6)]"

lemma exact_family: "exact (oneOf FAMILIES) enc_family (\<lambda>_. True)"
  by (rule exact_oneOf) (case_tac x; simp add: FAMILIES_def)

definition REDIRECT_STATUSES :: "nat list" where "REDIRECT_STATUSES = [301, 302, 307, 308]"
definition REJECT_STATUSES :: "nat list" where "REJECT_STATUSES = [403, 404, 444]"

definition status_table :: "nat list \<Rightarrow> (json \<times> nat) list" where
  "status_table = map (\<lambda>n. (enc_nat n, n))"

lemma exact_status: "exact (oneOf (status_table ns)) enc_nat (\<lambda>n. n \<in> set ns)"
proof (rule exactI)
  fix v path assume "fst (oneOf (status_table ns) v path) = []"
  then show "\<exists>x. snd (oneOf (status_table ns) v path) = Some x \<and> x \<in> set ns"
    by (auto simp: oneOf_def status_table_def split: option.splits dest: map_of_SomeD)
next
  fix x path assume x: "x \<in> set ns"
  have "map_of (map (\<lambda>n. (enc_nat n, n)) ns) (enc_nat x) = Some x"
    using x by (induction ns) (auto simp: enc_nat_def)
  then show "oneOf (status_table ns) (enc_nat x) path = ([], Some x)"
    by (simp add: oneOf_def status_table_def gives_def)
qed

lemmas [readback] =
  completes [OF exact_udp_preset, simplified] completes [OF exact_protocol, simplified]
  completes [OF exact_tls_version, simplified] completes [OF exact_mismatch, simplified]
  completes [OF exact_cipher_policy, simplified] completes [OF exact_class, simplified]
  completes [OF exact_algorithm, simplified] completes [OF exact_real_ip, simplified]
  completes [OF exact_probe_mode, simplified] completes [OF exact_probe_protocol, simplified]
  completes [OF exact_send_proxy, simplified] completes [OF exact_discovery_source, simplified]
  completes [OF exact_empty_means, simplified] completes [OF exact_address_source, simplified]
  completes [OF exact_family, simplified] completes [OF exact_status]

lemmas [readsound] =
  sounds [OF exact_udp_preset] sounds [OF exact_protocol] sounds [OF exact_tls_version] sounds [OF exact_mismatch]
  sounds [OF exact_cipher_policy] sounds [OF exact_class] sounds [OF exact_algorithm] sounds [OF exact_real_ip]
  sounds [OF exact_probe_mode] sounds [OF exact_probe_protocol] sounds [OF exact_send_proxy]
  sounds [OF exact_discovery_source] sounds [OF exact_empty_means] sounds [OF exact_address_source]
  sounds [OF exact_family] sounds [OF exact_status]

section \<open>Backends\<close>

definition backend_fields :: "(string \<times> json) list \<Rightarrow> string \<Rightarrow> backend dec" where
  "backend_fields v path =
     bindD (noExtraKeys v path [''key'', ''pool'', ''host'', ''port'', ''weight'', ''softMaxConns'', ''isBackup'']) (\<lambda>_.
     bindD (required str_d v path ''key'') (\<lambda>key.
     bindD (required str_d v path ''pool'') (\<lambda>pool.
     bindD (required str_d v path ''host'') (\<lambda>host.
     bindD (required (nat_d 1 65535) v path ''port'') (\<lambda>port.
     bindD (required (nat_d 1 1000000) v path ''weight'') (\<lambda>weight.
     bindD (optional (nat_d 1 1000000) v path ''softMaxConns'') (\<lambda>softMaxConns.
     bindD (optional bool_d v path ''isBackup'') (\<lambda>isBackup.
     gives (Option.bind key (\<lambda>k. Option.bind pool (\<lambda>p. Option.bind host (\<lambda>h. Option.bind port (\<lambda>n. Option.bind weight (\<lambda>w.
       Some \<lparr>be_key = k, be_pool = p, be_host = h, be_port = n, be_weight = w, be_softMaxConns = softMaxConns,
         be_isBackup = isBackup\<rparr>))))))))))))))"

definition decodeBackend :: "json \<Rightarrow> string \<Rightarrow> backend dec" where
  "decodeBackend = object_d backend_fields"

definition enc_backend :: "backend \<Rightarrow> json" where
  "enc_backend = (\<lambda>b. J_obj (fields [(''key'', Some (J_str (be_key b))), (''pool'', Some (J_str (be_pool b))),
     (''host'', Some (J_str (be_host b))), (''port'', Some (enc_nat (be_port b))), (''weight'', Some (enc_nat (be_weight b))),
     (''softMaxConns'', map_option enc_nat (be_softMaxConns b)), (''isBackup'', map_option J_bool (be_isBackup b))]))"

definition ok_backend :: "backend \<Rightarrow> bool" where
  "ok_backend b \<longleftrightarrow> 1 \<le> be_port b \<and> be_port b \<le> 65535 \<and> 1 \<le> be_weight b \<and> be_weight b \<le> 1000000
     \<and> pred_option (\<lambda>n. 1 \<le> n \<and> n \<le> 1000000) (be_softMaxConns b)"

lemma exact_backend: "exact decodeBackend enc_backend ok_backend"
  unfolding decodeBackend_def enc_backend_def
  by (rule exact_object_fields)
    ((auto simp: backend_fields_def ok_backend_def decodes dest!: readsound)[1],
     simp add: backend_fields_def ok_backend_def readback gives_def)

section \<open>Pools\<close>

definition discovery_first :: "char \<Rightarrow> bool" where
  "discovery_first c \<longleftrightarrow> is_digit c \<or> is_lower c"

text \<open>A name of at most \<open>n\<close> characters with a class for the first and one for the others.\<close>

definition shaped :: "(char \<Rightarrow> bool) \<Rightarrow> (char \<Rightarrow> bool) \<Rightarrow> nat \<Rightarrow> string \<Rightarrow> bool" where
  "shaped first_ok rest_ok n s \<longleftrightarrow> (case s of [] \<Rightarrow> False | c # cs \<Rightarrow> first_ok c \<and> list_all rest_ok cs \<and> length s \<le> n)"

definition kube_label :: "string \<Rightarrow> bool" where
  "kube_label s \<longleftrightarrow> shaped discovery_first (\<lambda>c. discovery_first c \<or> c = CHR ''-'') 63 s \<and> discovery_first (last s)"

definition DISCOVERY_QUERY :: "discovery_source_kind \<Rightarrow> string \<Rightarrow> bool" where
  "DISCOVERY_QUERY source query =
     (case source of
        Dns_srv \<Rightarrow> shaped (\<lambda>c. is_alnum c \<or> c = CHR ''_'') (\<lambda>c. is_alnum c \<or> c \<in> {CHR ''_'', CHR ''.'', CHR ''-''}) 253 query
      | Consul \<Rightarrow> shaped is_alnum (\<lambda>c. is_alnum c \<or> c \<in> {CHR ''.'', CHR ''_'', CHR ''-''}) 128 query
      | Kubernetes \<Rightarrow> (case split_on CHR ''/'' query of [ns, svc] \<Rightarrow> kube_label ns \<and> kube_label svc | _ \<Rightarrow> False)
      | File_source \<Rightarrow> shaped (\<lambda>c. is_alnum c \<or> c \<in> {CHR ''_'', CHR ''-''}) (\<lambda>c. is_alnum c \<or> c \<in> {CHR ''.'', CHR ''_'', CHR ''-''}) 128 query)"

definition discovery_fields :: "(string \<times> json) list \<Rightarrow> string \<Rightarrow> pool_discovery dec" where
  "discovery_fields v path =
     bindD (noExtraKeys v path [''source'', ''query'', ''port'', ''emptyMeans'']) (\<lambda>_.
     bindD (required (oneOf DISCOVERY_SOURCE_KINDS) v path ''source'') (\<lambda>source.
     bindD (required str_d v path ''query'') (\<lambda>query.
     bindD (optional (nat_d 1 65535) v path ''port'') (\<lambda>port.
     bindD (optional (oneOf EMPTY_MEANS) v path ''emptyMeans'') (\<lambda>emptyMeans.
     case (source, query) of
       (Some src, Some q) \<Rightarrow>
         if \<not> DISCOVERY_QUERY src q then added Invalid_value (sub path ''query'')
         else gives (Some \<lparr>pd_source = src, pd_query = q, pd_port = port, pd_emptyMeans = emptyMeans\<rparr>)
     | _ \<Rightarrow> gives None)))))"

definition decodePoolDiscovery :: "json \<Rightarrow> string \<Rightarrow> pool_discovery dec" where
  "decodePoolDiscovery = object_d discovery_fields"

definition enc_discovery :: "pool_discovery \<Rightarrow> json" where
  "enc_discovery = (\<lambda>d. J_obj (fields [(''source'', Some (enc_discovery_source (pd_source d))), (''query'', Some (J_str (pd_query d))),
     (''port'', map_option enc_nat (pd_port d)), (''emptyMeans'', map_option enc_empty_means (pd_emptyMeans d))]))"

definition ok_discovery :: "pool_discovery \<Rightarrow> bool" where
  "ok_discovery d \<longleftrightarrow> DISCOVERY_QUERY (pd_source d) (pd_query d) \<and> pred_option (\<lambda>n. 1 \<le> n \<and> n \<le> 65535) (pd_port d)"

lemma exact_discovery: "exact decodePoolDiscovery enc_discovery ok_discovery"
  unfolding decodePoolDiscovery_def enc_discovery_def
  by (rule exact_object_fields)
    ((auto simp: discovery_fields_def ok_discovery_def decodes dest!: readsound split: if_splits)[1],
     simp add: discovery_fields_def ok_discovery_def readback gives_def)

definition upstream_tls_fields :: "(string \<times> json) list \<Rightarrow> string \<Rightarrow> upstream_tls dec" where
  "upstream_tls_fields v path =
     bindD (noExtraKeys v path [''enabled'', ''sni'', ''verify'', ''caBundle'']) (\<lambda>_.
     bindD (required bool_d v path ''enabled'') (\<lambda>enabled.
     bindD (optional str_d v path ''sni'') (\<lambda>sni.
     bindD (optional bool_d v path ''verify'') (\<lambda>verify.
     bindD (optional str_d v path ''caBundle'') (\<lambda>caBundle.
     gives (map_option (\<lambda>e. \<lparr>ut_enabled = e, ut_sni = sni, ut_verify = verify, ut_caBundle = caBundle\<rparr>) enabled))))))"

definition decodeUpstreamTls :: "json \<Rightarrow> string \<Rightarrow> upstream_tls dec" where
  "decodeUpstreamTls = object_d upstream_tls_fields"

definition enc_upstream_tls :: "upstream_tls \<Rightarrow> json" where
  "enc_upstream_tls = (\<lambda>t. J_obj (fields [(''enabled'', Some (J_bool (ut_enabled t))), (''sni'', map_option J_str (ut_sni t)),
     (''verify'', map_option J_bool (ut_verify t)), (''caBundle'', map_option J_str (ut_caBundle t))]))"

lemma exact_upstream_tls: "exact decodeUpstreamTls enc_upstream_tls (\<lambda>_. True)"
  unfolding decodeUpstreamTls_def enc_upstream_tls_def
  by (rule exact_object_fields)
    ((auto simp: upstream_tls_fields_def decodes dest!: readsound)[1],
     simp add: upstream_tls_fields_def readback gives_def)

definition statuses_d :: "json \<Rightarrow> string \<Rightarrow> nat list dec" where
  "statuses_d = checked (\<lambda>xs. xs \<noteq> []) Out_of_range (arrayOf (nat_d 100 599))"

lemma exact_statuses: "exact statuses_d (enc_list enc_nat) (\<lambda>xs. list_all (\<lambda>x. 100 \<le> x \<and> x \<le> 599) xs \<and> xs \<noteq> [])"
  unfolding statuses_d_def by (rule exact_checked [OF exact_array [OF exact_nat]])

lemmas [readback] = completes [OF exact_statuses]
lemmas [readsound] = sounds [OF exact_statuses]

definition slow_probe :: "nat option \<Rightarrow> nat option \<Rightarrow> bool" where
  "slow_probe intervalS timeoutS = (case (intervalS, timeoutS) of (Some i, Some t) \<Rightarrow> i < t | _ \<Rightarrow> False)"

definition health_check_fields :: "(string \<times> json) list \<Rightarrow> string \<Rightarrow> health_check dec" where
  "health_check_fields v path =
     bindD (noExtraKeys v path [''mode'', ''protocol'', ''port'', ''hostOverride'', ''path'', ''expectStatus'',
       ''expectBody'', ''hostHeader'', ''intervalS'', ''timeoutS'', ''rise'', ''fall'']) (\<lambda>_.
     bindD (optional (oneOf PROBE_MODES) v path ''mode'') (\<lambda>mode.
     bindD (optional (oneOf PROBE_PROTOCOLS) v path ''protocol'') (\<lambda>protocol.
     bindD (optional (nat_d 1 65535) v path ''port'') (\<lambda>port.
     bindD (optional str_d v path ''hostOverride'') (\<lambda>hostOverride.
     bindD (optional str_d v path ''hostHeader'') (\<lambda>hostHeader.
     bindD (optional (nat_d 1 86400) v path ''intervalS'') (\<lambda>intervalS.
     bindD (optional (nat_d 1 300) v path ''timeoutS'') (\<lambda>timeoutS.
     bindD (optional (nat_d 1 100) v path ''rise'') (\<lambda>rise.
     bindD (optional (nat_d 1 100) v path ''fall'') (\<lambda>fall.
     bindD (optional str_d v path ''path'') (\<lambda>p.
     bindD (optional str_d v path ''expectBody'') (\<lambda>expectBody.
     bindD (optional statuses_d v path ''expectStatus'') (\<lambda>expectStatus.
     bindD (issue_if (slow_probe intervalS timeoutS) Out_of_range [sub path ''timeoutS''], None :: unit option) (\<lambda>_.
     gives (Some \<lparr>hc_mode = mode, hc_protocol = protocol, hc_port = port, hc_hostOverride = hostOverride, hc_path = p,
       hc_expectStatus = expectStatus, hc_expectBody = expectBody, hc_hostHeader = hostHeader, hc_intervalS = intervalS,
       hc_timeoutS = timeoutS, hc_rise = rise, hc_fall = fall\<rparr>)))))))))))))))"

definition decodeHealthCheck :: "json \<Rightarrow> string \<Rightarrow> health_check dec" where
  "decodeHealthCheck = object_d health_check_fields"

definition enc_health_check :: "health_check \<Rightarrow> json" where
  "enc_health_check = (\<lambda>h. J_obj (fields [(''mode'', map_option enc_probe_mode (hc_mode h)),
     (''protocol'', map_option enc_probe_protocol (hc_protocol h)), (''port'', map_option enc_nat (hc_port h)),
     (''hostOverride'', map_option J_str (hc_hostOverride h)), (''path'', map_option J_str (hc_path h)),
     (''expectStatus'', map_option (enc_list enc_nat) (hc_expectStatus h)), (''expectBody'', map_option J_str (hc_expectBody h)),
     (''hostHeader'', map_option J_str (hc_hostHeader h)), (''intervalS'', map_option enc_nat (hc_intervalS h)),
     (''timeoutS'', map_option enc_nat (hc_timeoutS h)), (''rise'', map_option enc_nat (hc_rise h)),
     (''fall'', map_option enc_nat (hc_fall h))]))"

definition ok_health_check :: "health_check \<Rightarrow> bool" where
  "ok_health_check h \<longleftrightarrow> pred_option (\<lambda>n. 1 \<le> n \<and> n \<le> 65535) (hc_port h)
     \<and> pred_option (\<lambda>n. 1 \<le> n \<and> n \<le> 86400) (hc_intervalS h) \<and> pred_option (\<lambda>n. 1 \<le> n \<and> n \<le> 300) (hc_timeoutS h)
     \<and> pred_option (\<lambda>n. 1 \<le> n \<and> n \<le> 100) (hc_rise h) \<and> pred_option (\<lambda>n. 1 \<le> n \<and> n \<le> 100) (hc_fall h)
     \<and> pred_option (\<lambda>xs. list_all (\<lambda>x. 100 \<le> x \<and> x \<le> 599) xs \<and> xs \<noteq> []) (hc_expectStatus h)
     \<and> \<not> slow_probe (hc_intervalS h) (hc_timeoutS h)"

lemma exact_health_check: "exact decodeHealthCheck enc_health_check ok_health_check"
  unfolding decodeHealthCheck_def enc_health_check_def
  by (rule exact_object_fields)
    ((auto simp: health_check_fields_def ok_health_check_def decodes issue_if_def dest!: readsound split: if_splits)[1],
     simp add: health_check_fields_def ok_health_check_def readback gives_def issue_if_def)

lemmas [readback] = completes [OF exact_discovery] completes [OF exact_upstream_tls, simplified] completes [OF exact_health_check]
lemmas [readsound] = sounds [OF exact_discovery] sounds [OF exact_upstream_tls] sounds [OF exact_health_check]

definition pool_fields :: "(string \<times> json) list \<Rightarrow> string \<Rightarrow> pool dec" where
  "pool_fields v path =
     bindD (noExtraKeys v path [''key'', ''protocolClass'', ''algorithm'', ''hashKey'', ''sendProxyProtocol'', ''healthCheck'',
       ''upstreamTls'', ''discovery'']) (\<lambda>_.
     bindD (required str_d v path ''key'') (\<lambda>key.
     bindD (required (oneOf PROTOCOL_CLASSES) v path ''protocolClass'') (\<lambda>protocolClass.
     bindD (required (oneOf ALGORITHMS) v path ''algorithm'') (\<lambda>algorithm.
     bindD (optional str_d v path ''hashKey'') (\<lambda>hashKey.
     bindD (optional (oneOf SEND_PROXY_PROTOCOL) v path ''sendProxyProtocol'') (\<lambda>send.
     bindD (optional decodeHealthCheck v path ''healthCheck'') (\<lambda>healthCheck.
     bindD (optional decodeUpstreamTls v path ''upstreamTls'') (\<lambda>upstreamTls.
     bindD (optional decodePoolDiscovery v path ''discovery'') (\<lambda>discovery.
     gives (Option.bind key (\<lambda>k. Option.bind protocolClass (\<lambda>c. Option.bind algorithm (\<lambda>a.
       Some \<lparr>po_key = k, po_protocolClass = c, po_algorithm = a, po_hashKey = hashKey, po_sendProxyProtocol = send,
         po_healthCheck = healthCheck, po_upstreamTls = upstreamTls, po_discovery = discovery\<rparr>)))))))))))))"

definition decodePool :: "json \<Rightarrow> string \<Rightarrow> pool dec" where
  "decodePool = object_d pool_fields"

definition enc_pool :: "pool \<Rightarrow> json" where
  "enc_pool = (\<lambda>p. J_obj (fields [(''key'', Some (J_str (po_key p))), (''protocolClass'', Some (enc_class (po_protocolClass p))),
     (''algorithm'', Some (enc_algorithm (po_algorithm p))), (''hashKey'', map_option J_str (po_hashKey p)),
     (''sendProxyProtocol'', map_option enc_send_proxy (po_sendProxyProtocol p)),
     (''healthCheck'', map_option enc_health_check (po_healthCheck p)),
     (''upstreamTls'', map_option enc_upstream_tls (po_upstreamTls p)),
     (''discovery'', map_option enc_discovery (po_discovery p))]))"

definition ok_pool :: "pool \<Rightarrow> bool" where
  "ok_pool p \<longleftrightarrow> pred_option ok_health_check (po_healthCheck p) \<and> pred_option ok_discovery (po_discovery p)"

lemma exact_pool: "exact decodePool enc_pool ok_pool"
  unfolding decodePool_def enc_pool_def
  by (rule exact_object_fields)
    ((auto simp: pool_fields_def ok_pool_def decodes dest!: readsound)[1],
     simp add: pool_fields_def ok_pool_def readback gives_def)

end
