(* ===== verification/Decode_Http.thy ===== *)
theory Decode_Http
  imports Decode_Parts
begin

text \<open>
  The decoders of \<^verbatim>\<open>src/src/model/decode.ts\<close> for what an HTTP listener and an HTTP route hold: header
  rules, limits, actions and profiles.
\<close>

section \<open>Header rules\<close>

definition RESERVED_REQUEST_HEADERS :: "string list" where
  "RESERVED_REQUEST_HEADERS = [''x-forwarded-for'', ''x-forwarded-proto'', ''upgrade'', ''connection'']"

definition RESERVED_RESPONSE_HEADERS :: "string list" where
  "RESERVED_RESPONSE_HEADERS = [''strict-transport-security'']"

definition lower_name :: "string \<Rightarrow> string" where
  "lower_name = map lower_latin"

text \<open>The checks of one rule, in the order of the loop; \<open>seen\<close> are the names before it.\<close>

definition header_rule_fields :: "string list \<Rightarrow> string list \<Rightarrow> (string \<times> json) list \<Rightarrow> string \<Rightarrow> header_rule dec" where
  "header_rule_fields reserved seen_names raw path =
     bindD (noExtraKeys raw path [''name'', ''value'']) (\<lambda>_.
     bindD (direct Invalid_type str_d raw path ''name'') (\<lambda>name.
     bindD (direct Invalid_type str_d raw path ''value'') (\<lambda>value.
     case (name, value) of
       (Some n, Some v) \<Rightarrow>
         if isl (validateHeaderName n) then added Invalid_value (sub path ''name'')
         else if isl (validateHeaderValue v) then added Invalid_value (sub path ''value'')
         else if lower_name n \<in> set reserved then added Invalid_value (sub path ''name'')
         else if lower_name n \<in> set seen_names then added Duplicate_name (sub path ''name'')
         else gives (Some \<lparr>hr_name = n, hr_value = v\<rparr>)
     | _ \<Rightarrow> gives None)))"

fun header_items :: "string list \<Rightarrow> string \<Rightarrow> nat \<Rightarrow> string list \<Rightarrow> json list \<Rightarrow> model_issue list \<times> header_rule list" where
  "header_items reserved path i seen_names [] = ([], [])"
| "header_items reserved path i seen_names (raw # rest) =
     (case object_d (header_rule_fields reserved seen_names) raw (path @ ''['' @ show_nat i @ '']'') of
        (es, None) \<Rightarrow> let (es', out) = header_items reserved path (i + 1) seen_names rest in (es @ es', out)
      | (es, Some h) \<Rightarrow>
          let (es', out) = header_items reserved path (i + 1) (lower_name (hr_name h) # seen_names) rest in (es @ es', h # out))"

definition decodeHeaderList :: "string list \<Rightarrow> json \<Rightarrow> string \<Rightarrow> header_rule list dec" where
  "decodeHeaderList reserved v path =
     (case v of
        J_arr vs \<Rightarrow> let (es, out) = header_items reserved path 0 [] vs in (es, Some out)
      | _ \<Rightarrow> added Invalid_type path)"

definition enc_header :: "header_rule \<Rightarrow> json" where
  "enc_header h = J_obj (fields [(''name'', Some (J_str (hr_name h))), (''value'', Some (J_str (hr_value h)))])"

definition ok_header :: "string list \<Rightarrow> header_rule \<Rightarrow> bool" where
  "ok_header reserved h \<longleftrightarrow> \<not> isl (validateHeaderName (hr_name h)) \<and> \<not> isl (validateHeaderValue (hr_value h))
     \<and> lower_name (hr_name h) \<notin> set reserved"

definition ok_headers :: "string list \<Rightarrow> header_rule list \<Rightarrow> bool" where
  "ok_headers reserved hs \<longleftrightarrow> list_all (ok_header reserved) hs \<and> distinct (map (\<lambda>h. lower_name (hr_name h)) hs)"

lemma exact_header_rule:
  "exact (object_d (header_rule_fields reserved seen_names)) enc_header
     (\<lambda>h. ok_header reserved h \<and> lower_name (hr_name h) \<notin> set seen_names)"
  unfolding enc_header_def
  by (rule exact_object_fields)
    ((auto simp: header_rule_fields_def ok_header_def decodes dest!: readsound split: if_splits)[1],
     simp add: header_rule_fields_def ok_header_def readback gives_def)

lemma header_items_sound:
  assumes "fst (header_items reserved path i seen_names vs) = []"
  shows "list_all (ok_header reserved) (snd (header_items reserved path i seen_names vs))
    \<and> distinct (map (\<lambda>h. lower_name (hr_name h)) (snd (header_items reserved path i seen_names vs)))
    \<and> (\<lambda>h. lower_name (hr_name h)) ` set (snd (header_items reserved path i seen_names vs)) \<inter> set seen_names = {}"
  using assms
proof (induction vs arbitrary: i seen_names)
  case (Cons raw rest)
  let ?d = "object_d (header_rule_fields reserved seen_names) raw (path @ ''['' @ show_nat i @ '']'')"
  have "fst ?d = []" using Cons.prems by (auto split: prod.splits option.splits)
  then obtain h where h: "?d = ([], Some h)" "ok_header reserved h" "lower_name (hr_name h) \<notin> set seen_names"
    using exact_sound [OF exact_header_rule] by (metis prod.collapse)
  obtain es out where e: "header_items reserved path (i + 1) (lower_name (hr_name h) # seen_names) rest = (es, out)" by fastforce
  then have "es = []" using Cons.prems h(1) by simp
  then show ?case using Cons.IH [of "i + 1" "lower_name (hr_name h) # seen_names"] e h by auto
qed simp

lemma header_items_complete:
  assumes "list_all (ok_header reserved) hs" "distinct (map (\<lambda>h. lower_name (hr_name h)) hs)"
    "(\<lambda>h. lower_name (hr_name h)) ` set hs \<inter> set seen_names = {}"
  shows "header_items reserved path i seen_names (map enc_header hs) = ([], hs)"
  using assms
proof (induction hs arbitrary: i seen_names)
  case (Cons h hs)
  then show ?case
    using exact_complete [OF exact_header_rule, of reserved h seen_names "path @ ''['' @ show_nat i @ '']''"] by auto
qed simp

lemma exact_headers: "exact (decodeHeaderList reserved) (enc_list enc_header) (ok_headers reserved)"
proof (rule exactI)
  fix v path assume "fst (decodeHeaderList reserved v path) = []"
  then show "\<exists>x. snd (decodeHeaderList reserved v path) = Some x \<and> ok_headers reserved x"
    using header_items_sound [of reserved path 0 "[]"]
    by (cases v) (auto simp: decodeHeaderList_def ok_headers_def split: prod.splits, (metis fst_conv snd_conv)+)
next
  fix x path assume "ok_headers reserved x"
  then show "decodeHeaderList reserved (enc_list enc_header x) path = ([], Some x)"
    by (simp add: decodeHeaderList_def enc_list_def ok_headers_def header_items_complete)
qed

lemmas [readback] = completes [OF exact_headers]
lemmas [readsound] = sounds [OF exact_headers]

definition header_rules_fields :: "(string \<times> json) list \<Rightarrow> string \<Rightarrow> header_rules dec" where
  "header_rules_fields v path =
     bindD (noExtraKeys v path [''request'', ''response'']) (\<lambda>_.
     bindD (optional (decodeHeaderList RESERVED_REQUEST_HEADERS) v path ''request'') (\<lambda>request.
     bindD (optional (decodeHeaderList RESERVED_RESPONSE_HEADERS) v path ''response'') (\<lambda>response.
     gives (Some \<lparr>hrs_request = request, hrs_response = response\<rparr>))))"

definition decodeHeaderRules :: "json \<Rightarrow> string \<Rightarrow> header_rules dec" where
  "decodeHeaderRules = object_d header_rules_fields"

definition enc_header_rules :: "header_rules \<Rightarrow> json" where
  "enc_header_rules = (\<lambda>h. J_obj (fields [(''request'', map_option (enc_list enc_header) (hrs_request h)),
     (''response'', map_option (enc_list enc_header) (hrs_response h))]))"

definition ok_header_rules :: "header_rules \<Rightarrow> bool" where
  "ok_header_rules h \<longleftrightarrow> pred_option (ok_headers RESERVED_REQUEST_HEADERS) (hrs_request h)
     \<and> pred_option (ok_headers RESERVED_RESPONSE_HEADERS) (hrs_response h)"

lemma exact_header_rules: "exact decodeHeaderRules enc_header_rules ok_header_rules"
  unfolding decodeHeaderRules_def enc_header_rules_def
  by (rule exact_object_fields)
    ((auto simp: header_rules_fields_def ok_header_rules_def decodes dest!: readsound)[1],
     simp add: header_rules_fields_def ok_header_rules_def readback gives_def)

section \<open>Limits\<close>

definition rate_limit_fields :: "(string \<times> json) list \<Rightarrow> string \<Rightarrow> rate_limit dec" where
  "rate_limit_fields v path =
     bindD (noExtraKeys v path [''requestsPerSecond'', ''burst'', ''nodelay'', ''maxConnections'', ''zoneKb'']) (\<lambda>_.
     bindD (optional (nat_d 1 1000000) v path ''requestsPerSecond'') (\<lambda>rps.
     bindD (optional (nat_d 1 1000000) v path ''burst'') (\<lambda>burst.
     bindD (optional (nat_d 1 1000000) v path ''maxConnections'') (\<lambda>conns.
     bindD (optional (nat_d 16 1048576) v path ''zoneKb'') (\<lambda>zoneKb.
     bindD (optional bool_d v path ''nodelay'') (\<lambda>nodelay.
     if rps = None \<and> (burst \<noteq> None \<or> nodelay \<noteq> None) then added Invalid_value path
     else if rps = None \<and> conns = None then added Invalid_value path
     else gives (Some \<lparr>rl_requestsPerSecond = rps, rl_burst = burst, rl_nodelay = nodelay, rl_maxConnections = conns,
       rl_zoneKb = zoneKb\<rparr>)))))))"

definition decodeRateLimit :: "json \<Rightarrow> string \<Rightarrow> rate_limit dec" where
  "decodeRateLimit = object_d rate_limit_fields"

definition enc_rate_limit :: "rate_limit \<Rightarrow> json" where
  "enc_rate_limit = (\<lambda>r. J_obj (fields [(''requestsPerSecond'', map_option enc_nat (rl_requestsPerSecond r)),
     (''burst'', map_option enc_nat (rl_burst r)), (''nodelay'', map_option J_bool (rl_nodelay r)),
     (''maxConnections'', map_option enc_nat (rl_maxConnections r)), (''zoneKb'', map_option enc_nat (rl_zoneKb r))]))"

definition ok_rate_limit :: "rate_limit \<Rightarrow> bool" where
  "ok_rate_limit r \<longleftrightarrow> pred_option (\<lambda>n. 1 \<le> n \<and> n \<le> 1000000) (rl_requestsPerSecond r)
     \<and> pred_option (\<lambda>n. 1 \<le> n \<and> n \<le> 1000000) (rl_burst r) \<and> pred_option (\<lambda>n. 1 \<le> n \<and> n \<le> 1000000) (rl_maxConnections r)
     \<and> pred_option (\<lambda>n. 16 \<le> n \<and> n \<le> 1048576) (rl_zoneKb r)
     \<and> (if rl_requestsPerSecond r = None then rl_burst r = None \<and> rl_nodelay r = None \<and> rl_maxConnections r \<noteq> None else True)"

lemma exact_rate_limit: "exact decodeRateLimit enc_rate_limit ok_rate_limit"
  unfolding decodeRateLimit_def enc_rate_limit_def
  by (rule exact_object_fields)
    ((auto simp: rate_limit_fields_def ok_rate_limit_def decodes dest!: readsound split: if_splits)[1],
     auto simp: rate_limit_fields_def ok_rate_limit_def readback gives_def split: if_splits)

definition proxy_limits_fields :: "(string \<times> json) list \<Rightarrow> string \<Rightarrow> proxy_limits dec" where
  "proxy_limits_fields v path =
     bindD (noExtraKeys v path [''connectTimeoutMs'', ''readTimeoutMs'', ''sendTimeoutMs'', ''clientMaxBodyBytes'']) (\<lambda>_.
     bindD (optional (nat_d 1 75000) v path ''connectTimeoutMs'') (\<lambda>connect.
     bindD (optional (nat_d 1 86400000) v path ''readTimeoutMs'') (\<lambda>read.
     bindD (optional (nat_d 1 86400000) v path ''sendTimeoutMs'') (\<lambda>send.
     bindD (optional (nat_d 0 2147483647) v path ''clientMaxBodyBytes'') (\<lambda>body.
     gives (Some \<lparr>pl_connectTimeoutMs = connect, pl_readTimeoutMs = read, pl_sendTimeoutMs = send, pl_clientMaxBodyBytes = body\<rparr>))))))"

definition decodeProxyLimits :: "json \<Rightarrow> string \<Rightarrow> proxy_limits dec" where
  "decodeProxyLimits = object_d proxy_limits_fields"

definition enc_proxy_limits :: "proxy_limits \<Rightarrow> json" where
  "enc_proxy_limits = (\<lambda>l. J_obj (fields [(''connectTimeoutMs'', map_option enc_nat (pl_connectTimeoutMs l)),
     (''readTimeoutMs'', map_option enc_nat (pl_readTimeoutMs l)), (''sendTimeoutMs'', map_option enc_nat (pl_sendTimeoutMs l)),
     (''clientMaxBodyBytes'', map_option enc_nat (pl_clientMaxBodyBytes l))]))"

definition ok_proxy_limits :: "proxy_limits \<Rightarrow> bool" where
  "ok_proxy_limits l \<longleftrightarrow> pred_option (\<lambda>n. 1 \<le> n \<and> n \<le> 75000) (pl_connectTimeoutMs l)
     \<and> pred_option (\<lambda>n. 1 \<le> n \<and> n \<le> 86400000) (pl_readTimeoutMs l) \<and> pred_option (\<lambda>n. 1 \<le> n \<and> n \<le> 86400000) (pl_sendTimeoutMs l)
     \<and> pred_option (\<lambda>n. n \<le> 2147483647) (pl_clientMaxBodyBytes l)"

lemma exact_proxy_limits: "exact decodeProxyLimits enc_proxy_limits ok_proxy_limits"
  unfolding decodeProxyLimits_def enc_proxy_limits_def
  by (rule exact_object_fields)
    ((auto simp: proxy_limits_fields_def ok_proxy_limits_def decodes dest!: readsound)[1],
     simp add: proxy_limits_fields_def ok_proxy_limits_def readback gives_def)

section \<open>Actions\<close>

definition sni_pool_fields :: "(string \<times> json) list \<Rightarrow> string \<Rightarrow> sni_outcome dec" where
  "sni_pool_fields v path =
     bindD (noExtraKeys v path [''pool'']) (\<lambda>_.
     bindD (direct Invalid_type str_d v path ''pool'') (\<lambda>pool. gives (map_option To_pool pool)))"

definition decodeSniOutcome :: "json \<Rightarrow> string \<Rightarrow> sni_outcome dec" where
  "decodeSniOutcome v path = (if v = J_str ''reject'' then gives (Some Reject) else object_d sni_pool_fields v path)"

fun enc_outcome :: "sni_outcome \<Rightarrow> json" where
  "enc_outcome Reject = J_str ''reject''"
| "enc_outcome (To_pool p) = J_obj (fields [(''pool'', Some (J_str p))])"

lemma exact_outcome: "exact decodeSniOutcome enc_outcome (\<lambda>_. True)"
proof (rule exactI)
  fix v path assume "fst (decodeSniOutcome v path) = []"
  then show "\<exists>x. snd (decodeSniOutcome v path) = Some x \<and> True"
    by (auto simp: decodeSniOutcome_def object_d_def sni_pool_fields_def decodes dest!: readsound split: if_splits json.splits)
next
  fix x path show "decodeSniOutcome (enc_outcome x) path = ([], Some x)"
    by (cases x) (simp_all add: decodeSniOutcome_def object_d_def sni_pool_fields_def readback gives_def)
qed

datatype action_kind = K_proxy | K_redirect | K_reject

fun enc_kind :: "action_kind \<Rightarrow> json" where
  "enc_kind K_proxy = J_str ''proxy''"
| "enc_kind K_redirect = J_str ''redirect''"
| "enc_kind K_reject = J_str ''reject''"

definition ACTION_KINDS :: "(json \<times> action_kind) list" where
  "ACTION_KINDS = [(J_str ''proxy'', K_proxy), (J_str ''redirect'', K_redirect), (J_str ''reject'', K_reject)]"

lemma exact_kind: "exact (oneOf ACTION_KINDS) enc_kind (\<lambda>_. True)"
  by (rule exact_oneOf) (case_tac x; simp add: ACTION_KINDS_def)

definition PASSTHROUGH_KINDS :: "(json \<times> action_kind) list" where
  "PASSTHROUGH_KINDS = [(J_str ''proxy'', K_proxy), (J_str ''reject'', K_reject)]"

lemma exact_passthrough_kind: "exact (oneOf PASSTHROUGH_KINDS) enc_kind (\<lambda>k. k \<noteq> K_redirect)"
proof (rule exactI)
  fix v path assume "fst (oneOf PASSTHROUGH_KINDS v path) = []"
  then show "\<exists>x. snd (oneOf PASSTHROUGH_KINDS v path) = Some x \<and> x \<noteq> K_redirect"
    by (auto simp: oneOf_def PASSTHROUGH_KINDS_def split: option.splits if_splits)
next
  fix x path assume "x \<noteq> K_redirect"
  then show "oneOf PASSTHROUGH_KINDS (enc_kind x) path = ([], Some x)"
    by (cases x) (simp_all add: oneOf_def PASSTHROUGH_KINDS_def gives_def)
qed

lemmas [readback] = completes [OF exact_header_rules] completes [OF exact_rate_limit] completes [OF exact_proxy_limits]
  completes [OF exact_outcome, simplified] completes [OF exact_kind, simplified] completes [OF exact_passthrough_kind]
lemmas [readsound] = sounds [OF exact_header_rules] sounds [OF exact_rate_limit] sounds [OF exact_proxy_limits]
  sounds [OF exact_outcome] sounds [OF exact_kind] sounds [OF exact_passthrough_kind]

definition rewrite_prefix_ok :: "string \<Rightarrow> bool" where
  "rewrite_prefix_ok s \<longleftrightarrow> (case s of [] \<Rightarrow> False
     | c # cs \<Rightarrow> c = CHR ''/'' \<and> list_all (\<lambda>c. is_alnum c \<or> c \<in> {CHR ''-'', CHR ''.'', CHR ''_'', CHR ''~'', CHR ''/'', CHR ''%''}) cs)"

definition proxy_fields :: "(string \<times> json) list \<Rightarrow> string \<Rightarrow> http_action dec" where
  "proxy_fields v path =
     bindD (noExtraKeys v path [''kind'', ''pool'', ''websocket'', ''requestHeaders'', ''rewritePrefix'']) (\<lambda>_.
     bindD (direct Invalid_type str_d v path ''pool'') (\<lambda>pool.
     bindD (direct Invalid_type bool_d v path ''websocket'') (\<lambda>websocket.
     bindD (optional (decodeHeaderList RESERVED_REQUEST_HEADERS) v path ''requestHeaders'') (\<lambda>requestHeaders.
     bindD (optional (checked rewrite_prefix_ok Invalid_value str_d) v path ''rewritePrefix'') (\<lambda>rewritePrefix.
     gives (Option.bind pool (\<lambda>p. Option.bind websocket (\<lambda>w.
       Some (Act_proxy \<lparr>pa_pool = p, pa_websocket = w,
         pa_requestHeaders = (if requestHeaders = Some [] then None else requestHeaders),
         pa_rewritePrefix = rewritePrefix\<rparr>)))))))))"

definition redirect_fields :: "(string \<times> json) list \<Rightarrow> string \<Rightarrow> http_action dec" where
  "redirect_fields v path =
     bindD (noExtraKeys v path [''kind'', ''to'', ''status'']) (\<lambda>_.
     bindD (direct Invalid_type str_d v path ''to'') (\<lambda>dest.
     bindD (direct Invalid_enum (oneOf (status_table REDIRECT_STATUSES)) v path ''status'') (\<lambda>status.
     gives (Option.bind dest (\<lambda>d. Option.bind status (\<lambda>st. Some (Act_redirect d st)))))))"

definition reject_fields :: "(string \<times> json) list \<Rightarrow> string \<Rightarrow> http_action dec" where
  "reject_fields v path =
     bindD (noExtraKeys v path [''kind'', ''status'']) (\<lambda>_.
     bindD (direct Invalid_enum (oneOf (status_table REJECT_STATUSES)) v path ''status'') (\<lambda>status.
     gives (map_option Act_reject status)))"

definition http_action_fields :: "(string \<times> json) list \<Rightarrow> string \<Rightarrow> http_action dec" where
  "http_action_fields v path =
     bindD (direct Invalid_enum (oneOf ACTION_KINDS) v path ''kind'') (\<lambda>kind.
     case kind of
       None \<Rightarrow> gives None
     | Some K_proxy \<Rightarrow> proxy_fields v path
     | Some K_redirect \<Rightarrow> redirect_fields v path
     | Some K_reject \<Rightarrow> reject_fields v path)"

definition decodeHttpAction :: "json \<Rightarrow> string \<Rightarrow> http_action dec" where
  "decodeHttpAction = object_d http_action_fields"

fun action_props :: "http_action \<Rightarrow> (string \<times> json option) list" where
  "action_props (Act_proxy p) = [(''kind'', Some (enc_kind K_proxy)), (''pool'', Some (J_str (pa_pool p))), (''websocket'', Some (J_bool (pa_websocket p))),
     (''requestHeaders'', map_option (enc_list enc_header) (pa_requestHeaders p)),
     (''rewritePrefix'', map_option J_str (pa_rewritePrefix p))]"
| "action_props (Act_redirect d st) = [(''kind'', Some (enc_kind K_redirect)), (''to'', Some (J_str d)), (''status'', Some (enc_nat st))]"
| "action_props (Act_reject st) = [(''kind'', Some (enc_kind K_reject)), (''status'', Some (enc_nat st))]"

definition enc_http_action :: "http_action \<Rightarrow> json" where
  "enc_http_action = (\<lambda>a. J_obj (fields (action_props a)))"

fun ok_http_action :: "http_action \<Rightarrow> bool" where
  "ok_http_action (Act_proxy p) \<longleftrightarrow> pred_option (ok_headers RESERVED_REQUEST_HEADERS) (pa_requestHeaders p)
     \<and> pa_requestHeaders p \<noteq> Some [] \<and> pred_option rewrite_prefix_ok (pa_rewritePrefix p)"
| "ok_http_action (Act_redirect d st) \<longleftrightarrow> st \<in> set REDIRECT_STATUSES"
| "ok_http_action (Act_reject st) \<longleftrightarrow> st \<in> set REJECT_STATUSES"

lemma exact_http_action: "exact decodeHttpAction enc_http_action ok_http_action"
  unfolding decodeHttpAction_def enc_http_action_def
proof (rule exact_object_fields)
  fix obj path assume "fst (http_action_fields obj path) = []"
  then show "\<exists>x. snd (http_action_fields obj path) = Some x \<and> ok_http_action x"
    by (auto simp: http_action_fields_def proxy_fields_def redirect_fields_def reject_fields_def decodes
        dest!: readsound split: action_kind.splits if_splits)
next
  fix x path assume "ok_http_action x"
  then show "http_action_fields (fields (action_props x)) path = ([], Some x)"
    by (cases x) (simp_all add: http_action_fields_def proxy_fields_def redirect_fields_def reject_fields_def
        readback gives_def del: enc_kind.simps)
qed

definition passthrough_action_fields :: "(string \<times> json) list \<Rightarrow> string \<Rightarrow> passthrough_action dec" where
  "passthrough_action_fields v path =
     bindD (direct Invalid_enum (oneOf PASSTHROUGH_KINDS) v path ''kind'') (\<lambda>kind.
     case kind of
       None \<Rightarrow> gives None
     | Some K_reject \<Rightarrow> bindD (noExtraKeys v path [''kind'']) (\<lambda>_. gives (Some Pass_reject))
     | Some _ \<Rightarrow>
         bindD (noExtraKeys v path [''kind'', ''pool'']) (\<lambda>_.
         bindD (direct Invalid_type str_d v path ''pool'') (\<lambda>pool. gives (map_option Pass_proxy pool))))"

definition decodePassthroughAction :: "json \<Rightarrow> string \<Rightarrow> passthrough_action dec" where
  "decodePassthroughAction = object_d passthrough_action_fields"

fun passthrough_props :: "passthrough_action \<Rightarrow> (string \<times> json option) list" where
  "passthrough_props (Pass_proxy p) = [(''kind'', Some (enc_kind K_proxy)), (''pool'', Some (J_str p))]"
| "passthrough_props Pass_reject = [(''kind'', Some (enc_kind K_reject))]"

definition enc_passthrough_action :: "passthrough_action \<Rightarrow> json" where
  "enc_passthrough_action = (\<lambda>a. J_obj (fields (passthrough_props a)))"

lemma exact_passthrough_action: "exact decodePassthroughAction enc_passthrough_action (\<lambda>_. True)"
  unfolding decodePassthroughAction_def enc_passthrough_action_def
proof (rule exact_object_fields)
  fix obj path assume "fst (passthrough_action_fields obj path) = []"
  then show "\<exists>x. snd (passthrough_action_fields obj path) = Some x \<and> True"
    by (auto simp: passthrough_action_fields_def decodes dest!: readsound split: action_kind.splits)
next
  fix x path show "passthrough_action_fields (fields (passthrough_props x)) path = ([], Some x)"
    by (cases x) (simp_all add: passthrough_action_fields_def readback gives_def del: enc_kind.simps)
qed

section \<open>Profiles\<close>

definition http_profile_fields :: "(string \<times> json) list \<Rightarrow> string \<Rightarrow> http_profile dec" where
  "http_profile_fields v path =
     bindD (noExtraKeys v path [''defaultAction'', ''limits'', ''headers'', ''rateLimit'', ''strictPriority'']) (\<lambda>_.
     bindD (optional decodeSniOutcome v path ''defaultAction'') (\<lambda>action.
     bindD (optional decodeProxyLimits v path ''limits'') (\<lambda>limits.
     bindD (optional decodeHeaderRules v path ''headers'') (\<lambda>headers.
     bindD (optional decodeRateLimit v path ''rateLimit'') (\<lambda>rateLimit.
     bindD (optional bool_d v path ''strictPriority'') (\<lambda>strictPriority.
     gives (Some \<lparr>hp_defaultAction = action, hp_limits = limits, hp_headers = headers, hp_rateLimit = rateLimit,
       hp_strictPriority = strictPriority\<rparr>)))))))"

definition decodeHttpProfile :: "json \<Rightarrow> string \<Rightarrow> http_profile dec" where
  "decodeHttpProfile = object_d http_profile_fields"

definition enc_http_profile :: "http_profile \<Rightarrow> json" where
  "enc_http_profile = (\<lambda>h. J_obj (fields [(''defaultAction'', map_option enc_outcome (hp_defaultAction h)),
     (''limits'', map_option enc_proxy_limits (hp_limits h)), (''headers'', map_option enc_header_rules (hp_headers h)),
     (''rateLimit'', map_option enc_rate_limit (hp_rateLimit h)), (''strictPriority'', map_option J_bool (hp_strictPriority h))]))"

definition ok_http_profile :: "http_profile \<Rightarrow> bool" where
  "ok_http_profile h \<longleftrightarrow> pred_option ok_proxy_limits (hp_limits h) \<and> pred_option ok_header_rules (hp_headers h)
     \<and> pred_option ok_rate_limit (hp_rateLimit h)"

lemma exact_http_profile: "exact decodeHttpProfile enc_http_profile ok_http_profile"
  unfolding decodeHttpProfile_def enc_http_profile_def
  by (rule exact_object_fields)
    ((auto simp: http_profile_fields_def ok_http_profile_def decodes dest!: readsound)[1],
     simp add: http_profile_fields_def ok_http_profile_def readback gives_def)

lemmas [readback] = completes [OF exact_http_action] completes [OF exact_passthrough_action, simplified] completes [OF exact_http_profile]
lemmas [readsound] = sounds [OF exact_http_action] sounds [OF exact_passthrough_action] sounds [OF exact_http_profile]

end
