(* ===== verification/Decode_Listener.thy ===== *)
theory Decode_Listener
  imports Decode_Http
begin

text \<open>
  The decoder of a listener, \<^verbatim>\<open>decodeListener\<close> in \<^verbatim>\<open>src/src/model/decode.ts\<close>: each protocol has its own
  properties and no others.
\<close>

section \<open>Trust boundaries\<close>

definition nonempty :: "'a list \<Rightarrow> bool" where
  "nonempty xs \<longleftrightarrow> xs \<noteq> []"

definition trusted_cidrs :: "(string \<times> json) list \<Rightarrow> string \<Rightarrow> string list dec" where
  "trusted_cidrs v path = direct Missing_field (checked nonempty Out_of_range (arrayOf str_d)) v path ''trustedCidrs''"

lemmas [readback] = completes [OF exact_checked [OF exact_array [OF exact_str]], simplified]
lemmas [readsound] = sounds [OF exact_checked [OF exact_array [OF exact_str]], simplified]

definition proxy_protocol_fields :: "(string \<times> json) list \<Rightarrow> string \<Rightarrow> inbound_proxy_protocol dec" where
  "proxy_protocol_fields v path =
     bindD (noExtraKeys v path [''trustedCidrs'']) (\<lambda>_.
     bindD (trusted_cidrs v path) (\<lambda>cidrs.
     gives (map_option (\<lambda>cs. \<lparr>ipp_trustedCidrs = cs\<rparr>) cidrs)))"

definition decodeInboundProxyProtocol :: "json \<Rightarrow> string \<Rightarrow> inbound_proxy_protocol dec" where
  "decodeInboundProxyProtocol = object_d proxy_protocol_fields"

definition enc_proxy_protocol :: "inbound_proxy_protocol \<Rightarrow> json" where
  "enc_proxy_protocol = (\<lambda>p. J_obj (fields [(''trustedCidrs'', Some (enc_list J_str (ipp_trustedCidrs p)))]))"

lemma exact_proxy_protocol: "exact decodeInboundProxyProtocol enc_proxy_protocol (\<lambda>p. nonempty (ipp_trustedCidrs p))"
  unfolding decodeInboundProxyProtocol_def enc_proxy_protocol_def
  by (rule exact_object_fields)
    ((auto simp: proxy_protocol_fields_def trusted_cidrs_def decodes dest!: readsound)[1],
     simp add: proxy_protocol_fields_def trusted_cidrs_def readback gives_def)

definition real_ip_fields :: "(string \<times> json) list \<Rightarrow> string \<Rightarrow> inbound_real_ip_header dec" where
  "real_ip_fields v path =
     bindD (noExtraKeys v path [''header'', ''trustedCidrs'']) (\<lambda>_.
     bindD (required (oneOf REAL_IP_HEADERS) v path ''header'') (\<lambda>header.
     bindD (trusted_cidrs v path) (\<lambda>cidrs.
     gives (Option.bind header (\<lambda>h. map_option (\<lambda>cs. \<lparr>irh_header = h, irh_trustedCidrs = cs\<rparr>) cidrs)))))"

definition decodeInboundRealIpHeader :: "json \<Rightarrow> string \<Rightarrow> inbound_real_ip_header dec" where
  "decodeInboundRealIpHeader = object_d real_ip_fields"

definition enc_real_ip_header :: "inbound_real_ip_header \<Rightarrow> json" where
  "enc_real_ip_header = (\<lambda>p. J_obj (fields [(''header'', Some (enc_real_ip (irh_header p))),
     (''trustedCidrs'', Some (enc_list J_str (irh_trustedCidrs p)))]))"

lemma exact_real_ip_header: "exact decodeInboundRealIpHeader enc_real_ip_header (\<lambda>p. nonempty (irh_trustedCidrs p))"
  unfolding decodeInboundRealIpHeader_def enc_real_ip_header_def
  by (rule exact_object_fields)
    ((auto simp: real_ip_fields_def trusted_cidrs_def decodes dest!: readsound)[1],
     simp add: real_ip_fields_def trusted_cidrs_def readback gives_def)

definition http_redirect_fields :: "(string \<times> json) list \<Rightarrow> string \<Rightarrow> nat dec" where
  "http_redirect_fields v path =
     bindD (noExtraKeys v path [''port'']) (\<lambda>_. required (nat_d 1 65535) v path ''port'')"

definition decodeHttpRedirect :: "json \<Rightarrow> string \<Rightarrow> nat dec" where
  "decodeHttpRedirect = object_d http_redirect_fields"

definition enc_http_redirect :: "nat \<Rightarrow> json" where
  "enc_http_redirect = (\<lambda>n. J_obj (fields [(''port'', Some (enc_nat n))]))"

lemma exact_http_redirect: "exact decodeHttpRedirect enc_http_redirect (\<lambda>n. 1 \<le> n \<and> n \<le> 65535)"
  unfolding decodeHttpRedirect_def enc_http_redirect_def
  by (rule exact_object_fields)
    ((auto simp: http_redirect_fields_def decodes dest!: readsound)[1],
     simp add: http_redirect_fields_def readback gives_def)

definition tls_binding_fields :: "(string \<times> json) list \<Rightarrow> string \<Rightarrow> raw_tls_binding dec" where
  "tls_binding_fields v path =
     bindD (noExtraKeys v path [''policy'', ''defaultCertificate'']) (\<lambda>_.
     bindD (required str_d v path ''policy'') (\<lambda>policy.
     bindD (required str_d v path ''defaultCertificate'') (\<lambda>defaultCertificate.
     gives (Option.bind policy (\<lambda>p. map_option (\<lambda>c. \<lparr>tb_policy = p, tb_defaultCertificate = c\<rparr>) defaultCertificate)))))"

definition decodeTlsBinding :: "json \<Rightarrow> string \<Rightarrow> raw_tls_binding dec" where
  "decodeTlsBinding = object_d tls_binding_fields"

definition enc_tls_binding :: "raw_tls_binding \<Rightarrow> json" where
  "enc_tls_binding = (\<lambda>b. J_obj (fields [(''policy'', Some (J_str (tb_policy b))),
     (''defaultCertificate'', Some (J_str (tb_defaultCertificate b)))]))"

lemma exact_tls_binding: "exact decodeTlsBinding enc_tls_binding (\<lambda>_. True)"
  unfolding decodeTlsBinding_def enc_tls_binding_def
  by (rule exact_object_fields)
    ((auto simp: tls_binding_fields_def decodes dest!: readsound)[1],
     simp add: tls_binding_fields_def readback gives_def)

section \<open>Lists of strings\<close>

lemma checked_any: "checked (\<lambda>_. True) c d = d"
  by (intro ext) (simp add: checked_def bindD_def gives_def split: option.split, metis prod.collapse)

definition decodeListenerHosts :: "json \<Rightarrow> string \<Rightarrow> string list dec" where
  "decodeListenerHosts v path =
     bindD (arrayOf str_d v path) (\<lambda>items. if v = J_arr [] then added Invalid_value path else gives items)"

lemma exact_hosts: "exact decodeListenerHosts (enc_list J_str) nonempty"
proof (rule exactI)
  fix v path assume a: "fst (decodeListenerHosts v path) = []"
  then obtain xs where "snd (arrayOf str_d v path) = Some xs" "fst (arrayOf str_d v path) = []"
    by (auto simp: decodeListenerHosts_def decodes dest: exact_sound [OF exact_array [OF exact_str]])
  moreover from this have "v = J_arr (map J_str xs)" using arrayOf_strings [of "\<lambda>_. True"] by (simp add: checked_any)
  ultimately show "\<exists>x. snd (decodeListenerHosts v path) = Some x \<and> nonempty x"
    using a by (auto simp: decodeListenerHosts_def decodes nonempty_def split: if_splits)
next
  fix xs :: "string list" and path assume "nonempty xs"
  then show "decodeListenerHosts (enc_list J_str xs) path = ([], Some xs)"
    by (auto simp: decodeListenerHosts_def nonempty_def readback gives_def) (simp add: enc_list_def)
qed

definition source_text :: "string \<Rightarrow> bool" where
  "source_text s \<longleftrightarrow> \<not> (cidrVersion s = 0 \<and> addressSetRef s = None)"

definition decodeSourceAllow :: "json \<Rightarrow> string \<Rightarrow> string list dec" where
  "decodeSourceAllow v path =
     bindD (arrayOf (checked source_text Invalid_value str_d) v path) (\<lambda>items.
     if v = J_arr [] then added Out_of_range path
     else bindD (repeated path 0 [] (elements_of v), None :: unit option) (\<lambda>_.
       gives (if items = Some [] then None else items)))"

definition ok_source_allow :: "string list \<Rightarrow> bool" where
  "ok_source_allow xs \<longleftrightarrow> xs \<noteq> [] \<and> distinct xs \<and> list_all source_text xs"

lemma exact_source_allow: "exact decodeSourceAllow (enc_list J_str) ok_source_allow"
proof (rule exactI)
  let ?d = "arrayOf (checked source_text Invalid_value str_d)"
  fix v path assume a: "fst (decodeSourceAllow v path) = []"
  then obtain xs where xs: "snd (?d v path) = Some xs" "list_all source_text xs" "fst (?d v path) = []"
    using exact_sound [OF exact_array [OF exact_checked [OF exact_str]], of source_text Invalid_value v path]
    by (auto simp: decodeSourceAllow_def decodes)
  then have "v = J_arr (map J_str xs)" by (auto intro: arrayOf_strings)
  then show "\<exists>x. snd (decodeSourceAllow v path) = Some x \<and> ok_source_allow x"
    using a xs by (auto simp: decodeSourceAllow_def decodes ok_source_allow_def elements_of_def repeated_distinct split: if_splits)
next
  fix xs path assume "ok_source_allow xs"
  then show "decodeSourceAllow (enc_list J_str xs) path = ([], Some xs)"
    using exact_complete [OF exact_array [OF exact_checked [OF exact_str]], of source_text xs Invalid_value path]
    by (simp add: decodeSourceAllow_def ok_source_allow_def gives_def)
      (auto simp: enc_list_def elements_of_def bindD_def repeated_distinct)
qed

lemmas [readback] = completes [OF exact_proxy_protocol] completes [OF exact_real_ip_header] completes [OF exact_http_redirect]
  completes [OF exact_tls_binding, simplified] completes [OF exact_hosts] completes [OF exact_source_allow]
lemmas [readsound] = sounds [OF exact_proxy_protocol] sounds [OF exact_real_ip_header] sounds [OF exact_http_redirect]
  sounds [OF exact_tls_binding] sounds [OF exact_hosts] sounds [OF exact_source_allow]

section \<open>The listener of each protocol\<close>

definition LISTENER_BASE :: "string list" where
  "LISTENER_BASE = [''key'', ''protocol'', ''bind'', ''port'', ''enabled'', ''sourceAllow'']"

definition listener_head :: "listener_protocol \<Rightarrow> string \<Rightarrow> string \<Rightarrow> nat \<Rightarrow> bool \<Rightarrow> string list option \<Rightarrow> listener" where
  "listener_head protocol key bind_at port enabled sourceAllow =
     \<lparr>l_key = key, l_protocol = protocol, l_bind = bind_at, l_port = port, l_enabled = enabled, l_sourceAllow = sourceAllow,
      l_defaultPool = None, l_acceptProxyProtocol = None, l_realIpFromHeader = None, l_udp = None, l_http = None,
      l_onUnmatchedSni = None, l_onNoSni = None, l_prereadTimeoutS = None, l_tls = None, l_http2 = None, l_hosts = None,
      l_httpRedirect = None\<rparr>"

definition http_listener :: "(string \<times> json) list \<Rightarrow> string \<Rightarrow> listener \<Rightarrow> listener dec" where
  "http_listener v path head =
     bindD (noExtraKeys v path (LISTENER_BASE @ [''acceptProxyProtocol'', ''realIpFromHeader'', ''http'', ''hosts''])) (\<lambda>_.
     bindD (optional decodeListenerHosts v path ''hosts'') (\<lambda>hosts.
     bindD (optional decodeInboundProxyProtocol v path ''acceptProxyProtocol'') (\<lambda>accept.
     bindD (optional decodeInboundRealIpHeader v path ''realIpFromHeader'') (\<lambda>realIp.
     bindD (optional decodeHttpProfile v path ''http'') (\<lambda>http.
     gives (Some (head\<lparr>l_acceptProxyProtocol := accept, l_realIpFromHeader := realIp, l_http := http, l_hosts := hosts\<rparr>)))))))"

definition https_listener :: "(string \<times> json) list \<Rightarrow> string \<Rightarrow> listener \<Rightarrow> listener dec" where
  "https_listener v path head =
     bindD (noExtraKeys v path (LISTENER_BASE @ [''acceptProxyProtocol'', ''realIpFromHeader'', ''http'', ''tls'', ''http2'', ''hosts'', ''httpRedirect''])) (\<lambda>_.
     bindD (optional decodeHttpRedirect v path ''httpRedirect'') (\<lambda>redirect.
     bindD (optional decodeListenerHosts v path ''hosts'') (\<lambda>hosts.
     bindD (optional decodeInboundProxyProtocol v path ''acceptProxyProtocol'') (\<lambda>accept.
     bindD (optional decodeInboundRealIpHeader v path ''realIpFromHeader'') (\<lambda>realIp.
     bindD (optional decodeHttpProfile v path ''http'') (\<lambda>http.
     bindD (required decodeTlsBinding v path ''tls'') (\<lambda>tls.
     bindD (optional bool_d v path ''http2'') (\<lambda>http2.
     gives (map_option (\<lambda>t. head\<lparr>l_tls := Some t, l_acceptProxyProtocol := accept, l_realIpFromHeader := realIp,
       l_http := http, l_http2 := http2, l_hosts := hosts, l_httpRedirect := redirect\<rparr>) tls)))))))))"

definition passthrough_listener :: "(string \<times> json) list \<Rightarrow> string \<Rightarrow> listener \<Rightarrow> listener dec" where
  "passthrough_listener v path head =
     bindD (noExtraKeys v path (LISTENER_BASE @ [''acceptProxyProtocol'', ''onUnmatchedSni'', ''onNoSni'', ''prereadTimeoutS''])) (\<lambda>_.
     bindD (optional decodeInboundProxyProtocol v path ''acceptProxyProtocol'') (\<lambda>accept.
     bindD (optional decodeSniOutcome v path ''onUnmatchedSni'') (\<lambda>sni.
     bindD (optional decodeSniOutcome v path ''onNoSni'') (\<lambda>noSni.
     bindD (optional (nat_d 1 3600) v path ''prereadTimeoutS'') (\<lambda>preread.
     gives (Some (head\<lparr>l_acceptProxyProtocol := accept, l_onUnmatchedSni := sni, l_onNoSni := noSni,
       l_prereadTimeoutS := preread\<rparr>)))))))"

definition tcp_listener :: "(string \<times> json) list \<Rightarrow> string \<Rightarrow> listener \<Rightarrow> listener dec" where
  "tcp_listener v path head =
     bindD (noExtraKeys v path (LISTENER_BASE @ [''acceptProxyProtocol'', ''defaultPool''])) (\<lambda>_.
     bindD (optional decodeInboundProxyProtocol v path ''acceptProxyProtocol'') (\<lambda>accept.
     bindD (required str_d v path ''defaultPool'') (\<lambda>defaultPool.
     gives (map_option (\<lambda>p. head\<lparr>l_defaultPool := Some p, l_acceptProxyProtocol := accept\<rparr>) defaultPool))))"

definition udp_fields :: "(string \<times> json) list \<Rightarrow> string \<Rightarrow> udp_preset dec" where
  "udp_fields v path =
     bindD (noExtraKeys v path [''preset'']) (\<lambda>_. direct Invalid_enum (oneOf UDP_PRESETS) v path ''preset'')"

definition udp_listener :: "(string \<times> json) list \<Rightarrow> string \<Rightarrow> listener \<Rightarrow> listener dec" where
  "udp_listener v path head =
     bindD (noExtraKeys v path (LISTENER_BASE @ [''defaultPool'', ''udp''])) (\<lambda>_.
     bindD (required str_d v path ''defaultPool'') (\<lambda>defaultPool.
     bindD (required (\<lambda>raw _. gives (Some raw)) v path ''udp'') (\<lambda>udpRaw.
     case (defaultPool, udpRaw) of
       (Some p, Some raw) \<Rightarrow>
         bindD (object_d udp_fields raw (sub path ''udp'')) (\<lambda>preset.
         gives (map_option (\<lambda>u. head\<lparr>l_defaultPool := Some p, l_udp := Some u\<rparr>) preset))
     | _ \<Rightarrow> gives None)))"

definition listener_fields :: "(string \<times> json) list \<Rightarrow> string \<Rightarrow> listener dec" where
  "listener_fields v path =
     bindD (direct Invalid_enum (oneOf LISTENER_PROTOCOLS) v path ''protocol'') (\<lambda>protocol.
     case protocol of None \<Rightarrow> gives None
     | Some pr \<Rightarrow>
         bindD (required str_d v path ''key'') (\<lambda>key.
         bindD (required str_d v path ''bind'') (\<lambda>bind_at.
         bindD (required (nat_d 1 65535) v path ''port'') (\<lambda>port.
         bindD (required bool_d v path ''enabled'') (\<lambda>enabled.
         case (key, bind_at, port, enabled) of
           (Some k, Some b, Some n, Some e) \<Rightarrow>
             bindD (optional decodeSourceAllow v path ''sourceAllow'') (\<lambda>sourceAllow.
             let head = listener_head pr k b n e sourceAllow in
             case pr of
               L_http \<Rightarrow> http_listener v path head
             | L_https \<Rightarrow> https_listener v path head
             | L_tls_passthrough \<Rightarrow> passthrough_listener v path head
             | L_tcp \<Rightarrow> tcp_listener v path head
             | L_udp \<Rightarrow> udp_listener v path head)
         | _ \<Rightarrow> gives None)))))"

definition decodeListener :: "json \<Rightarrow> string \<Rightarrow> listener dec" where
  "decodeListener = object_d listener_fields"

section \<open>The listeners it lets in\<close>

definition listener_base_props :: "listener \<Rightarrow> (string \<times> json option) list" where
  "listener_base_props l =
     [(''key'', Some (J_str (l_key l))), (''protocol'', Some (enc_protocol (l_protocol l))), (''bind'', Some (J_str (l_bind l))),
      (''port'', Some (enc_nat (l_port l))), (''enabled'', Some (J_bool (l_enabled l))),
      (''sourceAllow'', map_option (enc_list J_str) (l_sourceAllow l))]"

text \<open>Every property a listener has, those its protocol does not know too.\<close>

definition listener_props :: "listener \<Rightarrow> (string \<times> json option) list" where
  "listener_props l = listener_base_props l @
     [(''defaultPool'', map_option J_str (l_defaultPool l)),
      (''acceptProxyProtocol'', map_option enc_proxy_protocol (l_acceptProxyProtocol l)),
      (''realIpFromHeader'', map_option enc_real_ip_header (l_realIpFromHeader l)),
      (''udp'', map_option (\<lambda>u. J_obj (fields [(''preset'', Some (enc_udp_preset u))])) (l_udp l)),
      (''http'', map_option enc_http_profile (l_http l)),
      (''onUnmatchedSni'', map_option enc_outcome (l_onUnmatchedSni l)), (''onNoSni'', map_option enc_outcome (l_onNoSni l)),
      (''prereadTimeoutS'', map_option enc_nat (l_prereadTimeoutS l)),
      (''tls'', map_option enc_tls_binding (l_tls l)), (''http2'', map_option J_bool (l_http2 l)),
      (''hosts'', map_option (enc_list J_str) (l_hosts l)), (''httpRedirect'', map_option enc_http_redirect (l_httpRedirect l))]"

definition protocol_props :: "listener \<Rightarrow> (string \<times> json option) list" where
  "protocol_props l = listener_base_props l @
     (case l_protocol l of
        L_http \<Rightarrow>
          [(''acceptProxyProtocol'', map_option enc_proxy_protocol (l_acceptProxyProtocol l)),
           (''realIpFromHeader'', map_option enc_real_ip_header (l_realIpFromHeader l)),
           (''http'', map_option enc_http_profile (l_http l)), (''hosts'', map_option (enc_list J_str) (l_hosts l))]
      | L_https \<Rightarrow>
          [(''acceptProxyProtocol'', map_option enc_proxy_protocol (l_acceptProxyProtocol l)),
           (''realIpFromHeader'', map_option enc_real_ip_header (l_realIpFromHeader l)),
           (''http'', map_option enc_http_profile (l_http l)), (''tls'', map_option enc_tls_binding (l_tls l)),
           (''http2'', map_option J_bool (l_http2 l)), (''hosts'', map_option (enc_list J_str) (l_hosts l)),
           (''httpRedirect'', map_option enc_http_redirect (l_httpRedirect l))]
      | L_tls_passthrough \<Rightarrow>
          [(''acceptProxyProtocol'', map_option enc_proxy_protocol (l_acceptProxyProtocol l)),
           (''onUnmatchedSni'', map_option enc_outcome (l_onUnmatchedSni l)), (''onNoSni'', map_option enc_outcome (l_onNoSni l)),
           (''prereadTimeoutS'', map_option enc_nat (l_prereadTimeoutS l))]
      | L_tcp \<Rightarrow>
          [(''defaultPool'', map_option J_str (l_defaultPool l)),
           (''acceptProxyProtocol'', map_option enc_proxy_protocol (l_acceptProxyProtocol l))]
      | L_udp \<Rightarrow>
          [(''defaultPool'', map_option J_str (l_defaultPool l)),
           (''udp'', map_option (\<lambda>u. J_obj (fields [(''preset'', Some (enc_udp_preset u))])) (l_udp l))])"

definition enc_listener :: "listener \<Rightarrow> json" where
  "enc_listener = (\<lambda>l. J_obj (fields (listener_props l)))"

text \<open>The options a protocol does not have are not there, the ones it needs are.\<close>

definition ok_options :: "listener \<Rightarrow> bool" where
  "ok_options l \<longleftrightarrow>
     (case l_protocol l of
        L_http \<Rightarrow> l_defaultPool l = None \<and> l_udp l = None \<and> l_onUnmatchedSni l = None \<and> l_onNoSni l = None
          \<and> l_prereadTimeoutS l = None \<and> l_tls l = None \<and> l_http2 l = None \<and> l_httpRedirect l = None
      | L_https \<Rightarrow> l_defaultPool l = None \<and> l_udp l = None \<and> l_onUnmatchedSni l = None \<and> l_onNoSni l = None
          \<and> l_prereadTimeoutS l = None \<and> l_tls l \<noteq> None
      | L_tls_passthrough \<Rightarrow> l_defaultPool l = None \<and> l_udp l = None \<and> l_realIpFromHeader l = None \<and> l_http l = None
          \<and> l_tls l = None \<and> l_http2 l = None \<and> l_hosts l = None \<and> l_httpRedirect l = None
      | L_tcp \<Rightarrow> l_defaultPool l \<noteq> None \<and> l_udp l = None \<and> l_realIpFromHeader l = None \<and> l_http l = None
          \<and> l_onUnmatchedSni l = None \<and> l_onNoSni l = None \<and> l_prereadTimeoutS l = None
          \<and> l_tls l = None \<and> l_http2 l = None \<and> l_hosts l = None \<and> l_httpRedirect l = None
      | L_udp \<Rightarrow> l_defaultPool l \<noteq> None \<and> l_udp l \<noteq> None \<and> l_acceptProxyProtocol l = None \<and> l_realIpFromHeader l = None
          \<and> l_http l = None \<and> l_onUnmatchedSni l = None \<and> l_onNoSni l = None \<and> l_prereadTimeoutS l = None
          \<and> l_tls l = None \<and> l_http2 l = None \<and> l_hosts l = None \<and> l_httpRedirect l = None)"

definition ok_listener :: "listener \<Rightarrow> bool" where
  "ok_listener l \<longleftrightarrow> 1 \<le> l_port l \<and> l_port l \<le> 65535 \<and> pred_option ok_source_allow (l_sourceAllow l)
     \<and> pred_option (\<lambda>p. nonempty (ipp_trustedCidrs p)) (l_acceptProxyProtocol l)
     \<and> pred_option (\<lambda>p. nonempty (irh_trustedCidrs p)) (l_realIpFromHeader l)
     \<and> pred_option ok_http_profile (l_http l) \<and> pred_option nonempty (l_hosts l)
     \<and> pred_option (\<lambda>n. 1 \<le> n \<and> n \<le> 3600) (l_prereadTimeoutS l)
     \<and> pred_option (\<lambda>n. 1 \<le> n \<and> n \<le> 65535) (l_httpRedirect l)
     \<and> ok_options l"

lemmas listener_parts = http_listener_def https_listener_def passthrough_listener_def tcp_listener_def udp_listener_def

lemma raw_sound: "fst (required (\<lambda>raw _. gives (Some raw)) v path name) = [] \<Longrightarrow> \<exists>x. snd (required (\<lambda>raw _. gives (Some raw)) v path name) = Some x"
  by (auto simp: required_def split: option.splits)

lemma udp_sound: "fst (object_d udp_fields raw path) = [] \<Longrightarrow> \<exists>u. snd (object_d udp_fields raw path) = Some u"
  by (auto simp: object_d_def udp_fields_def decodes dest!: readsound split: json.splits)

lemma props_of_protocol:
  assumes "ok_options l"
  shows "fields (listener_props l) = fields (protocol_props l)"
  using assms
  by (cases "l_protocol l")
    (auto simp: ok_options_def listener_props_def protocol_props_def listener_base_props_def fields.simps split: option.splits)

lemma listener_complete:
  assumes "ok_listener l"
  shows "listener_fields (fields (listener_props l)) path = ([], Some l)"
proof (cases l)
  case (fields k pr b n e sa dp ap ri u h us ns pt t h2 hs rd)
  have p: "fields (listener_props l) = fields (protocol_props l)"
    using assms by (intro props_of_protocol) (simp add: ok_listener_def)
  show ?thesis
    using assms unfolding p unfolding fields
    by (cases pr)
      (auto simp: listener_fields_def listener_parts listener_head_def protocol_props_def listener_base_props_def
        ok_listener_def ok_options_def LISTENER_BASE_def Let_def readback gives_def object_d_def udp_fields_def
        simp del: enc_protocol.simps enc_udp_preset.simps)
qed

lemma listener_sound:
  assumes "fst (listener_fields v path) = []"
  shows "case snd (listener_fields v path) of None \<Rightarrow> False | Some l \<Rightarrow> ok_listener l"
  using assms
  by (auto simp: listener_fields_def listener_parts listener_head_def ok_listener_def ok_options_def Let_def decodes
      dest!: readsound raw_sound udp_sound split: listener_protocol.splits)

lemma exact_listener: "exact decodeListener enc_listener ok_listener"
  unfolding decodeListener_def enc_listener_def
  by (rule exact_object_fields) (auto simp: listener_complete dest: listener_sound split: option.splits)

lemmas [readback] = completes [OF exact_listener]
lemmas [readsound] = sounds [OF exact_listener]

end
