(* ===== verification/Decode_Routes.thy ===== *)
theory Decode_Routes
  imports Decode_Listener
begin

text \<open>
  The decoders of routes, \<^verbatim>\<open>decodeHttpRoute\<close> with its source rules and \<^verbatim>\<open>decodePassthroughRoute\<close> in
  \<^verbatim>\<open>src/src/model/decode.ts\<close>.
\<close>

section \<open>Routes\<close>

definition SOURCE_ADDRESSES :: "(json \<times> source_address) list" where
  "SOURCE_ADDRESSES = [(J_str ''visitor'', Visitor), (J_str ''connection'', Connection)]"

fun enc_source_address :: "source_address \<Rightarrow> json" where
  "enc_source_address Visitor = J_str ''visitor''"
| "enc_source_address Connection = J_str ''connection''"

text \<open>The address of a rule is tested before anything else of it: a wrong one ends the rule.\<close>

definition source_rule_fields :: "(string \<times> json) list \<Rightarrow> string \<Rightarrow> http_source_rule dec" where
  "source_rule_fields item path =
     bindD (noExtraKeys item path [''from'', ''action'', ''address'']) (\<lambda>_.
     let address = map_option (map_of SOURCE_ADDRESSES) (dget item ''address'') in
     if address = Some None then added Invalid_value (sub path ''address'')
     else if dget item ''from'' = Some (J_arr []) then added Out_of_range (sub path ''from'')
     else
       bindD (required (arrayOf (checked source_text Invalid_value str_d)) item path ''from'') (\<lambda>from.
       bindD (required decodeHttpAction item path ''action'') (\<lambda>action.
       gives (Option.bind from (\<lambda>f. map_option (\<lambda>a.
         \<lparr>ru_from = f, ru_action = a, ru_address = Option.bind address id\<rparr>) action)))))"

definition enc_source_rule :: "http_source_rule \<Rightarrow> json" where
  "enc_source_rule = (\<lambda>r. J_obj (fields [(''from'', Some (enc_list J_str (ru_from r))),
     (''action'', Some (enc_http_action (ru_action r))), (''address'', map_option enc_source_address (ru_address r))]))"

definition ok_source_rule :: "http_source_rule \<Rightarrow> bool" where
  "ok_source_rule r \<longleftrightarrow> ru_from r \<noteq> [] \<and> list_all source_text (ru_from r) \<and> ok_http_action (ru_action r)"

lemma source_addresses: "map_of SOURCE_ADDRESSES (enc_source_address a) = Some a"
  by (cases a) (simp_all add: SOURCE_ADDRESSES_def)

lemma exact_sources: "exact (arrayOf (checked source_text Invalid_value str_d)) (enc_list J_str) (list_all source_text)"
  using exact_array [OF exact_checked [OF exact_str]] by simp

lemma required_sources_nonempty:
  assumes "fst (required (arrayOf (checked source_text Invalid_value str_d)) item path ''from'') = []"
    "dget item ''from'' \<noteq> Some (J_arr [])"
  shows "\<exists>xs. snd (required (arrayOf (checked source_text Invalid_value str_d)) item path ''from'') = Some xs
    \<and> xs \<noteq> [] \<and> list_all source_text xs"
proof -
  obtain v where v: "dget item ''from'' = Some v" using assms(1) by (auto simp: required_def split: option.splits)
  let ?d = "arrayOf (checked source_text Invalid_value str_d) v (sub path ''from'')"
  have f: "fst ?d = []" using assms(1) v by (simp add: required_def)
  obtain xs where xs: "snd ?d = Some xs" "list_all source_text xs" using exact_sound [OF exact_sources f] by blast
  then have "v = J_arr (map J_str xs)" using f by (intro arrayOf_strings)
  then show ?thesis using v xs assms(2) by (auto simp: required_def)
qed

lemma exact_source_rule: "exact (object_d source_rule_fields) enc_source_rule ok_source_rule"
  unfolding enc_source_rule_def
proof (rule exact_object_fields)
  fix obj path assume "fst (source_rule_fields obj path) = []"
  then show "\<exists>x. snd (source_rule_fields obj path) = Some x \<and> ok_source_rule x"
    by (auto simp: source_rule_fields_def ok_source_rule_def Let_def decodes dest!: required_sources_nonempty readsound split: if_splits)
next
  fix r path assume r: "ok_source_rule r"
  obtain f a ad where "r = \<lparr>ru_from = f, ru_action = a, ru_address = ad\<rparr>" by (cases r)
  with r show "source_rule_fields (fields [(''from'', Some (enc_list J_str (ru_from r))),
     (''action'', Some (enc_http_action (ru_action r))), (''address'', map_option enc_source_address (ru_address r))]) path = ([], Some r)"
    by (cases ad) (simp_all add: source_rule_fields_def ok_source_rule_def Let_def source_addresses readback
        exact_complete [OF exact_sources] gives_def, simp_all add: enc_list_def)
qed

text \<open>At most twenty rules; one issue in any of them undoes them all.\<close>

definition decodeSourceRules :: "json \<Rightarrow> string \<Rightarrow> http_source_rule list dec" where
  "decodeSourceRules v path =
     (if v = J_arr [] then added Out_of_range path
      else if 20 < length (elements_of v) then added Out_of_range path
      else
        let (es, rules) = arrayOf (object_d source_rule_fields) v path in
        (es, if es \<noteq> [] then None else rules))"

definition ok_source_rules :: "http_source_rule list \<Rightarrow> bool" where
  "ok_source_rules rs \<longleftrightarrow> rs \<noteq> [] \<and> length rs \<le> 20 \<and> list_all ok_source_rule rs"

lemma elements_length:
  assumes "exact d enc ok" "fst (elements d path i vs) = []"
  shows "length (snd (elements d path i vs)) = length vs"
  using assms(2)
proof (induction vs arbitrary: i)
  case (Cons v vs)
  let ?e = "elements d path (i + 1) vs" and ?v = "d v (path @ ''['' @ show_nat i @ '']'')"
  have f: "fst ?v = []" "fst ?e = []" using Cons.prems by (auto split: prod.splits)
  then obtain x where "?v = ([], Some x)" using exact_sound [OF assms(1)] by (metis prod.collapse)
  moreover obtain xs where "?e = ([], xs)" using f(2) by (metis prod.collapse)
  ultimately show ?case using Cons.IH [OF f(2)] by simp
qed simp

lemma exact_source_rules: "exact decodeSourceRules (enc_list enc_source_rule) ok_source_rules"
proof (rule exactI)
  fix v path assume a: "fst (decodeSourceRules v path) = []"
  let ?d = "arrayOf (object_d source_rule_fields) v path"
  have f: "fst ?d = []" "v \<noteq> J_arr []" "length (elements_of v) \<le> 20"
    using a by (auto simp: decodeSourceRules_def split: if_splits prod.splits)
  then obtain vs where v: "v = J_arr vs" by (cases v) (auto simp: arrayOf_def)
  have e: "fst (elements (object_d source_rule_fields) path 0 vs) = []" using f(1) by (simp add: v arrayOf_def split: prod.splits)
  obtain xs where xs: "snd ?d = Some xs" "list_all ok_source_rule xs"
    using exact_sound [OF exact_array [OF exact_source_rule] f(1)] by blast
  then have "length xs = length vs"
    using elements_length [OF exact_source_rule e] by (simp add: v arrayOf_def split: prod.splits)
  then show "\<exists>x. snd (decodeSourceRules v path) = Some x \<and> ok_source_rules x"
    using f xs by (auto simp: decodeSourceRules_def ok_source_rules_def v elements_of_def split: prod.splits)
next
  fix rs path assume "ok_source_rules rs"
  then show "decodeSourceRules (enc_list enc_source_rule rs) path = ([], Some rs)"
    using exact_complete [OF exact_array [OF exact_source_rule], of rs path]
    by (auto simp: decodeSourceRules_def ok_source_rules_def elements_of_def enc_list_def)
qed

lemmas [readback] = completes [OF exact_source_rules]
lemmas [readsound] = sounds [OF exact_source_rules]

text \<open>The rewrites of a route against its paths: the first that does not fit.\<close>

definition ends_with_slash :: "string \<Rightarrow> bool" where
  "ends_with_slash s \<longleftrightarrow> s \<noteq> [] \<and> last s = CHR ''/''"

definition rewrite_of :: "http_action \<Rightarrow> string option" where
  "rewrite_of a = (case a of Act_proxy p \<Rightarrow> pa_rewritePrefix p | _ \<Rightarrow> None)"

definition rewrite_fits :: "string list \<Rightarrow> http_action \<Rightarrow> bool" where
  "rewrite_fits paths a \<longleftrightarrow> (case rewrite_of a of None \<Rightarrow> True
     | Some r \<Rightarrow> list_all (\<lambda>p. ends_with_slash p = ends_with_slash r) paths)"

definition rewrites_of :: "http_route \<Rightarrow> string \<Rightarrow> (http_action \<times> string) list" where
  "rewrites_of r path = (hro_action r, sub path ''action'') #
     map (\<lambda>(i, rule). (ru_action rule, path @ ''.sourceRules['' @ show_nat i @ ''].action''))
       (enumerate 0 (list_of_option (hro_sourceRules r)))"

definition rewrite_check :: "http_route \<Rightarrow> string \<Rightarrow> http_route dec" where
  "rewrite_check r path =
     (case find (\<lambda>(a, _). \<not> rewrite_fits (routePaths r) a) (rewrites_of r path) of
        Some (_, where_at) \<Rightarrow> added Invalid_value (sub where_at ''rewritePrefix'')
      | None \<Rightarrow> gives (Some r))"

definition path_check :: "http_route \<Rightarrow> string \<Rightarrow> http_route dec" where
  "path_check r path =
     (case hro_pathPrefixes r of
        None \<Rightarrow> rewrite_check r path
      | Some ps \<Rightarrow>
          if hro_pathPrefix r \<noteq> None then added Invalid_value (sub path ''pathPrefixes'')
          else if ps = [] then added Invalid_value (sub path ''pathPrefixes'')
          else if \<not> distinct ps then added Invalid_value (sub path ''pathPrefixes'')
          else rewrite_check r path)"

definition http_route_fields :: "(string \<times> json) list \<Rightarrow> string \<Rightarrow> http_route dec" where
  "http_route_fields v path =
     bindD (noExtraKeys v path [''key'', ''listener'', ''hosts'', ''priority'', ''pathPrefix'', ''pathPrefixes'', ''action'', ''sourceRules'']) (\<lambda>_.
     bindD (required str_d v path ''key'') (\<lambda>key.
     bindD (required str_d v path ''listener'') (\<lambda>listener.
     bindD (required (arrayOf str_d) v path ''hosts'') (\<lambda>hosts.
     bindD (required (int_d 0 1000000) v path ''priority'') (\<lambda>priority.
     bindD (optional str_d v path ''pathPrefix'') (\<lambda>pathPrefix.
     bindD (optional (arrayOf str_d) v path ''pathPrefixes'') (\<lambda>pathPrefixes.
     bindD (required decodeHttpAction v path ''action'') (\<lambda>action.
     bindD (optional decodeSourceRules v path ''sourceRules'') (\<lambda>sourceRules.
     case (key, listener, hosts, priority, action) of
       (Some k, Some l, Some hs, Some pr, Some a) \<Rightarrow>
         if dget v ''sourceRules'' \<noteq> None \<and> sourceRules = None then gives None
         else path_check \<lparr>hro_key = k, hro_listener = l, hro_hosts = hs, hro_priority = pr, hro_pathPrefix = pathPrefix,
           hro_pathPrefixes = pathPrefixes, hro_action = a, hro_sourceRules = sourceRules\<rparr> path
     | _ \<Rightarrow> gives None)))))))))"

definition decodeHttpRoute :: "json \<Rightarrow> string \<Rightarrow> http_route dec" where
  "decodeHttpRoute = object_d http_route_fields"

definition enc_http_route :: "http_route \<Rightarrow> json" where
  "enc_http_route = (\<lambda>r. J_obj (fields [(''key'', Some (J_str (hro_key r))), (''listener'', Some (J_str (hro_listener r))),
     (''hosts'', Some (enc_list J_str (hro_hosts r))), (''priority'', Some (enc_int (hro_priority r))),
     (''pathPrefix'', map_option J_str (hro_pathPrefix r)), (''pathPrefixes'', map_option (enc_list J_str) (hro_pathPrefixes r)),
     (''action'', Some (enc_http_action (hro_action r))),
     (''sourceRules'', map_option (enc_list enc_source_rule) (hro_sourceRules r))]))"

definition ok_paths :: "http_route \<Rightarrow> bool" where
  "ok_paths r \<longleftrightarrow> (case hro_pathPrefixes r of None \<Rightarrow> True | Some ps \<Rightarrow> hro_pathPrefix r = None \<and> ps \<noteq> [] \<and> distinct ps)
     \<and> list_all (rewrite_fits (routePaths r)) (routeActions r)"

definition ok_http_route :: "http_route \<Rightarrow> bool" where
  "ok_http_route r \<longleftrightarrow> 0 \<le> hro_priority r \<and> hro_priority r \<le> 1000000 \<and> ok_http_action (hro_action r)
     \<and> pred_option ok_source_rules (hro_sourceRules r) \<and> ok_paths r"

lemma rewrites_of_actions: "map fst (rewrites_of r path) = routeActions r"
proof -
  have "map (fst \<circ> (\<lambda>(i, rule). (ru_action rule, path @ ''.sourceRules['' @ show_nat i @ ''].action''))) (enumerate n xs)
      = map ru_action xs" for n :: nat and xs :: "http_source_rule list"
    by (induction xs arbitrary: n) simp_all
  then show ?thesis by (simp add: rewrites_of_def routeActions_def)
qed

lemma rewrite_check_iff:
  "rewrite_check r path = gives (Some r) \<or> fst (rewrite_check r path) \<noteq> []"
  "fst (rewrite_check r path) = [] \<longleftrightarrow> list_all (rewrite_fits (routePaths r)) (routeActions r)"
proof -
  show "rewrite_check r path = gives (Some r) \<or> fst (rewrite_check r path) \<noteq> []"
    by (auto simp: rewrite_check_def split: option.splits)
  have "fst (rewrite_check r path) = [] \<longleftrightarrow> find (\<lambda>(a, _). \<not> rewrite_fits (routePaths r) a) (rewrites_of r path) = None"
    by (auto simp: rewrite_check_def split: option.splits)
  also have "\<dots> \<longleftrightarrow> list_all (rewrite_fits (routePaths r)) (map fst (rewrites_of r path))"
    by (auto simp: find_None_iff list_all_iff)
  finally show "fst (rewrite_check r path) = [] \<longleftrightarrow> list_all (rewrite_fits (routePaths r)) (routeActions r)"
    by (simp add: rewrites_of_actions)
qed

lemma path_check_iff:
  "fst (path_check r path) = [] \<longleftrightarrow> ok_paths r"
  "ok_paths r \<Longrightarrow> path_check r path = ([], Some r)"
  using rewrite_check_iff [of r path] by (auto simp: path_check_def ok_paths_def gives_def split: option.splits if_splits)

lemma optional_absent:
  assumes "fst (optional decodeSourceRules v path name) = []" "dget v name \<noteq> None"
  shows "snd (optional decodeSourceRules v path name) \<noteq> None"
proof -
  obtain w where "dget v name = Some w" using assms(2) by blast
  then show ?thesis using assms(1) exact_sound [OF exact_source_rules, of w "sub path name"] by (auto simp: optional_def)
qed

lemma http_route_sound:
  assumes "fst (http_route_fields v path) = []"
  shows "\<exists>r. snd (http_route_fields v path) = Some r \<and> ok_http_route r"
proof -
  have "fst (optional decodeSourceRules v path ''sourceRules'') = []"
    using assms by (simp add: http_route_fields_def decodes)
  then have "\<not> (dget v ''sourceRules'' \<noteq> None \<and> snd (optional decodeSourceRules v path ''sourceRules'') = None)"
    using optional_absent by blast
  then show ?thesis using assms
    by (auto simp: http_route_fields_def ok_http_route_def decodes path_check_iff dest!: readsound split: if_splits)
qed

lemma http_route_complete:
  assumes "ok_http_route r"
  shows "decodeHttpRoute (enc_http_route r) path = ([], Some r)"
proof (cases r)
  case (fields k l hs pr pp pps a rules)
  show ?thesis using assms unfolding fields
    by (cases rules) (simp_all add: decodeHttpRoute_def enc_http_route_def object_d_def http_route_fields_def
        ok_http_route_def readback gives_def path_check_iff)
qed

lemma exact_http_route: "exact decodeHttpRoute enc_http_route ok_http_route"
proof (rule exactI)
  fix v path assume "fst (decodeHttpRoute v path) = []"
  then show "\<exists>r. snd (decodeHttpRoute v path) = Some r \<and> ok_http_route r"
    by (cases v) (auto simp: decodeHttpRoute_def object_d_def http_route_sound)
qed (rule http_route_complete)

definition passthrough_route_fields :: "(string \<times> json) list \<Rightarrow> string \<Rightarrow> passthrough_route dec" where
  "passthrough_route_fields v path =
     bindD (noExtraKeys v path [''key'', ''listener'', ''snis'', ''priority'', ''action'']) (\<lambda>_.
     bindD (required str_d v path ''key'') (\<lambda>key.
     bindD (required str_d v path ''listener'') (\<lambda>listener.
     bindD (required (arrayOf str_d) v path ''snis'') (\<lambda>snis.
     bindD (required (int_d 0 1000000) v path ''priority'') (\<lambda>priority.
     bindD (required decodePassthroughAction v path ''action'') (\<lambda>action.
     gives (Option.bind key (\<lambda>k. Option.bind listener (\<lambda>l. Option.bind snis (\<lambda>s. Option.bind priority (\<lambda>p. Option.bind action (\<lambda>a.
       Some \<lparr>pr_key = k, pr_listener = l, pr_snis = s, pr_priority = p, pr_action = a\<rparr>))))))))))))"

definition decodePassthroughRoute :: "json \<Rightarrow> string \<Rightarrow> passthrough_route dec" where
  "decodePassthroughRoute = object_d passthrough_route_fields"

definition enc_passthrough_route :: "passthrough_route \<Rightarrow> json" where
  "enc_passthrough_route = (\<lambda>r. J_obj (fields [(''key'', Some (J_str (pr_key r))), (''listener'', Some (J_str (pr_listener r))),
     (''snis'', Some (enc_list J_str (pr_snis r))), (''priority'', Some (enc_int (pr_priority r))),
     (''action'', Some (enc_passthrough_action (pr_action r)))]))"

definition ok_passthrough_route :: "passthrough_route \<Rightarrow> bool" where
  "ok_passthrough_route r \<longleftrightarrow> 0 \<le> pr_priority r \<and> pr_priority r \<le> 1000000"

lemma exact_passthrough_route: "exact decodePassthroughRoute enc_passthrough_route ok_passthrough_route"
  unfolding decodePassthroughRoute_def enc_passthrough_route_def
  by (rule exact_object_fields)
    ((auto simp: passthrough_route_fields_def ok_passthrough_route_def decodes dest!: readsound)[1],
     simp add: passthrough_route_fields_def ok_passthrough_route_def readback gives_def)

end
