(* ===== verification/Decode_Tls.thy ===== *)
theory Decode_Tls
  imports Decode_Parts
begin

text \<open>
  The decoders of certificates, TLS policies, bindings of server names and engine settings,
  \<^verbatim>\<open>src/src/model/decode.ts\<close>.
\<close>

section \<open>Certificates and policies\<close>

definition acme_fields :: "(string \<times> json) list \<Rightarrow> string \<Rightarrow> acme_intent dec" where
  "acme_fields v path =
     bindD (noExtraKeys v path [''account'', ''domains'']) (\<lambda>_.
     bindD (required str_d v path ''account'') (\<lambda>account.
     bindD (required (arrayOf str_d) v path ''domains'') (\<lambda>domains.
     gives (Option.bind account (\<lambda>a. map_option (\<lambda>ds. \<lparr>ai_account = a, ai_domains = ds\<rparr>) domains)))))"

definition decodeAcmeIntent :: "json \<Rightarrow> string \<Rightarrow> acme_intent dec" where
  "decodeAcmeIntent = object_d acme_fields"

definition enc_acme :: "acme_intent \<Rightarrow> json" where
  "enc_acme = (\<lambda>a. J_obj (fields [(''account'', Some (J_str (ai_account a))), (''domains'', Some (enc_list J_str (ai_domains a)))]))"

lemma exact_acme: "exact decodeAcmeIntent enc_acme (\<lambda>_. True)"
  unfolding decodeAcmeIntent_def enc_acme_def
  by (rule exact_object_fields)
    ((auto simp: acme_fields_def decodes dest!: readsound)[1], simp add: acme_fields_def readback gives_def)

lemmas [readback] = completes [OF exact_acme, simplified]
lemmas [readsound] = sounds [OF exact_acme]

text \<open>The material of a certificate is there in all its three parts or not at all.\<close>

definition certificate_parts :: "string option \<Rightarrow> string option \<Rightarrow> string option \<Rightarrow> nat" where
  "certificate_parts materialRef chainDigest keyDigest =
     length (filter (\<lambda>x. x \<noteq> None) [materialRef, chainDigest, keyDigest])"

definition certificate_fields :: "(string \<times> json) list \<Rightarrow> string \<Rightarrow> certificate dec" where
  "certificate_fields v path =
     bindD (noExtraKeys v path [''key'', ''materialRef'', ''chainDigest'', ''keyDigest'', ''acme'']) (\<lambda>_.
     bindD (required str_d v path ''key'') (\<lambda>key.
     bindD (optional str_d v path ''materialRef'') (\<lambda>materialRef.
     bindD (optional str_d v path ''chainDigest'') (\<lambda>chainDigest.
     bindD (optional str_d v path ''keyDigest'') (\<lambda>keyDigest.
     bindD (optional decodeAcmeIntent v path ''acme'') (\<lambda>acme.
     case key of
       None \<Rightarrow> gives None
     | Some k \<Rightarrow>
         let parts = certificate_parts materialRef chainDigest keyDigest in
         if parts \<noteq> 0 \<and> parts \<noteq> 3 then added Missing_field path
         else if parts = 0 \<and> acme = None then added Missing_field path
         else gives (Some \<lparr>ce_key = k, ce_materialRef = materialRef, ce_chainDigest = chainDigest,
           ce_keyDigest = keyDigest, ce_acme = acme\<rparr>)))))))"

definition decodeCertificate :: "json \<Rightarrow> string \<Rightarrow> certificate dec" where
  "decodeCertificate = object_d certificate_fields"

definition enc_certificate :: "certificate \<Rightarrow> json" where
  "enc_certificate = (\<lambda>c. J_obj (fields [(''key'', Some (J_str (ce_key c))), (''materialRef'', map_option J_str (ce_materialRef c)),
     (''chainDigest'', map_option J_str (ce_chainDigest c)), (''keyDigest'', map_option J_str (ce_keyDigest c)),
     (''acme'', map_option enc_acme (ce_acme c))]))"

definition ok_certificate :: "certificate \<Rightarrow> bool" where
  "ok_certificate c \<longleftrightarrow>
     (ce_materialRef c = None) = (ce_chainDigest c = None) \<and> (ce_materialRef c = None) = (ce_keyDigest c = None)
     \<and> (ce_materialRef c \<noteq> None \<or> ce_acme c \<noteq> None)"

lemma certificate_parts_ok:
  "0 < certificate_parts a b c \<longleftrightarrow> a \<noteq> None \<or> b \<noteq> None \<or> c \<noteq> None"
  "certificate_parts a b c = 0 \<longleftrightarrow> a = None \<and> b = None \<and> c = None"
  "certificate_parts a b c = 3 \<longleftrightarrow> a \<noteq> None \<and> b \<noteq> None \<and> c \<noteq> None"
  by (auto simp: certificate_parts_def)

lemma exact_certificate: "exact decodeCertificate enc_certificate ok_certificate"
  unfolding decodeCertificate_def enc_certificate_def
  by (rule exact_object_fields)
    ((auto simp: certificate_fields_def ok_certificate_def Let_def certificate_parts_ok decodes dest!: readsound split: if_splits)[1],
     auto simp: certificate_fields_def ok_certificate_def Let_def certificate_parts_ok readback gives_def)

definition hsts_fields :: "(string \<times> json) list \<Rightarrow> string \<Rightarrow> hsts_policy dec" where
  "hsts_fields v path =
     bindD (noExtraKeys v path [''maxAgeSeconds'', ''includeSubdomains'', ''preload'']) (\<lambda>_.
     bindD (required (nat_d 0 63072000) v path ''maxAgeSeconds'') (\<lambda>maxAge.
     bindD (optional bool_d v path ''includeSubdomains'') (\<lambda>includeSubdomains.
     bindD (optional bool_d v path ''preload'') (\<lambda>preload.
     gives (map_option (\<lambda>a. \<lparr>hs_maxAgeSeconds = a, hs_includeSubdomains = includeSubdomains, hs_preload = preload\<rparr>) maxAge)))))"

definition decodeHsts :: "json \<Rightarrow> string \<Rightarrow> hsts_policy dec" where
  "decodeHsts = object_d hsts_fields"

definition enc_hsts :: "hsts_policy \<Rightarrow> json" where
  "enc_hsts = (\<lambda>h. J_obj (fields [(''maxAgeSeconds'', Some (enc_nat (hs_maxAgeSeconds h))),
     (''includeSubdomains'', map_option J_bool (hs_includeSubdomains h)), (''preload'', map_option J_bool (hs_preload h))]))"

definition ok_hsts :: "hsts_policy \<Rightarrow> bool" where
  "ok_hsts h \<longleftrightarrow> hs_maxAgeSeconds h \<le> 63072000"

lemma exact_hsts: "exact decodeHsts enc_hsts ok_hsts"
  unfolding decodeHsts_def enc_hsts_def
  by (rule exact_object_fields)
    ((auto simp: hsts_fields_def ok_hsts_def decodes dest!: readsound)[1], simp add: hsts_fields_def ok_hsts_def readback gives_def)

lemmas [readback] = completes [OF exact_hsts]
lemmas [readsound] = sounds [OF exact_hsts]

definition tls_policy_fields :: "(string \<times> json) list \<Rightarrow> string \<Rightarrow> tls_policy dec" where
  "tls_policy_fields v path =
     bindD (noExtraKeys v path [''key'', ''minVersion'', ''maxVersion'', ''sniHostMismatch'', ''cipherPolicy'', ''hsts'']) (\<lambda>_.
     bindD (required str_d v path ''key'') (\<lambda>key.
     bindD (required (oneOf TLS_VERSIONS) v path ''minVersion'') (\<lambda>minVersion.
     bindD (optional (oneOf TLS_VERSIONS) v path ''maxVersion'') (\<lambda>maxVersion.
     bindD (optional (oneOf SNI_HOST_MISMATCH) v path ''sniHostMismatch'') (\<lambda>mismatch.
     bindD (optional (oneOf CIPHER_POLICIES) v path ''cipherPolicy'') (\<lambda>cipherPolicy.
     bindD (optional decodeHsts v path ''hsts'') (\<lambda>hsts.
     gives (Option.bind key (\<lambda>k. map_option (\<lambda>mv. \<lparr>tp_key = k, tp_minVersion = mv, tp_maxVersion = maxVersion,
       tp_sniHostMismatch = mismatch, tp_cipherPolicy = cipherPolicy, tp_hsts = hsts\<rparr>) minVersion)))))))))"

definition decodeTlsPolicy :: "json \<Rightarrow> string \<Rightarrow> tls_policy dec" where
  "decodeTlsPolicy = object_d tls_policy_fields"

definition enc_tls_policy :: "tls_policy \<Rightarrow> json" where
  "enc_tls_policy = (\<lambda>p. J_obj (fields [(''key'', Some (J_str (tp_key p))), (''minVersion'', Some (enc_tls_version (tp_minVersion p))),
     (''maxVersion'', map_option enc_tls_version (tp_maxVersion p)), (''sniHostMismatch'', map_option enc_mismatch (tp_sniHostMismatch p)),
     (''cipherPolicy'', map_option enc_cipher_policy (tp_cipherPolicy p)), (''hsts'', map_option enc_hsts (tp_hsts p))]))"

lemma exact_tls_policy: "exact decodeTlsPolicy enc_tls_policy (\<lambda>p. pred_option ok_hsts (tp_hsts p))"
  unfolding decodeTlsPolicy_def enc_tls_policy_def
  by (rule exact_object_fields)
    ((auto simp: tls_policy_fields_def decodes dest!: readsound)[1], simp add: tls_policy_fields_def readback gives_def)

definition override_fields :: "(string \<times> json) list \<Rightarrow> string \<Rightarrow> version_override dec" where
  "override_fields v path =
     bindD (noExtraKeys v path [''minVersion'', ''maxVersion'']) (\<lambda>_.
     bindD (optional (oneOf TLS_VERSIONS) v path ''minVersion'') (\<lambda>minVersion.
     bindD (optional (oneOf TLS_VERSIONS) v path ''maxVersion'') (\<lambda>maxVersion.
     gives (Some \<lparr>vo_minVersion = minVersion, vo_maxVersion = maxVersion\<rparr>))))"

definition decodeTlsOverride :: "json \<Rightarrow> string \<Rightarrow> version_override dec" where
  "decodeTlsOverride = object_d override_fields"

definition enc_override :: "version_override \<Rightarrow> json" where
  "enc_override = (\<lambda>x. J_obj (fields [(''minVersion'', map_option enc_tls_version (vo_minVersion x)),
     (''maxVersion'', map_option enc_tls_version (vo_maxVersion x))]))"

lemma exact_override: "exact decodeTlsOverride enc_override (\<lambda>_. True)"
  unfolding decodeTlsOverride_def enc_override_def
  by (rule exact_object_fields)
    ((auto simp: override_fields_def decodes dest!: readsound)[1], simp add: override_fields_def readback gives_def)

lemmas [readback] = completes [OF exact_override, simplified]
lemmas [readsound] = sounds [OF exact_override]

definition sni_binding_fields :: "(string \<times> json) list \<Rightarrow> string \<Rightarrow> sni_certificate_binding dec" where
  "sni_binding_fields v path =
     bindD (noExtraKeys v path [''key'', ''listener'', ''hosts'', ''certificate'', ''override'']) (\<lambda>_.
     bindD (required str_d v path ''key'') (\<lambda>key.
     bindD (required str_d v path ''listener'') (\<lambda>listener.
     bindD (required (arrayOf str_d) v path ''hosts'') (\<lambda>hosts.
     bindD (required str_d v path ''certificate'') (\<lambda>certificate.
     bindD (optional decodeTlsOverride v path ''override'') (\<lambda>override.
     gives (Option.bind key (\<lambda>k. Option.bind listener (\<lambda>l. Option.bind hosts (\<lambda>hs. map_option (\<lambda>c.
       \<lparr>sb_key = k, sb_listener = l, sb_hosts = hs, sb_certificate = c, sb_override = override\<rparr>) certificate))))))))))"

definition decodeSniBinding :: "json \<Rightarrow> string \<Rightarrow> sni_certificate_binding dec" where
  "decodeSniBinding = object_d sni_binding_fields"

definition enc_sni_binding :: "sni_certificate_binding \<Rightarrow> json" where
  "enc_sni_binding = (\<lambda>b. J_obj (fields [(''key'', Some (J_str (sb_key b))), (''listener'', Some (J_str (sb_listener b))),
     (''hosts'', Some (enc_list J_str (sb_hosts b))), (''certificate'', Some (J_str (sb_certificate b))),
     (''override'', map_option enc_override (sb_override b))]))"

lemma exact_sni_binding: "exact decodeSniBinding enc_sni_binding (\<lambda>_. True)"
  unfolding decodeSniBinding_def enc_sni_binding_def
  by (rule exact_object_fields)
    ((auto simp: sni_binding_fields_def decodes dest!: readsound)[1], simp add: sni_binding_fields_def readback gives_def)

definition engine_fields :: "(string \<times> json) list \<Rightarrow> string \<Rightarrow> engine_settings dec" where
  "engine_fields v path =
     bindD (noExtraKeys v path [''workerShutdownTimeoutS'', ''membershipDictKb'', ''acmeDictKb'']) (\<lambda>_.
     bindD (optional (nat_d 1 86400) v path ''workerShutdownTimeoutS'') (\<lambda>t.
     bindD (optional (nat_d 64 1048576) v path ''membershipDictKb'') (\<lambda>membership.
     bindD (optional (nat_d 32 1048576) v path ''acmeDictKb'') (\<lambda>acme.
     gives (Some \<lparr>es_workerShutdownTimeoutS = t, es_membershipDictKb = membership, es_acmeDictKb = acme\<rparr>)))))"

definition decodeEngineSettings :: "json \<Rightarrow> string \<Rightarrow> engine_settings dec" where
  "decodeEngineSettings = object_d engine_fields"

definition enc_engine :: "engine_settings \<Rightarrow> json" where
  "enc_engine = (\<lambda>e. J_obj (fields [(''workerShutdownTimeoutS'', map_option enc_nat (es_workerShutdownTimeoutS e)),
     (''membershipDictKb'', map_option enc_nat (es_membershipDictKb e)), (''acmeDictKb'', map_option enc_nat (es_acmeDictKb e))]))"

definition ok_engine :: "engine_settings \<Rightarrow> bool" where
  "ok_engine e \<longleftrightarrow> pred_option (\<lambda>n. 1 \<le> n \<and> n \<le> 86400) (es_workerShutdownTimeoutS e)
     \<and> pred_option (\<lambda>n. 64 \<le> n \<and> n \<le> 1048576) (es_membershipDictKb e) \<and> pred_option (\<lambda>n. 32 \<le> n \<and> n \<le> 1048576) (es_acmeDictKb e)"

lemma exact_engine: "exact decodeEngineSettings enc_engine ok_engine"
  unfolding decodeEngineSettings_def enc_engine_def
  by (rule exact_object_fields)
    ((auto simp: engine_fields_def ok_engine_def decodes dest!: readsound)[1], simp add: engine_fields_def ok_engine_def readback gives_def)

end
