(* ===== verification/Decode_Sets.thy ===== *)
theory Decode_Sets
  imports Decode_Parts
begin

text \<open>
  The decoder of address sets and of the options of their sources, \<^verbatim>\<open>src/src/model/decode.ts\<close>. The
  \<^verbatim>\<open>URL\<close> class is the parameter \<open>url_protocol\<close>: the protocol of a text, \<open>None\<close> where it throws.
\<close>

section \<open>Address sets\<close>

definition option_name_ok :: "string \<Rightarrow> bool" where
  "option_name_ok = shaped is_alnum (\<lambda>c. is_alnum c \<or> c \<in> {CHR '' '', CHR ''_'', CHR ''.'', CHR ''-''}) 64"

definition json_path_ok :: "string \<Rightarrow> bool" where
  "json_path_ok s \<longleftrightarrow> list_all (\<lambda>w. w \<noteq> [] \<and> list_all (\<lambda>c. is_alnum c \<or> c \<in> {CHR ''_'', CHR ''-''}) w) (split_on CHR ''.'' s)"

definition source_url_ok :: "(string \<Rightarrow> string option) \<Rightarrow> string \<Rightarrow> bool" where
  "source_url_ok url_protocol u \<longleftrightarrow> url_protocol u = Some ''https:'' \<and> length u \<le> 2048"

definition ADDRESS_SOURCE_OPTION_KEYS :: "address_source_kind \<Rightarrow> string list" where
  "ADDRESS_SOURCE_OPTION_KEYS source =
     (case source of
        Cloudflare \<Rightarrow> [''family'']
      | Aws \<Rightarrow> [''family'', ''services'', ''regions'']
      | Gcp \<Rightarrow> [''family'', ''services'', ''regions'']
      | Fastly \<Rightarrow> [''family'']
      | Url_source \<Rightarrow> [''family'', ''url'', ''jsonPath''])"

definition option_names :: "json \<Rightarrow> string \<Rightarrow> string list dec" where
  "option_names v path =
     bindD (arrayOf (checked option_name_ok Invalid_value str_d) v path) (\<lambda>out.
     (issue_if (v = J_arr []) Out_of_range [path], out))"

definition unsupported_options :: "address_source_kind option \<Rightarrow> (string \<times> json) list \<Rightarrow> string \<Rightarrow> model_issue list" where
  "unsupported_options source v path =
     (case source of
        None \<Rightarrow> []
      | Some s \<Rightarrow> concat (map (\<lambda>k. issue_if (k \<notin> set (ADDRESS_SOURCE_OPTION_KEYS s)) Option_not_supported [sub path k]) (dkeys v)))"

definition source_options_fields ::
    "(string \<Rightarrow> string option) \<Rightarrow> address_source_kind option \<Rightarrow> (string \<times> json) list \<Rightarrow> string \<Rightarrow> address_source_options dec" where
  "source_options_fields url_protocol source v path =
     bindD (noExtraKeys v path [''family'', ''services'', ''regions'', ''url'', ''jsonPath'']) (\<lambda>_.
     bindD (unsupported_options source v path, None :: unit option) (\<lambda>_.
     bindD (optional (oneOf FAMILIES) v path ''family'') (\<lambda>family.
     bindD (optional option_names v path ''services'') (\<lambda>services.
     bindD (optional option_names v path ''regions'') (\<lambda>regions.
     bindD (optional (checked (source_url_ok url_protocol) Invalid_value str_d) v path ''url'') (\<lambda>url.
     bindD (optional (checked json_path_ok Invalid_value str_d) v path ''jsonPath'') (\<lambda>jsonPath.
     gives (Some \<lparr>aso_family = family, aso_services = services, aso_regions = regions, aso_url = url, aso_jsonPath = jsonPath\<rparr>))))))))"

definition decodeAddressSourceOptions ::
    "(string \<Rightarrow> string option) \<Rightarrow> address_source_kind option \<Rightarrow> json \<Rightarrow> string \<Rightarrow> address_source_options dec" where
  "decodeAddressSourceOptions url_protocol source = object_d (source_options_fields url_protocol source)"

definition source_options_props :: "address_source_options \<Rightarrow> (string \<times> json option) list" where
  "source_options_props x = [(''family'', map_option enc_family (aso_family x)), (''services'', map_option (enc_list J_str) (aso_services x)),
     (''regions'', map_option (enc_list J_str) (aso_regions x)), (''url'', map_option J_str (aso_url x)),
     (''jsonPath'', map_option J_str (aso_jsonPath x))]"

definition enc_source_options :: "address_source_options \<Rightarrow> json" where
  "enc_source_options = (\<lambda>x. J_obj (fields (source_options_props x)))"

definition ok_names :: "string list \<Rightarrow> bool" where
  "ok_names xs \<longleftrightarrow> xs \<noteq> [] \<and> list_all option_name_ok xs"

definition ok_source_options :: "(string \<Rightarrow> string option) \<Rightarrow> address_source_kind option \<Rightarrow> address_source_options \<Rightarrow> bool" where
  "ok_source_options url_protocol source x \<longleftrightarrow>
     pred_option ok_names (aso_services x) \<and> pred_option ok_names (aso_regions x)
     \<and> pred_option (source_url_ok url_protocol) (aso_url x) \<and> pred_option json_path_ok (aso_jsonPath x)
     \<and> (case source of
          None \<Rightarrow> True
        | Some Url_source \<Rightarrow> aso_services x = None \<and> aso_regions x = None
        | Some s \<Rightarrow> aso_url x = None \<and> aso_jsonPath x = None
            \<and> (if s = Aws \<or> s = Gcp then True else aso_services x = None \<and> aso_regions x = None))"

lemma exact_option_names: "exact option_names (enc_list J_str) ok_names"
proof (rule exactI)
  let ?d = "arrayOf (checked option_name_ok Invalid_value str_d)"
  fix v path assume a: "fst (option_names v path) = []"
  then have f: "fst (?d v path) = []" "v \<noteq> J_arr []" by (auto simp: option_names_def decodes issue_if_def split: if_splits)
  then obtain xs where xs: "snd (?d v path) = Some xs" "list_all option_name_ok xs"
    using exact_sound [OF exact_array [OF exact_checked [OF exact_str]], of option_name_ok Invalid_value v path] by auto
  then have "v = J_arr (map J_str xs)" using f by (intro arrayOf_strings)
  then show "\<exists>x. snd (option_names v path) = Some x \<and> ok_names x"
    using f xs by (auto simp: option_names_def decodes ok_names_def)
next
  fix xs path assume "ok_names xs"
  then show "option_names (enc_list J_str xs) path = ([], Some xs)"
    using exact_complete [OF exact_array [OF exact_checked [OF exact_str]], of option_name_ok xs Invalid_value path]
    by (simp add: option_names_def ok_names_def) (auto simp: issue_if_def enc_list_def)
qed

lemmas [readback] = completes [OF exact_option_names]
lemmas [readsound] = sounds [OF exact_option_names]

lemma fields_keys_sub: "fst ` set (fields l) \<subseteq> K \<longleftrightarrow> list_all (\<lambda>(n, x). x = None \<or> n \<in> K) l"
  by (induction l rule: fields.induct) (auto simp: fields.simps split: option.splits)

lemma unsupported_none: "unsupported_options source v path = [] \<longleftrightarrow>
    (case source of None \<Rightarrow> True | Some s \<Rightarrow> set (dkeys v) \<subseteq> set (ADDRESS_SOURCE_OPTION_KEYS s))"
  by (auto simp: unsupported_options_def issue_if_def split: option.splits)

lemma optional_missing: "name \<notin> set (dkeys v) \<Longrightarrow> snd (optional d v path name) = None"
  by (cases "dget v name") (auto simp: optional_def dest!: map_of_SomeD, force)

lemma unsupported_missing:
  assumes "unsupported_options (Some s) v path = []" "name \<notin> set (ADDRESS_SOURCE_OPTION_KEYS s)"
  shows "snd (optional d v path name) = None"
  using assms by (intro optional_missing) (auto simp: unsupported_none)

lemma unsupported_fields:
  "unsupported_options source (fields (source_options_props x)) path = [] \<longleftrightarrow>
     (case source of
          None \<Rightarrow> True
        | Some Url_source \<Rightarrow> aso_services x = None \<and> aso_regions x = None
        | Some s \<Rightarrow> aso_url x = None \<and> aso_jsonPath x = None
            \<and> (if s = Aws \<or> s = Gcp then True else aso_services x = None \<and> aso_regions x = None))"
  by (cases source) (auto simp: unsupported_none fields_keys_sub source_options_props_def
      ADDRESS_SOURCE_OPTION_KEYS_def split: address_source_kind.splits)

lemma exact_source_options:
  "exact (decodeAddressSourceOptions url_protocol source) enc_source_options (ok_source_options url_protocol source)"
  unfolding decodeAddressSourceOptions_def enc_source_options_def
proof (rule exact_object_fields)
  fix v path assume a: "fst (source_options_fields url_protocol source v path) = []"
  then show "\<exists>x. snd (source_options_fields url_protocol source v path) = Some x \<and> ok_source_options url_protocol source x"
    unfolding source_options_fields_def decodes
    by (cases source) (auto simp: ok_source_options_def ADDRESS_SOURCE_OPTION_KEYS_def dest!: readsound
      intro: unsupported_missing split: address_source_kind.splits)
next
  fix x path assume "ok_source_options url_protocol source x"
  then show "source_options_fields url_protocol source (fields (source_options_props x)) path = ([], Some x)"
    using unsupported_fields [of source x path]
    by (simp add: source_options_fields_def ok_source_options_def source_options_props_def readback gives_def)
qed

text \<open>A missing array counts as one of the wrong type, and as empty.\<close>

definition array_at :: "(json \<Rightarrow> string \<Rightarrow> 'a dec) \<Rightarrow> (string \<times> json) list \<Rightarrow> string \<Rightarrow> string \<Rightarrow> 'a list dec" where
  "array_at each obj path name =
     (case dget obj name of
        None \<Rightarrow> ([issue Invalid_type [sub path name]], Some [])
      | Some v \<Rightarrow> arrayOf each v (sub path name))"

definition cidr_text :: "string \<Rightarrow> bool" where
  "cidr_text c \<longleftrightarrow> cidrVersion c \<noteq> 0"

definition url_missing :: "address_source_kind option \<Rightarrow> address_source_options option \<Rightarrow> bool" where
  "url_missing source sourceOptions \<longleftrightarrow> source = Some Url_source \<and> Option.bind sourceOptions aso_url = None"

definition address_set_fields :: "(string \<Rightarrow> string option) \<Rightarrow> (string \<times> json) list \<Rightarrow> string \<Rightarrow> address_set dec" where
  "address_set_fields url_protocol v path =
     bindD (noExtraKeys v path [''key'', ''cidrs'', ''source'', ''sourceOptions'']) (\<lambda>_.
     bindD (required str_d v path ''key'') (\<lambda>key.
     bindD (optional (oneOf ADDRESS_SOURCE_KINDS) v path ''source'') (\<lambda>source.
     bindD (optional (decodeAddressSourceOptions url_protocol source) v path ''sourceOptions'') (\<lambda>sourceOptions.
     bindD (issue_if (dget v ''sourceOptions'' \<noteq> None \<and> dget v ''source'' = None) Invalid_value [sub path ''sourceOptions''], None :: unit option) (\<lambda>_.
     bindD (issue_if (url_missing source sourceOptions) Invalid_value [sub (sub path ''sourceOptions'') ''url''], None :: unit option) (\<lambda>_.
     bindD (array_at (checked cidr_text Invalid_value str_d) v path ''cidrs'') (\<lambda>cidrs.
     if dget v ''cidrs'' = Some (J_arr []) then added Out_of_range (sub path ''cidrs'')
     else bindD (repeated (sub path ''cidrs'') 0 [] (case dget v ''cidrs'' of None \<Rightarrow> [] | Some raw \<Rightarrow> elements_of raw), None :: unit option) (\<lambda>_.
       gives (Option.bind key (\<lambda>k. map_option (\<lambda>cs.
         \<lparr>as_key = k, as_cidrs = cs, as_source = source,
          as_sourceOptions = (if source = None then None else sourceOptions)\<rparr>) cidrs))))))))))"

definition decodeAddressSet :: "(string \<Rightarrow> string option) \<Rightarrow> json \<Rightarrow> string \<Rightarrow> address_set dec" where
  "decodeAddressSet url_protocol = object_d (address_set_fields url_protocol)"

definition enc_address_set :: "address_set \<Rightarrow> json" where
  "enc_address_set = (\<lambda>a. J_obj (fields [(''key'', Some (J_str (as_key a))), (''cidrs'', Some (enc_list J_str (as_cidrs a))),
     (''source'', map_option enc_address_source (as_source a)), (''sourceOptions'', map_option enc_source_options (as_sourceOptions a))]))"

definition ok_address_set :: "(string \<Rightarrow> string option) \<Rightarrow> address_set \<Rightarrow> bool" where
  "ok_address_set url_protocol a \<longleftrightarrow>
     as_cidrs a \<noteq> [] \<and> distinct (as_cidrs a) \<and> list_all cidr_text (as_cidrs a)
     \<and> pred_option (ok_source_options url_protocol (as_source a)) (as_sourceOptions a)
     \<and> (if as_source a = None then as_sourceOptions a = None else True)
     \<and> \<not> url_missing (as_source a) (as_sourceOptions a)"

lemma exact_cidrs: "exact (arrayOf (checked cidr_text Invalid_value str_d)) (enc_list J_str) (list_all cidr_text)"
  using exact_array [OF exact_checked [OF exact_str]] by simp

lemma cidrs_sound:
  assumes "fst (array_at (checked cidr_text Invalid_value str_d) v path ''cidrs'') = []"
  shows "\<exists>xs. dget v ''cidrs'' = Some (J_arr (map J_str xs)) \<and> list_all cidr_text xs
    \<and> snd (array_at (checked cidr_text Invalid_value str_d) v path ''cidrs'') = Some xs"
proof -
  obtain raw where raw: "dget v ''cidrs'' = Some raw" using assms by (auto simp: array_at_def split: option.splits)
  let ?d = "arrayOf (checked cidr_text Invalid_value str_d) raw (sub path ''cidrs'')"
  have f: "fst ?d = []" using assms raw by (simp add: array_at_def)
  obtain xs where xs: "snd ?d = Some xs" "list_all cidr_text xs" using exact_sound [OF exact_cidrs f] by blast
  then have "raw = J_arr (map J_str xs)" using f by (intro arrayOf_strings)
  then show ?thesis using raw xs by (auto simp: array_at_def)
qed

lemma source_absent: "fst (optional (oneOf ADDRESS_SOURCE_KINDS) v path name) = [] \<Longrightarrow>
    snd (optional (oneOf ADDRESS_SOURCE_KINDS) v path name) = None \<longleftrightarrow> dget v name = None"
  using exact_sound [OF exact_address_source] by (fastforce simp: optional_def split: option.splits)

lemma address_set_sound:
  assumes "fst (address_set_fields url_protocol v path) = []"
  shows "\<exists>a. snd (address_set_fields url_protocol v path) = Some a \<and> ok_address_set url_protocol a"
proof -
  let ?source = "snd (optional (oneOf ADDRESS_SOURCE_KINDS) v path ''source'')"
  let ?opts = "snd (optional (decodeAddressSourceOptions url_protocol ?source) v path ''sourceOptions'')"
  have f: "fst (required str_d v path ''key'') = []"
    "fst (optional (oneOf ADDRESS_SOURCE_KINDS) v path ''source'') = []"
    "fst (optional (decodeAddressSourceOptions url_protocol ?source) v path ''sourceOptions'') = []"
    "\<not> (dget v ''sourceOptions'' \<noteq> None \<and> dget v ''source'' = None)" "\<not> url_missing ?source ?opts"
    "fst (array_at (checked cidr_text Invalid_value str_d) v path ''cidrs'') = []"
    using assms by (auto simp: address_set_fields_def decodes issue_if_def split: if_splits)
  obtain k where k: "snd (required str_d v path ''key'') = Some k" using f(1) by (blast dest: readsound)
  obtain xs where xs: "dget v ''cidrs'' = Some (J_arr (map J_str xs))" "list_all cidr_text xs"
    "snd (array_at (checked cidr_text Invalid_value str_d) v path ''cidrs'') = Some xs"
    using cidrs_sound [OF f(6)] by blast
  have "xs \<noteq> []" "distinct xs"
    using assms by (auto simp: address_set_fields_def decodes xs elements_of_def repeated_distinct split: if_splits)
  moreover have "pred_option (ok_source_options url_protocol ?source) ?opts"
    by (rule optional_sound [OF exact_source_options f(3)])
  moreover have "?opts = None" if "?source = None"
    using that f(2,4) source_absent by (auto simp: optional_def)
  ultimately have "ok_address_set url_protocol \<lparr>as_key = k, as_cidrs = xs, as_source = ?source,
      as_sourceOptions = (if ?source = None then None else ?opts)\<rparr>"
    using f(5) xs(2) by (auto simp: ok_address_set_def)
  moreover have "snd (address_set_fields url_protocol v path) = Some \<lparr>as_key = k, as_cidrs = xs, as_source = ?source,
      as_sourceOptions = (if ?source = None then None else ?opts)\<rparr>"
    using \<open>xs \<noteq> []\<close> by (simp add: address_set_fields_def decodes xs k)
  ultimately show ?thesis by blast
qed

lemma address_set_complete:
  assumes "ok_address_set url_protocol a"
  shows "decodeAddressSet url_protocol (enc_address_set a) path = ([], Some a)"
proof (cases a)
  case (fields k cs src x)
  have r: "array_at d (Decode_Base.fields l) p ''cidrs'' = (case dget (Decode_Base.fields l) ''cidrs'' of
      None \<Rightarrow> ([issue Invalid_type [sub p ''cidrs'']], Some []) | Some v \<Rightarrow> arrayOf d v (sub p ''cidrs''))"
    for d :: "json \<Rightarrow> string \<Rightarrow> string dec" and l p by (simp add: array_at_def)
  show ?thesis using assms exact_complete [OF exact_cidrs, of cs] completes [OF exact_source_options] unfolding fields
    by (cases src; cases x)
      (auto simp: decodeAddressSet_def enc_address_set_def object_d_def address_set_fields_def ok_address_set_def r
        readback gives_def issue_if_def repeated_distinct elements_of_def enc_list_def url_missing_def bindD_def)
qed

lemma exact_address_set: "exact (decodeAddressSet url_protocol) enc_address_set (ok_address_set url_protocol)"
proof (rule exactI)
  fix v path assume "fst (decodeAddressSet url_protocol v path) = []"
  then show "\<exists>a. snd (decodeAddressSet url_protocol v path) = Some a \<and> ok_address_set url_protocol a"
    by (cases v) (auto simp: decodeAddressSet_def object_d_def address_set_sound)
qed (rule address_set_complete)

end
