(* ===== verification/Validate_Sound.thy ===== *)
theory Validate_Sound
  imports Validate_Model
begin

text \<open>
  What a model without issues is worth: its references resolve, to pools that have backends and
  speak the protocol of who uses them, its sockets can be bound, its routes compile, and no
  source rule is hidden behind an earlier one.
\<close>

section \<open>Emptiness\<close>

lemma issue_if_Nil [simp]: "issue_if b c s = [] \<longleftrightarrow> \<not> b"
  by (simp add: issue_if_def)

lemma js_map_Some_in: "js_map ps k = Some v \<Longrightarrow> (k, v) \<in> set ps"
  unfolding js_map_def by (metis map_of_SomeD set_rev)

lemma js_map_None: "js_map ps k = None \<longleftrightarrow> k \<notin> fst ` set ps"
  by (simp add: js_map_def map_of_eq_None_iff)

lemma validateModel_Nil:
  "validateModel idna m caps = [] \<longleftrightarrow>
     orphan_backends m = [] \<and>
     (\<forall>p \<in> set (m_pools m). pool_issues m p = [] \<and> upstream_tls_issues m p = []) \<and>
     (\<forall>l \<in> set (m_listeners m). unknown_sets m (l_key l) (referencedSets l) = [] \<and> listener_issues m caps l = []) \<and>
     socket_issues m = [] \<and> vhostIssues idna m caps (redirects_of m) = [] \<and>
     stream_realip_issues m caps = [] \<and> route_issues m = [] \<and> source_rule_issues m = [] \<and>
     acme_path_issues m = [] \<and> strict_issues idna m = [] \<and> certificate_issues idna m = [] \<and>
     compile_issues idna m = []"
  by (auto simp: validateModel_def)

lemma partition_Inl_empty:
  "fst (partition_results xs) = [] \<longleftrightarrow> (\<forall>x \<in> set xs. \<exists>a. x = Inr a)"
  by (induction xs) (auto simp: split_beta Let_def split: sum.splits)

lemma partition_Inr_members: "set (snd (partition_results xs)) = {a. Inr a \<in> set xs}"
  by (induction xs) (auto simp: split_beta Let_def split: sum.splits)

section \<open>References\<close>

text \<open>A pool that can serve users of a class: it exists, has this class and has a backend.\<close>

definition pool_serves :: "model \<Rightarrow> protocol_class \<Rightarrow> string \<Rightarrow> bool" where
  "pool_serves m cls key \<longleftrightarrow>
     (\<exists>p. pool_by_key m key = Some p \<and> p \<in> set (m_pools m) \<and> po_key p = key \<and> po_protocolClass p = cls) \<and>
     (\<exists>b \<in> set (m_backends m). be_pool b = key)"

definition outcome_serves :: "model \<Rightarrow> protocol_class \<Rightarrow> default_action option \<Rightarrow> bool" where
  "outcome_serves m cls out \<longleftrightarrow> (\<forall>p. out = Some (To_pool p) \<longrightarrow> pool_serves m cls p)"

definition listener_resolves :: "model \<Rightarrow> listener \<Rightarrow> bool" where
  "listener_resolves m l \<longleftrightarrow>
     (\<forall>p. l_defaultPool l = Some p \<longrightarrow> pool_serves m (classOfListener (l_protocol l)) p) \<and>
     (l_defaultPool l = None \<longrightarrow> routesTraffic (l_protocol l)) \<and>
     (l_protocol l = L_tls_passthrough \<longrightarrow> outcome_serves m C_tcp (l_onUnmatchedSni l) \<and> outcome_serves m C_tcp (l_onNoSni l)) \<and>
     (http_family (l_protocol l) \<longrightarrow> outcome_serves m C_http (Option.bind (l_http l) hp_defaultAction)) \<and>
     (\<forall>ref \<in> set (referencedSets l). \<exists>s \<in> set (list_of_option (m_addressSets m)). as_key s = ref) \<and>
     (l_protocol l = L_https \<longrightarrow> (\<exists>t. l_tls l = Some t \<and> tb_policy t \<in> set (map tp_key (m_tlsPolicies m)) \<and>
        (\<exists>c \<in> set (m_certificates m). ce_key c = tb_defaultCertificate t) \<and>
        (\<forall>c \<in> set (m_certificates m). ce_key c = tb_defaultCertificate t \<longrightarrow> ce_materialRef c \<noteq> None)))"

definition http_route_resolves :: "model \<Rightarrow> http_route \<Rightarrow> bool" where
  "http_route_resolves m r \<longleftrightarrow>
     (\<forall>p. Act_proxy p \<in> set (routeActions r) \<longrightarrow> pool_serves m C_http (pa_pool p)) \<and>
     (hro_hosts r \<noteq> [] \<longrightarrow> (\<exists>l. listener_by_key m (hro_listener r) = Some l \<and> http_family (l_protocol l))) \<and>
     (\<forall>ref \<in> set (referencedSetsOfRoute r). \<exists>s \<in> set (list_of_option (m_addressSets m)). as_key s = ref)"

definition passthrough_resolves :: "model \<Rightarrow> passthrough_route \<Rightarrow> bool" where
  "passthrough_resolves m r \<longleftrightarrow>
     (\<forall>p. pr_action r = Pass_proxy p \<longrightarrow> pool_serves m C_tcp p) \<and>
     (pr_snis r \<noteq> [] \<longrightarrow> (\<exists>l. listener_by_key m (pr_listener r) = Some l \<and> l_protocol l = L_tls_passthrough))"

definition binding_resolves :: "model \<Rightarrow> sni_certificate_binding \<Rightarrow> bool" where
  "binding_resolves m b \<longleftrightarrow>
     (\<exists>l. listener_by_key m (sb_listener b) = Some l \<and> l_protocol l = L_https) \<and>
     (\<exists>c \<in> set (m_certificates m). ce_key c = sb_certificate b) \<and>
     (\<forall>c \<in> set (m_certificates m). ce_key c = sb_certificate b \<longrightarrow> ce_materialRef c \<noteq> None)"

lemma needPool_Nil: "needPool m subject key cls = [] \<longleftrightarrow> pool_serves m cls key"
proof (cases "key \<in> set (map po_key (m_pools m))")
  case True
  then obtain p where p: "pool_by_key m key = Some p"
    using js_map_None [of "map (\<lambda>p. (po_key p, p)) (m_pools m)" key]
    by (cases "pool_by_key m key") (auto simp: pool_by_key_def image_image)
  then have "p \<in> set (m_pools m)" "po_key p = key"
    using js_map_Some_in [of "map (\<lambda>p. (po_key p, p)) (m_pools m)" key p] by (auto simp: pool_by_key_def)
  moreover have "key \<in> be_pool ` set (m_backends m) \<longleftrightarrow> (\<exists>b \<in> set (m_backends m). be_pool b = key)" by blast
  ultimately show ?thesis using True p by (auto simp: needPool_def pool_serves_def)
next
  case False
  then show ?thesis by (auto simp: needPool_def pool_serves_def)
qed

lemma outcome_pool_Nil: "outcome_pool m key cls out = [] \<longleftrightarrow> outcome_serves m cls out"
  by (auto simp: outcome_pool_def outcome_serves_def needPool_Nil split: option.splits default_action.splits)

lemma unknown_sets_Nil:
  "unknown_sets m key refs = [] \<longleftrightarrow>
     (\<forall>ref \<in> set refs. \<exists>s \<in> set (list_of_option (m_addressSets m)). as_key s = ref)"
  by (auto simp: unknown_sets_def image_iff)

lemma usedBy_Nil:
  "usedBy m key subject = [] \<longleftrightarrow> (\<forall>c \<in> set (m_certificates m). ce_key c = key \<longrightarrow> ce_materialRef c \<noteq> None)"
  by (auto simp: usedBy_def image_iff)

lemma listener_by_key_None: "listener_by_key m k = None \<longleftrightarrow> k \<notin> set (map l_key (m_listeners m))"
  by (simp add: listener_by_key_def js_map_None image_image)

lemma listener_resolves_if_valid:
  assumes "unknown_sets m (l_key l) (referencedSets l) = []" "listener_issues m caps l = []"
    "tls_binding_issues m l = []" "default_certificate_issues m l = []"
  shows "listener_resolves m l"
  using assms
  by (auto simp: listener_resolves_def listener_issues_def Let_def unknown_sets_Nil needPool_Nil outcome_pool_Nil
      tls_binding_issues_def default_certificate_issues_def usedBy_Nil cert_keys_def image_iff
      split: option.splits if_splits)

lemma addRoute_Inr: "addRoute m listener key host pr path = Inr x \<longleftrightarrow> listener \<in> set (map l_key (m_listeners m)) \<and>
    x = (listener, \<lparr>ri_key = key, ri_host = host, ri_priority = pr, ri_pathPrefix = path\<rparr>)"
  by (auto simp: addRoute_def)

lemma listener_wanted:
  assumes "wantProtocol m k want" "k \<in> set (map l_key (m_listeners m))"
  shows "\<exists>l. listener_by_key m k = Some l \<and> l_protocol l \<in> set want"
  using assms listener_by_key_None [of m k]
  by (cases "listener_by_key m k") (auto simp: wantProtocol_def)

lemma routePaths_nonempty: "routePaths r \<noteq> []"
  by (simp add: routePaths_def split: option.splits list.splits)

lemma http_route_resolves_if_valid:
  assumes "\<forall>x \<in> set (http_route_steps m r). \<exists>a. x = Inr a" "unknown_sets m (hro_key r) (referencedSetsOfRoute r) = []"
  shows "http_route_resolves m r"
proof -
  have wp: "wantProtocol m (hro_listener r) [L_http, L_https]"
    using assms(1) by (auto simp: http_route_steps_def split: if_splits)
  have acts: "pool_serves m C_http (pa_pool p)" if "Act_proxy p \<in> set (routeActions r)" for p
  proof -
    have "needPool m (hro_key r) (pa_pool p) C_http = []"
    proof (rule ccontr)
      assume "needPool m (hro_key r) (pa_pool p) C_http \<noteq> []"
      then obtain i where "i \<in> set (needPool m (hro_key r) (pa_pool p) C_http)"
        by (cases "needPool m (hro_key r) (pa_pool p) C_http") auto
      then have "Inl i \<in> set (http_route_steps m r)" using that by (force simp: http_route_steps_def)
      then show False using assms(1) by blast
    qed
    then show ?thesis by (simp add: needPool_Nil)
  qed
  have "\<exists>l. listener_by_key m (hro_listener r) = Some l \<and> http_family (l_protocol l)" if ne: "hro_hosts r \<noteq> []"
  proof -
    obtain h hs p ps where hp: "hro_hosts r = h # hs" "routePaths r = p # ps"
      using ne routePaths_nonempty [of r] by (auto simp: neq_Nil_conv)
    then obtain k pt where "addRoute m (hro_listener r) k h (hro_priority r) pt \<in> set (http_route_inputs m r)"
      by (auto simp: http_route_inputs_def Let_def)
    then have "addRoute m (hro_listener r) k h (hro_priority r) pt \<in> set (http_route_steps m r)"
      using wp by (simp add: http_route_steps_def)
    then have "hro_listener r \<in> set (map l_key (m_listeners m))"
      using assms(1) addRoute_Inr by blast
    then show ?thesis using listener_wanted [OF wp] by (auto simp: http_family_def)
  qed
  then show ?thesis using acts assms(2) by (auto simp: http_route_resolves_def unknown_sets_Nil)
qed

lemma passthrough_resolves_if_valid:
  assumes "\<forall>x \<in> set (passthrough_steps m r). \<exists>a. x = Inr a"
  shows "passthrough_resolves m r"
proof -
  have wp: "wantProtocol m (pr_listener r) [L_tls_passthrough]"
    using assms by (auto simp: passthrough_steps_def split: if_splits)
  have "pool_serves m C_tcp p" if "pr_action r = Pass_proxy p" for p
    using assms that needPool_Nil [of m "pr_key r" p C_tcp]
    by (cases "needPool m (pr_key r) p C_tcp") (auto simp: passthrough_steps_def)
  moreover have "\<exists>l. listener_by_key m (pr_listener r) = Some l \<and> l_protocol l = L_tls_passthrough" if ne: "pr_snis r \<noteq> []"
  proof -
    obtain h hs where "pr_snis r = h # hs" using ne by (auto simp: neq_Nil_conv)
    then have "pr_listener r \<in> set (map l_key (m_listeners m))"
      using assms wp by (auto simp: passthrough_steps_def addRoute_Inr)
    then show ?thesis using listener_wanted [OF wp] by auto
  qed
  ultimately show ?thesis by (auto simp: passthrough_resolves_def)
qed

lemma binding_resolves_if_valid: "binding_issues idna m b = [] \<Longrightarrow> binding_resolves m b"
  by (auto simp: binding_issues_def binding_resolves_def usedBy_Nil cert_keys_def image_iff
      split: option.splits if_splits)

lemma valid_certificates:
  assumes "certificate_issues idna m = []"
  shows "l \<in> set (m_listeners m) \<Longrightarrow> tls_binding_issues m l = []"
    "l \<in> set (m_listeners m) \<Longrightarrow> default_certificate_issues m l = []"
    "b \<in> set (m_sniBindings m) \<Longrightarrow> binding_issues idna m b = []"
  using assms by (simp_all add: certificate_issues_def)

lemma valid_routes:
  assumes "route_issues m = []"
  shows "r \<in> set (m_httpRoutes m) \<Longrightarrow> \<forall>x \<in> set (http_route_steps m r). \<exists>a. x = Inr a"
    "q \<in> set (m_passthroughRoutes m) \<Longrightarrow> \<forall>x \<in> set (passthrough_steps m q). \<exists>a. x = Inr a"
  using assms unfolding route_issues_def partition_Inl_empty route_steps_def set_append set_concat set_map
  by blast+

text \<open>C29: A model the validator accepts has no dangling reference: backends, listeners, routes and SNI
  bindings name pools, listeners, address sets, policies and certificates that exist, a pool that
  is used has a backend and the protocol class of who uses it, a route sits on a listener of its
  protocol, and no certificate that is presented lacks its material.\<close>
theorem valid_model_resolves:
  assumes "validateModel idna m caps = []"
  shows "(\<forall>b \<in> set (m_backends m). \<exists>p \<in> set (m_pools m). po_key p = be_pool b) \<and>
    (\<forall>l \<in> set (m_listeners m). listener_resolves m l) \<and>
    (\<forall>r \<in> set (m_httpRoutes m). http_route_resolves m r) \<and>
    (\<forall>r \<in> set (m_passthroughRoutes m). passthrough_resolves m r) \<and>
    (\<forall>b \<in> set (m_sniBindings m). binding_resolves m b)"
proof -
  note v = assms [unfolded validateModel_Nil]
  have "\<forall>b \<in> set (m_backends m). \<exists>p \<in> set (m_pools m). po_key p = be_pool b"
    using v by (fastforce simp: orphan_backends_def image_iff)
  moreover have "\<forall>l \<in> set (m_listeners m). listener_resolves m l"
    using v valid_certificates(1,2) listener_resolves_if_valid by blast
  moreover have "\<forall>r \<in> set (m_httpRoutes m). http_route_resolves m r"
    using v valid_routes(1) by (auto simp: source_rule_issues_def intro!: http_route_resolves_if_valid)
  moreover have "\<forall>r \<in> set (m_passthroughRoutes m). passthrough_resolves m r"
    using v valid_routes(2) passthrough_resolves_if_valid by blast
  moreover have "\<forall>b \<in> set (m_sniBindings m). binding_resolves m b"
    using v valid_certificates(3) binding_resolves_if_valid by blast
  ultimately show ?thesis by blast
qed

section \<open>Sockets\<close>

definition socket_of :: "listener \<Rightarrow> socket_reservation" where
  "socket_of l = \<lparr>sr_key = l_key l, sr_protocol = l_protocol l, sr_bind = l_bind l, sr_port = l_port l\<rparr>"

text \<open>The listeners that open a socket: the enabled ones with a readable address, and the redirects.\<close>

definition open_listeners :: "model \<Rightarrow> listener list" where
  "open_listeners m =
     filter (\<lambda>l. l_enabled l \<and> \<not> isl (normalizeBind (l_bind l))) (m_listeners m) @ redirects_of m"

lemma redirect_protocol: "redirectListenerOf l = Some r \<Longrightarrow> l_protocol r = L_http"
  by (auto simp: redirectListenerOf_def split: if_splits option.splits)

lemma set_map_filter_Some: "set (List.map_filter f xs) = {y. \<exists>x \<in> set xs. f x = Some y}"
  by (induction xs) (auto simp: List.map_filter_simps split: option.splits)

lemma redirects_http: "r \<in> set (redirects_of m) \<Longrightarrow> l_protocol r = L_http"
  by (auto simp: redirects_of_def set_map_filter_Some redirect_protocol split: if_splits)

lemma reservations_open: "reservations_of m = map socket_of (open_listeners m)"
proof -
  have "List.map_filter reservation_of ls =
      map socket_of (filter (\<lambda>l. l_enabled l \<and> \<not> isl (normalizeBind (l_bind l))) ls)" for ls
    by (induction ls) (auto simp: List.map_filter_simps reservation_of_def socket_of_def)
  moreover have "map redirect_reservation (redirects_of m) = map socket_of (redirects_of m)"
    using redirects_http by (auto simp: redirect_reservation_def socket_of_def)
  ultimately show ?thesis by (simp add: reservations_of_def open_listeners_def)
qed

lemma open_listeners_subset: "set (open_listeners m) \<subseteq> set (m_listeners m @ redirects_of m)"
  by (auto simp: open_listeners_def)

lemma distinct_open:
  assumes "distinct (map l_key (m_listeners m @ redirects_of m))"
  shows "distinct (map l_key (open_listeners m))"
proof -
  have "l_key ` set (filter P (m_listeners m)) \<inter> l_key ` set (redirects_of m) = {}" for P
    using assms by auto
  moreover have "distinct (map l_key (filter P (m_listeners m)))" for P
    using assms by (intro distinct_map_filter) simp
  ultimately show ?thesis using assms by (simp add: open_listeners_def)
qed

lemma js_map_distinct:
  assumes "distinct (map key xs)" "x \<in> set xs"
  shows "js_map (map (\<lambda>x. (key x, x)) xs) (key x) = Some x"
proof -
  have "distinct (map fst (rev (map (\<lambda>x. (key x, x)) xs)))"
    using assms(1) by (simp add: rev_map [symmetric] comp_def)
  moreover have "(key x, x) \<in> set (rev (map (\<lambda>x. (key x, x)) xs))" using assms(2) by auto
  ultimately show ?thesis unfolding js_map_def by (rule map_of_is_SomeI)
qed

lemma socketSharing_sym: "socketSharing a b = socketSharing b a"
  by (auto simp: socketSharing_def Let_def)

lemma socket_issues_shared:
  assumes "socket_issues m = []" "distinct (map l_key (m_listeners m @ redirects_of m))"
    and "x \<in> set (open_listeners m)" "y \<in> set (open_listeners m)" "l_key x < l_key y"
    and "socketsOverlap (socket_of x) (socket_of y)"
  shows "socketSharing x y"
proof -
  have "distinct (map sr_key (reservations_of m))"
    using distinct_open [OF assms(2)] by (simp add: reservations_open comp_def socket_of_def)
  then have "distinct (map sr_key (sort_key sr_key (reservations_of m)))" by (simp add: distinct_map)
  then have "\<lparr>sc_a = l_key x, sc_b = l_key y\<rparr> \<in> set (findSocketConflicts (reservations_of m))"
    using conflict_pairs_mem [of "sort_key sr_key (reservations_of m)" "l_key x" "l_key y"] assms(3-6)
    by (auto simp: findSocketConflicts_def reservations_open socket_of_def)
  moreover have "js_map (map (\<lambda>l. (l_key l, l)) (m_listeners m @ redirects_of m)) (l_key x) = Some x"
    "js_map (map (\<lambda>l. (l_key l, l)) (m_listeners m @ redirects_of m)) (l_key y) = Some y"
    using js_map_distinct [OF assms(2)] open_listeners_subset assms(3,4) by auto
  ultimately show ?thesis using assms(1) by (force simp: socket_issues_def Let_def)
qed

section \<open>Hosts of a shared socket\<close>

lemma grouped:
  "dget (foldl (\<lambda>d l. case f l of None \<Rightarrow> d | Some k \<Rightarrow> dset k (list_of_option (dget d k) @ [l]) d) d ls) k =
     (if filter (\<lambda>l. f l = Some k) ls = [] then dget d k
      else Some (list_of_option (dget d k) @ filter (\<lambda>l. f l = Some k) ls))"
  by (induction ls arbitrary: d) (auto simp: list_of_option_def dict_simps split: option.splits)

lemma claims_unique:
  assumes "claims ps owner = []" "(h, l) \<in> set ps"
  shows "(\<forall>prev. owner (lower_host h) = Some prev \<longrightarrow> prev = l) \<and>
    (\<forall>h' l'. (h', l') \<in> set ps \<longrightarrow> lower_host h' = lower_host h \<longrightarrow> l' = l)"
  using assms
proof (induction ps arbitrary: owner h l)
  case (Cons p ps)
  obtain h0 l0 where p: "p = (h0, l0)" by fastforce
  have rest: "claims ps (owner(lower_host h0 \<mapsto> l0)) = []"
    and own: "\<forall>prev. owner (lower_host h0) = Some prev \<longrightarrow> prev = l0"
    using Cons.prems(1) by (auto simp: p split: option.splits if_splits)
  have "l1 = l0" if "(h1, l1) \<in> set ps" "lower_host h1 = lower_host h0" for h1 l1
    using Cons.IH [OF rest that(1)] that(2) by simp
  then show ?case using Cons.IH [OF rest] Cons.prems(2) own by (auto simp: p split: if_splits) metis+
qed simp

text \<open>The hosts a listener answers for: its own, or, when it takes whatever the others on its socket leave,
  those of its routes.\<close>

definition answered_hosts :: "model \<Rightarrow> listener \<Rightarrow> string list" where
  "answered_hosts m l =
     (case l_hosts l of
        Some hosts \<Rightarrow> hosts
      | None \<Rightarrow> concat (map hro_hosts (filter (\<lambda>r. hro_listener r = l_key l) (m_httpRoutes m))))"

lemma claims_made:
  "z \<in> set grp \<Longrightarrow> g \<in> set (answered_hosts m z) \<Longrightarrow> (g, l_key z) \<in> set (group_claims m grp)"
  by (force simp: group_claims_def answered_hosts_def split: option.splits intro!: bexI [of _ z])

lemma vhost_hosts_unique:
  assumes "vhostIssues idna m caps (redirects_of m) = []"
    and xy: "x \<in> set (m_listeners m @ redirects_of m)" "y \<in> set (m_listeners m @ redirects_of m)"
    and on: "l_enabled x" "l_enabled y" "http_family (l_protocol x)" "http_family (l_protocol y)"
    and key: "socketKeyOf x = Some k" "socketKeyOf y = Some k"
    and one: "l_hosts x \<noteq> None \<or> l_hosts y \<noteq> None"
    and hosts: "h \<in> set (answered_hosts m x)" "h' \<in> set (answered_hosts m y)" "lower_host h = lower_host h'"
  shows "l_key x = l_key y"
proof -
  define http where "http = filter (\<lambda>l. l_enabled l \<and> http_family (l_protocol l)) (m_listeners m @ redirects_of m)"
  define grp where "grp = filter (\<lambda>l. socketKeyOf l = Some k) http"
  have mem: "x \<in> set grp" "y \<in> set grp" using xy on key by (auto simp: grp_def http_def)
  then have "dget (by_socket http) k = Some grp"
    unfolding by_socket_def grouped grp_def [symmetric] by (auto simp: list_of_option_def)
  then have "(k, grp) \<in> set (by_socket http)" by (rule map_of_SomeD)
  then have "group_issues m caps grp = []"
    using assms(1) unfolding vhostIssues_def Let_def http_def [symmetric] append_is_Nil_conv concat_eq_Nil_conv
    by force
  moreover have "list_ex (\<lambda>l. l_hosts l \<noteq> None) grp" using mem one by (auto simp: list_ex_iff)
  ultimately have "claims (group_claims m grp) (\<lambda>_. None) = []" by (auto simp: group_issues_def)
  moreover have "(h, l_key x) \<in> set (group_claims m grp)" "(h', l_key y) \<in> set (group_claims m grp)"
    using claims_made mem hosts(1,2) by blast+
  ultimately show ?thesis using claims_unique hosts(3) by metis
qed

text \<open>C30: In a model the validator accepts, whose listeners and redirects have distinct keys (as the keys
  of the store are, those of redirects being made of them with a colon, which no key contains), two
  open listeners meet on a socket only as virtual hosts of one plain or TLS socket that agree on the
  PROXY protocol, and then no host name is answered by both, neither as a host of its own nor, for
  the listener that takes what the others leave, as a host of its routes.\<close>
theorem valid_model_sockets:
  assumes "validateModel idna m caps = []" "distinct (map l_key (m_listeners m @ redirects_of m))"
    and "x \<in> set (open_listeners m)" "y \<in> set (open_listeners m)" "l_key x \<noteq> l_key y"
    and "same_socket (socket_of x) (socket_of y)"
  shows "socketSharing x y \<and>
    set (map lower_host (answered_hosts m x)) \<inter> set (map lower_host (answered_hosts m y)) = {}"
proof -
  note v = assms(1) [unfolded validateModel_Nil]
  have "socketsOverlap (socket_of x) (socket_of y)" using assms(5,6) by (simp add: socketsOverlap_iff socket_of_def)
  then have overlap: "socketsOverlap (socket_of x) (socket_of y)" "socketsOverlap (socket_of y) (socket_of x)"
    using socketsOverlap_sym by blast+
  have share: "socketSharing x y"
  proof (cases "l_key x < l_key y")
    case True
    then show ?thesis using socket_issues_shared [OF _ assms(2-4) True overlap(1)] v by blast
  next
    case False
    then have "l_key y < l_key x" using assms(5) by simp
    then show ?thesis
      using socket_issues_shared [OF _ assms(2,4,3) _ overlap(2)] v socketSharing_sym by blast
  qed
  have sub: "x \<in> set (m_listeners m @ redirects_of m)" "y \<in> set (m_listeners m @ redirects_of m)"
    using assms(3,4) open_listeners_subset by auto
  have fam: "http_family (l_protocol x)" "http_family (l_protocol y)" "l_protocol x = l_protocol y"
    using share by (auto simp: socketSharing_def Let_def split: if_splits)
  have "socketKeyOf (x\<lparr>l_protocol := L_http\<rparr>) \<noteq> None \<and>
      socketKeyOf (x\<lparr>l_protocol := L_http\<rparr>) = socketKeyOf (y\<lparr>l_protocol := L_http\<rparr>)"
    using share unfolding socketSharing_def Let_def by (meson)
  then obtain k where "socketKeyOf (x\<lparr>l_protocol := L_http\<rparr>) = Some k" "socketKeyOf (y\<lparr>l_protocol := L_http\<rparr>) = Some k"
    by (metis not_None_eq)
  then obtain k' where "socketKeyOf x = Some k'" "socketKeyOf y = Some k'"
    using fam(3) by (auto simp: socketKeyOf_def split: sum.splits)
  moreover have "l_enabled x" "l_enabled y"
    using assms(3,4) by (auto simp: open_listeners_def redirects_of_def set_map_filter_Some redirectListenerOf_def
        split: if_splits option.splits)
  moreover have "l_hosts x \<noteq> None \<or> l_hosts y \<noteq> None"
    using share by (auto simp: socketSharing_def split: if_splits)
  ultimately have "h \<in> set (answered_hosts m x) \<Longrightarrow> h' \<in> set (answered_hosts m y) \<Longrightarrow> lower_host h \<noteq> lower_host h'" for h h'
    using vhost_hosts_unique [OF _ sub _ _ fam(1,2)] v assms(5) by blast
  then show ?thesis using share by auto
qed

section \<open>Hidden source rules\<close>

text \<open>A rule hides a range of a later one: both look at the same address, and one of its ranges includes
  the range, so that the rules being tried in order the range never reaches the later rule.\<close>

definition hides :: "(string \<Rightarrow> string list option) \<Rightarrow> http_source_rule \<Rightarrow> http_source_rule \<Rightarrow> bool" where
  "hides sets r1 r2 \<longleftrightarrow> rule_address r1 = rule_address r2 \<and>
     (\<exists>o1 \<in> set (expandList (ru_from r1) sets). \<exists>c \<in> set (expandList (ru_from r2) sets).
        cidrVersion o1 \<noteq> 0 \<and> cidrVersion c \<noteq> 0 \<and> cidr_block c \<subseteq> cidr_block o1)"

definition seen_hides :: "(string \<Rightarrow> string list option) \<Rightarrow> seen_source list \<Rightarrow> http_source_rule \<Rightarrow> bool" where
  "seen_hides sets seen r \<longleftrightarrow> (\<exists>s \<in> set seen. ss_address s = rule_address r \<and>
     (\<exists>c \<in> set (expandList (ru_from r) sets). cidrCovers (ss_cidr s) c))"

lemma seen_hides_rule:
  "seen_hides sets (seen @ map (\<lambda>cidr. \<lparr>ss_cidr = cidr, ss_address = rule_address r1\<rparr>) (expandList (ru_from r1) sets)) r2
     \<longleftrightarrow> seen_hides sets seen r2 \<or> hides sets r1 r2"
  unfolding seen_hides_def hides_def cidrCovers_inclusion set_append set_map bex_Un bex_simps(7)
  by auto

lemma shadow_scan_Nil:
  "shadow_scan sets key seen rules = [] \<longleftrightarrow>
     (\<forall>r \<in> set rules. \<not> seen_hides sets seen r) \<and> sorted_wrt (\<lambda>r1 r2. \<not> hides sets r1 r2) rules"
proof (induction rules arbitrary: seen)
  case (Cons r rules)
  have "concat (map (\<lambda>cidr. issue_if (find (\<lambda>x. ss_address x = rule_address r \<and> cidrCovers (ss_cidr x) cidr) seen \<noteq> None)
      Source_rule_shadowed [key]) (expandList (ru_from r) sets)) = [] \<longleftrightarrow> \<not> seen_hides sets seen r"
    by (auto simp: seen_hides_def find_None_iff)
  then show ?case using Cons.IH by (auto simp: Let_def seen_hides_rule)
qed simp

text \<open>C31: A source rule is reported as shadowed exactly when one of its ranges lies inside a range of an
  earlier rule that looks at the same address.\<close>
theorem source_rules_shadow_exact:
  "shadow_scan sets key [] rules = [] \<longleftrightarrow> sorted_wrt (\<lambda>r1 r2. \<not> hides sets r1 r2) rules"
  by (simp add: shadow_scan_Nil seen_hides_def)

section \<open>Samples\<close>

definition blank_listener :: "string \<Rightarrow> string list \<Rightarrow> listener" where
  "blank_listener key hosts = \<lparr>l_key = key, l_protocol = L_http, l_bind = ''0.0.0.0'', l_port = 80, l_enabled = True,
     l_sourceAllow = None, l_defaultPool = None, l_acceptProxyProtocol = None, l_realIpFromHeader = None,
     l_udp = None, l_http = None, l_onUnmatchedSni = None, l_onNoSni = None, l_prereadTimeoutS = None,
     l_tls = None, l_http2 = None, l_hosts = Some hosts, l_httpRedirect = None\<rparr>"

definition sample_model :: model where
  "sample_model = \<lparr>m_engine = None,
     m_listeners = [blank_listener ''a'' [''a.example.com''], blank_listener ''b'' [''b.example.com'']],
     m_httpRoutes = [\<lparr>hro_key = ''r'', hro_listener = ''a'', hro_hosts = [''A.example.com''], hro_priority = 1,
       hro_pathPrefix = None, hro_pathPrefixes = Some [''/x'', ''/y''],
       hro_action = Act_proxy \<lparr>pa_pool = ''p'', pa_websocket = False, pa_requestHeaders = None, pa_rewritePrefix = None\<rparr>,
       hro_sourceRules = Some [\<lparr>ru_from = [''@lan''], ru_action = Act_reject 403, ru_address = None\<rparr>]\<rparr>],
     m_passthroughRoutes = [],
     m_pools = [\<lparr>po_key = ''p'', po_protocolClass = C_http, po_algorithm = Round_robin, po_hashKey = None,
       po_sendProxyProtocol = None, po_healthCheck = None, po_upstreamTls = None, po_discovery = None\<rparr>],
     m_backends = [\<lparr>be_key = ''b1'', be_pool = ''p'', be_host = ''10.0.0.1'', be_port = 8080, be_weight = 1,
       be_softMaxConns = None, be_isBackup = None\<rparr>],
     m_certificates = [], m_tlsPolicies = [], m_sniBindings = [],
     m_addressSets = Some [\<lparr>as_key = ''lan'', as_cidrs = [''10.0.0.0/8''], as_source = None, as_sourceOptions = None\<rparr>]\<rparr>"

definition plain_caps :: validation_capabilities where
  "plain_caps = \<lparr>vc_streamRealip = False, vc_http2 = None, vc_sslRejectHandshake = None\<rparr>"

lemma sample_valid: "validateModel no_idna sample_model plain_caps = []"
  by code_simp

lemma valid_model_resolves_witness:
  "m_httpRoutes sample_model \<noteq> [] \<and> http_route_resolves sample_model (hd (m_httpRoutes sample_model))"
proof -
  have "m_httpRoutes sample_model \<noteq> []" by code_simp
  then show ?thesis using valid_model_resolves [OF sample_valid] by simp
qed

text \<open>The same model, but its first listener has no hosts of its own and takes what the second leaves.\<close>

definition default_listener :: listener where
  "default_listener = (blank_listener ''a'' [])\<lparr>l_hosts := None\<rparr>"

definition default_model :: model where
  "default_model = sample_model\<lparr>m_listeners := [default_listener, blank_listener ''b'' [''b.example.com'']]\<rparr>"

lemma default_valid: "validateModel no_idna default_model plain_caps = []"
  by code_simp

lemma valid_model_sockets_witness:
  "socketSharing default_listener (blank_listener ''b'' [''b.example.com'']) \<and>
   answered_hosts default_model default_listener = [''A.example.com''] \<and>
   ''b.example.com'' \<notin> lower_host ` set (answered_hosts default_model default_listener)"
proof -
  let ?b = "blank_listener ''b'' [''b.example.com'']"
  have k: "distinct (map l_key (m_listeners default_model @ redirects_of default_model))"
    and o: "open_listeners default_model = [default_listener, ?b]"
    and a: "answered_hosts default_model default_listener = [''A.example.com'']"
      "map lower_host (answered_hosts default_model ?b) = [''b.example.com'']"
    by code_simp+
  have "l_key default_listener \<noteq> l_key ?b" by (simp add: default_listener_def blank_listener_def)
  moreover have "bind_number ''0.0.0.0'' = Some (4, 0)" by code_simp
  then have "same_socket (socket_of default_listener) (socket_of ?b)"
    by (simp add: same_socket_def socket_of_def default_listener_def blank_listener_def)
  ultimately have s: "socketSharing default_listener ?b \<and>
      set (map lower_host (answered_hosts default_model default_listener)) \<inter> set (map lower_host (answered_hosts default_model ?b)) = {}"
    using valid_model_sockets [OF default_valid k, of default_listener ?b] by (simp add: o)
  have "''b.example.com'' \<in> set (map lower_host (answered_hosts default_model ?b))" by (simp only: a(2)) simp
  then have "''b.example.com'' \<notin> set (map lower_host (answered_hosts default_model default_listener))"
    using s by blast
  then show ?thesis using s a(1) by simp
qed

end
