(* ===== verification/Decode.thy ===== *)
theory Decode
  imports Decode_Routes Decode_Tls Decode_Sets Validate_Sound
begin

text \<open>
  The decoder of models, \<^verbatim>\<open>src/src/model/decode.ts\<close>: \<open>decodeModel\<close> over the decoders of its parts, and
  \<open>parseModel\<close>, which validates what was decoded. What the decoder accepts is exactly \<open>ok_model\<close>, and
  it reads back every such model from its encoding.
\<close>

section \<open>The model\<close>

definition MODEL_KEYS :: "string list" where
  "MODEL_KEYS = [''engine'', ''listeners'', ''httpRoutes'', ''passthroughRoutes'', ''pools'', ''backends'', ''certificates'',
     ''tlsPolicies'', ''sniBindings'', ''addressSets'']"

text \<open>A section that is missing or \<open>null\<close> is empty.\<close>

definition section_d :: "(json \<Rightarrow> string \<Rightarrow> 'a dec) \<Rightarrow> (string \<times> json) list \<Rightarrow> string \<Rightarrow> 'a list dec" where
  "section_d d obj name =
     arrayOf d (case dget obj name of None \<Rightarrow> J_arr [] | Some v \<Rightarrow> if v = J_null then J_arr [] else v) name"

definition at_top :: "(json \<Rightarrow> string \<Rightarrow> 'a dec) \<Rightarrow> (string \<times> json) list \<Rightarrow> string \<Rightarrow> 'a dec" where
  "at_top d obj name = opt_at d (dget obj name) name"

definition model_fields :: "(string \<Rightarrow> string option) \<Rightarrow> (string \<times> json) list \<Rightarrow> model dec" where
  "model_fields url_protocol input =
     bindD (noExtraKeys input ''model'' MODEL_KEYS) (\<lambda>_.
     bindD (at_top decodeEngineSettings input ''engine'') (\<lambda>engine.
     bindD (section_d decodeListener input ''listeners'') (\<lambda>listeners.
     bindD (section_d decodeHttpRoute input ''httpRoutes'') (\<lambda>httpRoutes.
     bindD (section_d decodePassthroughRoute input ''passthroughRoutes'') (\<lambda>passthroughRoutes.
     bindD (section_d decodePool input ''pools'') (\<lambda>pools.
     bindD (section_d decodeBackend input ''backends'') (\<lambda>backends.
     bindD (section_d decodeCertificate input ''certificates'') (\<lambda>certificates.
     bindD (section_d decodeTlsPolicy input ''tlsPolicies'') (\<lambda>tlsPolicies.
     bindD (section_d decodeSniBinding input ''sniBindings'') (\<lambda>sniBindings.
     bindD (at_top (arrayOf (decodeAddressSet url_protocol)) input ''addressSets'') (\<lambda>addressSets.
     gives (Some \<lparr>m_engine = engine, m_listeners = list_of_option listeners, m_httpRoutes = list_of_option httpRoutes,
       m_passthroughRoutes = list_of_option passthroughRoutes, m_pools = list_of_option pools,
       m_backends = list_of_option backends, m_certificates = list_of_option certificates,
       m_tlsPolicies = list_of_option tlsPolicies, m_sniBindings = list_of_option sniBindings,
       m_addressSets = addressSets\<rparr>))))))))))))"

definition decodeModel :: "(string \<Rightarrow> string option) \<Rightarrow> json \<Rightarrow> model_issue list + model" where
  "decodeModel url_protocol input =
     (case input of
        J_obj obj \<Rightarrow> (case model_fields url_protocol obj of
            ([], Some m) \<Rightarrow> Inr m
          | (es, _) \<Rightarrow> Inl es)
      | _ \<Rightarrow> Inl [issue Invalid_type [''model'']])"

definition parseModel ::
    "(string \<Rightarrow> string option) \<Rightarrow> (string \<Rightarrow> string option) \<Rightarrow> json \<Rightarrow> validation_capabilities \<Rightarrow> model_issue list + model" where
  "parseModel url_protocol idna input caps =
     bindE (decodeModel url_protocol input) (\<lambda>m.
     let issues = validateModel idna m caps in if issues \<noteq> [] then Inl issues else Inr m)"

section \<open>What it accepts\<close>

definition enc_model :: "model \<Rightarrow> json" where
  "enc_model m = J_obj (fields [(''engine'', map_option enc_engine (m_engine m)),
     (''listeners'', Some (enc_list enc_listener (m_listeners m))), (''httpRoutes'', Some (enc_list enc_http_route (m_httpRoutes m))),
     (''passthroughRoutes'', Some (enc_list enc_passthrough_route (m_passthroughRoutes m))),
     (''pools'', Some (enc_list enc_pool (m_pools m))), (''backends'', Some (enc_list enc_backend (m_backends m))),
     (''certificates'', Some (enc_list enc_certificate (m_certificates m))),
     (''tlsPolicies'', Some (enc_list enc_tls_policy (m_tlsPolicies m))),
     (''sniBindings'', Some (enc_list enc_sni_binding (m_sniBindings m))),
     (''addressSets'', map_option (enc_list enc_address_set) (m_addressSets m))])"

definition ok_model :: "(string \<Rightarrow> string option) \<Rightarrow> model \<Rightarrow> bool" where
  "ok_model url_protocol m \<longleftrightarrow> pred_option ok_engine (m_engine m) \<and> list_all ok_listener (m_listeners m)
     \<and> list_all ok_http_route (m_httpRoutes m) \<and> list_all ok_passthrough_route (m_passthroughRoutes m)
     \<and> list_all ok_pool (m_pools m) \<and> list_all ok_backend (m_backends m) \<and> list_all ok_certificate (m_certificates m)
     \<and> list_all (\<lambda>p. pred_option ok_hsts (tp_hsts p)) (m_tlsPolicies m)
     \<and> pred_option (list_all (ok_address_set url_protocol)) (m_addressSets m)"

lemma section_sound:
  assumes "exact d enc ok" "fst (section_d d obj name) = []"
  shows "\<exists>xs. snd (section_d d obj name) = Some xs \<and> list_all ok xs"
  using assms exact_sound [OF exact_array [OF assms(1)]] by (simp add: section_d_def)

lemma section_complete:
  assumes "exact d enc ok" "list_all ok xs" "dget obj name = Some (enc_list enc xs)"
  shows "section_d d obj name = ([], Some xs)"
  using assms exact_complete [OF exact_array [OF assms(1)]] by (simp add: section_d_def enc_list_def)

lemma at_top_sound:
  assumes "exact d enc ok" "fst (at_top d obj name) = []"
  shows "pred_option ok (snd (at_top d obj name))"
  using exact_sound [OF assms(1)] assms(2) by (fastforce simp: at_top_def opt_at_def split: option.splits)

lemma at_top_complete:
  assumes "exact d enc ok" "pred_option ok x" "dget obj name = map_option enc x"
  shows "at_top d obj name = ([], x)"
  using assms opt_at_complete [OF assms(1,2)] by (simp add: at_top_def)

lemmas section_sounds = section_sound [OF exact_listener] section_sound [OF exact_http_route]
  section_sound [OF exact_passthrough_route] section_sound [OF exact_pool] section_sound [OF exact_backend]
  section_sound [OF exact_certificate] section_sound [OF exact_tls_policy] section_sound [OF exact_sni_binding]
  at_top_sound [OF exact_engine] at_top_sound [OF exact_array [OF exact_address_set]]

lemma model_sound:
  assumes "fst (model_fields url_protocol obj) = []"
  shows "\<exists>m. snd (model_fields url_protocol obj) = Some m \<and> ok_model url_protocol m"
  using assms by (auto simp: model_fields_def ok_model_def list_of_option_def decodes dest!: section_sounds)

lemma model_complete:
  assumes "ok_model url_protocol m"
  shows "decodeModel url_protocol (enc_model m) = Inr m"
proof (cases m)
  case (fields en ls hr pr ps bs cs ts ss as)
  note facts = section_complete [OF exact_listener, of ls] section_complete [OF exact_http_route, of hr]
    section_complete [OF exact_passthrough_route, of pr] section_complete [OF exact_pool, of ps]
    section_complete [OF exact_backend, of bs] section_complete [OF exact_certificate, of cs]
    section_complete [OF exact_tls_policy, of ts] section_complete [OF exact_sni_binding, of ss]
    at_top_complete [OF exact_engine, of en] at_top_complete [OF exact_array [OF exact_address_set], of url_protocol as]
  show ?thesis using assms unfolding fields
    by (simp add: decodeModel_def enc_model_def model_fields_def ok_model_def MODEL_KEYS_def facts readback gives_def
        list_of_option_def)
qed

lemma decodeModel_Inr:
  assumes "decodeModel url_protocol input = Inr m"
  shows "\<exists>obj. input = J_obj obj \<and> model_fields url_protocol obj = ([], Some m)"
proof (cases input)
  case (J_obj obj)
  obtain es x where r: "model_fields url_protocol obj = (es, x)" by fastforce
  show ?thesis using assms r J_obj by (cases es; cases x) (simp_all add: decodeModel_def)
qed (use assms in \<open>simp_all add: decodeModel_def\<close>)

lemma accepted_ok: "decodeModel url_protocol input = Inr m \<Longrightarrow> ok_model url_protocol m"
proof -
  assume "decodeModel url_protocol input = Inr m"
  then obtain obj where "model_fields url_protocol obj = ([], Some m)" using decodeModel_Inr by blast
  then show ?thesis using model_sound [of url_protocol obj] by simp
qed

text \<open>C28: The decoder reads every model it would accept back from its encoding, whatever its parts are.\<close>

theorem decode_roundtrip:
  assumes "ok_model url_protocol m"
  shows "decodeModel url_protocol (enc_model m) = Inr m"
  by (rule model_complete [OF assms])

text \<open>The sample of the validator passes the whole of \<open>parseModel\<close>.\<close>

lemma decode_roundtrip_witness:
  "parseModel (\<lambda>_. None) no_idna (enc_model sample_model) plain_caps = Inr sample_model"
proof -
  have "ok_model (\<lambda>_. None) sample_model"
    apply (simp add: ok_model_def sample_model_def ok_listener_def blank_listener_def ok_options_def ok_http_route_def
        ok_source_rules_def ok_source_rule_def ok_pool_def ok_backend_def ok_address_set_def ok_paths_def)
    apply code_simp
    done
  then show ?thesis using decode_roundtrip [of "\<lambda>_. None" sample_model]
    by (simp add: parseModel_def sample_valid bindE_def)
qed

text \<open>C27: The decoder accepts exactly the models whose every number is in its range, whose every list that may
  not be empty is not and may not repeat does not, and whose every listener has the options of its
  protocol, those it needs and no others.\<close>

theorem decodes_exactly:
  "(\<exists>input. decodeModel url_protocol input = Inr m) \<longleftrightarrow> ok_model url_protocol m"
proof
  assume "\<exists>input. decodeModel url_protocol input = Inr m"
  then show "ok_model url_protocol m" using accepted_ok by blast
next
  assume "ok_model url_protocol m"
  then show "\<exists>input. decodeModel url_protocol input = Inr m" by (blast intro: model_complete)
qed

end
