(* ===== verification/Sha256.thy ===== *)
theory Sha256
  imports Prelude "HOL-Library.Word"
begin

text \<open>
  \<^verbatim>\<open>createHash('sha256').update(s, 'utf8').digest('hex')\<close> of \<^verbatim>\<open>node:crypto\<close>, which names identifiers and
  configurations: SHA-256 of the UTF-8 bytes of a string, in lower case hexadecimal digits. Only
  its alphabet and its length are used in proofs.
\<close>

unbundle bit_operations_syntax

type_synonym w32 = "32 word"

definition utf8 :: "string \<Rightarrow> nat list" where
  "utf8 s = concat (map (\<lambda>c. if cu c < 128 then [cu c] else [192 + cu c div 64, 128 + cu c mod 64]) s)"

text \<open>The constants are the first 32 bits after the binary point of roots of the first primes:
  \<open>fractional k p\<close> takes those of the \<open>k\<close>-th root of \<open>p\<close>, digit by digit.\<close>

definition integer_root :: "nat \<Rightarrow> nat \<Rightarrow> nat" where
  "integer_root k n = foldl (\<lambda>r i. if (r + 2 ^ i) ^ k \<le> n then r + 2 ^ i else r) 0 (rev [0..<40])"

definition fractional :: "nat \<Rightarrow> nat \<Rightarrow> w32" where
  "fractional k p = of_nat (integer_root k (p * 2 ^ (32 * k)))"

definition primes_upto :: "nat \<Rightarrow> nat list" where
  "primes_upto n = filter (\<lambda>p. \<not> list_ex (\<lambda>d. p mod d = 0) [2..<p]) [2..<n + 1]"

definition round_constants :: "w32 list" where
  "round_constants = map (fractional 3) (primes_upto 311)"

definition initial_hash :: "w32 list" where
  "initial_hash = map (fractional 2) [2, 3, 5, 7, 11, 13, 17, 19]"

text \<open>The message, a one bit, zeros up to 56 bytes modulo 64, and its length in bits.\<close>

fun bytes_of :: "nat \<Rightarrow> nat \<Rightarrow> nat list" where
  "bytes_of n 0 = []"
| "bytes_of n (Suc k) = bytes_of (n div 256) k @ [n mod 256]"

definition padded :: "nat list \<Rightarrow> nat list" where
  "padded m = m @ [128] @ replicate ((119 - length m mod 64) mod 64) 0 @ bytes_of (8 * length m) 8"

definition word_of_bytes :: "nat list \<Rightarrow> w32" where
  "word_of_bytes bs = foldl (\<lambda>a b. push_bit 8 a OR of_nat b) 0 bs"

fun chunks :: "nat \<Rightarrow> nat \<Rightarrow> 'a list \<Rightarrow> 'a list list" where
  "chunks n 0 xs = []"
| "chunks n (Suc k) xs = take n xs # chunks n k (drop n xs)"

text \<open>The schedule, latest word first.\<close>

fun schedule :: "nat \<Rightarrow> w32 list \<Rightarrow> w32 list" where
  "schedule 0 ws = ws"
| "schedule (Suc n) ws =
     (let a = ws ! 14; b = ws ! 1;
          s0 = word_rotr 7 a XOR word_rotr 18 a XOR drop_bit 3 a;
          s1 = word_rotr 17 b XOR word_rotr 19 b XOR drop_bit 10 b in
      schedule n ((ws ! 15 + s0 + ws ! 6 + s1) # ws))"

definition hash_round :: "w32 list \<Rightarrow> w32 \<times> w32 \<Rightarrow> w32 list" where
  "hash_round v kw = (case v of
       [a, b, c, d, e, f, g, h] \<Rightarrow>
         (let s1 = word_rotr 6 e XOR word_rotr 11 e XOR word_rotr 25 e;
              ch = (e AND f) XOR (NOT e AND g);
              t1 = h + s1 + ch + fst kw + snd kw;
              s0 = word_rotr 2 a XOR word_rotr 13 a XOR word_rotr 22 a;
              maj = (a AND b) XOR (a AND c) XOR (b AND c) in
          [t1 + s0 + maj, a, b, c, d + t1, e, f, g])
     | _ \<Rightarrow> v)"

definition compress :: "w32 list \<Rightarrow> w32 list \<Rightarrow> w32 list" where
  "compress v ws = map2 (+) v (foldl hash_round v (zip round_constants (rev (schedule 48 (rev ws)))))"

definition sha256_words :: "nat list \<Rightarrow> w32 list" where
  "sha256_words m = (let p = padded m in
     foldl compress initial_hash
       (map (\<lambda>b. map word_of_bytes (chunks 4 16 b)) (chunks 64 (length p div 64) p)))"

definition hex_digit :: "nat \<Rightarrow> char" where
  "hex_digit n = ''0123456789abcdef'' ! (n mod 16)"

definition hex_word :: "w32 \<Rightarrow> string" where
  "hex_word w = map (\<lambda>i. hex_digit (unat (drop_bit (4 * i) w AND 15))) (rev [0..<8])"

definition sha256_hex :: "string \<Rightarrow> string" where
  "sha256_hex s = concat (map hex_word (sha256_words (utf8 s)))"

section \<open>The alphabet and the length\<close>

lemma length_hash_round [simp]: "length (hash_round v kw) = length v"
  by (simp add: hash_round_def Let_def split: list.splits)

lemma length_rounds [simp]: "length (foldl hash_round v xs) = length v"
  by (induction xs arbitrary: v) simp_all

lemma length_compress [simp]: "length (compress v ws) = length v"
  by (simp add: compress_def)

lemma length_initial_hash: "length initial_hash = 8"
  by (simp only: initial_hash_def length_map) simp

lemma length_sha256_words: "length (sha256_words m) = 8"
proof -
  have "length (foldl compress v bs) = length v" for v and bs :: "w32 list list"
    by (induction bs arbitrary: v) simp_all
  then show ?thesis by (simp add: sha256_words_def Let_def length_initial_hash)
qed

lemma hex_digit_hex: "is_digit (hex_digit n) \<or> is_lower (hex_digit n)"
proof -
  have "n mod 16 \<in> {..<16}" by simp
  then have "n mod 16 \<in> {0, 1, 2, 3, 4, 5, 6, 7, 8, 9, 10, 11, 12, 13, 14, 15}"
    by (simp add: lessThan_nat_numeral lessThan_Suc) linarith
  then show ?thesis by (auto simp: hex_digit_def is_digit_def is_lower_def)
qed

lemma sha256_hex_alphabet: "list_all (\<lambda>c. is_digit c \<or> is_lower c) (sha256_hex s)"
  by (auto simp: sha256_hex_def hex_word_def list_all_iff hex_digit_hex)

lemma length_sha256_hex [simp]: "length (sha256_hex s) = 64"
proof -
  have "length (concat (map hex_word ws)) = 8 * length ws" for ws
    by (induction ws) (simp_all add: hex_word_def)
  then show ?thesis by (simp add: sha256_hex_def length_sha256_words)
qed

end
