(* ===== verification/Render_Base.thy ===== *)
theory Render_Base
  imports Conf_Ast Decode Sha256
begin

text \<open>
  What the renderer, \<^verbatim>\<open>src/src/conf/render.ts\<close>, is made of: the errors it throws, building nodes from
  parts that may throw, and the names, addresses and sizes that occur in them.

  An expression of the renderer that builds a list of nodes is a value of type \<open>conf_node list built\<close>,
  an error or the list; parts are evaluated from left to right. Lookups with \<^verbatim>\<open>!\<close> that find nothing
  throw \<open>Undefined_value\<close>.
\<close>

section \<open>Errors and building\<close>

datatype render_error =
    Conf_error conf_error
  | Unvalidated_bind string
  | Unvalidated_hash_key string
  | Without_material string
  | Unknown_certificate string
  | Uncovered_host string string
  | Unknown_policy string
  | Malformed_reference string
  | Undefined_value
  | Invalid_model "model_issue list"

type_synonym 'a built = "render_error + 'a"

definition conf_built :: "conf_error + 'a \<Rightarrow> 'a built" where
  "conf_built r = (case r of Inl e \<Rightarrow> Inl (Conf_error e) | Inr x \<Rightarrow> Inr x)"

abbreviation lit_b :: "string \<Rightarrow> conf_value built" where "lit_b t \<equiv> conf_built (lit t)"
abbreviation var_b :: "string \<Rightarrow> conf_value built" where "var_b n \<equiv> conf_built (variable n)"
abbreviation regex_b :: "string \<Rightarrow> conf_value built" where "regex_b p \<equiv> conf_built (regex p)"
abbreviation num_b :: "nat \<Rightarrow> conf_value built" where "num_b n \<equiv> conf_built (num (Whole (int n)))"

definition all_b :: "'a built list \<Rightarrow> 'a list built" where
  "all_b xs = mapE id xs"

text \<open>\<open>[...a, ...b]\<close>, and the nodes of one directive, block, entry or Lua body.\<close>

definition cat_b :: "'a list built list \<Rightarrow> 'a list built" where
  "cat_b xs = bindE (all_b xs) (\<lambda>ys. Inr (concat ys))"

definition one :: "conf_node built \<Rightarrow> conf_node list built" where
  "one x = bindE x (\<lambda>n. Inr [n])"

definition dir_b :: "string \<Rightarrow> conf_value built list \<Rightarrow> conf_node list built" where
  "dir_b name args = bindE (all_b args) (\<lambda>as. one (conf_built (directive name as)))"

definition block_b :: "string \<Rightarrow> conf_value built list \<Rightarrow> conf_node list built \<Rightarrow> conf_node list built" where
  "block_b name args children =
     bindE (all_b args) (\<lambda>as. bindE children (\<lambda>cs. one (conf_built (block name as cs))))"

definition entry_b :: "conf_value built \<Rightarrow> conf_value built \<Rightarrow> conf_node list built" where
  "entry_b k v = bindE k (\<lambda>k'. bindE v (\<lambda>v'. Inr [entry k' v']))"

definition lua_b :: "string \<Rightarrow> string \<Rightarrow> conf_node list built" where
  "lua_b name body = one (conf_built (lua name body))"

definition none_b :: "conf_node list built" where
  "none_b = Inr []"

definition when_b :: "bool \<Rightarrow> conf_node list built \<Rightarrow> conf_node list built" where
  "when_b b x = (if b then x else none_b)"

definition opt_b :: "'a option \<Rightarrow> ('a \<Rightarrow> conf_node list built) \<Rightarrow> conf_node list built" where
  "opt_b x f = (case x of None \<Rightarrow> none_b | Some y \<Rightarrow> f y)"

definition need_b :: "render_error \<Rightarrow> 'a option \<Rightarrow> 'a built" where
  "need_b e x = (case x of None \<Rightarrow> Inl e | Some y \<Rightarrow> Inr y)"

section \<open>Names\<close>

definition byKey :: "('a \<Rightarrow> string) \<Rightarrow> 'a list \<Rightarrow> 'a list" where
  "byKey key xs = sort_key key xs"

definition safe_name :: "string \<Rightarrow> string" where
  "safe_name key = map (\<lambda>c. if is_word c then c else CHR ''_'') key"

definition ident :: "string \<Rightarrow> string" where
  "ident key =
     (if safe_name key = key then safe_name key else safe_name key @ ''_'' @ take 8 (sha256_hex key))"

definition NGINX_VAR_MAX :: nat where
  "NGINX_VAR_MAX = 46"

text \<open>\<open>room\<close> is negative in the code where it is zero here, and \<open>Math.max\<close> takes zero then.\<close>

definition varName :: "string \<Rightarrow> string \<Rightarrow> string \<Rightarrow> string" where
  "varName pre key suff =
     (let full = pre @ ident key @ suff in
      if length full \<le> NGINX_VAR_MAX then full
      else
        let digest = take 8 (sha256_hex key);
            room = NGINX_VAR_MAX - length pre - 1 - length digest - length suff in
        pre @ take room (safe_name key) @ ''_'' @ digest @ suff)"

definition upstreamName :: "string \<Rightarrow> string" where
  "upstreamName poolKey = ''pool_'' @ ident poolKey"

definition endpoint :: "string \<Rightarrow> nat \<Rightarrow> string" where
  "endpoint host port = (if isIPv6 host then ''['' @ host @ '']:'' else host @ '':'') @ show_nat port"

definition MAP_KEYWORDS :: "string list" where
  "MAP_KEYWORDS = [''default'', ''hostnames'', ''volatile'', ''include'']"

definition META :: string where
  "META = ''.*+?^${}()|[]'' @ [backslash]"

text \<open>\<open>literalRegex\<close> is the same function.\<close>

definition reEscape :: "string \<Rightarrow> string" where
  "reEscape s = concat (map (\<lambda>c. if c \<in> set META then [backslash, c] else [c]) s)"

definition literalRegex :: "string \<Rightarrow> string" where
  "literalRegex path = reEscape path"

section \<open>Sizes and times\<close>

definition dictSize :: "nat option \<Rightarrow> nat \<Rightarrow> string" where
  "dictSize kb default_kb =
     (let n = (case kb of None \<Rightarrow> default_kb | Some k \<Rightarrow> k) in
      if n mod 1024 = 0 then show_nat (n div 1024) @ ''m'' else show_nat n @ ''k'')"

definition msArg :: "nat \<Rightarrow> string" where
  "msArg ms = (if ms mod 1000 = 0 then show_nat (ms div 1000) @ ''s'' else show_nat ms @ ''ms'')"

definition sizeArg :: "nat \<Rightarrow> string" where
  "sizeArg bytes =
     (if bytes \<noteq> 0 \<and> bytes mod (1024 * 1024) = 0 then show_nat (bytes div (1024 * 1024)) @ ''m''
      else if bytes \<noteq> 0 \<and> bytes mod 1024 = 0 then show_nat (bytes div 1024) @ ''k''
      else show_nat bytes)"

definition zoneSize :: "nat option \<Rightarrow> string" where
  "zoneSize kb =
     (case kb of None \<Rightarrow> ''10m''
      | Some n \<Rightarrow> if n mod 1024 = 0 then show_nat (n div 1024) @ ''m'' else show_nat n @ ''k'')"

section \<open>Listening\<close>

definition listenArgs :: "listener \<Rightarrow> conf_value list built" where
  "listenArgs l =
     (case normalizeBind (l_bind l) of
        Inl _ \<Rightarrow> Inl (Unvalidated_bind (l_key l))
      | Inr b \<Rightarrow> all_b (
          [if ba_wildcard b \<and> ba_family b = V4 then num_b (l_port l)
           else if ba_family b = V6 then lit_b (''['' @ ba_addr b @ '']:'' @ show_nat (l_port l))
           else lit_b (ba_addr b @ '':'' @ show_nat (l_port l))] @
          (if l_protocol l \<noteq> L_udp \<and> l_acceptProxyProtocol l \<noteq> None then [lit_b ''proxy_protocol''] else []) @
          (if l_protocol l = L_https then [lit_b ''ssl''] else [])))"

text \<open>A directive with arguments that are built already, followed by more.\<close>

definition listen_b :: "conf_value list built \<Rightarrow> conf_value built list \<Rightarrow> conf_node list built" where
  "listen_b args others =
     bindE args (\<lambda>as. bindE (all_b others) (\<lambda>bs. one (conf_built (directive ''listen'' (as @ bs)))))"

section \<open>Groups\<close>

text \<open>\<open>const list = m.get(k); if (list) list.push(x); else m.set(k, [x])\<close> over a list.\<close>

definition grouped :: "('a \<Rightarrow> string) \<Rightarrow> 'a list \<Rightarrow> (string, 'a list) dict" where
  "grouped key xs = foldl (\<lambda>d x. dset (key x) (list_of_option (dget d (key x)) @ [x]) d) [] xs"

definition group_at :: "(string, 'a list) dict \<Rightarrow> string \<Rightarrow> 'a list" where
  "group_at d k = list_of_option (dget d k)"

definition backendsByPool :: "model \<Rightarrow> (string, backend list) dict" where
  "backendsByPool m = grouped be_pool (m_backends m)"

definition poolsWithBackends :: "model \<Rightarrow> string list" where
  "poolsWithBackends m = map fst (filter (\<lambda>(_, bs). 0 < length bs) (backendsByPool m))"

lemma group_at_grouped: "group_at (grouped key xs) k = filter (\<lambda>x. key x = k) xs"
proof -
  have "group_at (foldl (\<lambda>d x. dset (key x) (list_of_option (dget d (key x)) @ [x]) d) d xs) k =
      group_at d k @ filter (\<lambda>x. key x = k) xs" for d
    by (induction xs arbitrary: d) (auto simp: group_at_def list_of_option_def update_conv')
  then show ?thesis by (simp add: grouped_def group_at_def list_of_option_def)
qed

lemma grouped_has_key: "k \<in> set (dkeys (grouped key xs)) \<longleftrightarrow> k \<in> key ` set xs"
proof -
  have "k \<in> set (dkeys (foldl (\<lambda>d x. dset (key x) (list_of_option (dget d (key x)) @ [x]) d) d xs)) \<longleftrightarrow>
      k \<in> set (dkeys d) \<or> k \<in> key ` set xs" for d
    by (induction xs arbitrary: d) (auto simp: update_keys simp del: set_map)
  then show ?thesis by (simp add: grouped_def)
qed

lemma grouped_distinct: "distinct (dkeys (grouped key xs))"
proof -
  have "distinct (dkeys (foldl (\<lambda>d x. dset (key x) (list_of_option (dget d (key x)) @ [x]) d) d xs))"
    if "distinct (dkeys d)" for d
    using that by (induction xs arbitrary: d) (auto simp: distinct_update)
  then show ?thesis by (simp add: grouped_def)
qed

lemma poolsWithBackends_iff: "p \<in> set (poolsWithBackends m) \<longleftrightarrow> p \<in> be_pool ` set (m_backends m)"
proof -
  have d: "dget (backendsByPool m) p = Some bs \<longleftrightarrow> (p, bs) \<in> set (backendsByPool m)" for bs
    by (simp add: backendsByPool_def grouped_distinct map_of_eq_Some_iff)
  have g: "group_at (backendsByPool m) p = filter (\<lambda>b. be_pool b = p) (m_backends m)"
    by (simp add: backendsByPool_def group_at_grouped)
  have "p \<in> set (poolsWithBackends m) \<longleftrightarrow> (\<exists>bs. dget (backendsByPool m) p = Some bs \<and> bs \<noteq> [])"
    by (force simp: poolsWithBackends_def d)
  also have "\<dots> \<longleftrightarrow> group_at (backendsByPool m) p \<noteq> []"
    by (auto simp: group_at_def list_of_option_def split: option.splits)
  finally show ?thesis by (auto simp: g filter_empty_conv)
qed

end
