(* ===== verification/Render_Parts.thy ===== *)
theory Render_Parts
  imports Render_Base
begin

text \<open>
  The groups of directives of \<^verbatim>\<open>src/src/conf/render.ts\<close> that depend on one resource: source limits and
  source rules, limits, headers and rates of a listener, the real address, upstreams with and
  without the balancer in Lua, and the body of a location.

  Lua bodies are without their comments, and a message in them is in English.
\<close>

section \<open>Sources\<close>

definition sourceDenyVar :: "string \<Rightarrow> string" where
  "sourceDenyVar listenerKey = varName ''bary_src_deny_'' listenerKey []"

definition geo_entries :: "string \<Rightarrow> string \<Rightarrow> string list \<Rightarrow> conf_node list built" where
  "geo_entries outside inside cidrs =
     cat_b (entry_b (lit_b ''default'') (lit_b outside) # map (\<lambda>c. entry_b (lit_b c) (lit_b inside)) cidrs)"

definition sourceAllowGeo :: "listener \<Rightarrow> conf_node list built" where
  "sourceAllowGeo l = opt_b (l_sourceAllow l) (\<lambda>cidrs.
     block_b ''geo'' [var_b ''realip_remote_addr'', var_b (sourceDenyVar (l_key l))] (geo_entries ''1'' ''0'' cidrs))"

definition routeRuleVar :: "string \<Rightarrow> nat \<Rightarrow> string" where
  "routeRuleVar routeKey i = varName ''bary_rsrc_'' routeKey (''_'' @ show_nat (i + 1))"

definition routeSourceGeos :: "http_route \<Rightarrow> conf_node list built" where
  "routeSourceGeos r = cat_b (map (\<lambda>(i, rule).
     block_b ''geo''
       ((if ru_address rule = Some Connection then [var_b ''realip_remote_addr''] else []) @
        [var_b (routeRuleVar (hro_key r) i)])
       (geo_entries ''0'' ''1'' (ru_from rule))) (enumerate 0 (list_of_option (hro_sourceRules r))))"

definition RULE_CODE_BASE :: nat where
  "RULE_CODE_BASE = 570"

definition if_b :: "string \<Rightarrow> conf_node list built \<Rightarrow> conf_node list built" where
  "if_b v children = block_b ''if'' [lit_b (''($'' @ v @ '')'')] children"

definition return_b :: "nat \<Rightarrow> conf_node list built" where
  "return_b code = dir_b ''return'' [num_b code]"

text \<open>\<open>routePaths(r).indexOf(path)\<close>, written out.\<close>

definition path_index :: "http_route \<Rightarrow> string \<Rightarrow> string" where
  "path_index r path =
     (if path \<in> set (routePaths r) then show_nat (length (takeWhile (\<lambda>p. p \<noteq> path) (routePaths r))) else ''-1'')"

definition rule_location :: "http_route \<Rightarrow> string \<Rightarrow> nat \<Rightarrow> string" where
  "rule_location r path i =
     CHR ''@'' # varName ''bary_rule_'' (hro_key r) (''_'' @ path_index r path @ ''_'' @ show_nat (i + 1))"

text \<open>What one rule adds to the head of the location, and the named location it needs.\<close>

definition rule_nodes ::
    "http_route \<Rightarrow> string \<Rightarrow> (http_action \<Rightarrow> conf_node list built) \<Rightarrow> nat \<times> http_source_rule \<Rightarrow>
     (conf_node list \<times> conf_node list) built" where
  "rule_nodes r path build = (\<lambda>(i, rule).
     case ru_action rule of
       Act_proxy p \<Rightarrow>
         bindE (build (Act_proxy (p\<lparr>pa_rewritePrefix := None\<rparr>))) (\<lambda>inner.
         if inner = [] then
           bindE (if_b (routeRuleVar (hro_key r) i) (return_b 503)) (\<lambda>h. Inr (h, []))
         else
           bindE (cat_b [
             dir_b ''error_page'' [num_b (RULE_CODE_BASE + i), lit_b ''='', lit_b (rule_location r path i)],
             if_b (routeRuleVar (hro_key r) i) (return_b (RULE_CODE_BASE + i))]) (\<lambda>h.
           bindE (block_b ''location'' [lit_b (rule_location r path i)] (cat_b [
             opt_b (pa_rewritePrefix p) (\<lambda>rewritePrefix. dir_b ''rewrite''
               [regex_b (''^'' @ literalRegex path @ ''(.*)$''), lit_b (rewritePrefix @ ''$1''), lit_b ''break'']),
             Inr inner])) (\<lambda>named. Inr (h, named))))
     | a \<Rightarrow> bindE (if_b (routeRuleVar (hro_key r) i) (build a)) (\<lambda>h. Inr (h, [])))"

definition withSourceRules ::
    "http_route \<Rightarrow> string \<Rightarrow> conf_node list \<Rightarrow> (http_action \<Rightarrow> conf_node list built) \<Rightarrow>
     (conf_node list \<times> conf_node list) built" where
  "withSourceRules r path body build =
     (case hro_sourceRules r of
        None \<Rightarrow> Inr (body, [])
      | Some rules \<Rightarrow>
          bindE (mapE (rule_nodes r path build) (enumerate 0 rules)) (\<lambda>ps.
          bindE (if body \<noteq> [] then Inr body else return_b 503) (\<lambda>rest.
          Inr (concat (map fst ps) @ rest, concat (map snd ps)))))"

definition sourceAllowGuard :: "listener \<Rightarrow> conf_node list built" where
  "sourceAllowGuard l = opt_b (l_sourceAllow l) (\<lambda>_. if_b (sourceDenyVar (l_key l)) (return_b 444))"

definition sourceAllowStream :: "listener \<Rightarrow> conf_node list built" where
  "sourceAllowStream l = opt_b (l_sourceAllow l) (\<lambda>cidrs.
     cat_b (map (\<lambda>c. dir_b ''allow'' [lit_b c]) cidrs @ [dir_b ''deny'' [lit_b ''all'']]))"

section \<open>Limits, headers, rates\<close>

definition proxyLimitNodes :: "proxy_limits option \<Rightarrow> conf_node list built" where
  "proxyLimitNodes limits = opt_b limits (\<lambda>x. cat_b [
     opt_b (pl_connectTimeoutMs x) (\<lambda>n. dir_b ''proxy_connect_timeout'' [lit_b (msArg n)]),
     opt_b (pl_readTimeoutMs x) (\<lambda>n. dir_b ''proxy_read_timeout'' [lit_b (msArg n)]),
     opt_b (pl_sendTimeoutMs x) (\<lambda>n. dir_b ''proxy_send_timeout'' [lit_b (msArg n)]),
     opt_b (pl_clientMaxBodyBytes x) (\<lambda>n. dir_b ''client_max_body_size'' [lit_b (sizeArg n)])])"

definition responseHeaderNodes :: "header_rule list option \<Rightarrow> conf_node list built" where
  "responseHeaderNodes rules = opt_b rules (\<lambda>hs.
     cat_b (map (\<lambda>h. dir_b ''add_header'' [lit_b (hr_name h), lit_b (hr_value h), lit_b ''always'']) hs))"

definition requestHeaderNodes :: "header_rule list option \<Rightarrow> conf_node list built" where
  "requestHeaderNodes rules = opt_b rules (\<lambda>hs.
     cat_b (map (\<lambda>h. dir_b ''proxy_set_header'' [lit_b (hr_name h), lit_b (hr_value h)]) hs))"

definition reqZoneName :: "string \<Rightarrow> string" where
  "reqZoneName listenerKey = ''bary_req_'' @ ident listenerKey"

definition connZoneName :: "string \<Rightarrow> string" where
  "connZoneName listenerKey = ''bary_conn_'' @ ident listenerKey"

definition rateLimitZoneNodes :: "string \<Rightarrow> rate_limit option \<Rightarrow> conf_node list built" where
  "rateLimitZoneNodes listenerKey limit = opt_b limit (\<lambda>rl. cat_b [
     opt_b (rl_requestsPerSecond rl) (\<lambda>n. dir_b ''limit_req_zone''
       [var_b ''binary_remote_addr'', lit_b (''zone='' @ reqZoneName listenerKey @ '':'' @ zoneSize (rl_zoneKb rl)),
        lit_b (''rate='' @ show_nat n @ ''r/s'')]),
     opt_b (rl_maxConnections rl) (\<lambda>_. dir_b ''limit_conn_zone''
       [var_b ''binary_remote_addr'', lit_b (''zone='' @ connZoneName listenerKey @ '':'' @ zoneSize (rl_zoneKb rl))])])"

definition rateLimitNodes :: "string \<Rightarrow> rate_limit option \<Rightarrow> conf_node list built" where
  "rateLimitNodes listenerKey limit = opt_b limit (\<lambda>rl. cat_b [
     opt_b (rl_requestsPerSecond rl) (\<lambda>_. dir_b ''limit_req''
       ([lit_b (''zone='' @ reqZoneName listenerKey)] @
        (case rl_burst rl of None \<Rightarrow> [] | Some b \<Rightarrow> [lit_b (''burst='' @ show_nat b)]) @
        (if rl_nodelay rl = Some True then [lit_b ''nodelay''] else []))),
     opt_b (rl_maxConnections rl) (\<lambda>n. dir_b ''limit_conn'' [lit_b (connZoneName listenerKey), num_b n])])"

section \<open>The real address\<close>

definition real_ip_header_text :: "real_ip_header_name \<Rightarrow> string" where
  "real_ip_header_text h = (case h of CF_Connecting_IP \<Rightarrow> ''CF-Connecting-IP''
     | X_Forwarded_For \<Rightarrow> ''X-Forwarded-For'' | X_Real_IP \<Rightarrow> ''X-Real-IP'')"

definition realipHeaderNodes :: "listener \<Rightarrow> conf_node list built" where
  "realipHeaderNodes l =
     (if \<not> http_family (l_protocol l) then none_b
      else opt_b (l_realIpFromHeader l) (\<lambda>rh. cat_b (
        map (\<lambda>c. dir_b ''set_real_ip_from'' [lit_b c]) (irh_trustedCidrs rh) @
        [dir_b ''real_ip_header'' [lit_b (real_ip_header_text (irh_header rh))],
         dir_b ''real_ip_recursive'' [lit_b ''on'']])))"

definition realipNodes :: "listener \<Rightarrow> conf_node list built" where
  "realipNodes l =
     (case (if l_protocol l = L_udp then None else l_acceptProxyProtocol l) of
        None \<Rightarrow> realipHeaderNodes l
      | Some pp \<Rightarrow> cat_b (
          map (\<lambda>c. dir_b ''set_real_ip_from'' [lit_b c]) (ipp_trustedCidrs pp) @
          [when_b (http_family (l_protocol l)) (dir_b ''real_ip_header'' [lit_b ''proxy_protocol''])]))"

section \<open>Certificates on disk\<close>

text \<open>\<^verbatim>\<open>/^store:\/\/([A-Za-z0-9._-]+)@([a-f0-9]{16,64})$/\<close>, and the version.\<close>

definition parseRef :: "string \<Rightarrow> (string \<times> string) built" where
  "parseRef ref =
     (case (take 8 ref = ''store://'', split_on (CHR ''@'') (drop 8 ref)) of
        (True, [name, version]) \<Rightarrow>
          if name \<noteq> [] \<and> list_all (\<lambda>c. is_alnum c \<or> c \<in> set ''._-'') name
            \<and> 16 \<le> length version \<and> length version \<le> 64
            \<and> list_all (\<lambda>c. is_digit c \<or> (97 \<le> cu c \<and> cu c \<le> 102)) version
          then Inr (name, version) else Inl (Malformed_reference ref)
      | _ \<Rightarrow> Inl (Malformed_reference ref))"

definition chain_path :: "string \<Rightarrow> string \<Rightarrow> string" where
  "chain_path certKey version = ''certs/'' @ certKey @ ''/'' @ version @ ''/fullchain.pem''"

definition key_path :: "string \<Rightarrow> string \<Rightarrow> string" where
  "key_path certKey version = ''certs/'' @ certKey @ ''/'' @ version @ ''/privkey.pem''"

definition upstreamTlsNodes :: "upstream_tls option \<Rightarrow> (string \<Rightarrow> certificate option) \<Rightarrow> conf_node list built" where
  "upstreamTlsNodes tls certs =
     (case tls of
        None \<Rightarrow> none_b
      | Some t \<Rightarrow>
          if \<not> ut_enabled t then none_b
          else
            let bundle = Option.bind (ut_caBundle t) certs; ref = Option.bind bundle ce_materialRef in
            cat_b [
              opt_b (ut_sni t) (\<lambda>sni. dir_b ''proxy_ssl_name'' [lit_b sni]),
              opt_b ref (\<lambda>x. bindE (parseRef x) (\<lambda>nv.
                dir_b ''proxy_ssl_trusted_certificate'' [lit_b (chain_path (ce_key (the bundle)) (snd nv))])),
              when_b (ut_verify t = Some True \<and> ref \<noteq> None) (dir_b ''proxy_ssl_verify'' [lit_b ''on''])])"

section \<open>Upstreams\<close>

definition hashVariable :: "pool \<Rightarrow> string built" where
  "hashVariable p =
     (case parseHashKey (po_protocolClass p) (case po_hashKey p of None \<Rightarrow> ''remote_addr'' | Some k \<Rightarrow> k) of
        Inl _ \<Rightarrow> Inl (Unvalidated_hash_key (po_key p))
      | Inr k \<Rightarrow> Inr (key_variable k))"

definition algorithmDirectives :: "pool \<Rightarrow> string \<Rightarrow> conf_node list built" where
  "algorithmDirectives p sourceIpVar =
     (case po_algorithm p of
        Round_robin \<Rightarrow> none_b
      | Least_conn \<Rightarrow> dir_b ''least_conn'' []
      | Source_ip_hash \<Rightarrow>
          if po_protocolClass p = C_http then dir_b ''ip_hash'' []
          else dir_b ''hash'' [var_b sourceIpVar, lit_b ''consistent'']
      | Hash_key \<Rightarrow> dir_b ''hash'' [bindE (hashVariable p) var_b, lit_b ''consistent''])"

definition server_line :: "backend \<Rightarrow> conf_node list built" where
  "server_line b = dir_b ''server'' (lit_b (endpoint (be_host b) (be_port b)) #
     (if be_weight b \<noteq> 1 then [lit_b (''weight='' @ show_nat (be_weight b))] else []))"

definition upstreamBlock :: "pool \<Rightarrow> backend list \<Rightarrow> string \<Rightarrow> conf_node list built" where
  "upstreamBlock p backends sourceIpVar =
     bindE (cat_b (map server_line (byKey be_key backends))) (\<lambda>servers.
     block_b ''upstream'' [lit_b (upstreamName (po_key p))]
       (cat_b [algorithmDirectives p sourceIpVar, Inr servers]))"

end
