(* ===== verification/Render_Lua.thy ===== *)
theory Render_Lua
  imports Render_Parts
begin

text \<open>
  The nodes of \<^verbatim>\<open>src/src/conf/render.ts\<close> with bodies in Lua: the balancer of an upstream whose peers are
  read from shared memory, the log hook that counts requests in flight down again, and the
  challenge location of ACME. Comments are left out, and the one message is in English.
\<close>

datatype render_plane = Http_plane | Stream_plane

definition MEMBERSHIP_DICT :: "render_plane \<Rightarrow> string" where
  "MEMBERSHIP_DICT p = (case p of Http_plane \<Rightarrow> ''bary_http'' | Stream_plane \<Rightarrow> ''bary_stream'')"

definition ACME_DICT :: string where
  "ACME_DICT = ''bary_acme''"

definition INFLIGHT_IDLE_TTL :: nat where
  "INFLIGHT_IDLE_TTL = 3600"

text \<open>A template of lines, each with the indentation of the template, closed less deeply.\<close>

definition spaces :: "nat \<Rightarrow> string" where
  "spaces n = replicate n (CHR '' '')"

definition lua_text :: "nat \<Rightarrow> nat \<Rightarrow> string list \<Rightarrow> string" where
  "lua_text n close ls =
     newline @ concat (map (\<lambda>l. (if l = [] then [] else spaces n @ l) @ newline) ls) @ spaces close"

text \<open>The lines that choose an index of the list of candidates.\<close>

definition pickExpression :: "pool \<Rightarrow> string list built" where
  "pickExpression p =
     (case po_algorithm p of
        Least_conn \<Rightarrow> Inr
         [''local bestN = d:get(\"in:\" .. list[1]) or 0'',
          ''for i = 2, n do'',
          ''    local c = d:get(\"in:\" .. list[i]) or 0'',
          ''    if c < bestN then bestN = c end'',
          ''end'',
          ''local tied = {}'',
          ''for i = 1, n do'',
          ''    if (d:get(\"in:\" .. list[i]) or 0) == bestN then tied[#tied + 1] = i end'',
          ''end'',
          ''local c = d:incr(\"rr:'' @ upstreamName (po_key p) @ ''\", 1, 0) or 1'',
          ''local idx = tied[(c % #tied) + 1]'']
      | Round_robin \<Rightarrow> Inr
         [''local c = d:incr(\"rr:'' @ upstreamName (po_key p) @ ''\", 1, 0) or 1'',
          ''local idx = (c % n) + 1'']
      | Source_ip_hash \<Rightarrow> Inr
         [''local key = ngx.var.remote_addr or \"\"'',
          ''local idx = (ngx.crc32_short(key) % n) + 1'']
      | Hash_key \<Rightarrow> bindE (hashVariable p) (\<lambda>v. Inr
         [''local key = ngx.var.'' @ v @ '' or \"\"'',
          ''local idx = (ngx.crc32_short(key) % n) + 1'']))"

definition balancer_head :: "string \<Rightarrow> string \<Rightarrow> string list" where
  "balancer_head dict name = (let slotKey = ''slot:'' @ name @ '':''; attrKey = ''attr:'' @ name @ '':'' in
     [''local balancer = require \"ngx.balancer\"'',
      ''local d = ngx.shared.'' @ dict,
      ''local peers = d:get(\"'' @ slotKey @ ''\" .. (_G.BARY_EPOCH or \"0\"))'',
      ''if not peers or peers == \"\" then'',
      ''    ngx.log(ngx.ERR, \"bary: '' @ name @ '' has no eligible peer (epoch \", _G.BARY_EPOCH or \"0\", \"): see backend health and drains\")'',
      ''    return ngx.exit(ngx.ERROR)'',
      ''end'',
      ''local all = {}'',
      ''for hp in peers:gmatch(\"[^,]+\") do all[#all + 1] = hp end'',
      [],
      ''local tried = ngx.ctx.bary_tried'',
      ''if not tried then'',
      ''    tried = {}'',
      ''    ngx.ctx.bary_tried = tried'',
      ''    ngx.ctx.bary_peers = {}'',
      ''    if #all > 1 then balancer.set_more_tries(#all - 1) end'',
      ''end'',
      [],
      ''local list = {}'',
      ''for i = 1, #all do'',
      ''    if not tried[all[i]] then list[#list + 1] = all[i] end'',
      ''end'',
      [],
      ''local primary, backup, caps = {}, {}, {}'',
      ''for i = 1, #list do'',
      ''    local a = d:get(\"'' @ attrKey @ ''\" .. list[i] .. \":\" .. (_G.BARY_EPOCH or \"0\"))'',
      ''    if a then'',
      ''        local m, bk = a:match(\"^([^|]*)|(.*)$\")'',
      ''        if m and m ~= \"\" then caps[list[i]] = tonumber(m) end'',
      ''        if bk and bk ~= \"\" then'',
      ''            backup[#backup + 1] = list[i]'',
      ''        else'',
      ''            primary[#primary + 1] = list[i]'',
      ''        end'',
      ''    else'',
      ''        primary[#primary + 1] = list[i]'',
      ''    end'',
      ''end'',
      ''if #primary > 0 then list = primary'',
      ''elseif #backup > 0 then list = backup end'',
      [],
      ''local under = {}'',
      ''for i = 1, #list do'',
      ''    local cap = caps[list[i]]'',
      ''    if not cap or (d:get(\"in:\" .. list[i]) or 0) < cap then'',
      ''        under[#under + 1] = list[i]'',
      ''    end'',
      ''end'',
      ''if #under > 0 then list = under end'',
      [],
      ''local n = #list'',
      ''if n == 0 then return ngx.exit(ngx.ERROR) end''])"

definition balancer_tail :: "string list" where
  "balancer_tail =
     [''local peer = list[idx]'',
      ''local h, p = peer:match(\"^(.*):(%d+)$\")'',
      ''assert(balancer.set_current_peer(h, tonumber(p)))'',
      ''tried[peer] = true'',
      ''local chosen = ngx.ctx.bary_peers'',
      ''chosen[#chosen + 1] = peer'',
      ''d:incr(\"in:\" .. peer, 1, 0)'']"

text \<open>A placeholder server, which the balancer never connects to, and the balancer.\<close>

definition membershipUpstream :: "pool \<Rightarrow> render_plane \<Rightarrow> conf_node list built" where
  "membershipUpstream p plane =
     (let name = upstreamName (po_key p) in
      block_b ''upstream'' [lit_b name] (cat_b [
        dir_b ''server'' [lit_b ''0.0.0.1:1''],
        bindE (pickExpression p) (\<lambda>pick. lua_b ''balancer_by_lua_block''
          (lua_text 12 8 (balancer_head (MEMBERSHIP_DICT plane) name @ pick @ balancer_tail)))]))"

definition in_flight_log :: "render_plane \<Rightarrow> conf_node list built" where
  "in_flight_log plane = lua_b ''log_by_lua_block'' (lua_text 12 8
     [''local chosen = ngx.ctx.bary_peers'',
      ''if not chosen then return end'',
      ''local d = ngx.shared.'' @ MEMBERSHIP_DICT plane,
      ''for i = 1, #chosen do'',
      ''    local peer = chosen[i]'',
      ''    local n = d:incr(\"in:\" .. peer, -1)'',
      ''    if not n or n <= 0 then d:set(\"in:\" .. peer, 0, '' @ show_nat INFLIGHT_IDLE_TTL @ '') end'',
      ''end''])"

definition acmeChallengeLocation :: "conf_node list built" where
  "acmeChallengeLocation = block_b ''location'' [lit_b ''^~'', lit_b ACME_PREFIX] (cat_b [
     dir_b ''default_type'' [lit_b ''text/plain''],
     lua_b ''content_by_lua_block'' (lua_text 6 4
       [''local token = ngx.var.uri:sub('' @ show_nat (length ACME_PREFIX + 1) @ '')'',
        ''local v = token ~= \"\" and ngx.shared.'' @ ACME_DICT @ '':get(\"tok:\" .. token) or nil'',
        ''if not v then ngx.status = 404; ngx.print(\"no challenge\"); return end'',
        ''ngx.print(v)''])])"

section \<open>Their bodies are closed\<close>

end
