(* ===== verification/Render_Http.thy ===== *)
theory Render_Http
  imports Render_Lua
begin

text \<open>
  The server blocks of the HTTP plane, \<^verbatim>\<open>src/src/conf/render.ts\<close>: certificates and versions of a host,
  the bodies of locations, the block of each host of a listener, and default servers.
\<close>

section \<open>TLS\<close>

definition TLS_ORDER :: "tls_version list" where
  "TLS_ORDER = [Tls_1_2, Tls_1_3]"

definition tls_version_text :: "tls_version \<Rightarrow> string" where
  "tls_version_text v = (case v of Tls_1_2 \<Rightarrow> ''1.2'' | Tls_1_3 \<Rightarrow> ''1.3'')"

definition tls_rank :: "tls_version \<Rightarrow> nat" where
  "tls_rank v = length (takeWhile (\<lambda>x. x \<noteq> v) TLS_ORDER)"

text \<open>What \<open>CIPHER_POLICIES\<close> holds: ciphers, ciphersuites, whether the server prefers its order.\<close>

definition ciphers_of :: "cipher_policy_ref \<Rightarrow> string" where
  "ciphers_of r = ''ECDHE-ECDSA-AES128-GCM-SHA256:ECDHE-RSA-AES128-GCM-SHA256:''
     @ ''ECDHE-ECDSA-AES256-GCM-SHA384:ECDHE-RSA-AES256-GCM-SHA384:''
     @ (case r of
          Modern_2026 \<Rightarrow> ''ECDHE-ECDSA-CHACHA20-POLY1305:ECDHE-RSA-CHACHA20-POLY1305''
        | Intermediate_2026 \<Rightarrow> ''ECDHE-ECDSA-CHACHA20-POLY1305:ECDHE-RSA-CHACHA20-POLY1305:''
            @ ''DHE-RSA-AES128-GCM-SHA256:DHE-RSA-AES256-GCM-SHA384'')"

definition ciphersuites_of :: "cipher_policy_ref \<Rightarrow> string" where
  "ciphersuites_of r = ''TLS_AES_128_GCM_SHA256:TLS_AES_256_GCM_SHA384:TLS_CHACHA20_POLY1305_SHA256''"

definition prefers_server :: "cipher_policy_ref \<Rightarrow> bool" where
  "prefers_server r \<longleftrightarrow> r = Intermediate_2026"

definition DEFAULT_CIPHER_POLICY :: cipher_policy_ref where
  "DEFAULT_CIPHER_POLICY = Intermediate_2026"

definition hstsNode :: "hsts_policy \<Rightarrow> conf_node list built" where
  "hstsNode h = dir_b ''add_header'' [lit_b ''Strict-Transport-Security'',
     lit_b (join_with ''; ''
       ([''max-age='' @ show_nat (hs_maxAgeSeconds h)] @
        (if hs_includeSubdomains h = Some True then [''includeSubDomains''] else []) @
        (if hs_preload h = Some True then [''preload''] else []))), lit_b ''always'']"

definition cipherNodes :: "cipher_policy_ref \<Rightarrow> bool \<Rightarrow> conf_node list built" where
  "cipherNodes r canConfCommand = cat_b [
     dir_b ''ssl_ciphers'' [lit_b (ciphers_of r)],
     dir_b ''ssl_prefer_server_ciphers'' [lit_b (if prefers_server r then ''on'' else ''off'')],
     when_b canConfCommand (dir_b ''ssl_conf_command'' [lit_b ''Ciphersuites'', lit_b (ciphersuites_of r)])]"

definition sslProtocols :: "tls_version \<Rightarrow> tls_version option \<Rightarrow> conf_value built list" where
  "sslProtocols lo hi =
     (let top = (case hi of None \<Rightarrow> length TLS_ORDER - 1 | Some v \<Rightarrow> tls_rank v) in
      map (\<lambda>v. lit_b (''TLSv'' @ tls_version_text v)) (drop (tls_rank lo) (take (top + 1) TLS_ORDER)))"

definition http2Node :: "conf_node list built" where
  "http2Node = dir_b ''http2'' [lit_b ''on'']"

definition tlsNodes :: "certificate \<Rightarrow> tls_version \<Rightarrow> tls_version option \<Rightarrow> conf_node list built" where
  "tlsNodes cert lo hi =
     bindE (need_b (Without_material (ce_key cert)) (ce_materialRef cert)) (\<lambda>ref.
     bindE (parseRef ref) (\<lambda>nv. cat_b [
       dir_b ''ssl_certificate'' [lit_b (chain_path (ce_key cert) (snd nv))],
       dir_b ''ssl_certificate_key'' [lit_b (key_path (ce_key cert) (snd nv))],
       dir_b ''ssl_protocols'' (sslProtocols lo hi)]))"

definition SNI_MISMATCH_VAR :: string where
  "SNI_MISMATCH_VAR = ''bary_sni_mismatch''"

definition sniMismatchMap :: "conf_node list built" where
  "sniMismatchMap = block_b ''map'' [lit_b ''$ssl_server_name:$host'', var_b SNI_MISMATCH_VAR] (cat_b [
     entry_b (lit_b ''default'') (lit_b ''1''),
     entry_b (lit_b ''~^:'') (lit_b ''0''),
     entry_b (lit_b (''~^(.+):'' @ [backslash] @ ''1$'')) (lit_b ''0'')])"

definition sniMismatchGuard :: "conf_node list built" where
  "sniMismatchGuard = if_b SNI_MISMATCH_VAR (return_b 421)"

text \<open>The certificate and the versions of a host: the binding that names it most exactly, the first of
  those, and for a listener with hosts of its own its default certificate.\<close>

definition MAX_SAFE_INTEGER :: int where
  "MAX_SAFE_INTEGER = 2 ^ 53 - 1"

definition coverScore :: "string \<Rightarrow> string \<Rightarrow> int" where
  "coverScore pattern host =
     (if \<not> coversHost pattern host then -1
      else if pattern = host then MAX_SAFE_INTEGER
      else int (length pattern))"

text \<open>\<open>Math.max\<close> of no score is below every score.\<close>

definition binding_score :: "string \<Rightarrow> sni_certificate_binding \<Rightarrow> int" where
  "binding_score host b = foldl max (-2) (map (\<lambda>p. coverScore p host) (sb_hosts b))"

definition best_binding :: "string \<Rightarrow> sni_certificate_binding list \<Rightarrow> sni_certificate_binding option" where
  "best_binding host bindings =
     fst (foldl (\<lambda>(best, bestScore) b.
       if bestScore < binding_score host b then (Some b, binding_score host b) else (best, bestScore))
       (None, -1) bindings)"

record host_tls =
  ht_cert :: certificate
  ht_min :: tls_version
  ht_max :: "tls_version option"

record tls_context =
  tc_listener :: listener
  tc_tls :: raw_tls_binding
  tc_bindings :: "sni_certificate_binding list"
  tc_policy :: tls_policy
  tc_http2 :: bool
  tc_rejectMismatch :: bool
  tc_cipher :: cipher_policy_ref
  tc_confCommand :: bool
  tc_hsts :: "hsts_policy option"

definition certFor :: "string \<Rightarrow> tls_context \<Rightarrow> (string \<Rightarrow> certificate option) \<Rightarrow> host_tls built" where
  "certFor host tls certs =
     (let policy = tc_policy tls in
      case best_binding host (tc_bindings tls) of
        Some b \<Rightarrow>
          bindE (need_b (Unknown_certificate (sb_certificate b)) (certs (sb_certificate b))) (\<lambda>cert.
          Inr \<lparr>ht_cert = cert,
            ht_min = (case Option.bind (sb_override b) vo_minVersion of None \<Rightarrow> tp_minVersion policy | Some v \<Rightarrow> v),
            ht_max = (case Option.bind (sb_override b) vo_maxVersion of None \<Rightarrow> tp_maxVersion policy | Some v \<Rightarrow> Some v)\<rparr>)
      | None \<Rightarrow>
          if l_hosts (tc_listener tls) \<noteq> None then
            bindE (need_b (Unknown_certificate (tb_defaultCertificate (tc_tls tls))) (certs (tb_defaultCertificate (tc_tls tls)))) (\<lambda>cert.
            Inr \<lparr>ht_cert = cert, ht_min = tp_minVersion policy, ht_max = tp_maxVersion policy\<rparr>)
          else Inl (Uncovered_host (l_key (tc_listener tls)) host))"

definition tls_extras :: "tls_context \<Rightarrow> conf_node list built" where
  "tls_extras tls = cat_b [
     cipherNodes (tc_cipher tls) (tc_confCommand tls),
     opt_b (tc_hsts tls) hstsNode,
     when_b (tc_http2 tls) http2Node,
     when_b (tc_rejectMismatch tls) sniMismatchGuard]"

definition withHttp2 :: "tls_context \<Rightarrow> conf_node list built \<Rightarrow> conf_node list built" where
  "withHttp2 tls body = cat_b [body, tls_extras tls]"

section \<open>Locations\<close>

text \<open>The pools and certificates a rendering looks up, and the pools with backends.\<close>

record pool_tables =
  pt_served :: "string list"
  pt_pools :: "string \<Rightarrow> pool option"
  pt_certs :: "string \<Rightarrow> certificate option"

definition upstream_url :: "upstream_tls option \<Rightarrow> string \<Rightarrow> string" where
  "upstream_url tls poolKey =
     (if map_option ut_enabled tls = Some True then ''https'' else ''http'') @ ''://'' @ upstreamName poolKey"

definition forwarded_nodes :: "conf_node list built" where
  "forwarded_nodes = cat_b [
     dir_b ''proxy_set_header'' [lit_b ''Host'', var_b ''host''],
     dir_b ''proxy_set_header'' [lit_b ''X-Forwarded-For'', var_b ''proxy_add_x_forwarded_for''],
     dir_b ''proxy_set_header'' [lit_b ''X-Forwarded-Proto'', var_b ''scheme'']]"

text \<open>The headers of the listener that an action does not set itself.\<close>

definition inherited_headers :: "header_rule list option \<Rightarrow> header_rule list option \<Rightarrow> header_rule list option" where
  "inherited_headers own requestHeaders =
     (let overridden = map (\<lambda>h. lower_name (hr_name h)) (list_of_option own) in
      map_option (filter (\<lambda>h. lower_name (hr_name h) \<notin> set overridden)) requestHeaders)"

definition locationBody :: "http_action \<Rightarrow> pool_tables \<Rightarrow> header_rule list option \<Rightarrow> conf_node list built" where
  "locationBody action tables requestHeaders =
     (case action of
        Act_proxy p \<Rightarrow>
          if pa_pool p \<notin> set (pt_served tables) then none_b
          else
            let ut = Option.bind (pt_pools tables (pa_pool p)) po_upstreamTls in
            cat_b [
              dir_b ''proxy_pass'' [lit_b (upstream_url ut (pa_pool p) @
                (case pa_rewritePrefix p of None \<Rightarrow> [] | Some w \<Rightarrow> w))],
              upstreamTlsNodes ut (pt_certs tables),
              forwarded_nodes,
              dir_b ''proxy_http_version'' [lit_b ''1.1''],
              when_b (pa_websocket p) (cat_b [
                dir_b ''proxy_set_header'' [lit_b ''Upgrade'', var_b ''http_upgrade''],
                dir_b ''proxy_set_header'' [lit_b ''Connection'', var_b ''connection_upgrade'']]),
              requestHeaderNodes (inherited_headers (pa_requestHeaders p) requestHeaders),
              requestHeaderNodes (pa_requestHeaders p)]
      | Act_redirect to status \<Rightarrow> dir_b ''return'' [num_b status, lit_b to]
      | Act_reject status \<Rightarrow> return_b status)"

definition location_b :: "string \<Rightarrow> conf_node list built \<Rightarrow> conf_node list built" where
  "location_b path body = block_b ''location'' [lit_b path] body"

definition request_headers_of :: "listener \<Rightarrow> header_rule list option" where
  "request_headers_of l = Option.bind (l_http l) (\<lambda>h. Option.bind (hp_headers h) hrs_request)"

definition response_headers_of :: "listener \<Rightarrow> header_rule list option" where
  "response_headers_of l = Option.bind (l_http l) (\<lambda>h. Option.bind (hp_headers h) hrs_response)"

text \<open>A listener of the HTTP plane, and the port it redirects to when it is the plain socket of an
  HTTPS listener: the entry of \<open>REDIRECT_TO\<close>.\<close>

record http_socket =
  hk_listener :: listener
  hk_redirect :: "nat option"

definition defaultActionLocations :: "http_socket \<Rightarrow> pool_tables \<Rightarrow> conf_node list built" where
  "defaultActionLocations s tables =
     (case hk_redirect s of
        Some httpsPort \<Rightarrow>
          location_b ''/'' (dir_b ''return'' [num_b 301, lit_b (
            if httpsPort = 443 then ''https://$host$request_uri''
            else ''https://$host:'' @ show_nat httpsPort @ ''$request_uri'')])
      | None \<Rightarrow>
          (case Option.bind (l_http (hk_listener s)) hp_defaultAction of
             Some (To_pool pool) \<Rightarrow>
               if pool \<in> set (pt_served tables) then
                 let ut = Option.bind (pt_pools tables pool) po_upstreamTls in
                 location_b ''/'' (cat_b [
                   dir_b ''proxy_pass'' [lit_b (upstream_url ut pool)],
                   upstreamTlsNodes ut (pt_certs tables),
                   forwarded_nodes,
                   requestHeaderNodes (request_headers_of (hk_listener s))])
               else location_b ''/'' (return_b 444)
           | _ \<Rightarrow> location_b ''/'' (return_b 444)))"

end
