(* ===== verification/Render_Servers.thy ===== *)
theory Render_Servers
  imports Render_Http
begin

text \<open>
  The servers of a listener of the HTTP plane, \<^verbatim>\<open>src/src/conf/render.ts\<close>: the sockets of other addresses a
  wildcard listener also has to listen on, one server for each host with its locations in the
  order of the compiler, hosts that the strict priority plan lowers at the end and as regular
  expressions, and the default servers.
\<close>

section \<open>Sockets of specific addresses\<close>

record also_on =
  ao_addr :: string
  ao_args :: "conf_value list"
  ao_hosts :: "string list"

definition hosts_served :: "listener \<Rightarrow> (string, http_route list) dict \<Rightarrow> string list" where
  "hosts_served l routes =
     (case l_hosts l of Some hs \<Rightarrow> hs | None \<Rightarrow> concat (map hro_hosts (group_at routes (l_key l))))"

text \<open>One turn of the loop: the addresses found so far and the addresses left out.\<close>

definition also_on_step ::
    "listener \<Rightarrow> bind_address \<Rightarrow> (string, http_route list) dict \<Rightarrow> listener \<Rightarrow>
     (string, also_on) dict \<times> string list \<Rightarrow> ((string, also_on) dict \<times> string list) built" where
  "also_on_step l me routes s st =
     (let (found, skipped) = st in
      if s = l \<or> l_protocol s \<noteq> l_protocol l \<or> l_port s \<noteq> l_port l then Inr st
      else (case normalizeBind (l_bind s) of
          Inl _ \<Rightarrow> Inr st
        | Inr n \<Rightarrow>
            if ba_wildcard n \<or> ba_family n \<noteq> ba_family me then Inr st
            else if (l_acceptProxyProtocol s = None) \<noteq> (l_acceptProxyProtocol l = None) then
              Inr (found, skipped @ [ba_addr n])
            else
              bindE (case dget found (ba_addr n) of
                  Some a \<Rightarrow> Inr a
                | None \<Rightarrow> bindE (listenArgs s) (\<lambda>args. Inr \<lparr>ao_addr = ba_addr n, ao_args = args, ao_hosts = []\<rparr>)) (\<lambda>a.
              Inr (dset (ba_addr n) (a\<lparr>ao_hosts := ao_hosts a @ hosts_served s routes\<rparr>) found, skipped))))"

fun also_on_loop ::
    "listener \<Rightarrow> bind_address \<Rightarrow> (string, http_route list) dict \<Rightarrow> listener list \<Rightarrow>
     (string, also_on) dict \<times> string list \<Rightarrow> ((string, also_on) dict \<times> string list) built" where
  "also_on_loop l me routes [] st = Inr st"
| "also_on_loop l me routes (s # ss) st = bindE (also_on_step l me routes s st) (also_on_loop l me routes ss)"

definition alsoOnSockets ::
    "listener \<Rightarrow> listener list \<Rightarrow> (string, http_route list) dict \<Rightarrow> (also_on list \<times> string list) built" where
  "alsoOnSockets l everyone routes =
     (case normalizeBind (l_bind l) of
        Inl _ \<Rightarrow> Inr ([], [])
      | Inr me \<Rightarrow>
          if \<not> ba_wildcard me then Inr ([], [])
          else
            bindE (also_on_loop l me routes everyone ([], [])) (\<lambda>(found, skipped).
            Inr (map snd (sort_key fst (filter (\<lambda>(a, _). a \<notin> set skipped) found)), sort (remdups skipped))))"

record wildcard_report =
  wr_listener :: string
  wr_port :: nat
  wr_addrs :: "string list"
  wr_skipped :: "string list"

definition with_redirects :: "listener list \<Rightarrow> listener list" where
  "with_redirects ls = ls @ List.map_filter (\<lambda>l. if l_protocol l = L_https then redirectListenerOf l else None) ls"

definition wildcardAlsoOn :: "model \<Rightarrow> wildcard_report list built" where
  "wildcardAlsoOn m =
     (let http = with_redirects (filter (\<lambda>l. l_enabled l \<and> http_family (l_protocol l)) (m_listeners m));
          routes = grouped hro_listener (m_httpRoutes m) in
      bindE (mapE (\<lambda>l.
        let hosts = hosts_served l routes in
        if hosts = [] then Inr []
        else
          bindE (alsoOnSockets l http routes) (\<lambda>(found, skipped).
          let addrs = map ao_addr (filter (\<lambda>a. list_ex (\<lambda>h. h \<notin> set (ao_hosts a)) hosts) found) in
          Inr (if addrs = [] \<and> skipped = [] then []
               else [\<lparr>wr_listener = l_key l, wr_port = l_port l, wr_addrs = addrs, wr_skipped = skipped\<rparr>])))
        (byKey l_key http)) (\<lambda>rs. Inr (concat rs)))"

section \<open>The hosts of a listener\<close>

text \<open>The routes of each host, in the order of their keys.\<close>

definition routes_by_host :: "http_route list \<Rightarrow> (string, http_route list) dict" where
  "routes_by_host routes =
     foldl (\<lambda>d (h, r). dset h (group_at d h @ [r]) d) []
       (concat (map (\<lambda>r. map (\<lambda>h. (h, r)) (hro_hosts r)) (byKey hro_key routes)))"

definition host_list :: "listener \<Rightarrow> (string, http_route list) dict \<Rightarrow> string list" where
  "host_list l byHost = (case l_hosts l of Some hs \<Rightarrow> sort (remdups hs) | None \<Rightarrow> sort (dkeys byHost))"

definition strict_plan_of ::
    "(string \<Rightarrow> string option) \<Rightarrow> listener \<Rightarrow> (string, http_route list) dict \<Rightarrow> strict_plan" where
  "strict_plan_of idna l byHost =
     (if Option.bind (l_http l) hp_strictPriority = Some True then
        planStrictPriority (concat (map (\<lambda>h. case parseHostPattern idna h of
            Inl _ \<Rightarrow> []
          | Inr p \<Rightarrow> [\<lparr>ph_key = h, ph_pattern = p,
              ph_priority = foldl max 0 (map hro_priority (group_at byHost h))\<rparr>]) (host_list l byHost)))
      else \<lparr>sp_lowered = [], sp_order = []\<rparr>)"

definition rankInPlan :: "strict_plan \<Rightarrow> string \<Rightarrow> nat option" where
  "rankInPlan plan = js_map (map (\<lambda>(i, k). (k, i)) (enumerate 0 (sp_order plan)))"

text \<open>A route at one of its paths, with the key the compiler knows it by.\<close>

record route_entry =
  re_route :: http_route
  re_path :: string
  re_key :: string

definition entries_of :: "http_route list \<Rightarrow> route_entry list" where
  "entries_of routes = concat (map (\<lambda>r. let paths = routePaths r in
     map (\<lambda>p. \<lparr>re_route = r, re_path = p, re_key = routePathKey (hro_key r) p (1 < length paths)\<rparr>) paths) routes)"

definition entry_input :: "string \<Rightarrow> route_entry \<Rightarrow> route_input" where
  "entry_input host e = \<lparr>ri_key = re_key e, ri_host = host, ri_priority = hro_priority (re_route e),
     ri_pathPrefix = (if hro_pathPrefix (re_route e) = None \<and> hro_pathPrefixes (re_route e) = None then None
       else Some (re_path e))\<rparr>"

definition ordered_entries :: "(string \<Rightarrow> string option) \<Rightarrow> string \<Rightarrow> http_route list \<Rightarrow> route_entry list built" where
  "ordered_entries idna host routes =
     (let entries = entries_of routes; compiled = compileHostRoutes idna (map (entry_input host) entries) in
      if cres_errors compiled \<noteq> [] then Inr entries
      else mapE (\<lambda>c. need_b Undefined_value (find (\<lambda>e. re_key e = cr_key c) entries)) (cres_order compiled))"

definition entry_location :: "listener \<Rightarrow> pool_tables \<Rightarrow> route_entry \<Rightarrow> conf_node list built" where
  "entry_location l tables e =
     (let r = re_route e; build = (\<lambda>action. locationBody action tables (request_headers_of l)) in
      bindE (build (hro_action r)) (\<lambda>own.
      bindE (withSourceRules r (re_path e) own build) (\<lambda>(body, named).
      if body = [] then none_b
      else bindE (location_b (re_path e) (Inr body)) (\<lambda>ns. Inr (ns @ named)))))"

definition host_locations ::
    "(string \<Rightarrow> string option) \<Rightarrow> http_socket \<Rightarrow> pool_tables \<Rightarrow> string \<Rightarrow> http_route list \<Rightarrow> conf_node list built" where
  "host_locations idna s tables host routes =
     bindE (ordered_entries idna host routes) (\<lambda>es.
     bindE (mapE (entry_location (hk_listener s) tables) es) (\<lambda>ls.
     if l_hosts (hk_listener s) \<noteq> None \<and> \<not> list_ex (\<lambda>e. re_path e = ''/'') es then
       bindE (defaultActionLocations s tables) (\<lambda>d. Inr (concat ls @ d))
     else Inr (concat ls)))"

definition server_name_arg :: "host_pattern \<Rightarrow> bool \<Rightarrow> conf_value built" where
  "server_name_arg p lowered =
     (case p of
        Exact h \<Rightarrow> if lowered then regex_b (''~^'' @ reEscape h @ ''$'') else lit_b h
      | Wildcard s \<Rightarrow> regex_b (''~^[^.]+'' @ [backslash] @ ''.'' @ reEscape s @ ''$''))"

definition host_tls_nodes :: "string \<Rightarrow> tls_context option \<Rightarrow> (string \<Rightarrow> certificate option) \<Rightarrow> conf_node list built" where
  "host_tls_nodes host tls certs = opt_b tls (\<lambda>t.
     bindE (certFor host t certs) (\<lambda>c. cat_b [tlsNodes (ht_cert c) (ht_min c) (ht_max c), tls_extras t]))"

text \<open>What every server of a listener has between its name and its locations.\<close>

definition listener_nodes :: "listener \<Rightarrow> bool \<Rightarrow> conf_node list built" where
  "listener_nodes l acme = cat_b [
     realipNodes l,
     sourceAllowGuard l,
     proxyLimitNodes (Option.bind (l_http l) hp_limits),
     responseHeaderNodes (response_headers_of l),
     rateLimitNodes (l_key l) (Option.bind (l_http l) hp_rateLimit),
     when_b acme acmeChallengeLocation]"

definition host_server ::
    "http_socket \<Rightarrow> pool_tables \<Rightarrow> tls_context option \<Rightarrow> bool \<Rightarrow> also_on list \<Rightarrow> string \<Rightarrow> host_pattern \<Rightarrow> bool \<Rightarrow>
     conf_node list \<Rightarrow> conf_node list built" where
  "host_server s tables tls acme alsoOn host p lowered locations =
     (let l = hk_listener s in
      bindE (server_name_arg p lowered) (\<lambda>nameArg.
      bindE (host_tls_nodes host tls (pt_certs tables)) (\<lambda>tlsBody.
      block_b ''server'' [] (cat_b [
        listen_b (listenArgs l) [],
        cat_b (map (\<lambda>a. listen_b (Inr (ao_args a)) []) (filter (\<lambda>a. host \<notin> set (ao_hosts a)) alsoOn)),
        dir_b ''server_name'' [Inr nameArg],
        Inr tlsBody,
        listener_nodes l acme,
        Inr locations]))))"

text \<open>The servers of one host, with their place when the plan lowers it.\<close>

definition host_block ::
    "(string \<Rightarrow> string option) \<Rightarrow> http_socket \<Rightarrow> pool_tables \<Rightarrow> tls_context option \<Rightarrow> bool \<Rightarrow> also_on list \<Rightarrow>
     strict_plan \<Rightarrow> (string, http_route list) dict \<Rightarrow> string \<Rightarrow> (conf_node list \<times> (nat \<times> conf_node list) list) built" where
  "host_block idna s tables tls acme alsoOn plan byHost host =
     (case parseHostPattern idna host of
        Inl _ \<Rightarrow> Inr ([], [])
      | Inr p \<Rightarrow>
          bindE (host_locations idna s tables host (group_at byHost host)) (\<lambda>locations.
          if locations = [] then Inr ([], [])
          else
            let lowered = patternKey p \<in> set (sp_lowered plan) in
            bindE (host_server s tables tls acme alsoOn host p lowered locations) (\<lambda>node.
            if lowered then
              bindE (need_b Undefined_value (rankInPlan plan (patternKey p))) (\<lambda>rank. Inr ([], [(rank, node)]))
            else Inr (node, []))))"

definition httpServerBlocks ::
    "(string \<Rightarrow> string option) \<Rightarrow> http_socket \<Rightarrow> http_route list \<Rightarrow> pool_tables \<Rightarrow> tls_context option \<Rightarrow> bool \<Rightarrow>
     also_on list \<Rightarrow> conf_node list built" where
  "httpServerBlocks idna s routes tables tls acme alsoOn =
     (let byHost = routes_by_host routes; l = hk_listener s in
      bindE (mapE (host_block idna s tables tls acme alsoOn (strict_plan_of idna l byHost) byHost)
        (host_list l byHost)) (\<lambda>bs.
      Inr (concat (map fst bs) @ concat (map snd (sort_key fst (concat (map snd bs)))))))"

section \<open>Default servers\<close>

definition vhostSocketKey :: "listener \<Rightarrow> string" where
  "vhostSocketKey l =
     protocol_name (l_protocol l) @ ''|'' @
     (case normalizeBind (l_bind l) of
        Inl _ \<Rightarrow> l_bind l
      | Inr n \<Rightarrow> if ba_wildcard n then family_name (ba_family n) @ '':*'' else ba_addr n)
     @ ''|'' @ show_nat (l_port l)"

definition syntheticDefaultServer :: "listener \<Rightarrow> bool \<Rightarrow> conf_node list built" where
  "syntheticDefaultServer l acme =
     bindE (listen_b (listenArgs l) [lit_b ''default_server'']) (\<lambda>listen.
     if l_protocol l = L_https then
       block_b ''server'' [] (cat_b [
         Inr listen, dir_b ''server_name'' [lit_b ''_''], dir_b ''ssl_reject_handshake'' [lit_b ''on'']])
     else
       block_b ''server'' [] (cat_b [
         Inr listen, dir_b ''server_name'' [lit_b ''_''], when_b acme acmeChallengeLocation,
         location_b ''/'' (return_b 444)]))"

definition defaultServerBlock ::
    "http_socket \<Rightarrow> pool_tables \<Rightarrow> tls_context option \<Rightarrow> bool \<Rightarrow> conf_node list built" where
  "defaultServerBlock s tables tls acme =
     bindE (defaultActionLocations s tables) (\<lambda>body.
     bindE (opt_b tls (\<lambda>t. withHttp2 t (
       bindE (need_b (Unknown_certificate (tb_defaultCertificate (tc_tls t))) (pt_certs tables (tb_defaultCertificate (tc_tls t))))
         (\<lambda>cert. tlsNodes cert (tp_minVersion (tc_policy t)) (tp_maxVersion (tc_policy t)))))) (\<lambda>tlsBody.
     block_b ''server'' [] (cat_b [
       listen_b (listenArgs (hk_listener s)) [lit_b ''default_server''],
       dir_b ''server_name'' [lit_b ''_''],
       Inr tlsBody,
       listener_nodes (hk_listener s) acme,
       Inr body])))"

end
