(* ===== verification/Render.thy ===== *)
theory Render
  imports Render_Servers
begin

text \<open>
  The stream plane and the whole of \<open>render\<close>, \<^verbatim>\<open>src/src/conf/render.ts\<close>. A model is decoded and
  validated, its address sets are expanded, and the tree of the configuration is built from it: the
  engine's own directives, the HTTP plane, and the stream plane when there is one.
\<close>

section \<open>The stream plane\<close>

definition outcomeValue :: "sni_outcome option \<Rightarrow> string list \<Rightarrow> conf_value built" where
  "outcomeValue outcome served =
     (case outcome of
        Some (To_pool p) \<Rightarrow> if p \<in> set served then lit_b (upstreamName p) else lit_b ''''
      | _ \<Rightarrow> lit_b '''')"

text \<open>The inputs of the compiler, each with the route it came from.\<close>

definition sni_inputs :: "passthrough_route list \<Rightarrow> (route_input \<times> passthrough_route) list" where
  "sni_inputs routes = concat (map (\<lambda>r. map (\<lambda>(i, sni).
     (\<lparr>ri_key = pr_key r @ ''#'' @ show_nat i, ri_host = sni, ri_priority = pr_priority r, ri_pathPrefix = None\<rparr>, r))
     (enumerate 0 (pr_snis r))) (byKey pr_key routes))"

definition sni_match :: "host_pattern \<Rightarrow> conf_value built" where
  "sni_match p =
     (case p of
        Exact h \<Rightarrow> if h \<in> set MAP_KEYWORDS then regex_b (''~^'' @ reEscape h @ ''$'') else lit_b h
      | Wildcard s \<Rightarrow> regex_b (''~*^[^.]+'' @ [backslash] @ ''.'' @ reEscape s @ ''$''))"

definition sni_entry :: "string list \<Rightarrow> (string \<Rightarrow> passthrough_route option) \<Rightarrow> compiled_route \<Rightarrow> conf_node list built" where
  "sni_entry served owner c =
     bindE (need_b Undefined_value (owner (cr_key c))) (\<lambda>route.
     bindE (case pr_action route of
         Pass_proxy p \<Rightarrow> if p \<in> set served then lit_b (upstreamName p) else lit_b ''''
       | Pass_reject \<Rightarrow> lit_b '''') (\<lambda>target.
     entry_b (sni_match (cr_pattern c)) (Inr target)))"

definition sniVar :: "listener \<Rightarrow> string" where
  "sniVar l = varName ''bary_sni_'' (l_key l) []"

definition tierVar :: "listener \<Rightarrow> string" where
  "tierVar l = varName ''bary_sni_'' (l_key l) ''_notls''"

definition no_sni_tier :: "listener \<Rightarrow> bool" where
  "no_sni_tier l \<longleftrightarrow> l_onNoSni l \<noteq> None \<and> l_onNoSni l \<noteq> Some Reject"

definition passthroughNodes ::
    "(string \<Rightarrow> string option) \<Rightarrow> listener \<Rightarrow> passthrough_route list \<Rightarrow> string list \<Rightarrow> conf_node list built" where
  "passthroughNodes idna l routes served =
     (let inputs = sni_inputs routes;
          owner = js_map (map (\<lambda>(i, r). (ri_key i, r)) inputs) in
      bindE (cat_b (map (sni_entry served owner) (cres_order (compileHostRoutes idna (map fst inputs))))) (\<lambda>entries.
      bindE (when_b (no_sni_tier l) (block_b ''map'' [var_b ''ssl_preread_protocol'', var_b (tierVar l)] (cat_b [
        entry_b (lit_b '''') (lit_b ''''),
        entry_b (lit_b ''default'') (outcomeValue (l_onNoSni l) served)]))) (\<lambda>noSni.
      bindE (entry_b (lit_b '''') (if no_sni_tier l then var_b (tierVar l) else lit_b '''')) (\<lambda>empty_name.
      bindE (entry_b (lit_b ''default'') (outcomeValue (l_onUnmatchedSni l) served)) (\<lambda>unmatched.
      cat_b [
        Inr noSni,
        block_b ''map'' [var_b ''ssl_preread_server_name'', var_b (sniVar l)] (Inr (entries @ empty_name @ unmatched)),
        block_b ''server'' [] (cat_b [
          listen_b (listenArgs l) [],
          realipNodes l,
          sourceAllowStream l,
          dir_b ''ssl_preread'' [lit_b ''on''],
          opt_b (l_prereadTimeoutS l) (\<lambda>n. dir_b ''preread_timeout'' [lit_b (show_nat n @ ''s'')]),
          dir_b ''proxy_pass'' [var_b (sniVar l)]])])))))"

text \<open>\<open>UDP_PRESETS\<close>: the responses a datagram may have, the time a session lives, sharing of the port.\<close>

definition preset_responses :: "udp_preset \<Rightarrow> nat option" where
  "preset_responses p = (case p of Dns \<Rightarrow> Some 1 | _ \<Rightarrow> None)"

definition preset_timeout :: "udp_preset \<Rightarrow> nat" where
  "preset_timeout p = (case p of Dns \<Rightarrow> 5 | Wireguard \<Rightarrow> 180 | Game_generic \<Rightarrow> 60 | Custom_udp \<Rightarrow> 600)"

definition preset_reuseport :: "udp_preset \<Rightarrow> bool" where
  "preset_reuseport p \<longleftrightarrow> p \<noteq> Custom_udp"

definition preset_of :: "listener \<Rightarrow> udp_preset option" where
  "preset_of l =
     (if l_protocol l = L_udp then Some (case l_udp l of None \<Rightarrow> Custom_udp | Some p \<Rightarrow> p) else None)"

definition streamServerBlock :: "listener \<Rightarrow> string \<Rightarrow> pool option \<Rightarrow> (string \<Rightarrow> certificate option) \<Rightarrow> conf_node list built" where
  "streamServerBlock l poolKey p certs =
     (let preset = preset_of l in
      bindE (cat_b [
        listen_b (listenArgs l)
          ((if l_protocol l = L_udp then [lit_b ''udp''] else []) @
           (if map_option preset_reuseport preset = Some True then [lit_b ''reuseport''] else [])),
        realipNodes l,
        sourceAllowStream l,
        dir_b ''proxy_pass'' [lit_b (upstreamName poolKey)],
        opt_b (Option.bind preset preset_responses) (\<lambda>n. dir_b ''proxy_responses'' [num_b n]),
        opt_b preset (\<lambda>x. dir_b ''proxy_timeout'' [lit_b (show_nat (preset_timeout x) @ ''s'')]),
        when_b (Option.bind p po_sendProxyProtocol = Some Proxy_v1) (dir_b ''proxy_protocol'' [lit_b ''on'']),
        when_b (map_option ut_enabled (Option.bind p po_upstreamTls) = Some True \<and> l_protocol l \<noteq> L_udp) (cat_b [
          dir_b ''proxy_ssl'' [lit_b ''on''],
          upstreamTlsNodes (Option.bind p po_upstreamTls) certs])]) (\<lambda>children.
      block_b ''server'' [] (Inr children)))"

section \<open>What a rendering uses\<close>

record render_capabilities =
  rc_streamRealip :: bool
  rc_httpLua :: "bool option"
  rc_streamLua :: "bool option"
  rc_sslConfCommand :: "bool option"
  rc_http2 :: "bool option"
  rc_sslRejectHandshake :: "bool option"

definition validation_caps :: "render_capabilities \<Rightarrow> validation_capabilities" where
  "validation_caps caps = \<lparr>vc_streamRealip = rc_streamRealip caps, vc_http2 = rc_http2 caps,
     vc_sslRejectHandshake = rc_sslRejectHandshake caps\<rparr>"

definition DEFAULT_MEMBERSHIP_KB :: nat where "DEFAULT_MEMBERSHIP_KB = 1024"
definition DEFAULT_ACME_KB :: nat where "DEFAULT_ACME_KB = 64"

definition pool_table :: "model \<Rightarrow> string \<Rightarrow> pool option" where
  "pool_table m = js_map (map (\<lambda>p. (po_key p, p)) (m_pools m))"

definition cert_table :: "model \<Rightarrow> string \<Rightarrow> certificate option" where
  "cert_table m = js_map (map (\<lambda>c. (ce_key c, c)) (m_certificates m))"

definition policy_table :: "model \<Rightarrow> string \<Rightarrow> tls_policy option" where
  "policy_table m = js_map (map (\<lambda>t. (tp_key t, t)) (m_tlsPolicies m))"

definition tables_of :: "model \<Rightarrow> pool_tables" where
  "tables_of m = \<lparr>pt_served = poolsWithBackends m, pt_pools = pool_table m, pt_certs = cert_table m\<rparr>"

definition enabled_listeners :: "model \<Rightarrow> listener list" where
  "enabled_listeners m = filter l_enabled (byKey l_key (m_listeners m))"

definition http_sockets :: "model \<Rightarrow> http_socket list" where
  "http_sockets m =
     (let https = filter (\<lambda>l. http_family (l_protocol l)) (enabled_listeners m) in
      sort_key (\<lambda>s. l_key (hk_listener s))
        (map (\<lambda>l. \<lparr>hk_listener = l, hk_redirect = None\<rparr>) https @
         List.map_filter (\<lambda>l. map_option (\<lambda>r. \<lparr>hk_listener = r, hk_redirect = Some (l_port l)\<rparr>) (redirectListenerOf l)) https))"

definition stream_listeners :: "model \<Rightarrow> listener list" where
  "stream_listeners m = filter (\<lambda>l. \<not> http_family (l_protocol l)) (enabled_listeners m)"

definition routesByListener :: "model \<Rightarrow> (string, http_route list) dict" where
  "routesByListener m = grouped hro_listener (m_httpRoutes m)"

definition proxied :: "http_action \<Rightarrow> (string \<times> bool) option" where
  "proxied a = (case a of Act_proxy p \<Rightarrow> Some (pa_pool p, pa_websocket p) | _ \<Rightarrow> None)"

definition socket_actions :: "model \<Rightarrow> listener \<Rightarrow> (string \<times> bool) list" where
  "socket_actions m l = filter (\<lambda>(p, _). p \<in> set (poolsWithBackends m))
     (List.map_filter proxied (concat (map routeActions (group_at (routesByListener m) (l_key l)))))"

definition default_pool_of :: "default_action option \<Rightarrow> string list" where
  "default_pool_of d = (case d of Some (To_pool p) \<Rightarrow> [p] | _ \<Rightarrow> [])"

definition http_pools :: "model \<Rightarrow> string list" where
  "http_pools m = concat (map (\<lambda>s. let l = hk_listener s in
     filter (\<lambda>p. p \<in> set (poolsWithBackends m)) (default_pool_of (Option.bind (l_http l) hp_defaultAction)) @
     map fst (socket_actions m l)) (http_sockets m))"

definition anyWebsocket :: "model \<Rightarrow> bool" where
  "anyWebsocket m = list_ex (\<lambda>s. list_ex snd (socket_actions m (hk_listener s))) (http_sockets m)"

definition passthrough_by_listener :: "model \<Rightarrow> (string, passthrough_route list) dict" where
  "passthrough_by_listener m = grouped pr_listener (m_passthroughRoutes m)"

definition stream_pools :: "model \<Rightarrow> string list" where
  "stream_pools m = filter (\<lambda>p. p \<in> set (poolsWithBackends m)) (concat (map (\<lambda>l.
     if l_protocol l = L_tls_passthrough then
       concat (map (\<lambda>r. case pr_action r of Pass_proxy p \<Rightarrow> [p] | Pass_reject \<Rightarrow> [])
         (group_at (passthrough_by_listener m) (l_key l))) @
       default_pool_of (l_onUnmatchedSni l) @ default_pool_of (l_onNoSni l)
     else (case l_defaultPool l of None \<Rightarrow> [] | Some p \<Rightarrow> [p])) (stream_listeners m)))"

section \<open>The tree\<close>

definition upstream_nodes :: "model \<Rightarrow> bool \<Rightarrow> render_plane \<Rightarrow> string \<Rightarrow> conf_node list built" where
  "upstream_nodes m with_lua plane poolKey =
     bindE (need_b Undefined_value (pool_table m poolKey)) (\<lambda>p.
     if with_lua then membershipUpstream p plane
     else upstreamBlock p (group_at (backendsByPool m) poolKey) ''remote_addr'')"

definition dict_b :: "string \<Rightarrow> string \<Rightarrow> conf_node list built" where
  "dict_b name n = dir_b ''lua_shared_dict'' [lit_b name, lit_b n]"

definition membership_dict_b :: "model \<Rightarrow> render_plane \<Rightarrow> conf_node list built" where
  "membership_dict_b m plane =
     dict_b (MEMBERSHIP_DICT plane) (dictSize (Option.bind (m_engine m) es_membershipDictKb) DEFAULT_MEMBERSHIP_KB)"

definition rejects_mismatch :: "model \<Rightarrow> raw_tls_binding \<Rightarrow> bool" where
  "rejects_mismatch m t \<longleftrightarrow>
     Option.bind (policy_table m (tb_policy t)) tp_sniHostMismatch = Some Mismatch_reject_421"

definition tls_context_of :: "model \<Rightarrow> render_capabilities \<Rightarrow> listener \<Rightarrow> tls_context option built" where
  "tls_context_of m caps l =
     (if l_protocol l \<noteq> L_https then Inr None
      else
        bindE (need_b Undefined_value (l_tls l)) (\<lambda>t.
        bindE (need_b (Unknown_policy (tb_policy t)) (policy_table m (tb_policy t))) (\<lambda>policy.
        Inr (Some \<lparr>
          tc_listener = l, tc_tls = t,
          tc_bindings = byKey sb_key (filter (\<lambda>b. sb_listener b = l_key l) (m_sniBindings m)),
          tc_policy = policy,
          tc_http2 = (case l_http2 l of None \<Rightarrow> True | Some b \<Rightarrow> b) \<and> rc_http2 caps = Some True,
          tc_rejectMismatch = rejects_mismatch m t,
          tc_cipher = (case tp_cipherPolicy policy of None \<Rightarrow> DEFAULT_CIPHER_POLICY | Some c \<Rightarrow> c),
          tc_confCommand = (rc_sslConfCommand caps = Some True),
          tc_hsts = tp_hsts policy\<rparr>))))"

text \<open>The sockets of listeners without hosts already have a default server.\<close>

definition hostless_sockets :: "http_socket list \<Rightarrow> string list" where
  "hostless_sockets ss = map (\<lambda>s. vhostSocketKey (hk_listener s)) (filter (\<lambda>s. l_hosts (hk_listener s) = None) ss)"

definition socket_servers ::
    "(string \<Rightarrow> string option) \<Rightarrow> model \<Rightarrow> render_capabilities \<Rightarrow> bool \<Rightarrow> http_socket \<Rightarrow> conf_node list built" where
  "socket_servers idna m caps needs_default s =
     (let l = hk_listener s; tables = tables_of m; acme = (rc_httpLua caps = Some True) in
      bindE (tls_context_of m caps l) (\<lambda>tls. cat_b [
        (if l_hosts l = None then defaultServerBlock s tables tls acme
         else when_b needs_default (syntheticDefaultServer l acme)),
        bindE (alsoOnSockets l (map hk_listener (http_sockets m)) (routesByListener m)) (\<lambda>(found, _).
          httpServerBlocks idna s (group_at (routesByListener m) (l_key l)) tables tls acme found)]))"

fun all_servers ::
    "(string \<Rightarrow> string option) \<Rightarrow> model \<Rightarrow> render_capabilities \<Rightarrow> string list \<Rightarrow> http_socket list \<Rightarrow> conf_node list built" where
  "all_servers idna m caps made [] = none_b"
| "all_servers idna m caps made (s # ss) =
     (let sk = vhostSocketKey (hk_listener s); needs_default = (l_hosts (hk_listener s) \<noteq> None \<and> sk \<notin> set made) in
      cat_b [socket_servers idna m caps needs_default s,
        all_servers idna m caps (if needs_default then sk # made else made) ss])"

definition http_prelude :: "model \<Rightarrow> conf_node list built" where
  "http_prelude m = cat_b [
     cat_b (map (\<lambda>s. rateLimitZoneNodes (l_key (hk_listener s)) (Option.bind (l_http (hk_listener s)) hp_rateLimit)) (http_sockets m)),
     cat_b (map (\<lambda>s. sourceAllowGeo (hk_listener s)) (http_sockets m)),
     cat_b (map (\<lambda>s. cat_b (map routeSourceGeos (group_at (routesByListener m) (l_key (hk_listener s))))) (http_sockets m)),
     dir_b ''include'' [lit_b ''admin/*.conf'']]"

definition http_lua_nodes :: "model \<Rightarrow> conf_node list built" where
  "http_lua_nodes m = cat_b [
     dict_b ACME_DICT (dictSize (Option.bind (m_engine m) es_acmeDictKb) DEFAULT_ACME_KB),
     membership_dict_b m Http_plane,
     in_flight_log Http_plane]"

definition http_children :: "(string \<Rightarrow> string option) \<Rightarrow> model \<Rightarrow> render_capabilities \<Rightarrow> conf_node list built" where
  "http_children idna m caps =
     bindE (http_prelude m) (\<lambda>prelude.
     bindE (when_b (rc_httpLua caps = Some True) (http_lua_nodes m)) (\<lambda>lua_nodes.
     cat_b [
       Inr (lua_nodes @ prelude),
       when_b (anyWebsocket m) (block_b ''map'' [var_b ''http_upgrade'', var_b ''connection_upgrade''] (cat_b [
         entry_b (lit_b ''default'') (lit_b ''upgrade''), entry_b (lit_b '''') (lit_b ''close'')])),
       cat_b (map (upstream_nodes m (rc_httpLua caps = Some True) Http_plane) (sorted_set (http_pools m))),
       when_b (list_ex (\<lambda>s. l_protocol (hk_listener s) = L_https \<and>
           map_option (rejects_mismatch m) (l_tls (hk_listener s)) = Some True) (http_sockets m))
         sniMismatchMap,
       all_servers idna m caps (hostless_sockets (http_sockets m)) (http_sockets m)]))"

definition stream_children :: "(string \<Rightarrow> string option) \<Rightarrow> model \<Rightarrow> render_capabilities \<Rightarrow> conf_node list built" where
  "stream_children idna m caps = cat_b [
     when_b (rc_streamLua caps = Some True) (cat_b [
       membership_dict_b m Stream_plane, in_flight_log Stream_plane, dir_b ''include'' [lit_b ''stream-admin/*.conf'']]),
     cat_b (map (upstream_nodes m (rc_streamLua caps = Some True) Stream_plane) (sorted_set (stream_pools m))),
     cat_b (map (\<lambda>l.
       if l_protocol l = L_tls_passthrough then
         passthroughNodes idna l (group_at (passthrough_by_listener m) (l_key l)) (poolsWithBackends m)
       else (case l_defaultPool l of
           None \<Rightarrow> none_b
         | Some p \<Rightarrow> when_b (p \<in> set (poolsWithBackends m)) (streamServerBlock l p (pool_table m p) (cert_table m))))
       (stream_listeners m))]"

definition top_nodes :: "(string \<Rightarrow> string option) \<Rightarrow> model \<Rightarrow> render_capabilities \<Rightarrow> conf_node list built" where
  "top_nodes idna m caps = cat_b [
     opt_b (Option.bind (m_engine m) es_workerShutdownTimeoutS) (\<lambda>n.
       dir_b ''worker_shutdown_timeout'' [lit_b (show_nat n @ ''s'')]),
     block_b ''events'' [] (dir_b ''worker_connections'' [num_b 1024]),
     block_b ''http'' [] (http_children idna m caps),
     bindE (when_b (stream_listeners m \<noteq> [] \<or> rc_streamLua caps = Some True) (stream_children idna m caps)) (\<lambda>children.
       when_b (children \<noteq> []) (block_b ''stream'' [] (Inr children)))]"

record rendered_config =
  rd_conf :: string
  rd_digest :: string
  rd_planes :: "render_plane list"

definition planes_of :: "model \<Rightarrow> render_plane list" where
  "planes_of m = (if http_sockets m \<noteq> [] then [Http_plane] else []) @
     (if stream_listeners m \<noteq> [] then [Stream_plane] else [])"

text \<open>A model that reaches \<open>render\<close> is the object whose properties \<open>enc_model\<close> writes.\<close>

definition render ::
    "(string \<Rightarrow> string option) \<Rightarrow> (string \<Rightarrow> string option) \<Rightarrow> model \<Rightarrow> render_capabilities \<Rightarrow> rendered_config built" where
  "render url_protocol idna input caps =
     (case decodeModel url_protocol (enc_model input) of
        Inl issues \<Rightarrow> Inl (Invalid_model issues)
      | Inr _ \<Rightarrow>
          let issues = validateModel idna input (validation_caps caps) in
          if issues \<noteq> [] then Inl (Invalid_model issues)
          else
            let m = expandAddressSets input in
            bindE (top_nodes idna m caps) (\<lambda>tree.
            let conf = serialize tree 0 in
            Inr \<lparr>rd_conf = conf, rd_digest = sha256_hex conf, rd_planes = planes_of m\<rparr>))"

end
