(* ===== verification/Render_Names.thy ===== *)
theory Render_Names
  imports Render_Parts
begin

text \<open>
  The names the renderer makes of keys, \<^verbatim>\<open>src/src/conf/render.ts\<close>: they are names of the engine, variables
  stay below its limit, and two keys can share one; and the sizes and times it writes, which are
  read back as what they were.
\<close>

section \<open>Characters\<close>

lemma name_char_word: "is_name_start c \<or> is_digit c \<longleftrightarrow> is_word c"
  by (auto simp: is_name_start_def is_word_def char_class_defs)

lemma word_no_control: "list_all is_word s \<Longrightarrow> \<not> CONTROL s"
  by (auto simp: CONTROL_def list_all_iff list_ex_iff is_word_def char_class_defs)

lemma CONTROL_append [simp]: "CONTROL (s @ t) \<longleftrightarrow> CONTROL s \<or> CONTROL t"
  by (auto simp: CONTROL_def)

lemma CONTROL_Cons [simp]: "CONTROL (c # s) \<longleftrightarrow> cu c < 32 \<or> cu c = 127 \<or> CONTROL s"
  by (simp add: CONTROL_def disj_assoc)

lemma CONTROL_Nil [simp]: "\<not> CONTROL []"
  by (simp add: CONTROL_def)

lemma show_nat_word: "list_all is_word (show_nat n)"
  using show_nat_digits [of n] by (auto simp: list_all_iff is_word_def is_alnum_def)

lemma show_nat_no_control [simp]: "\<not> CONTROL (show_nat n)"
  by (rule word_no_control [OF show_nat_word])

lemma digest_word: "list_all is_word (take 8 (sha256_hex s))"
  using sha256_hex_alphabet [of s]
  by (auto simp: list_all_iff is_word_def is_alnum_def dest!: in_set_takeD)

lemma safe_name_word: "list_all is_word (safe_name key)"
  by (auto simp: safe_name_def list_all_iff is_word_def)

lemma safe_name_id: "list_all is_word key \<Longrightarrow> safe_name key = key"
  unfolding safe_name_def list_all_iff by (rule map_idI) simp

lemma safe_name_id_iff: "safe_name key = key \<longleftrightarrow> list_all is_word key"
  using safe_name_id safe_name_word by metis

lemma underscore_word [simp]: "is_word CHR ''_''"
  by (simp add: is_word_def)

lemma ident_word: "list_all is_word (ident key)"
proof -
  have "list_all is_word (safe_name key @ ''_'' @ take 8 (sha256_hex key))"
    using safe_name_word [of key] digest_word [of key] by simp
  then show ?thesis using safe_name_word [of key] unfolding ident_def by (simp only: if_split) metis
qed

lemma ident_no_control [simp]: "\<not> CONTROL (ident key)"
  by (rule word_no_control [OF ident_word])

lemma upstreamName_word: "list_all is_word (upstreamName key)"
  by (simp add: upstreamName_def ident_word) (simp add: is_word_def char_class_defs)

section \<open>Variables\<close>

lemma varName_rest:
  assumes "list_all is_word suff"
  shows "\<exists>r. varName pre key suff = pre @ r \<and> list_all is_word r"
proof -
  have "list_all is_word (take n (safe_name key))" for n
    using safe_name_word [of key] by (auto simp: list_all_iff dest!: in_set_takeD)
  then show ?thesis using assms ident_word [of key] digest_word [of key] by (simp add: varName_def Let_def)
qed

lemma varName_no_control:
  assumes "\<not> CONTROL pre" "list_all is_word suff"
  shows "\<not> CONTROL (varName pre key suff)"
  using varName_rest [OF assms(2), of pre key] assms(1) word_no_control by auto

lemma NAME_append:
  assumes "NAME pre" "list_all is_word r"
  shows "NAME (pre @ r)"
  using assms by (cases pre) (auto simp: NAME_def list_all_iff name_char_word)

lemma varName_NAME:
  assumes "NAME pre" "list_all is_word suff"
  shows "NAME (varName pre key suff)"
  using varName_rest [OF assms(2), of pre key] assms(1) NAME_append by auto

lemma varName_length:
  assumes "length pre + 9 + length suff \<le> NGINX_VAR_MAX"
  shows "length (varName pre key suff) \<le> NGINX_VAR_MAX"
proof -
  have "NGINX_VAR_MAX - length pre - 1 - 8 - length suff = NGINX_VAR_MAX - (length pre + 9 + length suff)" by simp
  then show ?thesis using assms by (auto simp: varName_def Let_def)
qed

section \<open>Two keys, one name\<close>

text \<open>\<open>PATH_SEGMENT_SYNTAX\<close>, what the store lets be a key.\<close>

definition PATH_SEGMENT_SYNTAX :: "string \<Rightarrow> bool" where
  "PATH_SEGMENT_SYNTAX s \<longleftrightarrow> s \<noteq> [] \<and> is_alnum (hd s) \<and> length s \<le> 63 \<and>
     list_all (\<lambda>c. is_alnum c \<or> c \<in> {CHR ''.'', CHR ''_'', CHR ''-''}) (tl s)"

lemma ident_fixed: "ident (ident key) = ident key"
  using safe_name_id [OF ident_word] by (simp add: ident_def [of "ident key"])

lemma ident_longer: "safe_name key \<noteq> key \<Longrightarrow> length (ident key) = length key + 9"
  by (simp add: ident_def safe_name_def)

lemma ident_hd: "s \<noteq> [] \<Longrightarrow> is_alnum (hd s) \<Longrightarrow> hd (ident s) = hd s"
  by (cases s) (auto simp: ident_def safe_name_def is_word_def)

text \<open>C23: A key with a character that is not a word character, of at most 54 characters, has another key
  beside it that the store allows too and that gives the same upstream and the same variables:
  names are not unique, although the suffix is there to make them so.\<close>

theorem names_collide:
  assumes "PATH_SEGMENT_SYNTAX key" "length key \<le> 54" "\<not> list_all is_word key"
  shows "\<exists>other. PATH_SEGMENT_SYNTAX other \<and> other \<noteq> key \<and> upstreamName other = upstreamName key
    \<and> reqZoneName other = reqZoneName key \<and> connZoneName other = connZoneName key"
proof (intro exI conjI)
  have s: "safe_name key \<noteq> key" using assms(3) by (simp add: safe_name_id_iff)
  have w: "list_all (\<lambda>c. is_alnum c \<or> c \<in> {CHR ''.'', CHR ''_'', CHR ''-''}) (ident key)"
    using ident_word [of key] by (auto simp: list_all_iff is_word_def)
  have k: "key \<noteq> []" "is_alnum (hd key)" using assms(1) by (auto simp: PATH_SEGMENT_SYNTAX_def)
  then show "PATH_SEGMENT_SYNTAX (ident key)"
    using ident_longer [OF s] assms(2) ident_hd [OF k] w
    by (cases "ident key") (auto simp: PATH_SEGMENT_SYNTAX_def)
  show "ident key \<noteq> key" using ident_longer [OF s] by auto
qed (simp_all add: upstreamName_def reqZoneName_def connZoneName_def ident_fixed)

lemma names_collide_witness:
  "\<exists>other. PATH_SEGMENT_SYNTAX other \<and> other \<noteq> ''a-b'' \<and> upstreamName other = upstreamName ''a-b''
    \<and> reqZoneName other = reqZoneName ''a-b'' \<and> connZoneName other = connZoneName ''a-b''"
proof (rule names_collide)
  show "PATH_SEGMENT_SYNTAX ''a-b''" "length ''a-b'' \<le> 54" "\<not> list_all is_word ''a-b''" by code_simp+
qed

text \<open>Every variable the renderer makes of a key is a name of the engine and at most 46 characters long,
  whatever the key is, so that the engine can hash it.\<close>

theorem variables_fit:
  assumes "i < 100" "j < 100"
  shows "\<forall>name \<in> {sourceDenyVar key, routeRuleVar key i, varName ''bary_rule_'' key (''_'' @ show_nat j @ ''_'' @ show_nat (i + 1))}.
    NAME name \<and> length name \<le> NGINX_VAR_MAX"
proof -
  have two: "length (show_nat n) \<le> 3" if "n \<le> 100" for n
  proof -
    have "show_nat n = (if n < 10 then [digit_char n] else show_nat (n div 10) @ [digit_char (n mod 10)])"
      "show_nat (n div 10) = (if n div 10 < 10 then [digit_char (n div 10)]
         else show_nat (n div 10 div 10) @ [digit_char (n div 10 mod 10)])"
      by (simp_all add: show_nat.simps)
    moreover have "n div 10 div 10 < 10" using that by simp
    then have "show_nat (n div 10 div 10) = [digit_char (n div 10 div 10)]" by (simp add: show_nat.simps)
    ultimately show ?thesis by simp
  qed
  have n: "NAME ''bary_src_deny_''" "NAME ''bary_rsrc_''" "NAME ''bary_rule_''" by code_simp+
  have "length (show_nat (i + 1)) \<le> 3" "length (show_nat j) \<le> 3" using assms by (auto intro!: two)
  then show ?thesis
    using n by (auto simp: sourceDenyVar_def routeRuleVar_def NGINX_VAR_MAX_def show_nat_word
      intro!: varName_NAME varName_length [unfolded NGINX_VAR_MAX_def])
qed

lemma variables_fit_witness:
  "NAME (routeRuleVar ''barycenter-internal:http'' 19) \<and> length (routeRuleVar ''barycenter-internal:http'' 19) \<le> NGINX_VAR_MAX"
  using variables_fit [of 19 0 "''barycenter-internal:http''"] by simp

section \<open>Sizes and times\<close>

text \<open>The engine's reading of a time in milliseconds and of a size in bytes.\<close>

definition read_time :: "string \<Rightarrow> nat option" where
  "read_time s =
     (case rev s of
        c # d # n \<Rightarrow>
          if c = CHR ''s'' then if d = CHR ''m'' then Some (dec_val (rev n)) else Some (1000 * dec_val (rev (d # n)))
          else None
      | _ \<Rightarrow> None)"

definition read_size :: "string \<Rightarrow> nat option" where
  "read_size s =
     (case rev s of
        [] \<Rightarrow> None
      | c # n \<Rightarrow>
          if c = CHR ''m'' then Some (1024 * 1024 * dec_val (rev n))
          else if c = CHR ''k'' then Some (1024 * dec_val (rev n))
          else Some (dec_val s))"

lemma show_nat_last: "\<exists>c n. rev (show_nat k) = c # n \<and> is_digit c"
  using show_nat_digits [of k] show_nat_nonempty [of k]
  by (cases "rev (show_nat k)") (auto simp: list_all_iff dest: rev_eq_Cons_iff [THEN iffD1])

text \<open>Every time and size the renderer writes is read by the engine as the number in the model, in
  milliseconds and in bytes; the shorter unit is only chosen when nothing is lost.\<close>

theorem sizes_read_back:
  "read_time (msArg n) = Some n \<and> read_size (sizeArg n) = Some n
   \<and> read_size (dictSize (Some n) default_kb) = Some (1024 * n) \<and> read_size (zoneSize (Some n)) = Some (1024 * n)"
proof -
  obtain c m where l: "rev (show_nat n) = c # m" "is_digit c" using show_nat_last by blast
  obtain c' m' where l': "rev (show_nat (n div 1000)) = c' # m'" "is_digit c'" using show_nat_last by blast
  have d: "c \<noteq> CHR ''m''" "c \<noteq> CHR ''k''" "c' \<noteq> CHR ''m''" using l(2) l'(2) by (auto simp: is_digit_def)
  have "show_nat (n div 1000) = rev (c' # m')" using l'(1) by (metis rev_rev_ident)
  then have "dec_val (rev m' @ [c']) = n div 1000" by (metis dec_val_show_nat rev.simps(2))
  moreover have "n = 1000 * (n div 1000)" if "n mod 1000 = 0" using that by auto
  moreover have "show_nat n = rev (c # m)" using l(1) by (metis rev_rev_ident)
  then have v: "dec_val (rev m @ [c]) = n" by (metis dec_val_show_nat rev.simps(2))
  ultimately have t: "read_time (msArg n) = Some n"
    using l l' d v by (auto simp: read_time_def msArg_def rev_swap)
  have m: "n = 1024 * 1024 * (n div (1024 * 1024))" if "n mod (1024 * 1024) = 0" using that by auto
  have k: "n = 1024 * (n div 1024)" if "n mod 1024 = 0" using that by auto
  show ?thesis using t m k l d v
    by (auto simp: read_size_def sizeArg_def dictSize_def zoneSize_def)
qed

end
