(* ===== verification/Render_Emits.thy ===== *)
theory Render_Emits
  imports Render Render_Names
begin

text \<open>
  What the parts of the renderer emit. \<open>sane\<close> says of one node that it was made by the constructors
  and that what it refers to is in given sets: the upstreams requests are passed to, the variables in its
  arguments other than the engine's own, those that are tested or passed to, and the zones that limit.
  \<open>emits\<close> says it of everything an expression of the renderer builds, at every depth, with one rule for
  each way of building.
\<close>

named_theorems emit "what an expression of the renderer builds"

section \<open>Nodes and what they refer to\<close>

fun everywhere :: "(conf_node \<Rightarrow> bool) \<Rightarrow> conf_node \<Rightarrow> bool" where
  "everywhere q (Directive name args) \<longleftrightarrow> q (Directive name args)"
| "everywhere q (Block name args cs) \<longleftrightarrow> q (Block name args cs) \<and> list_all (everywhere q) cs"
| "everywhere q (Entry k v) \<longleftrightarrow> q (Entry k v)"
| "everywhere q (Lua name body) \<longleftrightarrow> q (Lua name body)"

text \<open>The variables the engine has of its own, of those the renderer writes: addresses, the request, its headers
  and cookies, and what the stream plane reads ahead of the handshake.\<close>

definition engine_var :: "string \<Rightarrow> bool" where
  "engine_var v \<longleftrightarrow> v \<in> {''remote_addr'', ''binary_remote_addr'', ''realip_remote_addr'', ''request_uri'', ''host'', ''scheme'',
       ''proxy_add_x_forwarded_for'', ''ssl_preread_server_name'', ''ssl_preread_protocol''}
     \<or> prefix ''http_'' v \<or> prefix ''cookie_'' v"

definition known :: "string set \<Rightarrow> conf_value \<Rightarrow> bool" where
  "known vars x = (case x of Variable v \<Rightarrow> v \<in> vars \<or> engine_var v | _ \<Rightarrow> True)"

text \<open>The arguments of a block that it uses: the last one of a map and of a geo is the variable it declares.\<close>

definition used_args :: "string \<Rightarrow> conf_value list \<Rightarrow> conf_value list" where
  "used_args name args = (if name = ''map'' \<or> name = ''geo'' then butlast args else args)"

text \<open>The upstream in an argument of \<^verbatim>\<open>proxy_pass\<close>: after the scheme, up to the path.\<close>

definition upstream_part :: "string \<Rightarrow> string" where
  "upstream_part t = takeWhile (\<lambda>c. c \<noteq> CHR ''/'')
     (if prefix ''http://'' t then drop 7 t else if prefix ''https://'' t then drop 8 t else t)"

definition condition_of :: "string \<Rightarrow> conf_value list" where
  "condition_of v = [Literal (''($'' @ v @ '')'')]"

definition map_target_ok :: "string set \<Rightarrow> string set \<Rightarrow> conf_node \<Rightarrow> bool" where
  "map_target_ok ups vars n = (case n of
       Entry _ (Literal t) \<Rightarrow> t = [] \<or> t \<in> ups
     | Entry _ (Variable v) \<Rightarrow> v \<in> vars
     | _ \<Rightarrow> True)"

text \<open>The maps of the stream plane whose values are upstreams.\<close>

definition names_upstreams :: "conf_value list \<Rightarrow> bool" where
  "names_upstreams args \<longleftrightarrow> args \<noteq> [] \<and>
     (hd args = Variable ''ssl_preread_server_name'' \<or> hd args = Variable ''ssl_preread_protocol'')"

definition refers :: "string set \<Rightarrow> string set \<Rightarrow> string set \<Rightarrow> conf_node \<Rightarrow> bool" where
  "refers ups vars zones n = (case n of
       Directive name args \<Rightarrow>
         list_all (known vars) args \<and>
         (name = ''proxy_pass'' \<longrightarrow> (case args of
             [Literal t] \<Rightarrow> upstream_part t \<in> ups
           | [Variable v] \<Rightarrow> v \<in> vars
           | _ \<Rightarrow> False)) \<and>
         (name = ''limit_req'' \<longrightarrow> args \<noteq> [] \<and> hd args \<in> (\<lambda>z. Literal (''zone='' @ z)) ` zones) \<and>
         (name = ''limit_conn'' \<longrightarrow> args \<noteq> [] \<and> hd args \<in> Literal ` zones)
     | Block name args cs \<Rightarrow>
         list_all (known vars) (used_args name args) \<and>
         (name = ''if'' \<longrightarrow> args \<in> condition_of ` vars) \<and>
         (name = ''map'' \<and> names_upstreams args \<longrightarrow> list_all (map_target_ok ups vars) cs)
     | Entry k v \<Rightarrow> known vars k \<and> known vars v
     | _ \<Rightarrow> True)"

definition made :: "bool \<Rightarrow> conf_node \<Rightarrow> bool" where
  "made with_lua n = (case n of
       Directive name args \<Rightarrow> NAME name \<and> list_all built_value args
     | Block name args _ \<Rightarrow> NAME name \<and> list_all built_value args
     | Entry k v \<Rightarrow> built_value k \<and> built_value v
     | Lua name body \<Rightarrow> with_lua)"

definition sane :: "bool \<Rightarrow> string set \<Rightarrow> string set \<Rightarrow> string set \<Rightarrow> conf_node \<Rightarrow> bool" where
  "sane with_lua ups vars zones n \<longleftrightarrow> made with_lua n \<and> refers ups vars zones n"

definition emits :: "bool \<Rightarrow> string set \<Rightarrow> string set \<Rightarrow> string set \<Rightarrow> conf_node list built \<Rightarrow> bool" where
  "emits with_lua ups vars zones x \<longleftrightarrow> (\<forall>ns. x = Inr ns \<longrightarrow> list_all (everywhere (sane with_lua ups vars zones)) ns)"

section \<open>Ways of building\<close>

definition makes :: "string set \<Rightarrow> conf_value built \<Rightarrow> bool" where
  "makes V x \<longleftrightarrow> (\<forall>v. x = Inr v \<longrightarrow> built_value v \<and> known V v)"

lemma makes_simps [simp]:
  "makes V (lit_b t)" "makes V (conf_built (num k))" "p \<noteq> [] \<Longrightarrow> makes V (regex_b p)"
  "makes V (var_b n) \<longleftrightarrow> \<not> NAME n \<or> n \<in> V \<or> engine_var n"
  by (auto simp: makes_def known_def conf_built_def lit_def variable_def num_def regex_def built_value_def split: sum.splits if_splits)

lemma makes_bind: "(\<And>v. x = Inr v \<Longrightarrow> v \<in> V \<or> engine_var v) \<Longrightarrow> makes V (bindE x var_b)"
  by (cases x) (auto simp: makes_def [of _ "Inl _"])

lemma makes_Inr: "built_value v \<Longrightarrow> known V v \<Longrightarrow> makes V (Inr v)"
  by (simp add: makes_def)

lemma makes_built: "makes V x \<Longrightarrow> x = Inr v \<Longrightarrow> built_value v"
  by (simp add: makes_def)

lemma var_b_built: "var_b n = Inr v \<Longrightarrow> built_value v"
  by (auto simp: conf_built_def variable_def built_value_def split: sum.splits if_splits)

lemma all_b_simps [simp]:
  "all_b [] = Inr []"
  "all_b (x # xs) = bindE x (\<lambda>y. bindE (all_b xs) (\<lambda>ys. Inr (y # ys)))"
  by (simp_all add: all_b_def)

lemma all_b_append: "all_b (xs @ ys) = Inr zs \<longleftrightarrow> (\<exists>as bs. all_b xs = Inr as \<and> all_b ys = Inr bs \<and> zs = as @ bs)"
proof (induction xs arbitrary: zs)
  case (Cons x xs)
  then show ?case by (cases x) (auto simp: errE)
qed simp

lemma all_b_makes: "list_all (makes V) xs \<Longrightarrow> all_b xs = Inr ys \<Longrightarrow> list_all built_value ys \<and> list_all (known V) ys"
  by (induction xs arbitrary: ys) (auto simp: errE makes_def)

text \<open>Values that are made and that are no variable.\<close>

definition plain_value :: "conf_value \<Rightarrow> bool" where
  "plain_value v \<longleftrightarrow> built_value v \<and> known {} v"

lemma plain_value_known: "plain_value v \<Longrightarrow> built_value v \<and> known V v"
  by (auto simp: plain_value_def known_def split: conf_value.splits)

lemma conf_built_Inr: "conf_built x = Inr y \<longleftrightarrow> x = Inr y"
  by (auto simp: conf_built_def split: sum.splits)

lemma lit_b_Inr: "lit_b t = Inr v \<longleftrightarrow> v = Literal t \<and> \<not> CONTROL t"
  by (auto simp: conf_built_Inr lit_def)

lemma var_b_Inr: "var_b t = Inr v \<longleftrightarrow> v = Variable t \<and> NAME t"
  by (auto simp: conf_built_Inr variable_def)

lemma cat_b_simps:
  "cat_b [] = Inr []"
  "cat_b (x # xs) = bindE x (\<lambda>y. bindE (cat_b xs) (\<lambda>ys. Inr (y @ ys)))"
proof -
  show "cat_b (x # xs) = bindE x (\<lambda>y. bindE (cat_b xs) (\<lambda>ys. Inr (y @ ys)))"
    by (cases x; cases "all_b xs") (simp_all add: cat_b_def)
qed (simp add: cat_b_def)

lemma cat_b_append: "cat_b (xs @ ys) = bindE (cat_b xs) (\<lambda>a. bindE (cat_b ys) (\<lambda>b. Inr (a @ b)))"
proof (induction xs)
  case Nil
  then show ?case by (cases "cat_b ys") (simp_all add: cat_b_simps)
next
  case (Cons x xs)
  then show ?case by (cases x; cases "cat_b xs"; cases "cat_b ys") (simp_all add: cat_b_simps)
qed

lemma one_Inr: "one x = Inr ns \<longleftrightarrow> (\<exists>n. x = Inr n \<and> ns = [n])"
  by (auto simp: one_def errE)

lemma emits_Inr: "emits L U V Z (Inr ns) \<longleftrightarrow> list_all (everywhere (sane L U V Z)) ns"
  by (simp add: emits_def)

lemma emits_Inl [emit]: "emits L U V Z (Inl e)"
  by (simp add: emits_def)

lemma emits_nil [emit]: "emits L U V Z (Inr [])" and emits_none [emit]: "emits L U V Z none_b"
  by (simp_all add: emits_def none_b_def)

lemma emits_bind [emit]: "(\<And>y. m = Inr y \<Longrightarrow> emits L U V Z (f y)) \<Longrightarrow> emits L U V Z (bindE m f)"
  by (auto simp: emits_def errE)

lemma emits_cat_nil [emit]: "emits L U V Z (cat_b [])"
  by (simp add: cat_b_simps emits_def)

lemma emits_cat_Cons [emit]: "emits L U V Z x \<Longrightarrow> emits L U V Z (cat_b xs) \<Longrightarrow> emits L U V Z (cat_b (x # xs))"
  by (auto simp: emits_def cat_b_simps errE)

lemma emits_cat_all: "(\<And>x. x \<in> set xs \<Longrightarrow> emits L U V Z x) \<Longrightarrow> emits L U V Z (cat_b xs)"
  by (induction xs) (simp_all add: emit)

lemma emits_cat_map [emit]: "(\<And>x. x \<in> set xs \<Longrightarrow> emits L U V Z (f x)) \<Longrightarrow> emits L U V Z (cat_b (map f xs))"
  by (rule emits_cat_all) auto

lemma emits_cat_append [emit]: "emits L U V Z (cat_b xs) \<Longrightarrow> emits L U V Z (cat_b ys) \<Longrightarrow> emits L U V Z (cat_b (xs @ ys))"
  by (auto simp: emits_def cat_b_append errE)

lemma emits_when [emit]: "(b \<Longrightarrow> emits L U V Z x) \<Longrightarrow> emits L U V Z (when_b b x)"
  by (simp add: when_b_def emits_none)

lemma emits_if_then [emit]: "(b \<Longrightarrow> emits L U V Z x) \<Longrightarrow> (\<not> b \<Longrightarrow> emits L U V Z y) \<Longrightarrow> emits L U V Z (if b then x else y)"
  by simp

lemma emits_opt [emit]: "(\<And>y. x = Some y \<Longrightarrow> emits L U V Z (f y)) \<Longrightarrow> emits L U V Z (opt_b x f)"
  by (cases x) (simp_all add: opt_b_def emits_none)

lemma emits_entry [emit]: "makes V k \<Longrightarrow> makes V v \<Longrightarrow> emits L U V Z (entry_b k v)"
  by (auto simp: emits_def entry_b_def errE entry_def sane_def made_def refers_def makes_def)

lemma emits_lua [emit]: "L \<Longrightarrow> emits L U V Z (lua_b name body)"
  by (auto simp: emits_def lua_b_def one_Inr conf_built_Inr lua_def sane_def made_def refers_def split: if_splits)

definition plain_name :: "string \<Rightarrow> bool" where
  "plain_name name \<longleftrightarrow> name \<notin> {''proxy_pass'', ''limit_req'', ''limit_conn''}"

lemma dir_b_Inr: "dir_b name args = Inr ns \<longleftrightarrow> (\<exists>as. all_b args = Inr as \<and> NAME name \<and> ns = [Directive name as])"
  by (auto simp: dir_b_def errE one_Inr conf_built_Inr directive_def split: if_splits)

lemma block_b_Inr: "block_b name args cs = Inr ns \<longleftrightarrow>
    (\<exists>as ch. all_b args = Inr as \<and> cs = Inr ch \<and> NAME name \<and> ns = [Block name as ch])"
  by (auto simp: block_b_def errE one_Inr conf_built_Inr block_def split: if_splits)

lemma known_args:
  "list_all (makes V) args \<Longrightarrow> all_b args = Inr as \<Longrightarrow> list_all built_value as \<and> list_all (known V) as \<and> list_all (known V) (butlast as)"
  using all_b_makes [of V args as] by (auto simp: list_all_iff dest: in_set_butlastD)

lemma known_literals [simp]: "known V (Literal t)" "known V (Number n)" "known V (Regex p)"
  by (simp_all add: known_def)

lemma emits_dir [emit]: "list_all (makes V) args \<Longrightarrow> plain_name name \<Longrightarrow> emits L U V Z (dir_b name args)"
  by (auto simp: emits_def dir_b_Inr sane_def made_def refers_def plain_name_def dest: known_args)

lemma emits_block [emit]:
  assumes "list_all (makes V) args" "name \<notin> {''if'', ''map'', ''geo''}" "emits L U V Z cs"
  shows "emits L U V Z (block_b name args cs)"
  using assms by (auto simp: emits_def block_b_Inr sane_def made_def refers_def used_args_def dest: known_args)

text \<open>A geo: the last argument is what it declares.\<close>

lemma declaring_args:
  assumes "list_all (makes V) xs" "all_b (xs @ [var_b d]) = Inr as"
  shows "list_all built_value as" "list_all (known V) (butlast as)"
proof -
  obtain ys v where y: "all_b xs = Inr ys" "var_b d = Inr v" "as = ys @ [v]"
    using assms(2) by (auto simp: all_b_append errE)
  show "list_all built_value as" "list_all (known V) (butlast as)"
    using all_b_makes [OF assms(1) y(1)] var_b_built [OF y(2)] by (simp_all add: y(3))
qed

lemma emits_geo [emit]:
  assumes "list_all (makes V) xs" "emits L U V Z cs"
  shows "emits L U V Z (block_b ''geo'' (xs @ [var_b d]) cs)"
  using assms(2) declaring_args [OF assms(1)]
  by (auto simp: emits_def block_b_Inr sane_def made_def refers_def used_args_def)

lemma emits_geo_of [emit]: "makes V x \<Longrightarrow> emits L U V Z cs \<Longrightarrow> emits L U V Z (block_b ''geo'' [x, var_b d] cs)"
  using emits_geo [of V "[x]"] by simp

lemma emits_if [emit]: "v \<in> V \<Longrightarrow> emits L U V Z cs \<Longrightarrow> emits L U V Z (if_b v cs)"
  by (auto simp: emits_def if_b_def block_b_Inr sane_def made_def refers_def used_args_def condition_of_def conf_built_Inr errE
      lit_def built_value_def split: if_splits)

text \<open>A map whose values are not upstreams, and one whose values are.\<close>

lemma emits_map:
  assumes "makes V x" "emits L U V Z cs"
    "\<And>y ch. x = Inr y \<Longrightarrow> cs = Inr ch \<Longrightarrow> names_upstreams [y] \<Longrightarrow> list_all (map_target_ok U V) ch"
  shows "emits L U V Z (block_b ''map'' [x, var_b d] cs)"
  using assms(2,3) declaring_args [of V "[x]" d] assms(1)
  by (auto simp: emits_def block_b_Inr sane_def made_def refers_def used_args_def names_upstreams_def errE)

lemma emits_pass_literal:
  assumes "upstream_part t \<in> U"
  shows "emits L U V Z (dir_b ''proxy_pass'' [lit_b t])"
  using assms by (auto simp: emits_def dir_b_Inr sane_def made_def refers_def conf_built_Inr errE lit_def built_value_def
      split: if_splits)

lemma emits_pass_variable:
  assumes "v \<in> V"
  shows "emits L U V Z (dir_b ''proxy_pass'' [var_b v])"
  using assms by (auto simp: emits_def dir_b_Inr sane_def made_def refers_def known_def conf_built_Inr errE variable_def built_value_def
      split: if_splits)

lemma emits_limit_req:
  assumes "z \<in> Z" "list_all (makes V) args"
  shows "emits L U V Z (dir_b ''limit_req'' (lit_b (''zone='' @ z) # args))"
  using assms by (auto simp: emits_def dir_b_Inr sane_def made_def refers_def conf_built_Inr errE lit_def built_value_def
      dest: all_b_makes split: if_splits)

lemma emits_limit_conn:
  assumes "z \<in> Z" "list_all (makes V) args"
  shows "emits L U V Z (dir_b ''limit_conn'' (lit_b z # args))"
  using assms by (auto simp: emits_def dir_b_Inr sane_def made_def refers_def conf_built_Inr errE lit_def built_value_def
      dest: all_b_makes split: if_splits)

end
