(* ===== verification/Render_Sound.thy ===== *)
theory Render_Sound
  imports Render_Emits
begin

text \<open>
  One lemma for each part of the renderer, by the rules of \<open>Render_Emits\<close>: what the part emits is made by
  the constructors and refers to what is in the given sets.
\<close>

abbreviation sane_nodes :: "bool \<Rightarrow> string set \<Rightarrow> string set \<Rightarrow> string set \<Rightarrow> conf_node list \<Rightarrow> bool" where
  "sane_nodes L U V Z ns \<equiv> list_all (everywhere (sane L U V Z)) ns"

lemma emitsD: "emits L U V Z x \<Longrightarrow> x = Inr ns \<Longrightarrow> sane_nodes L U V Z ns"
  by (simp add: emits_def)

section \<open>Parts\<close>

lemma emits_geo_entries [emit]: "emits L U V Z (geo_entries a b cs)"
  unfolding geo_entries_def by (intro emit) simp_all

lemma emits_sourceAllowGeo [emit]: "emits L U V Z (sourceAllowGeo l)"
  unfolding sourceAllowGeo_def by (intro emit) (simp_all add: engine_var_def)

lemma emits_routeSourceGeos [emit]: "emits L U V Z (routeSourceGeos r)"
  unfolding routeSourceGeos_def by (intro emit) (auto intro!: emit simp: engine_var_def)

lemma emits_return [emit]: "emits L U V Z (return_b n)"
  unfolding return_b_def by (intro emit) (simp_all add: plain_name_def)

lemma emits_sourceAllowGuard [emit]:
  "l_sourceAllow l \<noteq> None \<longrightarrow> sourceDenyVar (l_key l) \<in> V \<Longrightarrow> emits L U V Z (sourceAllowGuard l)"
  unfolding sourceAllowGuard_def by (intro emit) auto

lemma emits_sourceAllowStream [emit]: "emits L U V Z (sourceAllowStream l)"
  unfolding sourceAllowStream_def by (intro emit) (simp_all add: plain_name_def)

lemma emits_proxyLimitNodes [emit]: "emits L U V Z (proxyLimitNodes x)"
  unfolding proxyLimitNodes_def by (intro emit) (simp_all add: plain_name_def)

lemma emits_responseHeaderNodes [emit]: "emits L U V Z (responseHeaderNodes x)"
  unfolding responseHeaderNodes_def by (intro emit) (simp_all add: plain_name_def)

lemma emits_requestHeaderNodes [emit]: "emits L U V Z (requestHeaderNodes x)"
  unfolding requestHeaderNodes_def by (intro emit) (simp_all add: plain_name_def)

lemma emits_rateLimitZoneNodes [emit]: "emits L U V Z (rateLimitZoneNodes k x)"
  unfolding rateLimitZoneNodes_def by (intro emit) (simp_all add: plain_name_def engine_var_def)

lemma single_append: "[x :: conf_value built] @ ys = x # ys"
  by simp

lemma emits_rateLimitNodes [emit]:
  assumes "\<And>rl. x = Some rl \<Longrightarrow> (rl_requestsPerSecond rl \<noteq> None \<longrightarrow> reqZoneName k \<in> Z)
    \<and> (rl_maxConnections rl \<noteq> None \<longrightarrow> connZoneName k \<in> Z)"
  shows "emits L U V Z (rateLimitNodes k x)"
  unfolding rateLimitNodes_def single_append
  by (intro emits_opt emits_cat_Cons emits_cat_nil emits_limit_req emits_limit_conn)
    (use assms in \<open>auto split: option.splits\<close>)

lemma emits_realipHeaderNodes [emit]: "emits L U V Z (realipHeaderNodes l)"
  unfolding realipHeaderNodes_def by (intro emit) (simp_all add: plain_name_def)

lemma emits_realipNodes [emit]: "emits L U V Z (realipNodes l)"
  unfolding realipNodes_def
  by (auto intro!: emit simp: plain_name_def split: option.splits)

lemma emits_upstreamTlsNodes [emit]: "emits L U V Z (upstreamTlsNodes t certs)"
  unfolding upstreamTlsNodes_def Let_def
  by (auto intro!: emit simp: plain_name_def split: option.splits)

lemma hashVariable_engine: "hashVariable p = Inr v \<Longrightarrow> engine_var v"
  by (auto simp: hashVariable_def parseHashKey_def key_variable_def engine_var_def
      split: sum.splits if_splits option.splits)

lemma emits_algorithmDirectives [emit]:
  assumes "engine_var v"
  shows "emits L U V Z (algorithmDirectives p v)"
  using assms unfolding algorithmDirectives_def
  by (auto intro!: emit makes_bind dest: hashVariable_engine simp: plain_name_def split: algorithm.splits)

lemma emits_upstreamBlock [emit]:
  assumes "engine_var v"
  shows "emits L U V Z (upstreamBlock p bs v)"
proof -
  have "emits L U V Z (server_line b)" for b
    unfolding server_line_def by (intro emit) (simp_all add: plain_name_def)
  then have "emits L U V Z (cat_b (map server_line (byKey be_key bs)))" by (intro emit)
  then show ?thesis unfolding upstreamBlock_def
    using assms by (intro emit) (auto simp: emits_Inr dest: emitsD)
qed

lemma emits_membershipUpstream [emit]: "L \<Longrightarrow> emits L U V Z (membershipUpstream p plane)"
  unfolding membershipUpstream_def Let_def by (intro emit) (simp_all add: plain_name_def)

lemma emits_in_flight_log [emit]: "L \<Longrightarrow> emits L U V Z (in_flight_log plane)"
  unfolding in_flight_log_def by (intro emit)

lemma emits_acmeChallengeLocation [emit]: "L \<Longrightarrow> emits L U V Z acmeChallengeLocation"
  unfolding acmeChallengeLocation_def by (intro emit) (simp_all add: plain_name_def)

section \<open>TLS\<close>

lemma emits_hstsNode [emit]: "emits L U V Z (hstsNode h)"
  unfolding hstsNode_def by (intro emit) (simp_all add: plain_name_def)

lemma emits_cipherNodes [emit]: "emits L U V Z (cipherNodes r c)"
  unfolding cipherNodes_def by (intro emit) (simp_all add: plain_name_def)

lemma makes_sslProtocols: "list_all (makes V) (sslProtocols lo hi)"
  by (auto simp: sslProtocols_def Let_def list_all_iff)

lemma emits_tlsNodes [emit]: "emits L U V Z (tlsNodes c lo hi)"
  unfolding tlsNodes_def by (intro emit) (simp_all add: plain_name_def makes_sslProtocols)

lemma emits_tls_extras [emit]:
  "tc_rejectMismatch t \<longrightarrow> SNI_MISMATCH_VAR \<in> V \<Longrightarrow> emits L U V Z (tls_extras t)"
  unfolding tls_extras_def sniMismatchGuard_def http2Node_def by (intro emit) (auto simp: plain_name_def)

section \<open>Locations\<close>

lemma upstream_part_url:
  assumes "rewrite = [] \<or> hd rewrite = CHR ''/''"
  shows "upstream_part (upstream_url t pool @ rewrite) = upstreamName pool"
proof -
  have w: "CHR ''/'' \<notin> set (upstreamName pool)"
    using upstreamName_word [of pool] by (auto simp: list_all_iff is_word_def char_class_defs)
  have "takeWhile (\<lambda>c. c \<noteq> CHR ''/'') (upstreamName pool @ rewrite) = upstreamName pool"
    using assms w by (cases rewrite) (auto simp: takeWhile_append)
  then show ?thesis by (simp add: upstream_part_def upstream_url_def)
qed

lemma upstream_part_name: "upstream_part (upstreamName pool) = upstreamName pool"
proof -
  have "CHR ''/'' \<notin> set (upstreamName pool)"
    using upstreamName_word [of pool] by (auto simp: list_all_iff is_word_def char_class_defs)
  then have "takeWhile (\<lambda>c. c \<noteq> CHR ''/'') (upstreamName pool) = upstreamName pool"
    by (intro takeWhile_eq_all_conv [THEN iffD2]) auto
  then show ?thesis by (simp add: upstream_part_def upstreamName_def)
qed

definition action_served :: "string set \<Rightarrow> string set \<Rightarrow> pool_tables \<Rightarrow> http_action \<Rightarrow> bool" where
  "action_served U V tables a = (case a of
       Act_proxy p \<Rightarrow> (pa_pool p \<in> set (pt_served tables) \<longrightarrow> upstreamName (pa_pool p) \<in> U
           \<and> (pa_websocket p \<longrightarrow> ''connection_upgrade'' \<in> V)) \<and>
         (case pa_rewritePrefix p of None \<Rightarrow> True | Some w \<Rightarrow> w = [] \<or> hd w = CHR ''/'')
     | _ \<Rightarrow> True)"

lemma emits_forwarded [emit]: "emits L U V Z forwarded_nodes"
  unfolding forwarded_nodes_def by (intro emit) (simp_all add: plain_name_def engine_var_def)

lemma emits_locationBody [emit]:
  assumes "action_served U V tables a"
  shows "emits L U V Z (locationBody a tables hs)"
proof (cases a)
  case (Act_proxy p)
  have d: "emits L U V Z (dir_b ''proxy_pass'' [lit_b (upstream_url t (pa_pool p) @
      (case pa_rewritePrefix p of None \<Rightarrow> [] | Some w \<Rightarrow> w))])" if "pa_pool p \<in> set (pt_served tables)" for t
    using assms that Act_proxy
    by (intro emits_pass_literal) (auto simp: action_served_def upstream_part_url upstream_part_url [of "[]", simplified] split: option.splits)
  show ?thesis unfolding locationBody_def Act_proxy http_action.case Let_def
    using assms Act_proxy by (intro emits_if_then d emit) (simp_all add: plain_name_def engine_var_def action_served_def)
qed (simp_all add: locationBody_def emit plain_name_def)

lemma emits_location [emit]: "emits L U V Z b \<Longrightarrow> emits L U V Z (location_b path b)"
  unfolding location_b_def by (intro emit) simp_all

lemma emits_defaultActionLocations [emit]:
  assumes "\<And>p. Option.bind (l_http (hk_listener s)) hp_defaultAction = Some (To_pool p) \<Longrightarrow>
    p \<in> set (pt_served tables) \<Longrightarrow> upstreamName p \<in> U"
  shows "emits L U V Z (defaultActionLocations s tables)"
  unfolding defaultActionLocations_def Let_def
  by (auto intro!: emit emits_pass_literal assms simp: plain_name_def upstream_part_url [of "[]", simplified]
      split: option.splits default_action.splits)

section \<open>Source rules\<close>

lemma sane_rule_nodes:
  assumes "rule_nodes r path build (i, rule) = Inr (h, n)" "routeRuleVar (hro_key r) i \<in> V"
    and "\<And>a. a = ru_action rule \<or> (\<exists>p. ru_action rule = Act_proxy p \<and> a = Act_proxy (p\<lparr>pa_rewritePrefix := None\<rparr>)) \<Longrightarrow>
      emits L U V Z (build a)"
  shows "sane_nodes L U V Z h \<and> sane_nodes L U V Z n"
proof (cases "ru_action rule")
  case (Act_proxy p)
  have b: "emits L U V Z (build (Act_proxy (p\<lparr>pa_rewritePrefix := None\<rparr>)))" using assms(3) Act_proxy by blast
  have i: "emits L U V Z (if_b (routeRuleVar (hro_key r) i) (return_b k))" for k
    using assms(2) by (intro emit)
  have e: "emits L U V Z (cat_b [dir_b ''error_page'' [num_b k, lit_b ''='', lit_b t],
      if_b (routeRuleVar (hro_key r) i) (return_b k)])" for k t
    by (intro emit assms(2)) (simp_all add: plain_name_def)
  have l: "emits L U V Z (block_b ''location'' [lit_b t] (cat_b [
      opt_b (pa_rewritePrefix p) (\<lambda>w. dir_b ''rewrite'' [regex_b (''^'' @ literalRegex path @ ''(.*)$''), lit_b (w @ ''$1''), lit_b ''break'']),
      Inr inner]))" if "sane_nodes L U V Z inner" for t inner
    using that by (intro emit) (simp_all add: plain_name_def emits_Inr)
  show ?thesis using assms(1) Act_proxy emitsD [OF b] emitsD [OF i] emitsD [OF e [of "RULE_CODE_BASE + i" "rule_location r path i"]] emitsD [OF l]
    by (auto simp: rule_nodes_def errE split: if_splits)
next
  case (Act_redirect to status)
  have "emits L U V Z (if_b (routeRuleVar (hro_key r) i) (build (Act_redirect to status)))"
    using assms(2,3) Act_redirect by (intro emit) auto
  then show ?thesis using assms(1) Act_redirect by (auto simp: rule_nodes_def errE dest: emitsD)
next
  case (Act_reject status)
  have "emits L U V Z (if_b (routeRuleVar (hro_key r) i) (build (Act_reject status)))"
    using assms(2,3) Act_reject by (intro emit) auto
  then show ?thesis using assms(1) Act_reject by (auto simp: rule_nodes_def errE dest: emitsD)
qed

end
