(* ===== verification/Render_Closed.thy ===== *)
theory Render_Closed
  imports Render_Sound
begin

text \<open>
  The servers of a listener are sane when its routes are, and the planes declare what their servers
  refer to.
\<close>

section \<open>Routes\<close>

definition route_sane :: "string set \<Rightarrow> string set \<Rightarrow> pool_tables \<Rightarrow> http_route \<Rightarrow> bool" where
  "route_sane U V tables r \<longleftrightarrow> list_all (action_served U V tables) (routeActions r) \<and>
     (\<forall>i < length (list_of_option (hro_sourceRules r)). routeRuleVar (hro_key r) i \<in> V)"

lemma action_served_plain:
  "action_served U V tables (Act_proxy p) \<Longrightarrow> action_served U V tables (Act_proxy (p\<lparr>pa_rewritePrefix := None\<rparr>))"
  by (simp add: action_served_def)

lemma mapE_all:
  assumes "mapE f xs = Inr ys" "\<And>x y. x \<in> set xs \<Longrightarrow> f x = Inr y \<Longrightarrow> P y"
  shows "list_all P ys"
  using assms
proof (induction xs arbitrary: ys)
  case (Cons x xs)
  then obtain z zs where z: "f x = Inr z" "mapE f xs = Inr zs" "ys = z # zs" by (auto simp: errE)
  have "P z" using Cons.prems(2) [of x z] z(1) by simp
  moreover have "list_all P zs"
  proof (rule Cons.IH [OF z(2)])
    fix a y assume "a \<in> set xs" "f a = Inr y"
    then show "P y" using Cons.prems(2) [of a y] by simp
  qed
  ultimately show ?case using z(3) by simp
qed simp

lemma sane_withSourceRules:
  assumes r: "withSourceRules r path body (\<lambda>a. locationBody a tables hs) = Inr (b, n)"
    and s: "route_sane U V tables r" and body: "sane_nodes L U V Z body"
  shows "sane_nodes L U V Z b \<and> sane_nodes L U V Z n"
proof (cases "hro_sourceRules r")
  case None
  then show ?thesis using r body by (simp add: withSourceRules_def)
next
  case (Some rules)
  let ?build = "\<lambda>a. locationBody a tables hs"
  obtain ps rest where ps: "mapE (rule_nodes r path ?build) (enumerate 0 rules) = Inr ps"
    and rest: "(if body \<noteq> [] then Inr body else return_b 503) = Inr rest"
    and b: "b = concat (map fst ps) @ rest" "n = concat (map snd ps)"
    using r Some by (auto simp: withSourceRules_def errE)
  have "sane_nodes L U V Z (fst p) \<and> sane_nodes L U V Z (snd p)"
    if x: "x \<in> set (enumerate 0 rules)" "rule_nodes r path ?build x = Inr p" for x p
  proof -
    obtain i rule where ir: "x = (i, rule)" by fastforce
    then have i: "i < length rules" "rule \<in> set rules" using x(1) by (auto simp: in_set_enumerate_eq)
    have a: "action_served U V tables (ru_action rule)"
      using s i(2) Some by (auto simp: route_sane_def routeActions_def list_of_option_def list_all_iff)
    have "emits L U V Z (?build a)"
      if "a = ru_action rule \<or> (\<exists>p. ru_action rule = Act_proxy p \<and> a = Act_proxy (p\<lparr>pa_rewritePrefix := None\<rparr>))" for a
      using that a action_served_plain by (intro emits_locationBody) auto
    moreover have "routeRuleVar (hro_key r) i \<in> V"
      using s i(1) Some by (simp add: route_sane_def list_of_option_def)
    ultimately show ?thesis using sane_rule_nodes [of r path ?build i rule "fst p" "snd p" V L U Z] x(2) ir by simp
  qed
  then have "list_all (\<lambda>p. sane_nodes L U V Z (fst p) \<and> sane_nodes L U V Z (snd p)) ps" by (rule mapE_all [OF ps])
  moreover have "sane_nodes L U V Z rest"
    using rest body emitsD [OF emits_return] by (auto split: if_splits)
  ultimately show ?thesis by (auto simp: b list_all_iff)
qed

lemma emits_entry_location [emit]:
  assumes "route_sane U V tables (re_route e)"
  shows "emits L U V Z (entry_location l tables e)"
  unfolding entry_location_def Let_def
proof (intro emit)
  fix own bn
  assume own: "locationBody (hro_action (re_route e)) tables (request_headers_of l) = Inr own"
    and bn: "withSourceRules (re_route e) (re_path e) own (\<lambda>action. locationBody action tables (request_headers_of l)) = Inr bn"
  obtain b n where [simp]: "bn = (b, n)" by fastforce
  have "action_served U V tables (hro_action (re_route e))"
    using assms by (simp add: route_sane_def routeActions_def)
  then have "sane_nodes L U V Z own" using emitsD [OF emits_locationBody own] by blast
  then have sn: "sane_nodes L U V Z b" "sane_nodes L U V Z n" using sane_withSourceRules bn assms by auto
  then have "emits L U V Z (location_b (re_path e) (Inr b))" by (intro emit) (simp add: emits_Inr)
  then show "emits L U V Z (case bn of (body, named) \<Rightarrow> if body = [] then none_b
      else bindE (location_b (re_path e) (Inr body)) (\<lambda>ns. Inr (ns @ named)))"
    using sn by (auto simp: emits_Inr dest: emitsD intro!: emit)
qed

lemma entries_of_route: "e \<in> set (entries_of rs) \<Longrightarrow> re_route e \<in> set rs"
  by (auto simp: entries_of_def Let_def)

lemma need_b_Inr: "need_b e x = Inr y \<longleftrightarrow> x = Some y"
  by (cases x) (simp_all add: need_b_def)

lemma ordered_entries_routes:
  assumes "ordered_entries idna host rs = Inr es" "e \<in> set es"
  shows "re_route e \<in> set rs"
proof -
  have "list_all (\<lambda>e. e \<in> set (entries_of rs)) es"
    using assms(1) by (auto simp: ordered_entries_def Let_def list_all_iff split: if_splits
      dest!: mapE_all [where P = "\<lambda>e. e \<in> set (entries_of rs)"] simp: need_b_Inr find_Some_iff)
  then show ?thesis using assms(2) entries_of_route by (auto simp: list_all_iff)
qed

section \<open>Servers\<close>

definition socket_sane :: "string set \<Rightarrow> string set \<Rightarrow> string set \<Rightarrow> pool_tables \<Rightarrow> http_socket \<Rightarrow> bool" where
  "socket_sane U V Z tables s \<longleftrightarrow>
     (l_sourceAllow (hk_listener s) \<noteq> None \<longrightarrow> sourceDenyVar (l_key (hk_listener s)) \<in> V) \<and>
     pred_option (\<lambda>rl. (rl_requestsPerSecond rl \<noteq> None \<longrightarrow> reqZoneName (l_key (hk_listener s)) \<in> Z)
         \<and> (rl_maxConnections rl \<noteq> None \<longrightarrow> connZoneName (l_key (hk_listener s)) \<in> Z))
       (Option.bind (l_http (hk_listener s)) hp_rateLimit) \<and>
     (\<forall>p \<in> set (default_pool_of (Option.bind (l_http (hk_listener s)) hp_defaultAction)).
        p \<in> set (pt_served tables) \<longrightarrow> upstreamName p \<in> U)"

lemma emits_default_of_socket [emit]:
  "socket_sane U V Z tables s \<Longrightarrow> emits L U V Z (defaultActionLocations s tables)"
  by (rule emits_defaultActionLocations) (auto simp: socket_sane_def default_pool_of_def)

lemma emits_host_locations [emit]:
  assumes "socket_sane U V Z tables s" "list_all (route_sane U V tables) rs"
  shows "emits L U V Z (host_locations idna s tables host rs)"
  unfolding host_locations_def
proof (intro emit)
  fix es ls
  assume es: "ordered_entries idna host rs = Inr es" and ls: "mapE (entry_location (hk_listener s) tables) es = Inr ls"
  have "sane_nodes L U V Z y" if "e \<in> set es" "entry_location (hk_listener s) tables e = Inr y" for e y
    using assms(2) ordered_entries_routes [OF es that(1)] emitsD [OF emits_entry_location that(2)] by (auto simp: list_all_iff)
  then have l: "sane_nodes L U V Z (concat ls)"
    using mapE_all [OF ls, of "sane_nodes L U V Z"] by (auto simp: list_all_iff)
  show "emits L U V Z (Inr (concat ls))" using l by (simp add: emits_Inr)
  fix d assume d: "defaultActionLocations s tables = Inr d"
  then have "sane_nodes L U V Z d" using emitsD [OF emits_default_of_socket [OF assms(1)] d] by simp
  then show "emits L U V Z (Inr (concat ls @ d))" using l by (simp add: emits_Inr)
qed

lemma makes_listenArgs:
  assumes "listenArgs l = Inr as"
  shows "list_all plain_value as"
proof (cases "normalizeBind (l_bind l)")
  case (Inr b)
  have "list_all (makes {}) (
      [if ba_wildcard b \<and> ba_family b = V4 then num_b (l_port l)
       else if ba_family b = V6 then lit_b (''['' @ ba_addr b @ '']:'' @ show_nat (l_port l))
       else lit_b (ba_addr b @ '':'' @ show_nat (l_port l))] @
      (if l_protocol l \<noteq> L_udp \<and> l_acceptProxyProtocol l \<noteq> None then [lit_b ''proxy_protocol''] else []) @
      (if l_protocol l = L_https then [lit_b ''ssl''] else []))"
    by simp
  then have "list_all built_value as \<and> list_all (known {}) as"
    using assms Inr by (intro all_b_makes) (simp_all only: listenArgs_def sum.case)
  then show ?thesis by (simp add: plain_value_def list_all_iff)
qed (use assms in \<open>simp add: listenArgs_def\<close>)

lemma emits_listen_Inr:
  assumes "list_all plain_value as" "list_all (makes V) others"
  shows "emits L U V Z (listen_b (Inr as) others)"
proof -
  have "list_all built_value as \<and> list_all (known V) as"
    using assms(1) plain_value_known by (auto simp: list_all_iff)
  then show ?thesis using all_b_makes [OF assms(2)]
    by (auto simp: emits_def listen_b_def errE one_Inr conf_built_Inr directive_def sane_def made_def refers_def split: if_splits)
qed

lemma emits_listen [emit]: "list_all (makes V) others \<Longrightarrow> emits L U V Z (listen_b (listenArgs l) others)"
  using emits_listen_Inr makes_listenArgs [of l] by (cases "listenArgs l") (auto simp: listen_b_def emits_Inl)

lemma emits_host_tls_nodes [emit]:
  "pred_option (\<lambda>t. tc_rejectMismatch t \<longrightarrow> SNI_MISMATCH_VAR \<in> V) tls \<Longrightarrow> emits L U V Z (host_tls_nodes host tls certs)"
  unfolding host_tls_nodes_def by (intro emit) auto

lemma emits_listener_nodes [emit]:
  assumes "socket_sane U V Z tables s" "acme \<longrightarrow> L"
  shows "emits L U V Z (listener_nodes (hk_listener s) acme)"
  unfolding listener_nodes_def by (intro emit) (use assms in \<open>auto simp: socket_sane_def\<close>)

definition tls_sane :: "string set \<Rightarrow> tls_context option \<Rightarrow> bool" where
  "tls_sane V tls \<longleftrightarrow> pred_option (\<lambda>t. tc_rejectMismatch t \<longrightarrow> SNI_MISMATCH_VAR \<in> V) tls"

definition also_built :: "also_on list \<Rightarrow> bool" where
  "also_built as \<longleftrightarrow> list_all (\<lambda>a. list_all plain_value (ao_args a)) as"

lemma makes_server_name: "makes V (server_name_arg p lowered)"
  by (cases p) (simp_all add: server_name_arg_def)

lemma emits_host_server [emit]:
  assumes "socket_sane U V Z tables s" "acme \<longrightarrow> L" "tls_sane V tls" "also_built alsoOn" "sane_nodes L U V Z locations"
  shows "emits L U V Z (host_server s tables tls acme alsoOn host p lowered locations)"
  unfolding host_server_def Let_def
proof (intro emit)
  fix nameArg tlsBody
  assume n: "server_name_arg p lowered = Inr nameArg" and t: "host_tls_nodes host tls (pt_certs tables) = Inr tlsBody"
  show "list_all (makes V) [Inr nameArg]" using makes_server_name [of V p lowered] n by (simp add: makes_def)
  show "emits L U V Z (Inr tlsBody)"
    using emitsD [OF emits_host_tls_nodes t] assms(3) by (simp add: tls_sane_def emits_Inr)
  show "emits L U V Z (listen_b (Inr (ao_args a)) [])" if "a \<in> set (filter (\<lambda>a. host \<notin> set (ao_hosts a)) alsoOn)" for a
    using that assms(4) by (intro emits_listen_Inr) (auto simp: also_built_def list_all_iff)
qed (use assms in \<open>simp_all add: plain_name_def emits_Inr\<close>)

lemma emits_httpServerBlocks [emit]:
  assumes s: "socket_sane U V Z tables s" and a: "acme \<longrightarrow> L" "tls_sane V tls" "also_built alsoOn"
    and rs: "list_all (route_sane U V tables) rs"
  shows "emits L U V Z (httpServerBlocks idna s rs tables tls acme alsoOn)"
  unfolding httpServerBlocks_def Let_def
proof (intro emit)
  fix bs
  let ?by = "routes_by_host rs"
  let ?good = "\<lambda>b. sane_nodes L U V Z (fst b) \<and> list_all (\<lambda>x. sane_nodes L U V Z (snd x)) (snd b)"
  assume bs: "mapE (host_block idna s tables tls acme alsoOn (strict_plan_of idna (hk_listener s) ?by) ?by)
    (host_list (hk_listener s) ?by) = Inr bs"
  have sub: "set (group_at ?by h) \<subseteq> set rs" for h
  proof -
    have "set (group_at (foldl (\<lambda>d (h, r). dset h (group_at d h @ [r]) d) d xs) h) \<subseteq> set (group_at d h) \<union> snd ` set xs" for d xs
    proof (induction xs arbitrary: d)
      case (Cons x xs)
      have "set (group_at (dset (fst x) (group_at d (fst x) @ [snd x]) d) h) \<subseteq> set (group_at d h) \<union> {snd x}"
        by (auto simp: group_at_def list_of_option_def update_conv' split: if_splits option.splits)
      then show ?case using Cons [of "dset (fst x) (group_at d (fst x) @ [snd x]) d"] by (auto simp: case_prod_beta)
    qed simp
    from this [of "[]"] show ?thesis
      by (fastforce simp: routes_by_host_def byKey_def group_at_def list_of_option_def)
  qed
  have "?good b" if hb: "host_block idna s tables tls acme alsoOn (strict_plan_of idna (hk_listener s) ?by) ?by host = Inr b" for host b
  proof -
    have r: "list_all (route_sane U V tables) (group_at ?by host)" using rs sub [of host] by (auto simp: list_all_iff)
    show ?thesis
    proof (cases "parseHostPattern idna host")
      case (Inl e)
      then show ?thesis using hb by (auto simp: host_block_def)
    next
      case (Inr p)
      then obtain ls where ls: "host_locations idna s tables host (group_at ?by host) = Inr ls"
        using hb by (auto simp: host_block_def errE)
      have l: "sane_nodes L U V Z ls" by (rule emitsD [OF emits_host_locations [OF s r] ls])
      have n: "sane_nodes L U V Z node"
        if "host_server s tables tls acme alsoOn host p lw ls = Inr node" for lw node
        by (rule emitsD [OF emits_host_server [OF s a l] that])
      show ?thesis using hb Inr ls n by (auto simp: host_block_def Let_def errE split: if_splits)
    qed
  qed
  then have "list_all ?good bs" using mapE_all [OF bs, of ?good] by blast
  then show "emits L U V Z (Inr (concat (map fst bs) @ concat (map snd (sort_key fst (concat (map snd bs))))))"
    by (auto simp: emits_Inr list_all_iff)
qed

section \<open>Default servers\<close>

lemma emits_synthetic [emit]:
  assumes "acme \<longrightarrow> L"
  shows "emits L U V Z (syntheticDefaultServer l acme)"
  unfolding syntheticDefaultServer_def
proof (intro emits_bind emits_if_then)
  fix listen assume "listen_b (listenArgs l) [lit_b ''default_server''] = Inr listen"
  then have s: "sane_nodes L U V Z listen" by (rule emitsD [OF emits_listen, rotated]) simp
  show "emits L U V Z (block_b ''server'' [] (cat_b [Inr listen, dir_b ''server_name'' [lit_b ''_''], dir_b ''ssl_reject_handshake'' [lit_b ''on'']]))"
    by (intro emit) (use s in \<open>simp_all add: plain_name_def emits_Inr\<close>)
  show "emits L U V Z (block_b ''server'' [] (cat_b [Inr listen, dir_b ''server_name'' [lit_b ''_''], when_b acme acmeChallengeLocation,
       location_b ''/'' (return_b 444)]))"
    by (intro emit) (use s assms in \<open>simp_all add: plain_name_def emits_Inr\<close>)
qed

lemma emits_defaultServer [emit]:
  assumes "socket_sane U V Z tables s" "acme \<longrightarrow> L" "tls_sane V tls"
  shows "emits L U V Z (defaultServerBlock s tables tls acme)"
  unfolding defaultServerBlock_def withHttp2_def
proof (intro emits_bind)
  fix body tlsBody
  assume b: "defaultActionLocations s tables = Inr body"
    and t: "opt_b tls (\<lambda>t. cat_b [bindE (need_b (Unknown_certificate (tb_defaultCertificate (tc_tls t)))
         (pt_certs tables (tb_defaultCertificate (tc_tls t))))
         (\<lambda>cert. tlsNodes cert (tp_minVersion (tc_policy t)) (tp_maxVersion (tc_policy t))), tls_extras t]) = Inr tlsBody"
  have "sane_nodes L U V Z body" using emitsD [OF emits_default_of_socket [OF assms(1)] b] .
  moreover have "sane_nodes L U V Z tlsBody"
    using assms(3) by (intro emitsD [OF _ t] emit) (auto simp: tls_sane_def)
  ultimately show "emits L U V Z (block_b ''server'' [] (cat_b [
       listen_b (listenArgs (hk_listener s)) [lit_b ''default_server''],
       dir_b ''server_name'' [lit_b ''_''], Inr tlsBody, listener_nodes (hk_listener s) acme, Inr body]))"
    by (intro emit) (use assms in \<open>simp_all add: plain_name_def emits_Inr\<close>)
qed

end
