(* ===== verification/Render_Planes.thy ===== *)
theory Render_Planes
  imports Render_Closed
begin

text \<open>
  A plane, the HTTP block or the stream block, declares every upstream, every variable and every zone that its
  nodes refer to, at whatever depth; and the configuration is read back as its tree.
\<close>

section \<open>What nodes declare\<close>

definition upstream_declared :: "conf_node \<Rightarrow> string option" where
  "upstream_declared n = (case n of
       Block name [Literal t] _ \<Rightarrow> if name = ''upstream'' then Some t else None
     | _ \<Rightarrow> None)"

definition var_declared :: "conf_node \<Rightarrow> string option" where
  "var_declared n = (case n of
       Block name args _ \<Rightarrow>
         if (name = ''map'' \<or> name = ''geo'') \<and> args \<noteq> [] then
           (case last args of Variable v \<Rightarrow> Some v | _ \<Rightarrow> None)
         else None
     | _ \<Rightarrow> None)"

definition zone_declared :: "conf_node \<Rightarrow> string option" where
  "zone_declared n = (case n of
       Directive name [_, Literal t, _] \<Rightarrow>
         if name = ''limit_req_zone'' then Some (takeWhile (\<lambda>c. c \<noteq> CHR '':'') (drop 5 t)) else None
     | Directive name [_, Literal t] \<Rightarrow>
         if name = ''limit_conn_zone'' then Some (takeWhile (\<lambda>c. c \<noteq> CHR '':'') (drop 5 t)) else None
     | _ \<Rightarrow> None)"

definition declared_by :: "(conf_node \<Rightarrow> string option) \<Rightarrow> conf_node list \<Rightarrow> string set" where
  "declared_by f ns = set (List.map_filter f ns)"

text \<open>A plane refers to what it declares itself.\<close>

definition closed_plane :: "conf_node \<Rightarrow> bool" where
  "closed_plane n = (case n of
       Block _ _ cs \<Rightarrow> list_all (everywhere (refers (declared_by upstream_declared cs) (declared_by var_declared cs)
         (declared_by zone_declared cs))) cs
     | _ \<Rightarrow> True)"

lemma declared_byI: "n \<in> set ns \<Longrightarrow> f n = Some t \<Longrightarrow> t \<in> declared_by f ns"
  by (auto simp: declared_by_def List.map_filter_def image_iff intro!: bexI [of _ n])

lemma declared_by_Cons [simp]: "t \<in> declared_by f (n # ns) \<longleftrightarrow> f n = Some t \<or> t \<in> declared_by f ns"
  by (auto simp: declared_by_def List.map_filter_def image_iff split: option.splits)

lemma declared_by_mono: "set ns \<subseteq> set ms \<Longrightarrow> t \<in> declared_by f ns \<Longrightarrow> t \<in> declared_by f ms"
  by (auto simp: declared_by_def List.map_filter_def)

lemma cat_b_member:
  assumes "cat_b xs = Inr ns" "x \<in> set xs"
  shows "\<exists>y. x = Inr y \<and> set y \<subseteq> set ns"
  using assms
proof (induction xs arbitrary: ns)
  case (Cons a xs)
  then obtain y ys where y: "a = Inr y" "cat_b xs = Inr ys" "ns = y @ ys" by (auto simp: cat_b_simps errE)
  show ?case
  proof (cases "x = a")
    case True
    then show ?thesis using y by auto
  next
    case False
    then show ?thesis using Cons.IH [OF y(2)] Cons.prems(2) y(3) by auto
  qed
qed simp

lemma cat_b_map_member:
  assumes "cat_b (map f xs) = Inr ns" "x \<in> set xs"
  shows "\<exists>y. f x = Inr y \<and> set y \<subseteq> set ns"
  using cat_b_member [OF assms(1), of "f x"] assms(2) by simp

section \<open>What the parts declare\<close>

lemma upstream_nodes_declared:
  assumes "upstream_nodes m with_lua plane p = Inr ns"
  shows "upstreamName p \<in> declared_by upstream_declared ns"
proof -
  obtain q where q: "pool_table m p = Some q" using assms by (auto simp: upstream_nodes_def need_b_def errE split: option.splits)
  then have k: "po_key q = p" by (auto simp: pool_table_def js_map_def dest!: map_of_SomeD)
  have "\<exists>ch. ns = [Block ''upstream'' [Literal (upstreamName p)] ch]"
    using assms q k by (auto simp: upstream_nodes_def need_b_def membershipUpstream_def upstreamBlock_def Let_def
        block_b_Inr lit_b_Inr errE split: if_splits)
  then show ?thesis by (auto simp: upstream_declared_def)
qed

lemma sourceAllowGeo_declared:
  assumes "sourceAllowGeo l = Inr ns" "l_sourceAllow l \<noteq> None"
  shows "sourceDenyVar (l_key l) \<in> declared_by var_declared ns"
  using assms by (auto simp: sourceAllowGeo_def opt_b_def block_b_Inr var_b_Inr errE var_declared_def)

lemma routeSourceGeos_declared:
  assumes "routeSourceGeos r = Inr ns" "i < length (list_of_option (hro_sourceRules r))"
  shows "routeRuleVar (hro_key r) i \<in> declared_by var_declared ns"
proof -
  let ?rules = "list_of_option (hro_sourceRules r)"
  let ?f = "\<lambda>(i, rule). block_b ''geo''
       ((if ru_address rule = Some Connection then [var_b ''realip_remote_addr''] else []) @
        [var_b (routeRuleVar (hro_key r) i)])
       (geo_entries ''0'' ''1'' (ru_from rule))"
  have "(i, ?rules ! i) \<in> set (enumerate 0 ?rules)" using assms(2) by (simp add: in_set_enumerate_eq)
  then obtain y where y: "?f (i, ?rules ! i) = Inr y" "set y \<subseteq> set ns"
    using cat_b_map_member [of ?f] assms(1) unfolding routeSourceGeos_def by blast
  have "routeRuleVar (hro_key r) i \<in> declared_by var_declared y"
    using y(1) by (auto simp: block_b_Inr var_b_Inr errE var_declared_def split: if_splits)
  then show ?thesis using declared_by_mono [OF y(2)] by blast
qed

lemma zone_text:
  assumes "list_all is_word z"
  shows "takeWhile (\<lambda>c. c \<noteq> CHR '':'') (z @ CHR '':'' # t) = z"
proof -
  have "CHR '':'' \<notin> set z" using assms by (auto simp: list_all_iff is_word_def char_class_defs)
  then show ?thesis by (auto simp: takeWhile_append)
qed

lemma zone_names_word: "list_all is_word (reqZoneName k)" "list_all is_word (connZoneName k)"
  by (simp_all add: reqZoneName_def connZoneName_def ident_word) (simp_all add: is_word_def char_class_defs)

lemma rateLimitZoneNodes_declared:
  assumes "rateLimitZoneNodes k (Some rl) = Inr ns"
  shows "rl_requestsPerSecond rl \<noteq> None \<Longrightarrow> reqZoneName k \<in> declared_by zone_declared ns"
    and "rl_maxConnections rl \<noteq> None \<Longrightarrow> connZoneName k \<in> declared_by zone_declared ns"
proof -
  obtain a b where p: "opt_b (rl_requestsPerSecond rl) (\<lambda>n. dir_b ''limit_req_zone''
       [var_b ''binary_remote_addr'', lit_b (''zone='' @ reqZoneName k @ '':'' @ zoneSize (rl_zoneKb rl)),
        lit_b (''rate='' @ show_nat n @ ''r/s'')]) = Inr a"
     "opt_b (rl_maxConnections rl) (\<lambda>_. dir_b ''limit_conn_zone''
       [var_b ''binary_remote_addr'', lit_b (''zone='' @ connZoneName k @ '':'' @ zoneSize (rl_zoneKb rl))]) = Inr b"
    and ns: "ns = a @ b"
    using assms by (auto simp: rateLimitZoneNodes_def opt_b_def [of "Some _"] cat_b_simps errE)
  show "reqZoneName k \<in> declared_by zone_declared ns" if "rl_requestsPerSecond rl \<noteq> None"
  proof -
    have "reqZoneName k \<in> declared_by zone_declared a"
      using p(1) that zone_text [OF zone_names_word(1)]
      by (auto simp: opt_b_def dir_b_Inr var_b_Inr lit_b_Inr errE zone_declared_def split: option.splits)
    then show ?thesis using declared_by_mono [of a ns] ns by auto
  qed
  show "connZoneName k \<in> declared_by zone_declared ns" if "rl_maxConnections rl \<noteq> None"
  proof -
    have "connZoneName k \<in> declared_by zone_declared b"
      using p(2) that zone_text [OF zone_names_word(2)]
      by (auto simp: opt_b_def dir_b_Inr var_b_Inr lit_b_Inr errE zone_declared_def split: option.splits)
    then show ?thesis using declared_by_mono [of b ns] ns by auto
  qed
qed

lemma sniMismatchMap_declared:
  "sniMismatchMap = Inr ns \<Longrightarrow> SNI_MISMATCH_VAR \<in> declared_by var_declared ns"
  by (auto simp: sniMismatchMap_def block_b_Inr var_b_Inr lit_b_Inr errE var_declared_def)

section \<open>The HTTP plane\<close>

text \<open>Where the model rewrites a path, it rewrites to a path.\<close>

definition rewrites_paths :: "model \<Rightarrow> bool" where
  "rewrites_paths m \<longleftrightarrow> list_all (\<lambda>r. list_all (\<lambda>a. case a of
       Act_proxy p \<Rightarrow> pred_option (\<lambda>w. w \<noteq> [] \<and> hd w = CHR ''/'') (pa_rewritePrefix p) | _ \<Rightarrow> True) (routeActions r)) (m_httpRoutes m)"

lemma rewrites_paths_ok: "ok_model url_protocol m \<Longrightarrow> rewrites_paths m"
proof -
  assume ok: "ok_model url_protocol m"
  have a: "case a of Act_proxy p \<Rightarrow> pred_option (\<lambda>w. w \<noteq> [] \<and> hd w = CHR ''/'') (pa_rewritePrefix p) | _ \<Rightarrow> True"
    if "ok_http_action a" for a
    using that by (cases a; cases "rewrite_of a") (auto simp: rewrite_prefix_ok_def rewrite_of_def split: list.splits)
  have "ok_http_action x" if "r \<in> set (m_httpRoutes m)" "x \<in> set (routeActions r)" for r x
  proof -
    have "ok_http_route r" using ok that(1) by (auto simp: ok_model_def list_all_iff)
    then show ?thesis using that(2)
      by (cases "hro_sourceRules r") (auto simp: ok_http_route_def routeActions_def ok_source_rules_def ok_source_rule_def
          list_of_option_def list_all_iff)
  qed
  then show ?thesis using a by (auto simp: rewrites_paths_def list_all_iff)
qed

lemma routeActions_expand: "routeActions (expand_route sets r) = routeActions r"
  by (cases "hro_sourceRules r") (simp_all add: expand_route_def routeActions_def list_of_option_def comp_def)

lemma rewrites_paths_expand: "rewrites_paths m \<Longrightarrow> rewrites_paths (expandAddressSets m)"
  by (auto simp: rewrites_paths_def expandAddressSets_def Let_def list_all_iff routeActions_expand)

lemma group_routes: "r \<in> set (group_at (routesByListener m) k) \<longleftrightarrow> r \<in> set (m_httpRoutes m) \<and> hro_listener r = k"
  by (auto simp: routesByListener_def group_at_grouped)

lemma map_filter_member: "x \<in> set xs \<Longrightarrow> f x = Some y \<Longrightarrow> y \<in> set (List.map_filter f xs)"
  by (auto simp: List.map_filter_def image_iff intro!: bexI [of _ x])

lemma http_poolsI:
  assumes "s \<in> set (http_sockets m)" "p \<in> set (poolsWithBackends m)"
    and "p \<in> set (default_pool_of (Option.bind (l_http (hk_listener s)) hp_defaultAction)) \<or>
      (\<exists>r a. r \<in> set (group_at (routesByListener m) (l_key (hk_listener s))) \<and> Act_proxy a \<in> set (routeActions r) \<and> pa_pool a = p)"
  shows "p \<in> set (http_pools m)"
proof -
  have "p \<in> fst ` set (socket_actions m (hk_listener s))"
    if "r \<in> set (group_at (routesByListener m) (l_key (hk_listener s)))" "Act_proxy a \<in> set (routeActions r)" "pa_pool a = p" for r a
  proof -
    have "Act_proxy a \<in> set (concat (map routeActions (group_at (routesByListener m) (l_key (hk_listener s)))))"
      using that by auto
    then have "(p, pa_websocket a) \<in> set (socket_actions m (hk_listener s))"
      using map_filter_member [of "Act_proxy a" _ proxied] that(3) assms(2) by (simp add: socket_actions_def proxied_def)
    then show ?thesis by force
  qed
  then have "p \<in> set (default_pool_of (Option.bind (l_http (hk_listener s)) hp_defaultAction)) \<or>
      p \<in> fst ` set (socket_actions m (hk_listener s))"
    using assms(3) by blast
  then show ?thesis using assms(1,2) by (auto simp: http_pools_def Let_def)
qed

lemma anyWebsocketI:
  assumes "s \<in> set (http_sockets m)" "pa_pool a \<in> set (poolsWithBackends m)"
    and "r \<in> set (group_at (routesByListener m) (l_key (hk_listener s)))" "Act_proxy a \<in> set (routeActions r)" "pa_websocket a"
  shows "anyWebsocket m"
proof -
  have "Act_proxy a \<in> set (concat (map routeActions (group_at (routesByListener m) (l_key (hk_listener s)))))"
    using assms(3,4) by auto
  then have "(pa_pool a, True) \<in> set (socket_actions m (hk_listener s))"
    using map_filter_member [of "Act_proxy a" _ proxied] assms(2,5) by (simp add: socket_actions_def proxied_def)
  then show ?thesis using assms(1) by (force simp: anyWebsocket_def list_ex_iff)
qed

text \<open>The map of \<^verbatim>\<open>$connection_upgrade\<close>.\<close>

abbreviation upgrade_map :: "conf_node list built" where
  "upgrade_map \<equiv> block_b ''map'' [var_b ''http_upgrade'', var_b ''connection_upgrade''] (cat_b [
     entry_b (lit_b ''default'') (lit_b ''upgrade''), entry_b (lit_b '''') (lit_b ''close'')])"

lemma upgrade_map_declared: "upgrade_map = Inr ns \<Longrightarrow> ''connection_upgrade'' \<in> declared_by var_declared ns"
  by (auto simp: block_b_Inr var_b_Inr errE var_declared_def)

lemma http_children_parts:
  assumes "http_children idna m caps = Inr cs"
  shows "s \<in> set (http_sockets m) \<Longrightarrow>
      \<exists>y. rateLimitZoneNodes (l_key (hk_listener s)) (Option.bind (l_http (hk_listener s)) hp_rateLimit) = Inr y \<and> set y \<subseteq> set cs"
    and "s \<in> set (http_sockets m) \<Longrightarrow> \<exists>y. sourceAllowGeo (hk_listener s) = Inr y \<and> set y \<subseteq> set cs"
    and "s \<in> set (http_sockets m) \<Longrightarrow> r \<in> set (group_at (routesByListener m) (l_key (hk_listener s))) \<Longrightarrow>
      \<exists>y. routeSourceGeos r = Inr y \<and> set y \<subseteq> set cs"
    and "p \<in> set (http_pools m) \<Longrightarrow>
      \<exists>y. upstream_nodes m (rc_httpLua caps = Some True) Http_plane p = Inr y \<and> set y \<subseteq> set cs"
    and "s \<in> set (http_sockets m) \<Longrightarrow> l_protocol (hk_listener s) = L_https \<Longrightarrow>
      map_option (rejects_mismatch m) (l_tls (hk_listener s)) = Some True \<Longrightarrow> \<exists>y. sniMismatchMap = Inr y \<and> set y \<subseteq> set cs"
    and "anyWebsocket m \<Longrightarrow> \<exists>y. upgrade_map = Inr y \<and> set y \<subseteq> set cs"
proof -
  obtain a lu ws us sn sv where parts: "http_prelude m = Inr a" "cat_b (map (upstream_nodes m (rc_httpLua caps = Some True) Http_plane) (sorted_set (http_pools m))) = Inr us"
    "when_b (list_ex (\<lambda>s. l_protocol (hk_listener s) = L_https \<and>
           map_option (rejects_mismatch m) (l_tls (hk_listener s)) = Some True) (http_sockets m)) sniMismatchMap = Inr sn"
    "when_b (anyWebsocket m) upgrade_map = Inr ws"
    and cs: "cs = (lu @ a) @ ws @ us @ sn @ sv"
    using assms by (auto simp: http_children_def cat_b_simps errE)
  obtain z g rg i where pre: "cat_b (map (\<lambda>s. rateLimitZoneNodes (l_key (hk_listener s)) (Option.bind (l_http (hk_listener s)) hp_rateLimit)) (http_sockets m)) = Inr z"
    "cat_b (map (\<lambda>s. sourceAllowGeo (hk_listener s)) (http_sockets m)) = Inr g"
    "cat_b (map (\<lambda>s. cat_b (map routeSourceGeos (group_at (routesByListener m) (l_key (hk_listener s))))) (http_sockets m)) = Inr rg"
    and a: "a = z @ g @ rg @ i"
    using parts(1) by (auto simp: http_prelude_def cat_b_simps errE)
  show "\<exists>y. rateLimitZoneNodes (l_key (hk_listener s)) (Option.bind (l_http (hk_listener s)) hp_rateLimit) = Inr y \<and> set y \<subseteq> set cs"
    if "s \<in> set (http_sockets m)"
    using cat_b_map_member [OF pre(1) that] cs a by auto
  show "\<exists>y. sourceAllowGeo (hk_listener s) = Inr y \<and> set y \<subseteq> set cs" if "s \<in> set (http_sockets m)"
    using cat_b_map_member [OF pre(2) that] cs a by auto
  show "\<exists>y. routeSourceGeos r = Inr y \<and> set y \<subseteq> set cs"
    if s: "s \<in> set (http_sockets m)" and r: "r \<in> set (group_at (routesByListener m) (l_key (hk_listener s)))"
  proof -
    obtain y where y: "cat_b (map routeSourceGeos (group_at (routesByListener m) (l_key (hk_listener s)))) = Inr y" "set y \<subseteq> set rg"
      using cat_b_map_member [OF pre(3) s] by blast
    show ?thesis using cat_b_map_member [OF y(1) r] y(2) cs a by auto
  qed
  show "\<exists>y. upstream_nodes m (rc_httpLua caps = Some True) Http_plane p = Inr y \<and> set y \<subseteq> set cs" if "p \<in> set (http_pools m)"
    using cat_b_map_member [OF parts(2), of p] that cs by (auto simp: sorted_set_def)
  show "\<exists>y. sniMismatchMap = Inr y \<and> set y \<subseteq> set cs"
    if "s \<in> set (http_sockets m)" "l_protocol (hk_listener s) = L_https"
      "map_option (rejects_mismatch m) (l_tls (hk_listener s)) = Some True"
  proof -
    have "list_ex (\<lambda>s. l_protocol (hk_listener s) = L_https \<and>
           map_option (rejects_mismatch m) (l_tls (hk_listener s)) = Some True) (http_sockets m)"
      using that by (auto simp: list_ex_iff)
    then show ?thesis using parts(3) cs by (auto simp: when_b_def)
  qed
  show "\<exists>y. upgrade_map = Inr y \<and> set y \<subseteq> set cs" if "anyWebsocket m"
    using that parts(4) cs by (intro exI [of _ ws]) (simp only: when_b_def if_True set_append, blast)
qed

lemma http_plane_declares:
  assumes "http_children idna m caps = Inr cs" "s \<in> set (http_sockets m)" "rewrites_paths m"
  defines "U \<equiv> declared_by upstream_declared cs" and "V \<equiv> declared_by var_declared cs" and "Z \<equiv> declared_by zone_declared cs"
  shows "socket_sane U V Z (tables_of m) s"
    and "list_all (route_sane U V (tables_of m)) (group_at (routesByListener m) (l_key (hk_listener s)))"
    and "tls_context_of m caps (hk_listener s) = Inr tls \<Longrightarrow> tls_sane V tls"
proof -
  note parts = http_children_parts [OF assms(1)]
  have U: "upstreamName p \<in> U" if p: "p \<in> set (http_pools m)" for p
  proof -
    obtain y where "upstream_nodes m (rc_httpLua caps = Some True) Http_plane p = Inr y" "set y \<subseteq> set cs"
      using parts(4) [OF p] by blast
    then show ?thesis unfolding U_def using upstream_nodes_declared declared_by_mono by blast
  qed
  have V: "sourceDenyVar (l_key (hk_listener s)) \<in> V" if al: "l_sourceAllow (hk_listener s) \<noteq> None"
  proof -
    obtain y where "sourceAllowGeo (hk_listener s) = Inr y" "set y \<subseteq> set cs" using parts(2) [OF assms(2)] by blast
    then show ?thesis unfolding V_def using sourceAllowGeo_declared [OF _ al] declared_by_mono by blast
  qed
  have Z: "(rl_requestsPerSecond rl \<noteq> None \<longrightarrow> reqZoneName (l_key (hk_listener s)) \<in> Z)
      \<and> (rl_maxConnections rl \<noteq> None \<longrightarrow> connZoneName (l_key (hk_listener s)) \<in> Z)"
    if rl: "Option.bind (l_http (hk_listener s)) hp_rateLimit = Some rl" for rl
  proof -
    obtain y where "rateLimitZoneNodes (l_key (hk_listener s)) (Some rl) = Inr y" "set y \<subseteq> set cs"
      using parts(1) [OF assms(2)] rl by auto
    then show ?thesis unfolding Z_def using rateLimitZoneNodes_declared declared_by_mono by blast
  qed
  show "socket_sane U V Z (tables_of m) s"
    unfolding socket_sane_def
  proof (intro conjI impI ballI)
    show "sourceDenyVar (l_key (hk_listener s)) \<in> V" if "l_sourceAllow (hk_listener s) \<noteq> None"
      using V [OF that] .
    show "pred_option (\<lambda>rl. (rl_requestsPerSecond rl \<noteq> None \<longrightarrow> reqZoneName (l_key (hk_listener s)) \<in> Z)
         \<and> (rl_maxConnections rl \<noteq> None \<longrightarrow> connZoneName (l_key (hk_listener s)) \<in> Z))
       (Option.bind (l_http (hk_listener s)) hp_rateLimit)"
      using Z by (cases "Option.bind (l_http (hk_listener s)) hp_rateLimit") auto
    fix p
    assume "p \<in> set (default_pool_of (Option.bind (l_http (hk_listener s)) hp_defaultAction))" "p \<in> set (pt_served (tables_of m))"
    then show "upstreamName p \<in> U" using http_poolsI [OF assms(2)] by (intro U) (auto simp: tables_of_def)
  qed
  have "route_sane U V (tables_of m) r" if r: "r \<in> set (group_at (routesByListener m) (l_key (hk_listener s)))" for r
    unfolding route_sane_def
  proof (intro conjI allI impI)
    have "action_served U V (tables_of m) a" if a: "a \<in> set (routeActions r)" for a
    proof (cases a)
      case (Act_proxy p)
      have "upstreamName (pa_pool p) \<in> U" if "pa_pool p \<in> set (poolsWithBackends m)"
        using http_poolsI [OF assms(2) that] r a Act_proxy by (intro U) blast
      moreover have "pred_option (\<lambda>w. w \<noteq> [] \<and> hd w = CHR ''/'') (pa_rewritePrefix p)"
        using assms(3) r a Act_proxy by (fastforce simp: rewrites_paths_def list_all_iff group_routes)
      moreover have "''connection_upgrade'' \<in> V" if "pa_pool p \<in> set (poolsWithBackends m)" "pa_websocket p"
      proof -
        have "anyWebsocket m" using anyWebsocketI [OF assms(2) that(1) r] a Act_proxy that(2) by blast
        then obtain y where "upgrade_map = Inr y" "set y \<subseteq> set cs" using parts(6) by blast
        then show ?thesis unfolding V_def using upgrade_map_declared declared_by_mono by blast
      qed
      ultimately show ?thesis
        using Act_proxy by (auto simp: action_served_def tables_of_def split: option.splits)
    qed (simp_all add: action_served_def)
    then show "list_all (action_served U V (tables_of m)) (routeActions r)" by (simp add: list_all_iff)
    fix i assume i: "i < length (list_of_option (hro_sourceRules r))"
    obtain y where "routeSourceGeos r = Inr y" "set y \<subseteq> set cs" using parts(3) [OF assms(2) r] by blast
    then show "routeRuleVar (hro_key r) i \<in> V"
      unfolding V_def using routeSourceGeos_declared [OF _ i] declared_by_mono by blast
  qed
  then show "list_all (route_sane U V (tables_of m)) (group_at (routesByListener m) (l_key (hk_listener s)))"
    by (simp add: list_all_iff)
  show "tls_sane V tls" if t: "tls_context_of m caps (hk_listener s) = Inr tls"
  proof (cases tls)
    case (Some x)
    then obtain b where b: "l_protocol (hk_listener s) = L_https" "l_tls (hk_listener s) = Some b"
      "tc_rejectMismatch x = rejects_mismatch m b"
      using t by (auto simp: tls_context_of_def need_b_def errE split: if_splits option.splits)
    have "SNI_MISMATCH_VAR \<in> V" if rj: "tc_rejectMismatch x"
    proof -
      obtain y where "sniMismatchMap = Inr y" "set y \<subseteq> set cs" using parts(5) [OF assms(2)] b rj by auto
      then show ?thesis unfolding V_def using sniMismatchMap_declared declared_by_mono by blast
    qed
    then show ?thesis using Some by (simp add: tls_sane_def)
  qed (simp add: tls_sane_def)
qed

section \<open>Servers of sockets\<close>

lemma dset_member: "x \<in> set (dset k v d) \<Longrightarrow> x = (k, v) \<or> x \<in> set d"
  by (induction d) (auto split: if_splits)

lemma also_on_loop_built:
  assumes "also_on_loop l me routes ss st = Inr st'" "list_all (\<lambda>(k, a). list_all plain_value (ao_args a)) (fst st)"
  shows "list_all (\<lambda>(k, a). list_all plain_value (ao_args a)) (fst st')"
  using assms
proof (induction ss arbitrary: st)
  case (Cons s ss)
  let ?ok = "\<lambda>d. list_all (\<lambda>(k, a). list_all plain_value (ao_args a)) d"
  obtain found skipped where st: "st = (found, skipped)" by fastforce
  obtain t where t: "also_on_step l me routes s st = Inr t" "also_on_loop l me routes ss t = Inr st'"
    using Cons.prems(1) by (auto simp: errE)
  have at: "list_all plain_value (ao_args a)" if "dget found k = Some a" for k a
    using Cons.prems(2) map_of_SomeD [OF that] by (auto simp: st list_all_iff)
  have new: "?ok (dset k a found)" if "list_all plain_value (ao_args a)" for k a
    using Cons.prems(2) that by (auto simp: st list_all_iff dest!: dset_member)
  have "?ok (fst t)"
    using t(1) Cons.prems(2)
    by (auto simp: also_on_step_def st errE split: if_splits sum.splits option.splits
        intro!: new dest!: at makes_listenArgs)
  then show ?case using Cons.IH [OF t(2)] by blast
qed simp

lemma alsoOnSockets_built:
  assumes "alsoOnSockets l everyone routes = Inr (found, skipped)"
  shows "also_built found"
proof (cases "normalizeBind (l_bind l)")
  case (Inl e)
  then show ?thesis using assms by (simp add: alsoOnSockets_def also_built_def)
next
  case (Inr me)
  show ?thesis
  proof (cases "ba_wildcard me")
    case False
    then show ?thesis using assms Inr by (simp add: alsoOnSockets_def also_built_def)
  next
    case True
    then obtain d sk where d: "also_on_loop l me routes everyone ([], []) = Inr (d, sk)"
      "found = map snd (sort_key fst (filter (\<lambda>(a, _). a \<notin> set sk) d))"
      using assms Inr by (auto simp: alsoOnSockets_def errE)
    show ?thesis using also_on_loop_built [OF d(1)] by (fastforce simp: d(2) also_built_def list_all_iff)
  qed
qed

lemma emits_socket_servers:
  assumes "socket_sane U V Z (tables_of m) s" "list_all (route_sane U V (tables_of m)) (group_at (routesByListener m) (l_key (hk_listener s)))"
    and "\<And>tls. tls_context_of m caps (hk_listener s) = Inr tls \<Longrightarrow> tls_sane V tls" "rc_httpLua caps = Some True \<longrightarrow> L"
  shows "emits L U V Z (socket_servers idna m caps needs s)"
  unfolding socket_servers_def Let_def
proof (intro emits_bind emits_cat_Cons emits_cat_nil)
  fix tls assume t: "tls_context_of m caps (hk_listener s) = Inr tls"
  note tls = assms(3) [OF t]
  show "emits L U V Z (if l_hosts (hk_listener s) = None then defaultServerBlock s (tables_of m) tls (rc_httpLua caps = Some True)
      else when_b needs (syntheticDefaultServer (hk_listener s) (rc_httpLua caps = Some True)))"
    using assms(1,4) tls by (intro emits_if_then emits_when emits_defaultServer emits_synthetic)
  fix fs assume a: "alsoOnSockets (hk_listener s) (map hk_listener (http_sockets m)) (routesByListener m) = Inr fs"
  then show "emits L U V Z (case fs of (found, _) \<Rightarrow>
       httpServerBlocks idna s (group_at (routesByListener m) (l_key (hk_listener s))) (tables_of m) tls (rc_httpLua caps = Some True) found)"
    using assms(1,2,4) tls alsoOnSockets_built by (cases fs) (auto intro!: emits_httpServerBlocks)
qed

lemma emits_all_servers:
  assumes "\<And>s needs. s \<in> set ss \<Longrightarrow> emits L U V Z (socket_servers idna m caps needs s)"
  shows "emits L U V Z (all_servers idna m caps ready ss)"
  using assms
proof (induction ss arbitrary: ready)
  case Nil
  then show ?case by (simp add: emits_none)
next
  case (Cons s ss)
  show ?case unfolding all_servers.simps Let_def
    by (intro emits_cat_Cons emits_cat_nil Cons.IH Cons.prems) simp_all
qed

lemma emits_dict_b [emit]: "emits L U V Z (dict_b name n)"
  unfolding dict_b_def by (intro emit) (simp_all add: plain_name_def)

lemma emits_upstream_nodes [emit]: "with_lua \<longrightarrow> L \<Longrightarrow> emits L U V Z (upstream_nodes m with_lua plane p)"
  unfolding upstream_nodes_def by (intro emit) (simp_all add: engine_var_def)

lemma emits_prelude: "emits L U V Z (http_prelude m)"
  unfolding http_prelude_def by (intro emit) (simp_all add: plain_name_def)

lemma emits_http_lua: "L \<Longrightarrow> emits L U V Z (http_lua_nodes m)"
  unfolding http_lua_nodes_def membership_dict_b_def by (intro emit)

lemma emits_upgrade_map:
  "emits L U V Z upgrade_map"
  by (rule emits_map) (auto intro!: emit simp: names_upstreams_def var_b_Inr errE engine_var_def)

lemma emits_sniMismatchMap: "emits L U V Z sniMismatchMap"
  unfolding sniMismatchMap_def
  by (rule emits_map) (auto intro!: emit simp: names_upstreams_def var_b_Inr lit_b_Inr errE)

lemma http_children_closed:
  assumes h: "http_children idna m caps = Inr cs" and "rewrites_paths m"
  shows "sane_nodes (rc_httpLua caps = Some True) (declared_by upstream_declared cs) (declared_by var_declared cs)
    (declared_by zone_declared cs) cs"
proof -
  let ?U = "declared_by upstream_declared cs" and ?V = "declared_by var_declared cs" and ?Z = "declared_by zone_declared cs"
  let ?L = "rc_httpLua caps = Some True"
  note d = http_plane_declares [OF h _ assms(2)]
  have "emits ?L ?U ?V ?Z (all_servers idna m caps (hostless_sockets (http_sockets m)) (http_sockets m))"
    by (rule emits_all_servers) (rule emits_socket_servers [OF d(1) d(2) d(3)], simp_all)
  moreover have lua: "emits ?L ?U ?V ?Z (when_b ?L (http_lua_nodes m))" by (intro emits_when emits_http_lua)
  ultimately have "emits ?L ?U ?V ?Z (http_children idna m caps)"
    unfolding http_children_def
    by (intro emits_bind emits_cat_Cons emits_cat_nil emits_when emits_cat_map emits_upgrade_map emits_sniMismatchMap
        emits_upstream_nodes) (auto simp: emits_Inr dest!: emitsD [OF emits_prelude] emitsD [OF lua])
  then show ?thesis using emitsD h by blast
qed

section \<open>The stream plane\<close>

lemma built_literal: "built_value (Literal t) \<longleftrightarrow> \<not> CONTROL t"
  and built_variable: "built_value (Variable t) \<longleftrightarrow> NAME t"
  by (auto simp: built_value_def lit_def variable_def)

lemma makes_sni_match: "makes V (sni_match p)"
  by (cases p) (simp_all add: sni_match_def)

lemma outcomeValue_ok:
  assumes "outcomeValue x served = Inr v" "\<And>p. x = Some (To_pool p) \<Longrightarrow> p \<in> set served \<Longrightarrow> upstreamName p \<in> U"
  shows "map_target_ok U V (Entry k v)" and "built_value v"
  using assms by (auto simp: outcomeValue_def map_target_ok_def lit_b_Inr built_literal split: option.splits default_action.splits if_splits)

lemma entry_b_Inr: "entry_b k v = Inr ns \<longleftrightarrow> (\<exists>k' v'. k = Inr k' \<and> v = Inr v' \<and> ns = [Entry k' v'])"
  by (auto simp: entry_b_def errE entry_def)

text \<open>The entries of a map whose values are upstreams.\<close>

definition targets_ok :: "string set \<Rightarrow> string set \<Rightarrow> conf_node list \<Rightarrow> bool" where
  "targets_ok U V ns \<longleftrightarrow> list_all (\<lambda>n. map_target_ok U V n \<and> (\<exists>k v. n = Entry k v \<and> built_value k \<and> known V k \<and> built_value v)) ns"

lemma targets_sane: "targets_ok U V ns \<Longrightarrow> sane_nodes L U' V Z ns"
proof -
  have k: "map_target_ok U V (Entry k v) \<Longrightarrow> known V v" for k v
    by (auto simp: map_target_ok_def known_def split: conf_value.splits)
  show "targets_ok U V ns \<Longrightarrow> sane_nodes L U' V Z ns"
    using k by (fastforce simp: targets_ok_def list_all_iff sane_def made_def refers_def)
qed

lemma targets_map: "targets_ok U V ns \<Longrightarrow> list_all (map_target_ok U V) ns"
  by (auto simp: targets_ok_def list_all_iff)

lemma targets_entry:
  assumes "entry_b k v = Inr ns" "makes V k" "\<And>k' v'. v = Inr v' \<Longrightarrow> map_target_ok U V (Entry k' v') \<and> built_value v'"
  shows "targets_ok U V ns"
  using assms by (auto simp: entry_b_Inr targets_ok_def makes_def)

lemma targets_cat:
  assumes "cat_b xs = Inr ns" "\<And>x ms. x \<in> set xs \<Longrightarrow> x = Inr ms \<Longrightarrow> targets_ok U V ms"
  shows "targets_ok U V ns"
  using assms
proof (induction xs arbitrary: ns)
  case (Cons x xs)
  then obtain y ys where y: "x = Inr y" "cat_b xs = Inr ys" "ns = y @ ys" by (auto simp: cat_b_simps errE)
  have "targets_ok U V y" using Cons.prems(2) [of x y] y(1) by simp
  moreover have "targets_ok U V ys"
  proof (rule Cons.IH [OF y(2)])
    fix a ms assume "a \<in> set xs" "a = Inr ms"
    then show "targets_ok U V ms" using Cons.prems(2) [of a ms] by simp
  qed
  ultimately show ?case using y(3) by (simp add: targets_ok_def)
qed (simp add: cat_b_simps targets_ok_def)

lemma owner_route: "js_map (map (\<lambda>(i, r). (ri_key i, r)) (sni_inputs routes)) k = Some r \<Longrightarrow> r \<in> set routes"
  by (auto simp: js_map_def sni_inputs_def byKey_def dest!: map_of_SomeD)

lemma sni_entry_ok:
  assumes "sni_entry served owner c = Inr ns"
    and "\<And>r p. owner (cr_key c) = Some r \<Longrightarrow> pr_action r = Pass_proxy p \<Longrightarrow> p \<in> set served \<Longrightarrow> upstreamName p \<in> U"
  shows "targets_ok U V ns"
proof -
  obtain r v where r: "owner (cr_key c) = Some r" "entry_b (sni_match (cr_pattern c)) (Inr v) = Inr ns"
    "(case pr_action r of Pass_proxy p \<Rightarrow> if p \<in> set served then lit_b (upstreamName p) else lit_b '''' | Pass_reject \<Rightarrow> lit_b '''') = Inr v"
    using assms(1) by (auto simp: sni_entry_def need_b_def errE split: option.splits)
  have "map_target_ok U V (Entry k v) \<and> built_value v" for k
    using r(3) assms(2) [OF r(1)] by (auto simp: map_target_ok_def lit_b_Inr built_literal split: passthrough_action.splits if_splits)
  then show ?thesis by (intro targets_entry [OF r(2) makes_sni_match]) auto
qed

lemma emits_target_map:
  assumes "makes V x" "\<And>ns. cs = Inr ns \<Longrightarrow> targets_ok U V ns"
  shows "emits L U V Z (block_b ''map'' [x, var_b d] cs)"
  using assms(2) targets_sane targets_map by (intro emits_map [OF assms(1)]) (fastforce simp: emits_def)+

lemma emits_passthroughNodes:
  assumes "sniVar l \<in> V" "no_sni_tier l \<Longrightarrow> tierVar l \<in> V"
    and "\<And>r p. r \<in> set routes \<Longrightarrow> pr_action r = Pass_proxy p \<Longrightarrow> p \<in> set served \<Longrightarrow> upstreamName p \<in> U"
    and "\<And>p. p \<in> set (default_pool_of (l_onUnmatchedSni l) @ default_pool_of (l_onNoSni l)) \<Longrightarrow> p \<in> set served \<Longrightarrow> upstreamName p \<in> U"
  shows "emits L U V Z (passthroughNodes idna l routes served)"
  unfolding passthroughNodes_def Let_def
proof (intro emits_bind)
  fix entries noSni empty_name unmatched
  assume en: "cat_b (map (sni_entry served (js_map (map (\<lambda>(i, r). (ri_key i, r)) (sni_inputs routes))))
      (cres_order (compileHostRoutes idna (map fst (sni_inputs routes))))) = Inr entries"
    and no: "when_b (no_sni_tier l) (block_b ''map'' [var_b ''ssl_preread_protocol'', var_b (tierVar l)] (cat_b [
        entry_b (lit_b '''') (lit_b ''''),
        entry_b (lit_b ''default'') (outcomeValue (l_onNoSni l) served)])) = Inr noSni"
    and em: "entry_b (lit_b '''') (if no_sni_tier l then var_b (tierVar l) else lit_b '''') = Inr empty_name"
    and un: "entry_b (lit_b ''default'') (outcomeValue (l_onUnmatchedSni l) served) = Inr unmatched"
  have out: "targets_ok U V ns"
    if "entry_b (lit_b t) (outcomeValue x served) = Inr ns" "x = l_onNoSni l \<or> x = l_onUnmatchedSni l" for t x ns
  proof (rule targets_entry [OF that(1)])
    fix k v assume v: "outcomeValue x served = Inr v"
    have "upstreamName p \<in> U" if "x = Some (To_pool p)" "p \<in> set served" for p
      using that \<open>x = l_onNoSni l \<or> x = l_onUnmatchedSni l\<close> by (intro assms(4)) (auto simp: default_pool_of_def)
    then show "map_target_ok U V (Entry k v) \<and> built_value v" using outcomeValue_ok [OF v] by blast
  qed simp
  have "targets_ok U V entries"
  proof (rule targets_cat [OF en])
    fix x ms
    assume "x \<in> set (map (sni_entry served (js_map (map (\<lambda>(i, r). (ri_key i, r)) (sni_inputs routes))))
        (cres_order (compileHostRoutes idna (map fst (sni_inputs routes)))))" "x = Inr ms"
    then obtain c where c: "sni_entry served (js_map (map (\<lambda>(i, r). (ri_key i, r)) (sni_inputs routes))) c = Inr ms"
      by auto
    show "targets_ok U V ms" by (rule sni_entry_ok [OF c]) (use assms(3) owner_route in blast)
  qed
  moreover have "targets_ok U V empty_name"
    by (rule targets_entry [OF em])
      (use assms(2) in \<open>auto simp: map_target_ok_def lit_b_Inr var_b_Inr built_literal built_variable split: if_splits\<close>)
  moreover have "targets_ok U V unmatched" by (rule out [OF un]) simp
  ultimately have t: "targets_ok U V (entries @ empty_name @ unmatched)" by (simp add: targets_ok_def)
  have "emits L U V Z (when_b (no_sni_tier l) (block_b ''map'' [var_b ''ssl_preread_protocol'', var_b (tierVar l)] (cat_b [
        entry_b (lit_b '''') (lit_b ''''),
        entry_b (lit_b ''default'') (outcomeValue (l_onNoSni l) served)])))"
  proof (intro emits_when emits_target_map)
    fix ns
    assume ns: "cat_b [entry_b (lit_b '''') (lit_b ''''), entry_b (lit_b ''default'') (outcomeValue (l_onNoSni l) served)] = Inr ns"
    show "targets_ok U V ns"
    proof (rule targets_cat [OF ns])
      fix x ms assume "x \<in> set [entry_b (lit_b '''') (lit_b ''''), entry_b (lit_b ''default'') (outcomeValue (l_onNoSni l) served)]" "x = Inr ms"
      then consider "entry_b (lit_b '''') (lit_b '''') = Inr ms" | "entry_b (lit_b ''default'') (outcomeValue (l_onNoSni l) served) = Inr ms"
        by auto
      then show "targets_ok U V ms"
      proof cases
        case 1
        then show ?thesis by (rule targets_entry) (auto simp: map_target_ok_def lit_b_Inr built_literal)
      next
        case 2
        then show ?thesis by (rule out) simp
      qed
    qed
  qed (simp add: engine_var_def)
  then have "sane_nodes L U V Z noSni" using emitsD no by blast
  then show "emits L U V Z (cat_b [
        Inr noSni,
        block_b ''map'' [var_b ''ssl_preread_server_name'', var_b (sniVar l)] (Inr (entries @ empty_name @ unmatched)),
        block_b ''server'' [] (cat_b [
          listen_b (listenArgs l) [],
          realipNodes l,
          sourceAllowStream l,
          dir_b ''ssl_preread'' [lit_b ''on''],
          opt_b (l_prereadTimeoutS l) (\<lambda>n. dir_b ''preread_timeout'' [lit_b (show_nat n @ ''s'')]),
          dir_b ''proxy_pass'' [var_b (sniVar l)]])])"
    by (intro emits_cat_Cons emits_cat_nil emits_target_map emits_block emits_opt emits_listen emits_realipNodes
        emits_sourceAllowStream emits_pass_variable emits_dir) (use t assms(1) in \<open>auto simp: emits_Inr plain_name_def engine_var_def\<close>)
qed

lemma emits_server_of: "emits L U V Z x \<Longrightarrow> emits L U V Z (bindE x (\<lambda>children. block_b ''server'' [] (Inr children)))"
  by (intro emits_bind emits_block) (auto simp: emits_Inr dest: emitsD)

lemma emits_streamServerBlock:
  assumes "upstreamName poolKey \<in> U"
  shows "emits L U V Z (streamServerBlock l poolKey p certs)"
proof -
  have "emits L U V Z (dir_b ''proxy_pass'' [lit_b (upstreamName poolKey)])"
    using assms upstream_part_name by (intro emits_pass_literal) simp
  then show ?thesis unfolding streamServerBlock_def Let_def
    by (intro emits_server_of emits_cat_Cons emits_cat_nil) (auto intro!: emit simp: plain_name_def)
qed

lemma passthroughNodes_declared:
  assumes "passthroughNodes idna l routes served = Inr ns"
  shows "sniVar l \<in> declared_by var_declared ns" and "no_sni_tier l \<Longrightarrow> tierVar l \<in> declared_by var_declared ns"
proof -
  obtain entries noSni body srv where no: "when_b (no_sni_tier l) (block_b ''map'' [var_b ''ssl_preread_protocol'', var_b (tierVar l)] (cat_b [
        entry_b (lit_b '''') (lit_b ''''),
        entry_b (lit_b ''default'') (outcomeValue (l_onNoSni l) served)])) = Inr noSni"
    and m: "block_b ''map'' [var_b ''ssl_preread_server_name'', var_b (sniVar l)] (Inr entries) = Inr body"
    and ns: "ns = noSni @ body @ srv"
    using assms by (auto simp: passthroughNodes_def Let_def cat_b_simps errE)
  have "sniVar l \<in> declared_by var_declared body"
    using m by (auto simp: block_b_Inr var_b_Inr errE var_declared_def)
  then show "sniVar l \<in> declared_by var_declared ns" using declared_by_mono [of body ns] ns by auto
  show "tierVar l \<in> declared_by var_declared ns" if "no_sni_tier l"
  proof -
    have "tierVar l \<in> declared_by var_declared noSni"
      using no that by (auto simp: when_b_def block_b_Inr var_b_Inr errE var_declared_def)
    then show ?thesis using declared_by_mono [of noSni ns] ns by auto
  qed
qed

definition stream_nodes :: "(string \<Rightarrow> string option) \<Rightarrow> model \<Rightarrow> listener \<Rightarrow> conf_node list built" where
  "stream_nodes idna m l =
     (if l_protocol l = L_tls_passthrough then
        passthroughNodes idna l (group_at (passthrough_by_listener m) (l_key l)) (poolsWithBackends m)
      else (case l_defaultPool l of
          None \<Rightarrow> none_b
        | Some p \<Rightarrow> when_b (p \<in> set (poolsWithBackends m)) (streamServerBlock l p (pool_table m p) (cert_table m))))"

lemma stream_children_closed:
  assumes h: "stream_children idna m caps = Inr cs"
  shows "sane_nodes (rc_streamLua caps = Some True) (declared_by upstream_declared cs) (declared_by var_declared cs)
    (declared_by zone_declared cs) cs"
proof -
  let ?U = "declared_by upstream_declared cs" and ?V = "declared_by var_declared cs" and ?Z = "declared_by zone_declared cs"
  let ?L = "rc_streamLua caps = Some True"
  obtain lu us ls where ups: "cat_b (map (upstream_nodes m ?L Stream_plane) (sorted_set (stream_pools m))) = Inr us"
    and srv: "cat_b (map (stream_nodes idna m) (stream_listeners m)) = Inr ls" and cs: "cs = lu @ us @ ls"
    using h by (auto simp: stream_children_def stream_nodes_def [abs_def] cat_b_simps errE)
  have U: "upstreamName p \<in> ?U" if p: "p \<in> set (stream_pools m)" for p
  proof -
    obtain y where y: "upstream_nodes m ?L Stream_plane p = Inr y" "set y \<subseteq> set us"
      using cat_b_map_member [OF ups, of p] p by (auto simp: sorted_set_def)
    then have "set y \<subseteq> set cs" using cs by auto
    then show ?thesis using upstream_nodes_declared [OF y(1)] declared_by_mono by blast
  qed
  have pools: "p \<in> set (stream_pools m)"
    if "l \<in> set (stream_listeners m)" "p \<in> set (poolsWithBackends m)"
      "if l_protocol l = L_tls_passthrough then
         p \<in> set (default_pool_of (l_onUnmatchedSni l) @ default_pool_of (l_onNoSni l)) \<or>
         (\<exists>r \<in> set (group_at (passthrough_by_listener m) (l_key l)). pr_action r = Pass_proxy p)
       else l_defaultPool l = Some p" for l p
    using that by (force simp: stream_pools_def split: if_splits)
  have "emits ?L ?U ?V ?Z (stream_nodes idna m l)" if l: "l \<in> set (stream_listeners m)" for l
  proof (cases "l_protocol l = L_tls_passthrough")
    case True
    obtain y where y: "stream_nodes idna m l = Inr y" "set y \<subseteq> set ls" using cat_b_map_member [OF srv l] by blast
    then have p: "passthroughNodes idna l (group_at (passthrough_by_listener m) (l_key l)) (poolsWithBackends m) = Inr y"
      using True by (simp add: stream_nodes_def)
    have s: "set y \<subseteq> set cs" using y(2) cs by auto
    have "emits ?L ?U ?V ?Z (passthroughNodes idna l (group_at (passthrough_by_listener m) (l_key l)) (poolsWithBackends m))"
    proof (rule emits_passthroughNodes)
      show "sniVar l \<in> ?V" using declared_by_mono [OF s] passthroughNodes_declared(1) [OF p] by blast
      show "tierVar l \<in> ?V" if "no_sni_tier l"
        using declared_by_mono [OF s] passthroughNodes_declared(2) [OF p that] by blast
      show "upstreamName q \<in> ?U"
        if "r \<in> set (group_at (passthrough_by_listener m) (l_key l))" "pr_action r = Pass_proxy q" "q \<in> set (poolsWithBackends m)" for r q
        using that True by (intro U pools [OF l]) auto
      show "upstreamName q \<in> ?U"
        if "q \<in> set (default_pool_of (l_onUnmatchedSni l) @ default_pool_of (l_onNoSni l))" "q \<in> set (poolsWithBackends m)" for q
        using that True by (intro U pools [OF l]) auto
    qed
    then show ?thesis using True by (simp add: stream_nodes_def)
  next
    case False
    show ?thesis
    proof (cases "l_defaultPool l")
      case None
      then show ?thesis using False by (simp add: stream_nodes_def emits_none)
    next
      case (Some p)
      have "emits ?L ?U ?V ?Z (when_b (p \<in> set (poolsWithBackends m)) (streamServerBlock l p (pool_table m p) (cert_table m)))"
        using Some False by (intro emits_when emits_streamServerBlock U pools [OF l]) auto
      then show ?thesis using False Some by (simp add: stream_nodes_def)
    qed
  qed
  then have "emits ?L ?U ?V ?Z (stream_children idna m caps)"
    unfolding stream_children_def stream_nodes_def [symmetric, abs_def] membership_dict_b_def
    by (intro emits_cat_Cons emits_cat_nil emits_when emits_cat_map emits_upstream_nodes emits_dict_b emits_in_flight_log emits_dir)
      (simp_all add: plain_name_def)
  then show ?thesis using emitsD h by blast
qed

end
