(* ===== verification/Render_Result.thy ===== *)
theory Render_Result
  imports Render_Planes
begin

text \<open>
  What \<open>render\<close> gives for a model it accepts: the text of a tree whose planes refer only to what
  they declare themselves, and that the reader of the engine's quoting rules reads back from the text.
\<close>

section \<open>The tree\<close>

lemma everywhere_mono: "(\<And>n. q n \<Longrightarrow> q' n) \<Longrightarrow> everywhere q n \<Longrightarrow> everywhere q' n"
  by (induction n) (auto simp: list_all_iff)

lemma everywhere_sane_refers: "everywhere (sane L U V Z) n \<Longrightarrow> everywhere (refers U V Z) n"
  by (rule everywhere_mono) (simp_all add: sane_def)

lemma everywhere_made_built: "everywhere (made False) n \<Longrightarrow> built n"
  by (induction n) (auto simp: made_def list_all_iff)

lemma everywhere_sane_built: "everywhere (sane False U V Z) n \<Longrightarrow> built n"
  by (rule everywhere_made_built, rule everywhere_mono) (simp_all add: sane_def)

lemma render_tree:
  assumes "render url_protocol idna input caps = Inr r"
  obtains tree where "top_nodes idna (expandAddressSets input) caps = Inr tree" "rd_conf r = serialize tree 0"
    "rd_digest r = sha256_hex (rd_conf r)" "validateModel idna input (validation_caps caps) = []"
  using assms by (auto simp: render_def Let_def errE split: sum.splits if_splits)

lemma plane_closed:
  assumes "sane_nodes L (declared_by upstream_declared cs) (declared_by var_declared cs) (declared_by zone_declared cs) cs"
  shows "closed_plane (Block name args cs)"
  using assms everywhere_sane_refers by (fastforce simp: closed_plane_def list_all_iff)

lemma plain_directive:
  assumes "dir_b name args = Inr ns" "list_all (makes {}) args"
  shows "list_all closed_plane ns \<and> list_all built ns"
  using assms by (auto simp: dir_b_Inr closed_plane_def dest: all_b_makes)

lemma top_nodes_planes:
  assumes t: "top_nodes idna m caps = Inr tree" and m: "rewrites_paths m"
  shows "list_all closed_plane tree"
    and "rc_httpLua caps \<noteq> Some True \<Longrightarrow> rc_streamLua caps \<noteq> Some True \<Longrightarrow> list_all built tree"
proof -
  obtain ws ev ht st cs where ws: "opt_b (Option.bind (m_engine m) es_workerShutdownTimeoutS) (\<lambda>n.
       dir_b ''worker_shutdown_timeout'' [lit_b (show_nat n @ ''s'')]) = Inr ws"
    and ev: "block_b ''events'' [] (dir_b ''worker_connections'' [num_b 1024]) = Inr ev"
    and ht: "block_b ''http'' [] (http_children idna m caps) = Inr ht"
    and cs: "when_b (stream_listeners m \<noteq> [] \<or> rc_streamLua caps = Some True) (stream_children idna m caps) = Inr cs"
    and st: "when_b (cs \<noteq> []) (block_b ''stream'' [] (Inr cs)) = Inr st"
    and tree: "tree = ws @ ev @ ht @ st"
    using t by (auto simp: top_nodes_def cat_b_simps errE)
  obtain hs where hs: "http_children idna m caps = Inr hs" "ht = [Block ''http'' [] hs]" "NAME ''http''"
    using ht by (auto simp: block_b_Inr)
  obtain es where es: "dir_b ''worker_connections'' [num_b 1024] = Inr es" "ev = [Block ''events'' [] es]" "NAME ''events''"
    using ev by (auto simp: block_b_Inr)
  have s: "sane_nodes (rc_streamLua caps = Some True) (declared_by upstream_declared cs) (declared_by var_declared cs)
      (declared_by zone_declared cs) cs"
    using cs stream_children_closed by (auto simp: when_b_def none_b_def split: if_splits)
  have ss: "st = [] \<or> st = [Block ''stream'' [] cs] \<and> NAME ''stream''"
    using st by (auto simp: when_b_def none_b_def block_b_Inr split: if_splits)
  have w: "list_all closed_plane ws \<and> list_all built ws"
    using ws plain_directive [of "''worker_shutdown_timeout''"] by (auto simp: opt_b_def none_b_def split: option.splits)
  have e: "sane_nodes L U V Z es" for L U V Z
    by (rule emitsD [OF emits_dir es(1)]) (simp_all add: plain_name_def)
  note h = http_children_closed [OF hs(1) m]
  show "list_all closed_plane tree"
    using w plane_closed [OF h] plane_closed [OF s] plane_closed [OF e] ss by (auto simp: tree hs(2) es(2))
  have eb: "list_all built es" using e everywhere_sane_built by (fastforce simp: list_all_iff)
  show "list_all built tree" if nl: "rc_httpLua caps \<noteq> Some True" "rc_streamLua caps \<noteq> Some True"
  proof -
    have hb: "list_all built hs" using h nl(1) everywhere_sane_built by (fastforce simp: list_all_iff)
    have sb: "list_all built cs" using s nl(2) everywhere_sane_built by (fastforce simp: list_all_iff)
    show ?thesis using w eb hb sb ss hs es by (auto simp: tree)
  qed
qed

section \<open>What is rendered\<close>

text \<open>C12: In whatever is rendered, each plane declares every upstream that requests are passed to; every variable,
  other than the engine's own, that an argument of a directive or block or an entry of a map uses, that a
  condition tests or that chooses an upstream, with the upstreams it may choose; and every zone that
  limits requests or connections. What Lua bodies name and variables within the text of a literal
  (a redirect target, a header value) are not meant here.\<close>

theorem render_closed:
  assumes "ok_model url_protocol input" "render url_protocol idna input caps = Inr r"
  shows "\<exists>tree. top_nodes idna (expandAddressSets input) caps = Inr tree \<and> rd_conf r = serialize tree 0
    \<and> list_all closed_plane tree"
proof -
  obtain tree where t: "top_nodes idna (expandAddressSets input) caps = Inr tree" "rd_conf r = serialize tree 0"
    using render_tree [OF assms(2)] by blast
  have "rewrites_paths (expandAddressSets input)"
    using rewrites_paths_ok [OF assms(1)] by (rule rewrites_paths_expand)
  then show ?thesis using top_nodes_planes(1) [OF t(1)] t by blast
qed

text \<open>C13: Without Lua, the text of a rendered configuration is read by the engine's quoting rules as exactly the
  tree it was made from, whatever names, paths, headers and ciphers the model holds: no value
  ends a directive or opens a block of its own; and its digest is that of the text.\<close>

theorem render_reads_back:
  assumes "ok_model url_protocol input" "render url_protocol idna input caps = Inr r"
    and "rc_httpLua caps \<noteq> Some True" "rc_streamLua caps \<noteq> Some True"
  shows "\<exists>tree. top_nodes idna (expandAddressSets input) caps = Inr tree \<and> rd_digest r = sha256_hex (rd_conf r)
    \<and> read_conf (rd_conf r) = Some (map node_tree tree)"
proof -
  obtain tree where t: "top_nodes idna (expandAddressSets input) caps = Inr tree" "rd_conf r = serialize tree 0"
    "rd_digest r = sha256_hex (rd_conf r)"
    using render_tree [OF assms(2)] by blast
  have "rewrites_paths (expandAddressSets input)"
    using rewrites_paths_ok [OF assms(1)] by (rule rewrites_paths_expand)
  then have "list_all built tree" using top_nodes_planes(2) [OF t(1) _ assms(3,4)] by blast
  then show ?thesis using t conf_reads_back by auto
qed

section \<open>A small model\<close>

definition bare_caps :: render_capabilities where
  "bare_caps = \<lparr>rc_streamRealip = False, rc_httpLua = None, rc_streamLua = None, rc_sslConfCommand = None,
     rc_http2 = None, rc_sslRejectHandshake = None\<rparr>"

definition ssh_listener :: listener where
  "ssh_listener = (blank_listener ''a'' [])\<lparr>l_protocol := L_tcp, l_port := 22, l_hosts := None, l_defaultPool := Some ''p''\<rparr>"

definition ssh_model :: model where
  "ssh_model = sample_model\<lparr>m_listeners := [ssh_listener], m_httpRoutes := [],
     m_pools := [\<lparr>po_key = ''p'', po_protocolClass = C_tcp, po_algorithm = Round_robin, po_hashKey = None,
       po_sendProxyProtocol = None, po_healthCheck = None, po_upstreamTls = None, po_discovery = None\<rparr>],
     m_backends := [\<lparr>be_key = ''b1'', be_pool = ''p'', be_host = ''10.0.0.1'', be_port = 22, be_weight = 1,
       be_softMaxConns = None, be_isBackup = None\<rparr>]\<rparr>"

definition ssh_plane :: "conf_node list" where
  "ssh_plane = [
     Block ''upstream'' [Literal ''pool_p''] [Directive ''server'' [Literal ''10.0.0.1:22'']],
     Block ''server'' [] [Directive ''listen'' [Number (Whole 22)], Directive ''proxy_pass'' [Literal ''pool_p'']]]"

definition ssh_tree :: "conf_node list" where
  "ssh_tree = [
     Block ''events'' [] [Directive ''worker_connections'' [Number (Whole 1024)]],
     Block ''http'' [] [Directive ''include'' [Literal ''admin/*.conf'']],
     Block ''stream'' [] ssh_plane]"

lemma ssh_ok: "ok_model (\<lambda>_. None) ssh_model"
  apply (simp add: ok_model_def ssh_model_def ssh_listener_def sample_model_def ok_listener_def blank_listener_def
      ok_options_def ok_pool_def ok_backend_def ok_address_set_def)
  apply code_simp
  done

lemma ssh_valid: "validateModel no_idna ssh_model (validation_caps bare_caps) = []"
  and ssh_expand: "expandAddressSets ssh_model = ssh_model"
  and ssh_http: "http_sockets ssh_model = []"
  by code_simp+

lemma ssh_stream_parts:
  "stream_pools ssh_model = [''p'']"
  "stream_listeners ssh_model = [ssh_listener]"
  "upstream_nodes ssh_model False Stream_plane ''p'' = Inr [hd ssh_plane]"
  "streamServerBlock ssh_listener ''p'' (pool_table ssh_model ''p'') (cert_table ssh_model) = Inr (tl ssh_plane)"
  "l_protocol ssh_listener = L_tcp" "l_defaultPool ssh_listener = Some ''p''" "''p'' \<in> set (poolsWithBackends ssh_model)"
  by code_simp+

lemma ssh_stream: "stream_children no_idna ssh_model bare_caps = Inr ssh_plane"
  by (simp add: stream_children_def ssh_stream_parts cat_b_def all_b_def when_b_def none_b_def sorted_set_def bare_caps_def
      ssh_plane_def)

lemma ssh_directives:
  "dir_b ''include'' [lit_b ''admin/*.conf''] = Inr [Directive ''include'' [Literal ''admin/*.conf'']]"
  "dir_b ''worker_connections'' [num_b 1024] = Inr [Directive ''worker_connections'' [Number (Whole 1024)]]"
  "NAME ''events''" "NAME ''http''" "NAME ''stream''" "m_engine ssh_model = None"
  by code_simp+

lemma ssh_http_plane: "http_children no_idna ssh_model bare_caps = Inr [Directive ''include'' [Literal ''admin/*.conf'']]"
  by (simp add: http_children_def http_prelude_def ssh_http ssh_directives http_pools_def anyWebsocket_def sorted_set_def
      hostless_sockets_def when_b_def none_b_def bare_caps_def cat_b_def all_b_def)

lemma block_b_named: "NAME name \<Longrightarrow> block_b name [] (Inr cs) = Inr [Block name [] cs]"
  by (simp add: block_b_Inr)

lemma ssh_top: "top_nodes no_idna ssh_model bare_caps = Inr ssh_tree"
  by (simp add: top_nodes_def ssh_directives [simplified] ssh_http_plane ssh_stream ssh_stream_parts block_b_named ssh_tree_def
      ssh_plane_def opt_b_def none_b_def when_b_def cat_b_def all_b_def)

lemma ssh_rendered:
  "render (\<lambda>_. None) no_idna ssh_model bare_caps = Inr \<lparr>rd_conf = serialize ssh_tree 0,
     rd_digest = sha256_hex (serialize ssh_tree 0), rd_planes = planes_of ssh_model\<rparr>"
  by (simp add: render_def model_complete [OF ssh_ok] ssh_valid ssh_expand ssh_top Let_def)

lemma render_closed_witness: "list_all closed_plane ssh_tree"
  using render_closed [OF ssh_ok ssh_rendered] by (auto simp: ssh_expand ssh_top)

lemma render_reads_back_witness: "read_conf (serialize ssh_tree 0) = Some (map node_tree ssh_tree)"
proof -
  have "rc_httpLua bare_caps \<noteq> Some True" "rc_streamLua bare_caps \<noteq> Some True" by (simp_all add: bare_caps_def)
  from render_reads_back [OF ssh_ok ssh_rendered this] show ?thesis by (auto simp: ssh_expand ssh_top)
qed

end
