(* ===== verification/Render_Rules.thy ===== *)
theory Render_Rules
  imports Render_Closed
begin

text \<open>
  The location of a route with source rules. \<open>respond\<close> is what the engine does with the directives of a
  location: \<^verbatim>\<open>return\<close> and \<^verbatim>\<open>if\<close> in their order, \<^verbatim>\<open>error_page\<close> to a named location, and the pass to an
  upstream. A location rendered for a route answers as the first rule that matches says.
\<close>

section \<open>What a location answers\<close>

datatype location_answer = Reply "conf_value list" | Pass_to string "string option"

definition tests :: "(string \<Rightarrow> bool) \<Rightarrow> conf_value list \<Rightarrow> bool" where
  "tests val args = (case args of [Literal t] \<Rightarrow> val (butlast (drop 2 t)) | _ \<Rightarrow> False)"

text \<open>The arguments of the first \<^verbatim>\<open>return\<close> that is reached, where \<open>val\<close> tells which variables are set.\<close>

fun returned :: "(string \<Rightarrow> bool) \<Rightarrow> conf_node list \<Rightarrow> conf_value list option" where
  "returned val [] = None"
| "returned val (Directive name args # ns) = (if name = ''return'' then Some args else returned val ns)"
| "returned val (Block name args cs # ns) =
     (if name = ''if'' \<and> tests val args then
        (case returned val cs of None \<Rightarrow> returned val ns | Some x \<Rightarrow> Some x)
      else returned val ns)"
| "returned val (_ # ns) = returned val ns"

definition error_entry :: "conf_node \<Rightarrow> (conf_value \<times> string) option" where
  "error_entry n = (case n of
       Directive name [code, Literal sign, Literal t] \<Rightarrow> if name = ''error_page'' \<and> sign = ''='' then Some (code, t) else None
     | _ \<Rightarrow> None)"

definition error_target :: "conf_node list \<Rightarrow> conf_value \<Rightarrow> string option" where
  "error_target ns c = map_of (List.map_filter error_entry ns) c"

definition location_entry :: "conf_node \<Rightarrow> (string \<times> conf_node list) option" where
  "location_entry n = (case n of
       Block name [Literal t] cs \<Rightarrow> if name = ''location'' then Some (t, cs) else None
     | _ \<Rightarrow> None)"

definition location_named :: "string \<Rightarrow> conf_node list \<Rightarrow> conf_node list option" where
  "location_named name ns = map_of (List.map_filter location_entry ns) name"

text \<open>Where a location passes to: an upstream, and what replaces the prefix of the path, whether the address
  has a path of its own or the prefix is rewritten.\<close>

definition pass_entry :: "conf_node \<Rightarrow> string option" where
  "pass_entry n = (case n of
       Directive name [Literal t] \<Rightarrow> if name = ''proxy_pass'' then Some t else None | _ \<Rightarrow> None)"

definition rewrite_entry :: "string \<Rightarrow> conf_node \<Rightarrow> string option" where
  "rewrite_entry path n = (case n of
       Directive name [Regex p, Literal t, Literal flag] \<Rightarrow>
         if name = ''rewrite'' \<and> p = ''^'' @ literalRegex path @ ''(.*)$'' \<and> flag = ''break'' then Some (take (length t - 2) t) else None
     | _ \<Rightarrow> None)"

definition first_of :: "'a list \<Rightarrow> 'a option" where
  "first_of xs = (case xs of [] \<Rightarrow> None | x # _ \<Rightarrow> Some x)"

definition passed :: "conf_node list \<Rightarrow> string option" where
  "passed ns = first_of (List.map_filter pass_entry ns)"

definition rewritten :: "string \<Rightarrow> conf_node list \<Rightarrow> string option" where
  "rewritten path ns = first_of (List.map_filter (rewrite_entry path) ns)"

definition scheme_part :: "string \<Rightarrow> string" where
  "scheme_part t = (if prefix ''http://'' t then ''http://'' else if prefix ''https://'' t then ''https://'' else [])"

definition contents :: "string \<Rightarrow> conf_node list \<Rightarrow> location_answer option" where
  "contents path ns = (case passed ns of
       None \<Rightarrow> None
     | Some t \<Rightarrow>
         let u = scheme_part t @ upstream_part t; w = drop (length u) t in
         Some (Pass_to u (if w \<noteq> [] then Some w else rewritten path ns)))"

definition respond :: "(string \<Rightarrow> bool) \<Rightarrow> string \<Rightarrow> conf_node list \<Rightarrow> conf_node list \<Rightarrow> location_answer option" where
  "respond val path ns named =
     (case returned val ns of
        None \<Rightarrow> contents path ns
      | Some [] \<Rightarrow> Some (Reply [])
      | Some (c # cs) \<Rightarrow>
          (case error_target ns c of
             None \<Rightarrow> Some (Reply (c # cs))
           | Some t \<Rightarrow>
               (case location_named t named of
                  None \<Rightarrow> Some (Reply (c # cs))
                | Some inner \<Rightarrow> contents path inner)))"

section \<open>What a route means\<close>

definition meaning :: "pool_tables \<Rightarrow> http_action \<Rightarrow> location_answer" where
  "meaning tables a = (case a of
       Act_proxy p \<Rightarrow>
         if pa_pool p \<in> set (pt_served tables) then
           Pass_to (upstream_url (Option.bind (pt_pools tables (pa_pool p)) po_upstreamTls) (pa_pool p)) (pa_rewritePrefix p)
         else Reply [Number (Whole 503)]
     | Act_redirect to status \<Rightarrow> Reply [Number (Whole (int status)), Literal to]
     | Act_reject status \<Rightarrow> Reply [Number (Whole (int status))])"

definition chosen_action :: "(string \<Rightarrow> bool) \<Rightarrow> http_route \<Rightarrow> http_action" where
  "chosen_action val r =
     (case find (\<lambda>(i, rule). val (routeRuleVar (hro_key r) i)) (enumerate 0 (list_of_option (hro_sourceRules r))) of
        None \<Rightarrow> hro_action r
      | Some (i, rule) \<Rightarrow> ru_action rule)"

section \<open>Nodes without a part in the answer\<close>

definition quiet :: "conf_node \<Rightarrow> bool" where
  "quiet n \<longleftrightarrow> (case n of Directive name _ \<Rightarrow> name \<notin> {''return'', ''error_page'', ''proxy_pass'', ''rewrite''} | _ \<Rightarrow> False)"

definition quiets :: "conf_node list built \<Rightarrow> bool" where
  "quiets x \<longleftrightarrow> (\<forall>ns. x = Inr ns \<longrightarrow> list_all quiet ns)"

lemma quiets_none [simp]: "quiets none_b"
  by (simp add: quiets_def none_b_def)

lemma quiets_cat [simp]: "quiets (cat_b [])" "quiets x \<Longrightarrow> quiets (cat_b xs) \<Longrightarrow> quiets (cat_b (x # xs))"
  by (auto simp: quiets_def cat_b_simps errE)

lemma quiets_map: "(\<And>x. x \<in> set xs \<Longrightarrow> quiets (f x)) \<Longrightarrow> quiets (cat_b (map f xs))"
  by (induction xs) simp_all

lemma quiets_opt: "(\<And>y. x = Some y \<Longrightarrow> quiets (f y)) \<Longrightarrow> quiets (opt_b x f)"
  by (cases x) (simp_all add: opt_b_def)

lemma quiets_when: "quiets x \<Longrightarrow> quiets (when_b b x)"
  by (simp add: when_b_def)

lemma quiets_bind: "(\<And>y. m = Inr y \<Longrightarrow> quiets (f y)) \<Longrightarrow> quiets (bindE m f)"
  by (auto simp: quiets_def errE)

lemma quiets_if: "quiets x \<Longrightarrow> quiets y \<Longrightarrow> quiets (if b then x else y)"
  by simp

lemma quiets_dir: "name \<notin> {''return'', ''error_page'', ''proxy_pass'', ''rewrite''} \<Longrightarrow> quiets (dir_b name args)"
  by (auto simp: quiets_def quiet_def dir_b_Inr)

lemma quiets_headers: "quiets (requestHeaderNodes x)"
  unfolding requestHeaderNodes_def by (intro quiets_opt quiets_map quiets_dir) simp

lemma quiets_tls: "quiets (upstreamTlsNodes t certs)"
proof (cases t)
  case (Some u)
  show ?thesis unfolding upstreamTlsNodes_def Some option.case Let_def
    by (intro quiets_if quiets_none quiets_cat quiets_opt quiets_bind quiets_when quiets_dir) simp_all
qed (simp add: upstreamTlsNodes_def)

lemma quiets_forwarded: "quiets forwarded_nodes"
  unfolding forwarded_nodes_def by (intro quiets_cat quiets_dir) simp_all

lemma quiet_entries:
  assumes "quiet n"
  shows "error_entry n = None" "pass_entry n = None" "rewrite_entry path n = None" "returned val (n # ns) = returned val ns"
  using assms by (cases n; simp add: quiet_def error_entry_def pass_entry_def rewrite_entry_def split: list.split conf_value.split)+

lemma quiet_append:
  assumes "list_all quiet ns"
  shows "returned val (ns @ ms) = returned val ms" "error_target (ns @ ms) c = error_target ms c"
    "passed (ns @ ms) = passed ms" "rewritten path (ns @ ms) = rewritten path ms"
  using assms by (induction ns)
    (simp_all add: error_target_def passed_def rewritten_def List.map_filter_simps quiet_entries)

lemma quiet_silent:
  assumes "list_all quiet ns"
  shows "returned val ns = None" "error_target ns c = None" "passed ns = None" "rewritten path ns = None"
  using quiet_append [OF assms, where ms = "[]"]
  by (simp_all add: error_target_def passed_def rewritten_def List.map_filter_simps first_of_def)

section \<open>The parts of the location\<close>

lemma num_b_Inr: "num_b k = Inr v \<longleftrightarrow> v = Number (Whole (int k))"
  by (auto simp: conf_built_Inr num_def)

lemma locationBody_proxy:
  assumes "locationBody (Act_proxy p) tables hs = Inr ns" "pa_pool p \<in> set (pt_served tables)"
  shows "\<exists>rest. ns = Directive ''proxy_pass''
      [Literal (upstream_url (Option.bind (pt_pools tables (pa_pool p)) po_upstreamTls) (pa_pool p) @
        (case pa_rewritePrefix p of None \<Rightarrow> [] | Some w \<Rightarrow> w))] # rest \<and> list_all quiet rest"
proof -
  let ?u = "upstream_url (Option.bind (pt_pools tables (pa_pool p)) po_upstreamTls) (pa_pool p) @
        (case pa_rewritePrefix p of None \<Rightarrow> [] | Some w \<Rightarrow> w)"
  let ?others = "[upstreamTlsNodes (Option.bind (pt_pools tables (pa_pool p)) po_upstreamTls) (pt_certs tables),
      forwarded_nodes, dir_b ''proxy_http_version'' [lit_b ''1.1''],
      when_b (pa_websocket p) (cat_b [
        dir_b ''proxy_set_header'' [lit_b ''Upgrade'', var_b ''http_upgrade''],
        dir_b ''proxy_set_header'' [lit_b ''Connection'', var_b ''connection_upgrade'']]),
      requestHeaderNodes (inherited_headers (pa_requestHeaders p) hs), requestHeaderNodes (pa_requestHeaders p)]"
  have "cat_b (dir_b ''proxy_pass'' [lit_b ?u] # ?others) = Inr ns"
    using assms by (simp add: locationBody_def Let_def)
  then obtain d rest where d: "dir_b ''proxy_pass'' [lit_b ?u] = Inr d" "cat_b ?others = Inr rest" "ns = d @ rest"
    unfolding cat_b_simps(2) [of "dir_b ''proxy_pass'' [lit_b ?u]"] by (auto simp: errE)
  have "quiets (cat_b ?others)"
    by (intro quiets_cat quiets_tls quiets_forwarded quiets_dir quiets_when quiets_headers) simp_all
  then have "list_all quiet rest" using d(2) by (simp add: quiets_def)
  then show ?thesis using d(1,3) by (auto simp: dir_b_Inr lit_b_Inr errE)
qed

lemma locationBody_return:
  "locationBody (Act_redirect to status) tables hs = Inr ns \<Longrightarrow>
     ns = [Directive ''return'' [Number (Whole (int status)), Literal to]]"
  "locationBody (Act_reject status) tables hs = Inr ns \<Longrightarrow> ns = [Directive ''return'' [Number (Whole (int status))]]"
  "return_b k = Inr ns \<Longrightarrow> ns = [Directive ''return'' [Number (Whole (int k))]]"
  by (auto simp: locationBody_def return_b_def dir_b_Inr num_b_Inr lit_b_Inr errE)

lemma scheme_part_url: "scheme_part (upstream_url t pool @ w) @ upstream_part (upstream_url t pool @ w) = upstream_url t pool"
  if "w = [] \<or> hd w = CHR ''/''"
  using upstream_part_url [OF that] by (simp add: scheme_part_def upstream_url_def)

lemma contents_proxy:
  assumes "w = [] \<or> hd w = CHR ''/''" "list_all quiet rest" "list_all (\<lambda>n. pass_entry n = None) before"
  shows "contents path (before @ Directive ''proxy_pass'' [Literal (upstream_url t pool @ w)] # rest) =
    Some (Pass_to (upstream_url t pool) (if w \<noteq> [] then Some w else rewritten path before))"
proof -
  have b: "List.map_filter pass_entry before = []"
    using assms(3) by (induction before) (simp_all add: List.map_filter_simps)
  have app: "List.map_filter f (xs @ ys) = List.map_filter f xs @ List.map_filter f ys" for f :: "conf_node \<Rightarrow> 'z option" and xs ys
    by (simp add: List.map_filter_def)
  have u: "scheme_part (upstream_url t pool @ w) @ upstream_part (upstream_url t pool @ w) = upstream_url t pool"
    by (rule scheme_part_url [OF assms(1)])
  have "passed (before @ Directive ''proxy_pass'' [Literal (upstream_url t pool @ w)] # rest) = Some (upstream_url t pool @ w)"
    by (simp add: passed_def app b List.map_filter_simps pass_entry_def first_of_def)
  moreover have "List.map_filter (rewrite_entry path) rest = []"
    using assms(2) by (induction rest) (simp_all add: List.map_filter_simps quiet_entries)
  then have "rewritten path (before @ Directive ''proxy_pass'' [Literal (upstream_url t pool @ w)] # rest) = rewritten path before"
    by (simp add: rewritten_def app List.map_filter_simps rewrite_entry_def)
  ultimately show ?thesis unfolding contents_def by (simp only: option.case u Let_def) simp
qed

section \<open>Names of rule locations\<close>

lemma varName_ends: "\<exists>x. varName pre key suff = x @ suff"
  by (simp add: varName_def Let_def)

lemma rule_location_inj: "rule_location r path i = rule_location r path j \<longleftrightarrow> i = j"
proof
  have num: "rev (takeWhile is_digit (rev (rule_location r path n))) = show_nat (n + 1)" for n
  proof -
    obtain x where "varName ''bary_rule_'' (hro_key r) (''_'' @ path_index r path @ ''_'' @ show_nat (n + 1)) =
        x @ ''_'' @ path_index r path @ ''_'' @ show_nat (n + 1)"
      using varName_ends by blast
    then have "rev (rule_location r path n) = rev (show_nat (n + 1)) @ CHR ''_'' # rev (CHR ''@'' # x @ ''_'' @ path_index r path)"
      by (simp add: rule_location_def)
    moreover have "takeWhile is_digit (rev (show_nat (n + 1)) @ CHR ''_'' # t) = rev (show_nat (n + 1))" for t
      using show_nat_digits [of "n + 1"] by (auto simp: takeWhile_append list_all_iff is_digit_def)
    ultimately show ?thesis by simp
  qed
  assume "rule_location r path i = rule_location r path j"
  then have "show_nat (i + 1) = show_nat (j + 1)" using num by metis
  then have "dec_val (show_nat (i + 1)) = dec_val (show_nat (j + 1))" by (rule arg_cong)
  then show "i = j" by (simp add: dec_val_show_nat)
qed simp

section \<open>One rule\<close>

definition leaves :: "pool_tables \<Rightarrow> http_source_rule \<Rightarrow> bool" where
  "leaves tables rule \<longleftrightarrow> (case ru_action rule of Act_proxy p \<Rightarrow> pa_pool p \<in> set (pt_served tables) | _ \<Rightarrow> False)"

definition rule_code :: "nat \<Rightarrow> conf_value" where
  "rule_code i = Number (Whole (int (RULE_CODE_BASE + i)))"

definition rule_return :: "pool_tables \<Rightarrow> nat \<Rightarrow> http_source_rule \<Rightarrow> conf_value list" where
  "rule_return tables i rule = (case ru_action rule of
       Act_proxy p \<Rightarrow> if pa_pool p \<in> set (pt_served tables) then [rule_code i] else [Number (Whole 503)]
     | Act_redirect to status \<Rightarrow> [Number (Whole (int status)), Literal to]
     | Act_reject status \<Rightarrow> [Number (Whole (int status))])"

definition rule_head :: "http_route \<Rightarrow> string \<Rightarrow> pool_tables \<Rightarrow> nat \<Rightarrow> http_source_rule \<Rightarrow> conf_node list" where
  "rule_head r path tables i rule =
     (if leaves tables rule then [Directive ''error_page'' [rule_code i, Literal ''='', Literal (rule_location r path i)]] else []) @
     [Block ''if'' (condition_of (routeRuleVar (hro_key r) i)) [Directive ''return'' (rule_return tables i rule)]]"

definition rewrites_to_path :: "http_action \<Rightarrow> bool" where
  "rewrites_to_path a \<longleftrightarrow> (case a of Act_proxy p \<Rightarrow> pred_option (\<lambda>w. w \<noteq> [] \<and> hd w = CHR ''/'') (pa_rewritePrefix p) | _ \<Rightarrow> True)"

lemma if_b_Inr: "if_b v x = Inr ns \<Longrightarrow> \<exists>ch. x = Inr ch \<and> ns = [Block ''if'' (condition_of v) ch]"
  by (auto simp: if_b_def block_b_Inr lit_b_Inr condition_of_def errE)

lemma rewritten_single:
  "rewritten path [Directive ''rewrite'' [Regex (''^'' @ literalRegex path @ ''(.*)$''), Literal (w @ ''$1''), Literal ''break'']] = Some w"
  by (simp add: rewritten_def List.map_filter_simps rewrite_entry_def first_of_def)

lemma rule_nodes_shape:
  assumes n: "rule_nodes r path (\<lambda>a. locationBody a tables hs) (i, rule) = Inr (h, ns)"
    and w: "rewrites_to_path (ru_action rule)"
  shows "h = rule_head r path tables i rule \<and>
    (if leaves tables rule then
       \<exists>inner. ns = [Block ''location'' [Literal (rule_location r path i)] inner] \<and>
         contents path inner = Some (meaning tables (ru_action rule))
     else ns = [])"
proof (cases "ru_action rule")
  case (Act_proxy p)
  let ?q = "p\<lparr>pa_rewritePrefix := None\<rparr>"
  obtain inner where inner: "locationBody (Act_proxy ?q) tables hs = Inr inner"
    using n Act_proxy by (auto simp: rule_nodes_def errE)
  show ?thesis
  proof (cases "pa_pool p \<in> set (pt_served tables)")
    case False
    then have "inner = []" using inner by (simp add: locationBody_def none_b_def)
    then show ?thesis using n Act_proxy inner False
      by (auto simp: rule_nodes_def errE rule_head_def leaves_def rule_return_def dest!: if_b_Inr locationBody_return(3))
  next
    case True
    obtain rest where rest: "inner = Directive ''proxy_pass''
        [Literal (upstream_url (Option.bind (pt_pools tables (pa_pool p)) po_upstreamTls) (pa_pool p) @ [])] # rest" "list_all quiet rest"
      using locationBody_proxy [OF inner] True by auto
    obtain ret iff ep rw where
      parts: "return_b (RULE_CODE_BASE + i) = Inr ret" "if_b (routeRuleVar (hro_key r) i) (Inr ret) = Inr iff"
      "dir_b ''error_page'' [num_b (RULE_CODE_BASE + i), lit_b ''='', lit_b (rule_location r path i)] = Inr ep" "h = ep @ iff"
      "opt_b (pa_rewritePrefix p) (\<lambda>rewritePrefix. dir_b ''rewrite''
               [regex_b (''^'' @ literalRegex path @ ''(.*)$''), lit_b (rewritePrefix @ ''$1''), lit_b ''break'']) = Inr rw"
      "block_b ''location'' [lit_b (rule_location r path i)] (Inr (rw @ inner)) = Inr ns"
    proof -
      have ne: "inner \<noteq> []" using rest(1) by simp
      show ?thesis using n Act_proxy inner ne that
        by (cases "return_b (RULE_CODE_BASE + i)") (auto simp: rule_nodes_def cat_b_simps errE if_b_def block_b_Inr)
    qed
    have hd: "h = rule_head r path tables i rule"
      using parts(1-4) True Act_proxy
      by (auto simp: rule_head_def leaves_def rule_return_def rule_code_def dir_b_Inr conf_built_Inr num_def lit_def errE split: if_splits
          dest!: if_b_Inr locationBody_return(3))
    have rw: "(case pa_rewritePrefix p of None \<Rightarrow> rw = []
      | Some w \<Rightarrow> rw = [Directive ''rewrite'' [Regex (''^'' @ literalRegex path @ ''(.*)$''), Literal (w @ ''$1''), Literal ''break'']])"
      using parts(5) by (auto simp: opt_b_def none_b_def dir_b_Inr conf_built_Inr lit_def regex_def errE split: option.splits if_splits)
    have "list_all (\<lambda>n. pass_entry n = None) rw" "rewritten path rw = pa_rewritePrefix p"
      using rw rewritten_single by (auto simp: pass_entry_def rewritten_def List.map_filter_simps first_of_def split: option.splits)
    then have "contents path (rw @ inner) = Some (meaning tables (ru_action rule))"
      using contents_proxy [of "[]" rest rw path] rest True Act_proxy by (simp add: meaning_def)
    then show ?thesis using hd parts(6) True Act_proxy by (auto simp: leaves_def block_b_Inr lit_b_Inr errE)
  qed
next
  case (Act_redirect to status)
  then show ?thesis using n
    by (auto simp: rule_nodes_def errE rule_head_def leaves_def rule_return_def if_b_def block_b_Inr condition_of_def lit_b_Inr
        dest!: locationBody_return(1))
next
  case (Act_reject status)
  then show ?thesis using n
    by (auto simp: rule_nodes_def errE rule_head_def leaves_def rule_return_def if_b_def block_b_Inr condition_of_def lit_b_Inr
        dest!: locationBody_return(2))
qed

section \<open>All rules\<close>

lemma map_filter_append: "List.map_filter f (xs @ ys) = List.map_filter f xs @ List.map_filter f ys"
  by (simp add: List.map_filter_def)

lemma rule_code_inj [simp]: "rule_code i = rule_code j \<longleftrightarrow> i = j"
  by (simp add: rule_code_def)

lemma tests_condition [simp]: "tests val (condition_of v) = val v"
  by (simp add: tests_def condition_of_def butlast_append)

lemma rule_head_returned:
  "returned val (rule_head r path tables i rule @ ns) =
     (if val (routeRuleVar (hro_key r) i) then Some (rule_return tables i rule) else returned val ns)"
  by (simp add: rule_head_def)

lemma rule_head_error:
  "error_target (rule_head r path tables i rule @ ns) c =
     (if leaves tables rule \<and> c = rule_code i then Some (rule_location r path i) else error_target ns c)"
  by (simp add: rule_head_def error_target_def List.map_filter_simps error_entry_def condition_of_def)

lemma rule_head_contents:
  "List.map_filter pass_entry (rule_head r path tables i rule) = []"
  "List.map_filter (rewrite_entry path') (rule_head r path tables i rule) = []"
  by (simp_all add: rule_head_def List.map_filter_simps pass_entry_def rewrite_entry_def rule_code_def)

text \<open>The heads of the rules from number \<open>k\<close> on, and their named locations.\<close>

definition rule_heads :: "http_route \<Rightarrow> string \<Rightarrow> pool_tables \<Rightarrow> nat \<Rightarrow> http_source_rule list \<Rightarrow> conf_node list" where
  "rule_heads r path tables k rules = concat (map (\<lambda>(i, rule). rule_head r path tables i rule) (enumerate k rules))"

lemma rule_heads_simps:
  "rule_heads r path tables k [] = []"
  "rule_heads r path tables k (rule # rules) = rule_head r path tables k rule @ rule_heads r path tables (Suc k) rules"
  by (simp_all add: rule_heads_def)

lemma heads_returned:
  "returned val (rule_heads r path tables k rules @ ns) =
     (case find (\<lambda>(i, rule). val (routeRuleVar (hro_key r) i)) (enumerate k rules) of
        None \<Rightarrow> returned val ns
      | Some (i, rule) \<Rightarrow> Some (rule_return tables i rule))"
  by (induction rules arbitrary: k) (simp_all add: rule_heads_simps rule_head_returned)

lemma heads_error:
  "error_target (rule_heads r path tables k rules @ ns) (rule_code i) =
     (if k \<le> i \<and> i < k + length rules \<and> leaves tables (rules ! (i - k)) then Some (rule_location r path i)
      else error_target ns (rule_code i))"
proof (induction rules arbitrary: k)
  case (Cons rule rules)
  consider "i < k" | "i = k" | "k < i" by linarith
  then show ?case
  proof cases
    case 3
    then have "(rule # rules) ! (i - k) = rules ! (i - Suc k)" by (simp add: nth_Cons')
    then show ?thesis using Cons [of "Suc k"] 3 by (auto simp: rule_heads_simps rule_head_error)
  qed (use Cons [of "Suc k"] in \<open>auto simp: rule_heads_simps rule_head_error\<close>)
qed (auto simp: rule_heads_simps)

lemma heads_error_other:
  "(\<And>i. c \<noteq> rule_code i) \<Longrightarrow> error_target (rule_heads r path tables k rules @ ns) c = error_target ns c"
  by (induction rules arbitrary: k) (simp_all add: rule_heads_simps rule_head_error)

lemma heads_contents: "contents path (rule_heads r path tables k rules @ ns) = contents path ns"
proof -
  have "List.map_filter pass_entry (rule_heads r path tables k rules @ ns) = List.map_filter pass_entry ns"
    "List.map_filter (rewrite_entry path) (rule_heads r path tables k rules @ ns) = List.map_filter (rewrite_entry path) ns"
    by (induction rules arbitrary: k)
      (simp_all add: rule_heads_simps rule_head_contents map_filter_append)
  then have p: "passed (rule_heads r path tables k rules @ ns) = passed ns"
    and r: "rewritten path (rule_heads r path tables k rules @ ns) = rewritten path ns"
    by (simp_all only: passed_def rewritten_def)
  show ?thesis unfolding contents_def p r by (rule refl)
qed

lemma rules_shape:
  assumes "mapE (rule_nodes r path (\<lambda>a. locationBody a tables hs)) (enumerate k rules) = Inr ps"
    and "\<And>rule. rule \<in> set rules \<Longrightarrow> rewrites_to_path (ru_action rule)"
  shows "concat (map fst ps) = rule_heads r path tables k rules \<and>
    (\<forall>i. k \<le> i \<and> i < k + length rules \<and> leaves tables (rules ! (i - k)) \<longrightarrow>
      (\<exists>inner. location_named (rule_location r path i) (concat (map snd ps)) = Some inner \<and>
        contents path inner = Some (meaning tables (ru_action (rules ! (i - k))))))"
  using assms
proof (induction rules arbitrary: k ps)
  case (Cons rule rules)
  obtain h ns qs where q: "rule_nodes r path (\<lambda>a. locationBody a tables hs) (k, rule) = Inr (h, ns)"
    "mapE (rule_nodes r path (\<lambda>a. locationBody a tables hs)) (enumerate (Suc k) rules) = Inr qs" "ps = (h, ns) # qs"
    using Cons.prems(1) by (auto simp: errE)
  have IH: "concat (map fst qs) = rule_heads r path tables (Suc k) rules \<and>
    (\<forall>i. Suc k \<le> i \<and> i < Suc k + length rules \<and> leaves tables (rules ! (i - Suc k)) \<longrightarrow>
      (\<exists>inner. location_named (rule_location r path i) (concat (map snd qs)) = Some inner \<and>
        contents path inner = Some (meaning tables (ru_action (rules ! (i - Suc k))))))"
    using Cons.prems(2) by (intro Cons.IH [OF q(2)]) simp
  note sh = rule_nodes_shape [OF q(1) Cons.prems(2) [of rule]]
  have one: "location_named t (ns @ ms) = location_named t ms" if "t \<noteq> rule_location r path k" for t ms
  proof (cases "leaves tables rule")
    case True
    then obtain inner where "ns = [Block ''location'' [Literal (rule_location r path k)] inner]" using sh by auto
    then show ?thesis using that by (simp add: location_named_def List.map_filter_simps location_entry_def)
  qed (use sh in simp)
  show ?case
  proof (intro conjI allI impI)
    show "concat (map fst ps) = rule_heads r path tables k (rule # rules)"
      using sh IH q(3) by (simp add: rule_heads_simps)
    fix i assume i: "k \<le> i \<and> i < k + length (rule # rules) \<and> leaves tables ((rule # rules) ! (i - k))"
    show "\<exists>inner. location_named (rule_location r path i) (concat (map snd ps)) = Some inner \<and>
        contents path inner = Some (meaning tables (ru_action ((rule # rules) ! (i - k))))"
    proof (cases "i = k")
      case True
      then show ?thesis using sh i by (auto simp: q(3) location_named_def List.map_filter_simps location_entry_def)
    next
      case False
      then have e: "(rule # rules) ! (i - k) = rules ! (i - Suc k)" using i by (simp add: nth_Cons')
      have "Suc k \<le> i \<and> i < Suc k + length rules \<and> leaves tables (rules ! (i - Suc k))"
        using i False e by auto
      then obtain inner where "location_named (rule_location r path i) (concat (map snd qs)) = Some inner"
        "contents path inner = Some (meaning tables (ru_action (rules ! (i - Suc k))))"
        using IH by blast
      then show ?thesis using one [of "rule_location r path i" "concat (map snd qs)"] False
        by (auto simp: q(3) e rule_location_inj)
    qed
  qed
qed (auto simp: rule_heads_simps)

section \<open>The first rule decides\<close>

lemma statuses_below: "st \<in> set REDIRECT_STATUSES \<or> st \<in> set REJECT_STATUSES \<Longrightarrow> st < RULE_CODE_BASE"
proof -
  have "list_all (\<lambda>st. st < RULE_CODE_BASE) (REDIRECT_STATUSES @ REJECT_STATUSES)" by code_simp
  then show "st \<in> set REDIRECT_STATUSES \<or> st \<in> set REJECT_STATUSES \<Longrightarrow> st < RULE_CODE_BASE" by (auto simp: list_all_iff)
qed

lemma status_no_rule: "st < RULE_CODE_BASE \<Longrightarrow> Number (Whole (int st)) \<noteq> rule_code i"
  by (simp add: rule_code_def)

lemma ok_rewrites: "ok_http_action a \<Longrightarrow> rewrites_to_path a"
proof (cases a)
  case (Act_proxy p)
  moreover assume "ok_http_action a"
  ultimately show ?thesis
    by (cases "pa_rewritePrefix p"; cases "the (pa_rewritePrefix p)") (auto simp: rewrites_to_path_def rewrite_prefix_ok_def)
qed (simp_all add: rewrites_to_path_def)

text \<open>What stays of the route's own action below the rules.\<close>

lemma own_answer:
  assumes own: "locationBody a tables hs = Inr body" and ok: "ok_http_action a"
    and rest: "(if body \<noteq> [] then Inr body else return_b 503) = Inr rest"
  shows "(\<exists>st more. returned val rest = Some (Number (Whole (int st)) # more) \<and> st < RULE_CODE_BASE
      \<and> meaning tables a = Reply (Number (Whole (int st)) # more)) \<or>
    (returned val rest = None \<and> contents path rest = Some (meaning tables a))"
    and "error_target rest c = None"
proof -
  have "((\<exists>st xs. returned val rest = Some (Number (Whole (int st)) # xs) \<and> st < RULE_CODE_BASE
      \<and> meaning tables a = Reply (Number (Whole (int st)) # xs)) \<or>
    (returned val rest = None \<and> contents path rest = Some (meaning tables a))) \<and> error_target rest c = None"
  proof (cases a)
    case (Act_proxy p)
    show ?thesis
    proof (cases "pa_pool p \<in> set (pt_served tables)")
      case False
      then have "rest = [Directive ''return'' [Number (Whole (int 503))]]"
        using own rest Act_proxy by (auto simp: locationBody_def none_b_def dest!: locationBody_return(3))
      then show ?thesis using False Act_proxy
        by (auto simp: meaning_def error_target_def List.map_filter_simps error_entry_def RULE_CODE_BASE_def intro!: exI [of _ 503])
    next
      case True
      let ?w = "case pa_rewritePrefix p of None \<Rightarrow> [] | Some w \<Rightarrow> w"
      obtain qs where q: "body = Directive ''proxy_pass''
          [Literal (upstream_url (Option.bind (pt_pools tables (pa_pool p)) po_upstreamTls) (pa_pool p) @ ?w)] # qs" "list_all quiet qs"
        using locationBody_proxy own Act_proxy True by blast
      have w: "?w = [] \<or> hd ?w = CHR ''/''" "pa_rewritePrefix p \<noteq> Some []"
        using ok_rewrites [OF ok] Act_proxy by (auto simp: rewrites_to_path_def split: option.splits)
      have r: "rest = body" using rest q(1) by simp
      have "contents path rest = Some (meaning tables a)"
        using contents_proxy [OF w(1) q(2), of "[]" path] w(2) r q(1) True Act_proxy
        by (auto simp: meaning_def rewritten_def List.map_filter_simps first_of_def split: option.splits)
      moreover have "returned val rest = None \<and> error_target rest c = None"
        using quiet_silent(1,2) [OF q(2)] by (simp add: r q(1) error_target_def List.map_filter_simps error_entry_def)
      ultimately show ?thesis by simp
    qed
  next
    case (Act_redirect to st)
    then have r: "rest = [Directive ''return'' [Number (Whole (int st)), Literal to]]"
      using own rest locationBody_return(1) by fastforce
    show ?thesis using ok Act_redirect statuses_below [of st]
      by (auto simp: r meaning_def error_target_def List.map_filter_simps error_entry_def intro!: exI [of _ st])
  next
    case (Act_reject st)
    then have r: "rest = [Directive ''return'' [Number (Whole (int st))]]"
      using own rest locationBody_return(2) by fastforce
    show ?thesis using ok Act_reject statuses_below [of st]
      by (auto simp: r meaning_def error_target_def List.map_filter_simps error_entry_def intro!: exI [of _ st])
  qed
  then show "(\<exists>st more. returned val rest = Some (Number (Whole (int st)) # more) \<and> st < RULE_CODE_BASE
      \<and> meaning tables a = Reply (Number (Whole (int st)) # more)) \<or>
    (returned val rest = None \<and> contents path rest = Some (meaning tables a))" "error_target rest c = None"
    by blast+
qed

lemma find_enumerate: "find q (enumerate 0 xs) = Some (i, x) \<Longrightarrow> i < length xs \<and> x = xs ! i"
  by (auto simp: find_Some_iff nth_enumerate_eq)

text \<open>C14: A location with source rules answers as the action of the first rule whose variable is set, and as the
  route's own action when there is none: with its redirect or status, or by passing the request to its
  pool with the same replacement of the path, and with 503 when the pool has no backend.\<close>

theorem first_rule_decides:
  assumes "ok_http_route (re_route e)" "hro_sourceRules (re_route e) \<noteq> None"
    and "entry_location l tables e = Inr (Block ''location'' args body # named)"
  shows "respond val (re_path e) body named = Some (meaning tables (chosen_action val (re_route e)))"
proof -
  let ?r = "re_route e" and ?path = "re_path e"
  obtain rules where rules: "hro_sourceRules ?r = Some rules" using assms(2) by auto
  obtain own body' named' where own: "locationBody (hro_action ?r) tables (request_headers_of l) = Inr own"
    and ws: "withSourceRules ?r ?path own (\<lambda>a. locationBody a tables (request_headers_of l)) = Inr (body', named')"
    and loc: "(if body' = [] then none_b else bindE (location_b ?path (Inr body')) (\<lambda>ns. Inr (ns @ named'))) =
      Inr (Block ''location'' args body # named)"
    using assms(3) by (auto simp: entry_location_def Let_def errE)
  have bn: "body' = body" "named' = named"
    using loc by (auto simp: none_b_def location_b_def block_b_Inr errE split: if_splits)
  obtain ps rest where ps: "mapE (rule_nodes ?r ?path (\<lambda>a. locationBody a tables (request_headers_of l))) (enumerate 0 rules) = Inr ps"
    and rest: "(if own \<noteq> [] then Inr own else return_b 503) = Inr rest"
    and parts: "body = concat (map fst ps) @ rest" "named = concat (map snd ps)"
    using ws unfolding bn withSourceRules_def rules option.case by (auto simp: errE)
  have acts: "ok_http_action (ru_action rule)" if "rule \<in> set rules" for rule
    using assms(1) rules that by (auto simp: ok_http_route_def ok_source_rules_def ok_source_rule_def list_all_iff)
  have own_ok: "ok_http_action (hro_action ?r)" using assms(1) by (simp add: ok_http_route_def)
  have b: "body = rule_heads ?r ?path tables 0 rules @ rest"
    using rules_shape [OF ps] acts ok_rewrites parts(1) by blast
  have cont: "contents ?path body = contents ?path rest" by (simp add: b heads_contents)
  have other: "error_target body (Number (Whole (int st))) = None" if "st < RULE_CODE_BASE" for st
    using own_answer(2) [OF own own_ok rest] status_no_rule [OF that] by (simp add: b heads_error_other)
  show ?thesis
  proof (cases "find (\<lambda>(i, rule). val (routeRuleVar (hro_key ?r) i)) (enumerate 0 rules)")
    case None
    then have ret: "returned val body = returned val rest" by (simp add: b heads_returned)
    have act: "chosen_action val ?r = hro_action ?r" using None rules by (simp add: chosen_action_def list_of_option_def)
    from own_answer(1) [OF own own_ok rest, of val ?path] show ?thesis
      by (auto simp: respond_def ret act cont other)
  next
    case (Some x)
    obtain i rule where ir: "x = (i, rule)" by fastforce
    have i: "i < length rules" "rule = rules ! i" using find_enumerate [OF Some [unfolded ir]] by simp_all
    have act: "chosen_action val ?r = ru_action rule" using Some rules ir by (simp add: chosen_action_def list_of_option_def)
    have ret: "returned val body = Some (rule_return tables i rule)" using Some ir by (simp add: b heads_returned)
    show ?thesis
    proof (cases "leaves tables rule")
      case True
      then have "error_target body (rule_code i) = Some (rule_location ?r ?path i)"
        using i by (simp add: b heads_error)
      moreover have "\<exists>inner. location_named (rule_location ?r ?path i) named = Some inner \<and>
          contents ?path inner = Some (meaning tables (ru_action rule))"
        using rules_shape [OF ps] acts ok_rewrites parts(2) i True by auto
      ultimately show ?thesis
        using True by (auto simp: respond_def ret act rule_return_def leaves_def split: http_action.splits)
    next
      case False
      have st: "\<exists>st xs. rule_return tables i rule = Number (Whole (int st)) # xs \<and> st < RULE_CODE_BASE
          \<and> meaning tables (ru_action rule) = Reply (rule_return tables i rule)"
        using False acts [of rule] i statuses_below
        by (cases "ru_action rule") (auto simp: rule_return_def leaves_def meaning_def RULE_CODE_BASE_def intro!: exI [of _ 503])
      then show ?thesis by (auto simp: respond_def ret act other)
    qed
  qed
qed

section \<open>A route with rules\<close>

definition ruled_route :: http_route where
  "ruled_route = \<lparr>hro_key = ''r'', hro_listener = ''a'', hro_hosts = [''a.example.com''], hro_priority = 1,
     hro_pathPrefix = Some ''/x'', hro_pathPrefixes = None,
     hro_action = Act_proxy \<lparr>pa_pool = ''p'', pa_websocket = False, pa_requestHeaders = None, pa_rewritePrefix = None\<rparr>,
     hro_sourceRules = Some [
       \<lparr>ru_from = [''10.0.0.0/8''], ru_action = Act_reject 403, ru_address = None\<rparr>,
       \<lparr>ru_from = [''192.168.0.0/16''],
        ru_action = Act_proxy \<lparr>pa_pool = ''q'', pa_websocket = False, pa_requestHeaders = None, pa_rewritePrefix = Some ''/y''\<rparr>,
        ru_address = None\<rparr>]\<rparr>"

definition ruled_entry :: route_entry where
  "ruled_entry = \<lparr>re_route = ruled_route, re_path = ''/x'', re_key = ''r''\<rparr>"

definition two_pools :: pool_tables where
  "two_pools = \<lparr>pt_served = [''p'', ''q''], pt_pools = (\<lambda>_. None), pt_certs = (\<lambda>_. None)\<rparr>"

definition is_location :: "conf_node list built \<Rightarrow> bool" where
  "is_location x = (case x of Inr (Block name _ _ # _) \<Rightarrow> name = ''location'' | _ \<Rightarrow> False)"

lemma ruled_location: "is_location (entry_location (blank_listener ''a'' []) two_pools ruled_entry)"
  by code_simp

lemma ruled_ok: "ok_http_route ruled_route"
  apply (simp add: ok_http_route_def ruled_route_def ok_source_rules_def ok_source_rule_def ok_paths_def)
  apply code_simp
  done

text \<open>A request from the second range, and one from neither.\<close>

lemma first_rule_decides_witness:
  "\<exists>args body named. entry_location (blank_listener ''a'' []) two_pools ruled_entry = Inr (Block ''location'' args body # named)
    \<and> respond (\<lambda>v. v = ''bary_rsrc_r_2'') ''/x'' body named = Some (Pass_to ''http://pool_q'' (Some ''/y''))
    \<and> respond (\<lambda>_. False) ''/x'' body named = Some (Pass_to ''http://pool_p'' None)"
proof -
  obtain args body named where l:
    "entry_location (blank_listener ''a'' []) two_pools ruled_entry = Inr (Block ''location'' args body # named)"
    using ruled_location by (auto simp: is_location_def split: sum.splits list.splits conf_node.splits)
  have e: "ok_http_route (re_route ruled_entry)" "hro_sourceRules (re_route ruled_entry) \<noteq> None" "re_path ruled_entry = ''/x''"
    "re_route ruled_entry = ruled_route"
    using ruled_ok by (simp_all add: ruled_entry_def ruled_route_def)
  have m: "meaning two_pools (chosen_action (\<lambda>v. v = ''bary_rsrc_r_2'') ruled_route) = Pass_to ''http://pool_q'' (Some ''/y'')"
    "meaning two_pools (chosen_action (\<lambda>_. False) ruled_route) = Pass_to ''http://pool_p'' None"
    by code_simp+
  show ?thesis
    using l first_rule_decides [OF e(1,2) l, of "\<lambda>v. v = ''bary_rsrc_r_2''"] first_rule_decides [OF e(1,2) l, of "\<lambda>_. False"]
    by (simp add: e(3,4) m)
qed

section \<open>Paths a rule cannot rewrite\<close>

lemma literalRegex_keeps: "list_ex (\<lambda>c. js_space c \<or> punctuation c) path \<Longrightarrow>
    list_ex (\<lambda>c. js_space c \<or> punctuation c) (literalRegex path)"
  by (auto simp: literalRegex_def reEscape_def list_ex_iff)

text \<open>C26: A rule that passes requests on with another prefix cannot be rendered for a path with a semicolon, a
  quote or a number sign: rendering throws, although the validator takes such paths.\<close>

theorem rule_rewrite_throws:
  assumes "ru_action rule = Act_proxy p" "pa_rewritePrefix p = Some w" "pa_pool p \<in> set (pt_served tables)"
    and "list_ex (\<lambda>c. js_space c \<or> punctuation c) path"
  shows "\<exists>e. rule_nodes r path (\<lambda>a. locationBody a tables hs) (i, rule) = Inl e"
proof (cases "rule_nodes r path (\<lambda>a. locationBody a tables hs) (i, rule)")
  case (Inr out)
  have "regex_b (''^'' @ literalRegex path @ ''(.*)$'') = Inl (Conf_error Bad_regex)"
    using literalRegex_keeps [OF assms(4)] by (simp add: conf_built_def regex_def)
  then have d: "dir_b ''rewrite'' [regex_b (''^'' @ literalRegex path @ ''(.*)$''), lit_b (w @ ''$1''), lit_b ''break''] =
      Inl (Conf_error Bad_regex)"
    by (simp add: dir_b_def)
  obtain inner where inner: "locationBody (Act_proxy (p\<lparr>pa_rewritePrefix := None\<rparr>)) tables hs = Inr inner"
    using Inr assms(1) by (auto simp: rule_nodes_def errE)
  have "inner \<noteq> []" using locationBody_proxy [OF inner] assms(3) by auto
  then have False using Inr assms(1,2) inner d
    by (auto simp: rule_nodes_def errE block_b_Inr cat_b_simps opt_b_def)
  then show ?thesis by simp
qed simp

lemma rule_rewrite_throws_witness:
  "validatePathPrefix ''/a;b'' = Inr ''/a;b'' \<and>
   (\<exists>e. rule_nodes ruled_route ''/a;b'' (\<lambda>a. locationBody a two_pools None) (1, the (hro_sourceRules ruled_route) ! 1) = Inl e)"
proof
  show "validatePathPrefix ''/a;b'' = Inr ''/a;b''" by code_simp
  have p: "ru_action (the (hro_sourceRules ruled_route) ! 1) =
      Act_proxy \<lparr>pa_pool = ''q'', pa_websocket = False, pa_requestHeaders = None, pa_rewritePrefix = Some ''/y''\<rparr>"
    by (simp add: ruled_route_def)
  have "list_ex (\<lambda>c. js_space c \<or> punctuation c) ''/a;b''" by code_simp
  then show "\<exists>e. rule_nodes ruled_route ''/a;b'' (\<lambda>a. locationBody a two_pools None) (1, the (hro_sourceRules ruled_route) ! 1) = Inl e"
    by (intro rule_rewrite_throws [OF p]) (simp_all add: two_pools_def)
qed

end
