(* ===== verification/Render_Hosts.thy ===== *)
theory Render_Hosts
  imports Render
begin

text \<open>
  Hosts in the rendered servers: which certificate a host gets, and that the routes of a host are found by
  the letters of its name only.
\<close>

section \<open>The certificate of a host\<close>

lemma covers_self: "coversHost host host"
  by (simp add: coversHost_def)

definition wildcard_length :: "string \<Rightarrow> int" where
  "wildcard_length host = int (length (dropWhile (\<lambda>c. c \<noteq> CHR ''.'') host)) + 1"

lemma cover_length:
  assumes "coversHost pattern host" "pattern \<noteq> host"
  shows "int (length pattern) = wildcard_length host"
proof -
  obtain l suff where "pattern = ''*.'' @ suff" "host = l @ ''.'' @ suff" "CHR ''.'' \<notin> set l"
    using assms covers_iff [of pattern host] by auto
  then show ?thesis by (simp add: wildcard_length_def dropWhile_append)
qed

lemma coverScore_cases:
  "coverScore p host = (if p = host then MAX_SAFE_INTEGER else if coversHost p host then wildcard_length host else -1)"
  using cover_length by (auto simp: coverScore_def coversHost_def)

definition names_exactly :: "string \<Rightarrow> sni_certificate_binding \<Rightarrow> bool" where
  "names_exactly host b \<longleftrightarrow> host \<in> set (sb_hosts b)"

definition names_covering :: "string \<Rightarrow> sni_certificate_binding \<Rightarrow> bool" where
  "names_covering host b \<longleftrightarrow> list_ex (\<lambda>p. coversHost p host) (sb_hosts b)"

lemma foldl_max_le: "foldl max (a :: int) xs \<le> v \<longleftrightarrow> a \<le> v \<and> (\<forall>x \<in> set xs. x \<le> v)"
  by (induction xs arbitrary: a) auto

lemma foldl_max_ge: "v \<le> foldl max (a :: int) xs \<longleftrightarrow> v \<le> a \<or> (\<exists>x \<in> set xs. v \<le> x)"
  by (induction xs arbitrary: a) (auto simp: le_max_iff_disj)

lemma binding_score_cases:
  assumes "wildcard_length host < MAX_SAFE_INTEGER"
  shows "names_exactly host b \<Longrightarrow> binding_score host b = MAX_SAFE_INTEGER"
    and "\<not> names_exactly host b \<Longrightarrow> names_covering host b \<Longrightarrow> binding_score host b = wildcard_length host"
    and "\<not> names_covering host b \<Longrightarrow> binding_score host b \<le> -1"
proof -
  have w: "1 \<le> wildcard_length host" by (simp add: wildcard_length_def)
  show "binding_score host b = MAX_SAFE_INTEGER" if "names_exactly host b"
    using that assms w by (intro antisym)
      (auto simp: binding_score_def foldl_max_le foldl_max_ge coverScore_cases names_exactly_def MAX_SAFE_INTEGER_def)
  show "binding_score host b = wildcard_length host" if "\<not> names_exactly host b" "names_covering host b"
    using that assms w by (intro antisym)
      (auto simp: binding_score_def foldl_max_le foldl_max_ge coverScore_cases names_exactly_def names_covering_def list_ex_iff)
  show "binding_score host b \<le> -1" if "\<not> names_covering host b"
    using that covers_self [of host] by (auto simp: binding_score_def foldl_max_le coverScore_cases names_covering_def list_ex_iff)
qed

lemma exact_covers: "names_exactly host b \<Longrightarrow> names_covering host b"
  by (auto simp: names_exactly_def names_covering_def list_ex_iff coversHost_def)

text \<open>C24: The binding that decides the certificate of a host is the first that names the host itself, and the first
  that covers it by a wildcard only when none names it, whatever the order and number of the patterns in each;
  a host that no binding covers has none.\<close>

theorem best_binding_exact:
  assumes "length host < 2 ^ 52"
  shows "best_binding host bs =
    (case find (names_exactly host) bs of Some b \<Rightarrow> Some b | None \<Rightarrow> find (names_covering host) bs)"
proof -
  let ?step = "\<lambda>(best, bestScore) b. if bestScore < binding_score host b then (Some b, binding_score host b) else (best, bestScore)"
  have "length (dropWhile (\<lambda>c. c \<noteq> CHR ''.'') host) \<le> length host" by (rule length_dropWhile_le)
  then have w: "wildcard_length host < MAX_SAFE_INTEGER" "1 \<le> wildcard_length host"
    using assms by (simp_all add: wildcard_length_def MAX_SAFE_INTEGER_def)
  note sc = binding_score_cases [OF w(1)]
  have "foldl ?step (None, -1) bs =
      (case find (names_exactly host) bs of
         Some b \<Rightarrow> (Some b, MAX_SAFE_INTEGER)
       | None \<Rightarrow> (case find (names_covering host) bs of Some b \<Rightarrow> (Some b, wildcard_length host) | None \<Rightarrow> (None, -1)))"
  proof (induction bs rule: rev_induct)
    case (snoc b bs)
    have app: "find q (xs @ [b]) = (case find q xs of None \<Rightarrow> if q b then Some b else None | Some x \<Rightarrow> Some x)" for q xs
      by (induction xs) simp_all
    consider "names_exactly host b" | "\<not> names_exactly host b" "names_covering host b" | "\<not> names_covering host b" "\<not> names_exactly host b"
      using exact_covers by blast
    then show ?case
    proof cases
      case 1
      then show ?thesis using snoc w sc(1) exact_covers by (auto simp: app split: option.splits)
    next
      case 2
      then show ?thesis using snoc w sc(2) by (auto simp: app split: option.splits)
    next
      case 3
      then show ?thesis using snoc w sc(3) [OF 3(1)] by (auto simp: app split: option.splits)
    qed
  qed simp
  then show ?thesis by (simp add: best_binding_def split: option.split)
qed

definition sample_binding :: "string \<Rightarrow> string list \<Rightarrow> sni_certificate_binding" where
  "sample_binding cert hosts = \<lparr>sb_key = cert, sb_listener = ''l'', sb_hosts = hosts, sb_certificate = cert, sb_override = None\<rparr>"

lemma best_binding_exact_witness:
  "best_binding ''a.b'' [sample_binding ''x'' [''*.b''], sample_binding ''y'' [''c.b'', ''a.b'']]
    = Some (sample_binding ''y'' [''c.b'', ''a.b''])"
proof -
  have "length ''a.b'' < 2 ^ 52" by simp
  from best_binding_exact [OF this] show ?thesis by (simp add: names_exactly_def sample_binding_def)
qed

section \<open>The routes of a host\<close>

lemma routes_by_host_literal:
  assumes "\<forall>r \<in> set routes. h \<notin> set (hro_hosts r)"
  shows "group_at (routes_by_host routes) h = []"
proof -
  have "group_at (foldl (\<lambda>d (h, r). dset h (group_at d h @ [r]) d) d xs) h = group_at d h"
    if "h \<notin> fst ` set xs" for d and xs :: "(string \<times> http_route) list"
    using that
  proof (induction xs arbitrary: d)
    case (Cons x xs)
    then show ?case by (cases x) (simp add: group_at_def update_conv')
  qed simp
  from this [of "concat (map (\<lambda>r. map (\<lambda>h. (h, r)) (hro_hosts r)) (byKey hro_key routes))" "[]"] assms
  show ?thesis by (force simp: routes_by_host_def byKey_def group_at_def list_of_option_def)
qed

text \<open>C25: Routes whose hosts are none of the listener's hosts letter by letter have no effect on the servers of the
  listener, as if they were not there; the validator compares hosts without regard to case, so such a route may
  be accepted.\<close>

theorem routes_matched_literally:
  assumes hosts: "l_hosts (hk_listener s) = Some hs" and none: "\<forall>h \<in> set hs. \<forall>r \<in> set routes. h \<notin> set (hro_hosts r)"
  shows "httpServerBlocks idna s routes tables tls acme alsoOn = httpServerBlocks idna s [] tables tls acme alsoOn"
proof -
  have g: "group_at (routes_by_host routes) h = group_at (routes_by_host []) h" if "h \<in> set hs" for h
    using none that routes_by_host_literal [of routes h] routes_by_host_literal [of "[]" h] by simp
  have l: "host_list (hk_listener s) d = sort (remdups hs)" for d by (simp add: host_list_def hosts)
  have p: "strict_plan_of idna (hk_listener s) (routes_by_host routes) = strict_plan_of idna (hk_listener s) (routes_by_host [])"
  proof -
    have "map (\<lambda>h. case parseHostPattern idna h of Inl _ \<Rightarrow> []
          | Inr p \<Rightarrow> [\<lparr>ph_key = h, ph_pattern = p, ph_priority = foldl max 0 (map hro_priority (group_at (routes_by_host routes) h))\<rparr>])
        (sort (remdups hs)) =
      map (\<lambda>h. case parseHostPattern idna h of Inl _ \<Rightarrow> []
          | Inr p \<Rightarrow> [\<lparr>ph_key = h, ph_pattern = p, ph_priority = foldl max 0 (map hro_priority (group_at (routes_by_host []) h))\<rparr>])
        (sort (remdups hs))"
      using g by (intro map_cong) (auto split: sum.split)
    then show ?thesis by (simp only: strict_plan_of_def l)
  qed
  have b: "host_block idna s tables tls acme alsoOn pl (routes_by_host routes) h =
      host_block idna s tables tls acme alsoOn pl (routes_by_host []) h" if "h \<in> set hs" for h pl
    unfolding host_block_def g [OF that] by (rule refl)
  have "mapE (host_block idna s tables tls acme alsoOn pl (routes_by_host routes)) xs =
      mapE (host_block idna s tables tls acme alsoOn pl (routes_by_host [])) xs"
    if "set xs \<subseteq> set hs" for xs pl
    using that by (induction xs) (simp_all add: b)
  then show ?thesis by (simp add: httpServerBlocks_def Let_def l p)
qed

text \<open>The sample of the validator: its route is for \<^verbatim>\<open>A.example.com\<close>, its listener for \<^verbatim>\<open>a.example.com\<close>.\<close>

lemma routes_matched_literally_witness:
  "validateModel no_idna sample_model plain_caps = [] \<and>
   httpServerBlocks no_idna \<lparr>hk_listener = blank_listener ''a'' [''a.example.com''], hk_redirect = None\<rparr>
       (m_httpRoutes sample_model)
       \<lparr>pt_served = [''web''], pt_pools = (\<lambda>_. None), pt_certs = (\<lambda>_. None)\<rparr> None False [] =
     httpServerBlocks no_idna \<lparr>hk_listener = blank_listener ''a'' [''a.example.com''], hk_redirect = None\<rparr> []
       \<lparr>pt_served = [''web''], pt_pools = (\<lambda>_. None), pt_certs = (\<lambda>_. None)\<rparr> None False []"
proof -
  have "l_hosts (hk_listener \<lparr>hk_listener = blank_listener ''a'' [''a.example.com''], hk_redirect = None\<rparr>) = Some [''a.example.com'']"
    "\<forall>h \<in> set [''a.example.com'']. \<forall>r \<in> set (m_httpRoutes sample_model). h \<notin> set (hro_hosts r)"
    by (simp_all add: blank_listener_def sample_model_def)
  from routes_matched_literally [OF this] show ?thesis using sample_valid by blast
qed

end
