(* ===== verification/Spec2Isabelle.thy ===== *)
theory Spec2Isabelle
  imports Driver Route_Order Membership Health Generations Leader Render_Result Render_Rules Render_Hosts
begin

text \<open>
  \<^bold>\<open>Barycenter\<close> is a load balancer control plane: operators edit a model of listeners, pools and
  routes; the control plane validates it, renders an nginx configuration and hands it, as an
  apply operation, to an agent on each data-plane node, which publishes the configuration,
  reloads nginx and records which generation really serves. This development models the parts
  of the program that decide, in Isabelle definitions translated from the TypeScript under
  \<^verbatim>\<open>src/src/\<close>, and proves what makes them correct.

  \<^bold>\<open>Theories and the code they model.\<close>
  \<^item> \<open>Prelude\<close>: the error monad of the models (a sum, \<open>Inl\<close> the error thrown), character
    classes, splitting and joining of texts, decimal numbers, insertion-ordered dictionaries.
  \<^item> \<open>Ip\<close>, \<open>Ip_Numbers\<close>, \<open>Url_Ipv6\<close>: \<^verbatim>\<open>validate/ip.ts\<close>, the recognizers of addresses and ranges, their
    reading as numbers and range inclusion; and the canonical text of an IPv6 address that the
    \<^verbatim>\<open>URL\<close> class gives, which \<^verbatim>\<open>normalizeBind\<close> relies on. A text is an address when its
    recognizer says so; its number is what \<open>ipBits\<close> reads; ranges cover by inclusion of sets.
  \<^item> \<open>Sockets\<close>: \<^verbatim>\<open>validate/sockets.ts\<close>, normalisation of a bind address and the overlap of socket
    reservations, with the report of all conflicts characterised exactly.
  \<^item> \<open>Bind_Transition\<close>: \<^verbatim>\<open>model/redirect.ts\<close> and \<^verbatim>\<open>validate/bind-transition.ts\<close>, the sockets a
    configuration really opens and the reloads the kernel would refuse.
  \<^item> \<open>Host_Names\<close>: \<^verbatim>\<open>validate/strings.ts\<close>, host names and patterns, header names and values, path
    prefixes and hash keys. What \<^verbatim>\<open>new URL\<close> does to a host is written out for ASCII names; the
    Unicode tables behind the rest are the parameter \<open>idna\<close>, of which only idempotence is used.
  \<^item> \<open>Route_Compile\<close>: \<^verbatim>\<open>route/compile.ts\<close>, the order of the routes, its warnings, and the plan that
    lowers competing hosts to ordered regular expressions. \<open>Route_Priority\<close> shows that the search of
    the plan finds connected components and that the plan respects the priorities, \<open>Route_Order\<close>
    that the compiled order is the engine's and that an order without warnings respects them too.
  \<^item> \<open>Data_Model\<close>: \<^verbatim>\<open>model/provisional.ts\<close>, the model operators edit, with the readers of its routes
    and the expansion of its address sets (\<^verbatim>\<open>model/address-sets.ts\<close>). \<open>Validate_Model\<close>:
    \<^verbatim>\<open>validate/model.ts\<close>, the validator over it, which calls the components above; \<open>Validate_Sound\<close> proves what an accepted model is worth.
  \<^item> \<open>Decode_Base\<close>, \<open>Decode_Parts\<close>, \<open>Decode_Http\<close>, \<open>Decode_Listener\<close>, \<open>Decode_Routes\<close>, \<open>Decode_Tls\<close>,
    \<open>Decode_Sets\<close>, \<open>Decode\<close>: \<^verbatim>\<open>model/decode.ts\<close>, from JSON values to models. A decoder gives the issues it
    adds and a value; \<open>exact\<close> says of a decoder, an encoding and a set of values that it accepts these
    values and no others and reads each back, and is proved part by part up to the model. What
    the \<^verbatim>\<open>URL\<close> class makes of a text is the parameter \<open>url_protocol\<close>.
  \<^item> \<open>Conf_Ast\<close>: \<^verbatim>\<open>conf/ast.ts\<close>, the configuration tree and its text, which a reader of the engine's
    quoting rules reads back.
  \<^item> \<open>Operation\<close>: \<^verbatim>\<open>dp/operation.ts\<close>, apply operations, coordinates, phases and the judgement of
    activation evidence.
  \<^item> \<open>Agent_State\<close>, \<open>Agent_Retention\<close>, \<open>Agent_Invariants\<close>, \<open>Agent_Ops\<close>: \<^verbatim>\<open>dp/agent.ts\<close>. The record
    \<open>agent_state\<close> has the fields of \<^verbatim>\<open>AgentState\<close>; each mutating method of \<^verbatim>\<open>DpAgent\<close> is the
    function it hands to \<^verbatim>\<open>serial\<close>, from a state to a result and a new state, or to the error
    it throws; \<open>transaction\<close> is what \<^verbatim>\<open>serial\<close> does around it (the initial state when the store is
    empty, the retention, the invariants against the state before).
  \<^item> \<open>Agent_Frame\<close>, \<open>Agent_Machine\<close>: what each operation leaves alone, and the agent as a machine
    whose steps are transactions; a history is a chain of steps, a reachable state ends one.
  \<^item> \<open>Agent_History\<close>, \<open>Agent_Planes\<close>, \<open>Agent_Protocol\<close>, \<open>Agent_Takeover\<close>: the properties of the agent over
    single steps and whole histories. \<open>Agent_Serial\<close>: the compare-and-set loop, as a locale
    \<open>durable_store\<close> of the interface \<^verbatim>\<open>DurableStore\<close> that \<^verbatim>\<open>MemoryStore\<close> is shown to implement.
    \<open>Agent_Samples\<close>: concrete runs to which the properties are applied.
  \<^item> \<open>Apply_Runner\<close>: \<^verbatim>\<open>dp/apply.ts\<close>, the state machine that drives one operation. Its monad threads
    the store and a world of any type; the effects of \<^verbatim>\<open>Effects\<close> are fields of a record of
    functions that may return, throw or exceed their budget, and \<open>env_turn\<close> is what everybody
    else does before each of its transactions. \<open>Apply_Frame\<close> shows what its transactions keep,
    \<open>Apply_Safety\<close> proves by Hoare triples that the reload signals are bounded and that a run that
    returns has ended and let go; \<open>Apply_Refines\<close> (the locale \<open>store_relation\<close>) that a run is a
    history of the agent; \<open>Apply_Samples\<close> applies them in a small world.

  \<^item> \<open>Driver\<close>: \<^verbatim>\<open>dp/driver.ts\<close>, the calls of the control plane on a node and the reconciliation of what
    is published and served with the last activation, with what stands behind its verdicts and what
    an abort leaves behind.
    \<open>Generations\<close>: \<^verbatim>\<open>dp/retention.ts\<close>, which generations are removed from the disk.
  \<^item> \<open>Membership\<close>: \<^verbatim>\<open>control/membership.ts\<close>, the slots of a balancer. \<open>Health\<close>: \<^verbatim>\<open>control/health.ts\<close>,
    probing, the transaction of one probe result and its event log. \<open>Leader\<close>: \<^verbatim>\<open>control/leader.ts\<close>,
    leader election as a machine whose steps are the answers of the lock, losses and releases.

  \<^item> \<open>Sha256\<close>, \<open>Render_Base\<close>, \<open>Render_Parts\<close>, \<open>Render_Lua\<close>, \<open>Render_Http\<close>, \<open>Render_Servers\<close>, \<open>Render\<close>:
    \<^verbatim>\<open>conf/render.ts\<close>, from a model to the configuration tree, its text and its digest. An expression
    of the renderer that builds nodes is an error or a list of nodes, evaluated in the order of the
    code; a lookup with \<^verbatim>\<open>!\<close> that finds nothing is the error \<open>Undefined_value\<close>. SHA-256 is defined.
    Bodies of Lua are kept without their comments. \<open>Render_Names\<close>: the names, sizes and times it writes.
    \<open>Render_Emits\<close>, \<open>Render_Sound\<close>, \<open>Render_Closed\<close>, \<open>Render_Planes\<close>, \<open>Render_Result\<close>: what every part of the renderer
    emits, that each plane declares all it refers to, and that the text reads back as the tree.
    \<open>Render_Rules\<close>: the answers of a location with source rules. \<open>Render_Hosts\<close>: certificates and routes of hosts.

  \<^bold>\<open>Conventions.\<close> A JavaScript string is a list of characters with codes below 256. Token and epoch
  strings are kept as strings and read with \<open>BigInt\<close>, whose failure on malformed text is an
  error value. Sequence numbers and counters are naturals. Dictionaries keep their insertion
  order. Error messages are dropped, their kinds and codes are kept. Asynchronous code is the
  sequence of its effects; where others may act in between, what they do is an argument.

  \<^bold>\<open>Bounds and fuel.\<close> The only loop that is not structural over its data is the retry loop of
  \<^verbatim>\<open>serial\<close>: it is structural over the number of retries left, and that number is the constant of
  the code, eight. The search of a component of competing hosts is a function with a termination
  proof, by the indices not met yet. The loop of the runner is structural over the turns left of its hard limit of 64,
  and its polling over the attempts of the policy. Every other recursion is over lists.

  \<^bold>\<open>Not modelled.\<close> The SQL stores, the HTTP API, accounts, ACME,
  notifications, engine probing, the command line and the graphical interface: these are text
  generation, input and output, or calls of a database or of cryptographic libraries. The
  loading of an agent's state from bytes and its read-only views are not modelled either.
\<close>

end
